(* ===== verification/Hellbox_Prelude.thy ===== *)
theory Hellbox_Prelude
  imports Main "HOL-Library.Sublist" "HOL-Library.Multiset" "HOL-Library.Char_ord"
    "HOL-Library.List_Lexorder" "HOL-Library.Word"
begin

text \<open>
  Shared vocabulary of the development: the part of Go's standard library that hellbox's own
  code calls (\<^verbatim>\<open>strings\<close>, \<^verbatim>\<open>strconv\<close>, the integer verbs of \<^verbatim>\<open>fmt\<close>), the wrap-around of
  Go's 64-bit \<^verbatim>\<open>int\<close>, the collections of rewrite rules the component theories add to, and the
  list and string lemmas that more than one of them needs.

  A Go string is a \<^typ>\<open>string\<close>, that is a list of bytes. The text hellbox handles (volume
  labels, MakeMKV's robot output, its own messages) is ASCII, and the case mapping and the
  white space below are those of ASCII: a byte of 128 or more is left alone, where Go would
  consult its Unicode tables.
\<close>

named_theorems row_simps \<open>effects of the store's statements on single rows\<close>
named_theorems db_frame \<open>what a store operation leaves alone\<close>
named_theorems status_simps \<open>effects of the drive status operations\<close>

section \<open>Bytes and letters\<close>

type_synonym byte = "8 word"

definition is_space :: "char \<Rightarrow> bool" where
  "is_space c \<longleftrightarrow> c \<in> {CHR 0x09, CHR 0x0A, CHR 0x0B, CHR 0x0C, CHR 0x0D, CHR '' ''}"

definition is_digit :: "char \<Rightarrow> bool" where
  "is_digit c \<longleftrightarrow> 48 \<le> (of_char c :: nat) \<and> (of_char c :: nat) \<le> 57"

definition is_upper :: "char \<Rightarrow> bool" where
  "is_upper c \<longleftrightarrow> 65 \<le> (of_char c :: nat) \<and> (of_char c :: nat) \<le> 90"

definition is_lower :: "char \<Rightarrow> bool" where
  "is_lower c \<longleftrightarrow> 97 \<le> (of_char c :: nat) \<and> (of_char c :: nat) \<le> 122"

definition lower_char :: "char \<Rightarrow> char" where
  "lower_char c = (if is_upper c then char_of (of_char c + 32 :: nat) else c)"

definition upper_char :: "char \<Rightarrow> char" where
  "upper_char c = (if is_lower c then char_of (of_char c - 32 :: nat) else c)"

definition ToLower :: "string \<Rightarrow> string" where
  "ToLower = map lower_char"

definition ToUpper :: "string \<Rightarrow> string" where
  "ToUpper = map upper_char"

lemma of_char_lower: "is_upper c \<Longrightarrow> (of_char (lower_char c) :: nat) = of_char c + 32"
  by (simp add: lower_char_def is_upper_def)

lemma lower_char_not_upper: "\<not> is_upper (lower_char c)"
proof (cases "is_upper c")
  case True
  then have "(of_char (lower_char c) :: nat) = of_char c + 32" by (rule of_char_lower)
  with True show ?thesis by (simp add: is_upper_def)
next
  case False
  then show ?thesis by (simp add: lower_char_def)
qed

lemma lower_char_idem [simp]: "lower_char (lower_char c) = lower_char c"
  using lower_char_not_upper [of c] by (subst lower_char_def) simp

lemma ToLower_idem [simp]: "ToLower (ToLower s) = ToLower s"
  by (simp add: ToLower_def)

lemma length_ToLower [simp]: "length (ToLower s) = length s"
  by (simp add: ToLower_def)

lemma ToLower_Nil_iff [simp]: "ToLower s = [] \<longleftrightarrow> s = []"
  by (simp add: ToLower_def)

section \<open>Trimming, searching, splitting, joining\<close>

definition trim_right_by :: "('a \<Rightarrow> bool) \<Rightarrow> 'a list \<Rightarrow> 'a list" where
  "trim_right_by p s = rev (dropWhile p (rev s))"

definition trim_by :: "('a \<Rightarrow> bool) \<Rightarrow> 'a list \<Rightarrow> 'a list" where
  "trim_by p s = trim_right_by p (dropWhile p s)"

definition TrimSpace :: "string \<Rightarrow> string" where
  "TrimSpace = trim_by is_space"

definition Trim :: "string \<Rightarrow> string \<Rightarrow> string" where
  "Trim s cutset = trim_by (\<lambda>c. c \<in> set cutset) s"

definition TrimRight :: "string \<Rightarrow> string \<Rightarrow> string" where
  "TrimRight s cutset = trim_right_by (\<lambda>c. c \<in> set cutset) s"

lemma trim_right_by_Nil [simp]: "trim_right_by p [] = []"
  by (simp add: trim_right_by_def)

lemma trim_by_Nil [simp]: "trim_by p [] = []"
  by (simp add: trim_by_def)

lemma prefix_trim_right_by: "prefix (trim_right_by p s) s"
proof -
  have "suffix (dropWhile p (rev s)) (rev s)" by (rule suffix_dropWhile)
  then show ?thesis by (simp add: trim_right_by_def suffix_to_prefix)
qed

lemma set_trim_right_by: "set (trim_right_by p s) \<subseteq> set s"
  by (rule set_mono_prefix [OF prefix_trim_right_by])

lemma set_trim_by: "set (trim_by p s) \<subseteq> set s"
  unfolding trim_by_def
  using set_trim_right_by [of p "dropWhile p s"] set_dropWhileD by fast

lemma set_TrimSpace: "set (TrimSpace s) \<subseteq> set s"
  by (simp add: TrimSpace_def set_trim_by)

lemma set_Trim: "set (Trim s cs) \<subseteq> set s"
  by (simp add: Trim_def set_trim_by)

lemma length_trim_by: "length (trim_by p s) \<le> length s"
proof -
  have "length (trim_by p s) \<le> length (dropWhile p s)"
    unfolding trim_by_def by (rule prefix_length_le [OF prefix_trim_right_by])
  also have "\<dots> \<le> length s" by (rule length_dropWhile_le)
  finally show ?thesis .
qed

lemma last_trim_right_by: "trim_right_by p s \<noteq> [] \<Longrightarrow> \<not> p (last (trim_right_by p s))"
  unfolding trim_right_by_def by (simp add: last_rev hd_dropWhile)

lemma hd_trim_by: "trim_by p s \<noteq> [] \<Longrightarrow> \<not> p (hd (trim_by p s))"
proof -
  assume ne: "trim_by p s \<noteq> []"
  let ?d = "dropWhile p s"
  obtain ys where ys: "?d = trim_by p s @ ys"
    using prefix_trim_right_by [of p ?d] by (auto simp: prefix_def trim_by_def)
  with ne have "?d \<noteq> []" and "hd ?d = hd (trim_by p s)" by auto
  then show ?thesis using hd_dropWhile [of p s] by simp
qed

lemma last_trim_by: "trim_by p s \<noteq> [] \<Longrightarrow> \<not> p (last (trim_by p s))"
  unfolding trim_by_def by (rule last_trim_right_by)

lemma trim_by_idle: "s = [] \<or> (\<not> p (hd s) \<and> \<not> p (last s)) \<Longrightarrow> trim_by p s = s"
proof -
  assume *: "s = [] \<or> (\<not> p (hd s) \<and> \<not> p (last s))"
  then have "dropWhile p s = s" by (auto simp: dropWhile_eq_self_iff)
  moreover have "dropWhile p (rev s) = rev s" using * by (auto simp: dropWhile_eq_self_iff hd_rev)
  ultimately show ?thesis by (simp add: trim_by_def trim_right_by_def)
qed

lemma trim_by_idem [simp]: "trim_by p (trim_by p s) = trim_by p s"
  by (rule trim_by_idle) (use hd_trim_by last_trim_by in blast)

lemma TrimSpace_idem [simp]: "TrimSpace (TrimSpace s) = TrimSpace s"
  by (simp add: TrimSpace_def)

lemma TrimSpace_Nil [simp]: "TrimSpace [] = []"
  by (simp add: TrimSpace_def)

fun contains :: "string \<Rightarrow> string \<Rightarrow> bool" where
  "contains [] sub = (sub = [])"
| "contains (c # s) sub = (prefix sub (c # s) \<or> contains s sub)"

lemma contains_iff: "contains s sub \<longleftrightarrow> (\<exists>pre post. s = pre @ sub @ post)"
proof (induction s)
  case Nil
  show ?case by auto
next
  case (Cons c s)
  have "(\<exists>pre post. c # s = pre @ sub @ post) \<longleftrightarrow>
      (\<exists>post. c # s = sub @ post) \<or> (\<exists>pre post. s = pre @ sub @ post)"
    by (metis append_Cons append_Nil list.inject neq_Nil_conv)
  with Cons.IH show ?case by (simp add: prefix_def)
qed

fun split_on :: "char \<Rightarrow> string \<Rightarrow> string list" where
  "split_on sep [] = [[]]"
| "split_on sep (c # s) =
     (if c = sep then [] # split_on sep s
      else (case split_on sep s of [] \<Rightarrow> [[c]] | w # ws \<Rightarrow> (c # w) # ws))"

fun join_with :: "string \<Rightarrow> string list \<Rightarrow> string" where
  "join_with sep [] = []"
| "join_with sep [w] = w"
| "join_with sep (w # v # ws) = w @ sep @ join_with sep (v # ws)"

lemma split_on_neq_Nil [simp]: "split_on sep s \<noteq> []"
  by (induction s) (auto split: list.splits)

lemma split_on_no_sep: "w \<in> set (split_on sep s) \<Longrightarrow> sep \<notin> set w"
  by (induction s arbitrary: w) (auto split: list.splits if_splits)

lemma join_split_on: "join_with [sep] (split_on sep s) = s"
proof (induction s)
  case Nil
  show ?case by simp
next
  case (Cons c s)
  obtain w ws where ws: "split_on sep s = w # ws"
    by (cases "split_on sep s") auto
  with Cons.IH show ?case by (cases ws) auto
qed

text \<open>\<^verbatim>\<open>strings.Fields\<close> and \<^verbatim>\<open>strings.FieldsFunc\<close>: the maximal runs that hold no separator.\<close>

function fields_by :: "(char \<Rightarrow> bool) \<Rightarrow> string \<Rightarrow> string list" where
  "fields_by p s =
     (case dropWhile p s of
        [] \<Rightarrow> []
      | c # t \<Rightarrow> (c # takeWhile (\<lambda>d. \<not> p d) t) # fields_by p (dropWhile (\<lambda>d. \<not> p d) t))"
  by pat_completeness auto
termination
proof (relation "measure (\<lambda>(p, s). length s)", simp)
  fix p and s :: string and c t
  assume "dropWhile p s = c # t"
  then have "Suc (length t) \<le> length s"
    using length_dropWhile_le [of p s] by simp
  then show "((p, dropWhile (\<lambda>d. \<not> p d) t), p, s) \<in> measure (\<lambda>(p, s). length s)"
    using length_dropWhile_le [of "\<lambda>d. \<not> p d" t] by simp
qed

declare fields_by.simps [simp del]

definition Fields :: "string \<Rightarrow> string list" where
  "Fields = fields_by is_space"

lemma fields_by_props: "w \<in> set (fields_by p s) \<Longrightarrow> w \<noteq> [] \<and> (\<forall>c \<in> set w. \<not> p c)"
proof (induction p s rule: fields_by.induct)
  case (1 p s)
  show ?case
  proof (cases "dropWhile p s")
    case Nil
    with "1.prems" show ?thesis by (simp add: fields_by.simps [of p s])
  next
    case (Cons c t)
    then have "\<not> p c" using hd_dropWhile [of p s] by simp
    consider "w = c # takeWhile (\<lambda>d. \<not> p d) t" | "w \<in> set (fields_by p (dropWhile (\<lambda>d. \<not> p d) t))"
      using "1.prems" Cons unfolding fields_by.simps [of p s] by auto
    then show ?thesis
    proof cases
      case 1
      with \<open>\<not> p c\<close> show ?thesis by (auto dest: set_takeWhileD)
    next
      case 2
      then show ?thesis using "1.IH" [OF Cons] by blast
    qed
  qed
qed

section \<open>Numbers as text\<close>

fun nat_str :: "nat \<Rightarrow> string" where
  "nat_str n = (if n < 10 then [char_of (48 + n)]
                else nat_str (n div 10) @ [char_of (48 + n mod 10)])"

declare nat_str.simps [simp del]

definition int_str :: "int \<Rightarrow> string" where
  "int_str i = (if i < 0 then CHR ''-'' # nat_str (nat (- i)) else nat_str (nat i))"

definition int_str02 :: "int \<Rightarrow> string" where
  "int_str02 i = (if 0 \<le> i \<and> i < 10 then CHR ''0'' # int_str i else int_str i)"

definition digit_value :: "char \<Rightarrow> nat" where
  "digit_value c = of_char c - 48"

definition digits_value :: "string \<Rightarrow> nat" where
  "digits_value s = foldl (\<lambda>a c. 10 * a + digit_value c) 0 s"

definition parse_digits :: "string \<Rightarrow> nat option" where
  "parse_digits s = (if s \<noteq> [] \<and> list_all is_digit s then Some (digits_value s) else None)"

text \<open>\<^verbatim>\<open>strconv.Atoi\<close> and \<^verbatim>\<open>strconv.ParseInt(s, 10, 64)\<close>: an optional sign, digits, and the range of
  an \<^verbatim>\<open>int64\<close>; \<^const>\<open>None\<close> is the error.\<close>

definition Atoi :: "string \<Rightarrow> int option" where
  "Atoi s =
     (case s of
        [] \<Rightarrow> None
      | c # cs \<Rightarrow>
          if c = CHR ''-'' then
            (case parse_digits cs of None \<Rightarrow> None
             | Some n \<Rightarrow> if n \<le> 2 ^ 63 then Some (- int n) else None)
          else
            (case parse_digits (if c = CHR ''+'' then cs else s) of None \<Rightarrow> None
             | Some n \<Rightarrow> if n < 2 ^ 63 then Some (int n) else None))"

definition wrap64 :: "int \<Rightarrow> int" where
  "wrap64 x = (x + 2 ^ 63) mod 2 ^ 64 - 2 ^ 63"

text \<open>Go's integer division and remainder truncate towards zero.\<close>

definition go_div :: "int \<Rightarrow> int \<Rightarrow> int" where
  "go_div a b = sgn a * sgn b * (\<bar>a\<bar> div \<bar>b\<bar>)"

definition go_mod :: "int \<Rightarrow> int \<Rightarrow> int" where
  "go_mod a b = a - b * go_div a b"

lemma go_div_nonneg: "0 \<le> a \<Longrightarrow> 0 < b \<Longrightarrow> go_div a b = a div b"
  by (cases "a = 0") (simp_all add: go_div_def)

lemma go_mod_nonneg: "0 \<le> a \<Longrightarrow> 0 < b \<Longrightarrow> go_mod a b = a mod b"
  by (simp add: go_mod_def go_div_nonneg minus_mult_div_eq_mod)

lemma wrap64_bounds: "- (2 ^ 63) \<le> wrap64 x \<and> wrap64 x < 2 ^ 63"
  by (simp add: wrap64_def)

lemma wrap64_idle: "- (2 ^ 63) \<le> x \<Longrightarrow> x < 2 ^ 63 \<Longrightarrow> wrap64 x = x"
  by (simp add: wrap64_def)

lemma nat_str_digits: "list_all is_digit (nat_str n)"
proof (induction n rule: nat_str.induct)
  case (1 n)
  have "n mod 10 < 10" by simp
  then have "is_digit (char_of (48 + n mod 10))"
    by (simp add: is_digit_def)
  moreover have "is_digit (char_of (48 + n))" if "n < 10"
    using that by (simp add: is_digit_def)
  ultimately show ?case using 1
    by (subst nat_str.simps) auto
qed

lemma nat_str_neq_Nil [simp]: "nat_str n \<noteq> []"
  by (subst nat_str.simps) simp

lemma digits_value_snoc: "digits_value (s @ [c]) = 10 * digits_value s + digit_value c"
  by (simp add: digits_value_def)

lemma digits_value_nat_str [simp]: "digits_value (nat_str n) = n"
proof (induction n rule: nat_str.induct)
  case (1 n)
  show ?case
  proof (cases "n < 10")
    case True
    then show ?thesis
      by (subst nat_str.simps) (simp add: digits_value_def digit_value_def)
  next
    case False
    have "n mod 10 < 10" by simp
    then have "digit_value (char_of (48 + n mod 10)) = n mod 10"
      by (simp add: digit_value_def)
    with 1 False show ?thesis
      by (subst nat_str.simps) (simp add: digits_value_snoc)
  qed
qed

lemma nat_str_inj [simp]: "nat_str m = nat_str n \<longleftrightarrow> m = n"
  by (metis digits_value_nat_str)

lemma parse_digits_nat_str [simp]: "parse_digits (nat_str n) = Some n"
  by (simp add: parse_digits_def nat_str_digits)

lemma digit_not_sign: "is_digit c \<Longrightarrow> c \<noteq> CHR ''-'' \<and> c \<noteq> CHR ''+'' \<and> c \<noteq> CHR '':''"
  by (auto simp: is_digit_def)

lemma nat_str_hd: "is_digit (hd (nat_str n))"
  using nat_str_digits [of n] by (cases "nat_str n") auto

lemma int_str_inj [simp]: "int_str i = int_str j \<longleftrightarrow> i = j"
proof -
  have "\<And>n s. nat_str n \<noteq> CHR ''-'' # s"
    using nat_str_hd digit_not_sign by (metis list.sel(1))
  then show ?thesis
    by (auto simp: int_str_def split: if_splits) metis
qed

lemma Atoi_int_str: "- (2 ^ 63) \<le> i \<Longrightarrow> i < 2 ^ 63 \<Longrightarrow> Atoi (int_str i) = Some i"
proof -
  assume lo: "- (2 ^ 63) \<le> i" and hi: "i < 2 ^ 63"
  show ?thesis
  proof (cases "i < 0")
    case True
    with lo show ?thesis by (simp add: Atoi_def int_str_def nat_le_iff)
  next
    case False
    obtain c cs where cs: "nat_str (nat i) = c # cs" by (cases "nat_str (nat i)") auto
    with nat_str_hd [of "nat i"] have "c \<noteq> CHR ''-''" and "c \<noteq> CHR ''+''"
      using digit_not_sign by auto
    moreover have "parse_digits (c # cs) = Some (nat i)" using cs parse_digits_nat_str by metis
    moreover have "nat i < 2 ^ 63" using hi False by (simp add: nat_less_iff)
    ultimately show ?thesis using False cs by (simp add: Atoi_def int_str_def)
  qed
qed

lemma Atoi_range: "Atoi s = Some i \<Longrightarrow> - (2 ^ 63) \<le> i \<and> i < 2 ^ 63"
  by (auto simp: Atoi_def split: list.splits option.splits if_splits)

lemma digits_sep: "list_all is_digit s \<Longrightarrow> \<not> is_digit c \<Longrightarrow> c \<notin> set s"
  by (auto simp: list_all_iff)

lemma int_str_sep: "\<not> is_digit c \<Longrightarrow> c \<noteq> CHR ''-'' \<Longrightarrow> c \<notin> set (int_str i)"
  using digits_sep [OF nat_str_digits] by (auto simp: int_str_def)

text \<open>Text up to a separator that does not occur in it can be read back.\<close>

lemma sep_inj:
  "c \<notin> set a \<Longrightarrow> c \<notin> set b \<Longrightarrow> a @ c # x = b @ c # y \<longleftrightarrow> a = b \<and> x = y"
proof (induction a arbitrary: b)
  case Nil
  then show ?case by (cases b) auto
next
  case (Cons d a)
  then show ?case by (cases b) auto
qed

lemma digits_value_zero [simp]: "digits_value (CHR ''0'' # s) = digits_value s"
  by (simp add: digits_value_def digit_value_def)

lemma split_on_sep_free: "sep \<notin> set w \<Longrightarrow> split_on sep w = [w]"
  by (induction w) auto

lemma split_on_append: "sep \<notin> set w \<Longrightarrow> split_on sep (w @ sep # s) = w # split_on sep s"
  by (induction w) auto

lemma split_join: "ws \<noteq> [] \<Longrightarrow> \<forall>w \<in> set ws. sep \<notin> set w \<Longrightarrow> split_on sep (join_with [sep] ws) = ws"
  by (induction "[sep]" ws rule: join_with.induct) (auto simp: split_on_sep_free split_on_append)

lemma length_filter_mono: "(\<And>x. p x \<Longrightarrow> q x) \<Longrightarrow> length (filter p xs) \<le> length (filter q xs)"
  by (induction xs) (auto simp: le_Suc_eq)

lemma set_fields_by: "w \<in> set (fields_by p s) \<Longrightarrow> set w \<subseteq> set s"
proof (induction p s arbitrary: w rule: fields_by.induct)
  case (1 p s)
  show ?case
  proof (cases "dropWhile p s")
    case Nil
    with "1.prems" show ?thesis by (simp add: fields_by.simps [of p s])
  next
    case (Cons c t)
    have sub: "set (c # t) \<subseteq> set s" using set_dropWhileD [of _ p s] by (auto simp: Cons)
    consider "w = c # takeWhile (\<lambda>d. \<not> p d) t" | "w \<in> set (fields_by p (dropWhile (\<lambda>d. \<not> p d) t))"
      using "1.prems" Cons unfolding fields_by.simps [of p s] by auto
    then show ?thesis
    proof cases
      case 1
      then show ?thesis using sub by (auto dest: set_takeWhileD)
    next
      case 2
      then have "set w \<subseteq> set (dropWhile (\<lambda>d. \<not> p d) t)" by (rule "1.IH" [OF Cons])
      then show ?thesis using sub by (auto dest: set_dropWhileD)
    qed
  qed
qed

lemma set_join_with: "set (join_with sep ws) \<subseteq> set sep \<union> \<Union> (set ` set ws)"
  by (induction sep ws rule: join_with.induct) auto

lemma lower_char_same: "\<not> is_lower c \<Longrightarrow> lower_char d = c \<Longrightarrow> d = c"
proof -
  assume "\<not> is_lower c" and "lower_char d = c"
  moreover have "is_lower (lower_char d)" if "is_upper d"
    using of_char_lower [OF that] that by (simp add: is_lower_def is_upper_def)
  ultimately show ?thesis by (cases "is_upper d") (auto simp: lower_char_def)
qed

lemma upper_char_same: "\<not> is_upper c \<Longrightarrow> upper_char d = c \<Longrightarrow> d = c"
proof -
  assume nc: "\<not> is_upper c" and eq: "upper_char d = c"
  have "is_upper (upper_char d)" if "is_lower d"
  proof -
    have "(of_char d :: nat) - 32 < 256" using that unfolding is_lower_def by linarith
    then have "(of_char (upper_char d) :: nat) = of_char d - 32" using that by (simp add: upper_char_def)
    with that show ?thesis by (auto simp: is_lower_def is_upper_def)
  qed
  with nc eq show ?thesis by (cases "is_lower d") (auto simp: upper_char_def)
qed

end
