(* ===== verification/Disc.thy ===== *)
theory Disc
  imports Hellbox_Prelude "HOL-Library.Product_Lexorder"
begin

text \<open>
  The description of a disc and its titles, as \<^verbatim>\<open>internal/disc/disc.go\<close> has it, the identity
  hellbox derives from it (fingerprint, rip directory name, title file name), and the grouping of
  failure messages of \<^verbatim>\<open>internal/disc/failure.go\<close>.

  The lemmas show that the fingerprint does not depend on the order of enumeration and that what
  is hashed determines the label and the runtimes, that a slug is a safe and stable path fragment,
  that title file names are distinct, and that benign log lines never influence a grouping. The
  hash itself is the parameter \<^verbatim>\<open>sha\<close>: SHA-256 rendered as hexadecimal.
\<close>

section \<open>Discs, titles, streams\<close>

datatype disc_type = TypeDVD | TypeBluRay | TypeUnknown

record stream =
  st_Index :: int
  st_Kind :: string
  st_Codec :: string
  st_Language :: string
  st_LangName :: string
  st_Channels :: int
  st_SampleRate :: string
  st_Resolution :: string
  st_AspectRatio :: string
  st_FrameRate :: string
  st_Bitrate :: string
  st_Flags :: string
  st_Name :: string
  st_Attrs :: "int \<rightharpoonup> string"

record title =
  ti_Index :: int
  ti_DurationSecs :: int
  ti_Chapters :: int
  ti_SizeBytes :: int
  ti_SourceFile :: string
  ti_SegmentsCount :: int
  ti_SegmentsMap :: string
  ti_Name :: string
  ti_OutputFile :: string
  ti_MakeMKVSuggestedName :: string
  ti_Streams :: "stream list"
  ti_Attrs :: "int \<rightharpoonup> string"

type_synonym date = "nat \<times> nat \<times> nat"

text \<open>\<^verbatim>\<open>ScannedAt\<close> is only ever formatted as a day, so it is a date, and \<^const>\<open>None\<close> is the zero time.\<close>

record disc =
  di_Fingerprint :: string
  di_VolumeLabel :: string
  di_DiscName :: string
  di_Type :: disc_type
  di_TotalBytes :: int
  di_ScannedAt :: "date option"
  di_DriveStableID :: string
  di_DriveModel :: string
  di_MakeMKVVersion :: string
  di_Titles :: "title list"

definition empty_stream :: stream where
  "empty_stream = \<lparr>st_Index = 0, st_Kind = [], st_Codec = [], st_Language = [], st_LangName = [],
     st_Channels = 0, st_SampleRate = [], st_Resolution = [], st_AspectRatio = [], st_FrameRate = [],
     st_Bitrate = [], st_Flags = [], st_Name = [], st_Attrs = Map.empty\<rparr>"

definition empty_title :: title where
  "empty_title = \<lparr>ti_Index = 0, ti_DurationSecs = 0, ti_Chapters = 0, ti_SizeBytes = 0,
     ti_SourceFile = [], ti_SegmentsCount = 0, ti_SegmentsMap = [], ti_Name = [], ti_OutputFile = [],
     ti_MakeMKVSuggestedName = [], ti_Streams = [], ti_Attrs = Map.empty\<rparr>"

definition empty_disc :: disc where
  "empty_disc = \<lparr>di_Fingerprint = [], di_VolumeLabel = [], di_DiscName = [], di_Type = TypeUnknown,
     di_TotalBytes = 0, di_ScannedAt = None, di_DriveStableID = [], di_DriveModel = [],
     di_MakeMKVVersion = [], di_Titles = []\<rparr>"

text \<open>\<^verbatim>\<open>Title.Duration\<close>: H:MM:SS.\<close>

definition Duration :: "title \<Rightarrow> string" where
  "Duration t =
     (let d = ti_DurationSecs t
      in int_str (go_div d 3600) @ '':'' @ int_str02 (go_mod (go_div d 60) 60) @ '':''
         @ int_str02 (go_mod d 60))"

definition TotalDuration :: "disc \<Rightarrow> int" where
  "TotalDuration d = fold (\<lambda>t total. total + ti_DurationSecs t) (di_Titles d) 0"

section \<open>Fingerprint\<close>

definition NUL :: char where
  "NUL = CHR 0x00"

definition entry :: "title \<Rightarrow> int \<times> int" where
  "entry t = (ti_DurationSecs t, ti_SizeBytes t)"

fun entry_text :: "int \<times> int \<Rightarrow> string" where
  "entry_text (dur, sz) = int_str dur @ '':'' @ int_str sz @ [NUL]"

definition fingerprint_text :: "string \<Rightarrow> title list \<Rightarrow> string" where
  "fingerprint_text volumeLabel titles =
     TrimSpace volumeLabel @ [NUL] @ int_str (int (length titles)) @ [NUL]
     @ concat (map entry_text (sort (map entry titles)))"

definition ComputeFingerprint :: "(string \<Rightarrow> string) \<Rightarrow> string \<Rightarrow> title list \<Rightarrow> string" where
  "ComputeFingerprint sha volumeLabel titles = sha (fingerprint_text volumeLabel titles)"

definition Short :: "string \<Rightarrow> string" where
  "Short fingerprint = (if length fingerprint < 12 then fingerprint else take 12 fingerprint)"

section \<open>Names\<close>

definition genericLabels :: "string list" where
  "genericLabels = ['''', ''dvd_video'', ''dvdvideo'', ''logical_volume_id'', ''unknown'', ''untitled'',
     ''new_volume'', ''bd_rom'', ''bluray'']"

definition slug_rune :: "char \<Rightarrow> bool" where
  "slug_rune r \<longleftrightarrow> is_lower r \<or> is_digit r"

fun slug_loop :: "bool \<Rightarrow> string \<Rightarrow> string" where
  "slug_loop lastDash [] = []"
| "slug_loop lastDash (r # s) =
     (if slug_rune r then r # slug_loop False s
      else if \<not> lastDash then CHR ''-'' # slug_loop True s
      else slug_loop lastDash s)"

definition Slug :: "string \<Rightarrow> string" where
  "Slug s =
     (let out = Trim (slug_loop True (ToLower (TrimSpace s))) ''-''
      in if length out > 40 then Trim (take 40 out) ''-'' else out)"

definition nat_str_pad :: "nat \<Rightarrow> nat \<Rightarrow> string" where
  "nat_str_pad w n = replicate (w - length (nat_str n)) (CHR ''0'') @ nat_str n"

fun format_date :: "date \<Rightarrow> string" where
  "format_date (y, m, d) = nat_str_pad 4 y @ ''-'' @ nat_str_pad 2 m @ ''-'' @ nat_str_pad 2 d"

definition is_generic :: "string \<Rightarrow> bool" where
  "is_generic s \<longleftrightarrow> ToLower (TrimSpace s) \<in> set genericLabels"

definition disc_slug :: "disc \<Rightarrow> string" where
  "disc_slug d =
     (let slug = Slug (di_VolumeLabel d)
      in if is_generic (di_VolumeLabel d) \<or> slug = [] then
           (let s = Slug (di_DiscName d)
            in if s \<noteq> [] \<and> \<not> is_generic (di_DiscName d) then s else ''unlabeled'')
         else slug)"

text \<open>\<^verbatim>\<open>DirName\<close>, with the clock it falls back on when the disc was never stamped.\<close>

definition DirName :: "date \<Rightarrow> disc \<Rightarrow> string" where
  "DirName now d =
     format_date (case di_ScannedAt d of None \<Rightarrow> now | Some t \<Rightarrow> t) @ ''--'' @ disc_slug d @ ''--''
     @ Short (di_Fingerprint d)"

definition TitleFileName :: "int \<Rightarrow> string" where
  "TitleFileName index = ''title_'' @ int_str02 index @ ''.mkv''"

section \<open>Failures\<close>

datatype failure_kind = FailureAACSKey | FailureBDPlus | FailureRegion | FailureUnreadable
  | FailureStalled | FailureSpace | FailureTooling | FailureCancelled | FailureMismatch | FailureOther

definition failurePatterns :: "(failure_kind \<times> string) list" where
  "failurePatterns =
    [(FailureCancelled, ''cancelled''),
     (FailureCancelled, ''context canceled''),
     (FailureAACSKey, ''aacs''),
     (FailureAACSKey, ''no valid processing key''),
     (FailureAACSKey, ''unit key''),
     (FailureAACSKey, ''vuk''),
     (FailureBDPlus, ''bd+''),
     (FailureBDPlus, ''bdplus''),
     (FailureRegion, ''region''),
     (FailureRegion, ''scrambled sector''),
     (FailureRegion, ''css''),
     (FailureStalled, ''no progress for''),
     (FailureStalled, ''did not finish within''),
     (FailureSpace, ''no space left''),
     (FailureSpace, ''disk full''),
     (FailureTooling, ''failed to execute external program''),
     (FailureTooling, ''not on path''),
     (FailureTooling, ''executable file not found''),
     (FailureTooling, ''no such file or directory''),
     (FailureUnreadable, ''the disc is probably damaged''),
     (FailureUnreadable, ''a dvd vob cannot exceed''),
     (FailureUnreadable, ''medium not present''),
     (FailureUnreadable, ''input/output error''),
     (FailureUnreadable, ''failed to open disc''),
     (FailureUnreadable, ''no titles found''),
     (FailureUnreadable, ''cannot read''),
     (FailureUnreadable, ''unreadable''),
     (FailureMismatch, ''refusing to rip a partial disc''),
     (FailureMismatch, ''produced no output file''),
     (FailureMismatch, ''titles saved, 1 failed''),
     (FailureMismatch, ''was therefore skipped'')]"

definition benignFragments :: "string list" where
  "benignFragments =
    [''error cracking css key'', ''can'' @ [CHR 0x27] @ ''t read name block'', ''probably not a dvd-rom device'',
     ''bd-j check: failed to load jvm'', ''vm configuration not found'']"

definition IsBenign :: "string \<Rightarrow> bool" where
  "IsBenign line \<longleftrightarrow> (let l = ToLower line in list_ex (\<lambda>f. contains l f) benignFragments)"

definition NL :: char where
  "NL = CHR 0x0A"

definition StripBenign :: "string \<Rightarrow> string" where
  "StripBenign message = join_with [NL] (filter (\<lambda>l. \<not> IsBenign l) (split_on NL message))"

fun match_pattern :: "string \<Rightarrow> (failure_kind \<times> string) list \<Rightarrow> failure_kind" where
  "match_pattern m [] = FailureOther"
| "match_pattern m ((kind, fragment) # ps) = (if contains m fragment then kind else match_pattern m ps)"

definition ClassifyFailure :: "string \<Rightarrow> failure_kind" where
  "ClassifyFailure message = match_pattern (ToLower (StripBenign message)) failurePatterns"

fun FailureAdvice :: "failure_kind \<Rightarrow> string" where
  "FailureAdvice FailureAACSKey = ''the disc is not in the AACS key database; try a newer KEYDB.cfg''"
| "FailureAdvice FailureBDPlus = ''the disc uses BD+, which libbdplus handles incompletely''"
| "FailureAdvice FailureRegion = ''the drive has no region set, so it will not decrypt this disc''"
| "FailureAdvice FailureSpace = ''free some space and try again''"
| "FailureAdvice FailureTooling = ''a program hellbox depends on is missing''"
| "FailureAdvice FailureStalled = ''the disc stopped being read; it may be damaged''"
| "FailureAdvice FailureUnreadable = ''the drive could not read the disc; it may be dirty or damaged''"
| "FailureAdvice FailureMismatch = ''the scan and the ripped source disagreed about the titles''"
| "FailureAdvice FailureCancelled = ''stopped deliberately; nothing is wrong with the disc''"
| "FailureAdvice FailureOther = []"

section \<open>The fingerprint determines what it is made of\<close>

lemma NUL_not_int_str [simp]: "NUL \<notin> set (int_str i)"
  by (rule int_str_sep) (simp_all add: NUL_def is_digit_def)

lemma colon_not_int_str [simp]: "CHR '':'' \<notin> set (int_str i)"
  by (rule int_str_sep) (simp_all add: is_digit_def)

lemma entry_text_inj: "entry_text e @ x = entry_text f @ y \<longleftrightarrow> e = f \<and> x = y"
  by (cases e; cases f) (simp add: sep_inj)

lemma entries_text_inj:
  "concat (map entry_text es) = concat (map entry_text fs) \<Longrightarrow> length es = length fs \<Longrightarrow> es = fs"
proof (induction es arbitrary: fs)
  case Nil
  then show ?case by simp
next
  case (Cons e es)
  then obtain f fs' where fs: "fs = f # fs'" by (cases fs) auto
  with Cons.prems have "entry_text e @ concat (map entry_text es) = entry_text f @ concat (map entry_text fs')"
    by simp
  then have "e = f" and "concat (map entry_text es) = concat (map entry_text fs')"
    by (simp_all add: entry_text_inj)
  with Cons fs show ?case by simp
qed

lemma fingerprint_text_iff:
  assumes "NUL \<notin> set l" and "NUL \<notin> set m"
  shows "fingerprint_text l ts = fingerprint_text m us \<longleftrightarrow>
    TrimSpace l = TrimSpace m \<and> mset (map entry ts) = mset (map entry us)"
proof
  assume eq: "fingerprint_text l ts = fingerprint_text m us"
  have sep: "NUL \<notin> set (TrimSpace l)" "NUL \<notin> set (TrimSpace m)"
    using assms set_TrimSpace by blast+
  with eq have tl: "TrimSpace l = TrimSpace m" and len: "length ts = length us"
    and es: "concat (map entry_text (sort (map entry ts))) = concat (map entry_text (sort (map entry us)))"
    by (simp_all add: fingerprint_text_def sep_inj)
  from entries_text_inj [OF es] len have "sort (map entry ts) = sort (map entry us)" by simp
  then have "mset (sort (map entry ts)) = mset (sort (map entry us))" by simp
  with tl show "TrimSpace l = TrimSpace m \<and> mset (map entry ts) = mset (map entry us)" by simp
next
  assume *: "TrimSpace l = TrimSpace m \<and> mset (map entry ts) = mset (map entry us)"
  then have "length ts = length us" by (metis length_map mset_eq_length)
  moreover have "sort (map entry ts) = sort (map entry us)"
    using * by (metis mset_sort properties_for_sort sorted_sort)
  ultimately show "fingerprint_text l ts = fingerprint_text m us"
    using * by (simp add: fingerprint_text_def)
qed

section \<open>Slugs\<close>

text \<open>A slug body: letters, digits and single dashes, a dash never first (\<^term>\<open>True\<close>) or never
  after another.\<close>

fun slug_body :: "bool \<Rightarrow> string \<Rightarrow> bool" where
  "slug_body lastDash [] = True"
| "slug_body lastDash (c # s) =
     (if slug_rune c then slug_body False s else c = CHR ''-'' \<and> \<not> lastDash \<and> slug_body True s)"

lemma slug_rune_dash: "\<not> slug_rune (CHR ''-'')"
  by (simp add: slug_rune_def is_lower_def is_digit_def)

lemma slug_body_slug_loop: "slug_body b (slug_loop b s)"
  by (induction b s rule: slug_loop.induct) (auto simp: slug_rune_dash)

lemma slug_loop_idle: "slug_body b s \<Longrightarrow> slug_loop b s = s"
  by (induction b s rule: slug_body.induct) (auto split: if_splits)

lemma slug_body_prefix: "slug_body b (s @ t) \<Longrightarrow> slug_body b s"
  by (induction b s rule: slug_body.induct) (auto split: if_splits)

lemma slug_body_chars: "slug_body b s \<Longrightarrow> c \<in> set s \<Longrightarrow> slug_rune c \<or> c = CHR ''-''"
  by (induction b s rule: slug_body.induct) (auto split: if_splits)

lemma slug_body_hd: "slug_body True s \<Longrightarrow> s \<noteq> [] \<Longrightarrow> hd s \<noteq> CHR ''-''"
  by (cases s) (auto simp: slug_rune_dash split: if_splits)

lemma slug_body_Trim: "slug_body True s \<Longrightarrow> slug_body True (Trim s ''-'')"
proof -
  assume *: "slug_body True s"
  then have "dropWhile (\<lambda>c. c \<in> set ''-'') s = s"
    using slug_body_hd by (auto simp: dropWhile_eq_self_iff)
  then have "prefix (Trim s ''-'') s"
    using prefix_trim_right_by by (simp add: Trim_def trim_by_def)
  with * show ?thesis by (metis prefix_def slug_body_prefix)
qed

definition safe_slug :: "string \<Rightarrow> bool" where
  "safe_slug s \<longleftrightarrow> slug_body True s \<and> length s \<le> 40 \<and> (s \<noteq> [] \<longrightarrow> last s \<noteq> CHR ''-'')"

lemma safe_slug_Slug: "safe_slug (Slug s)"
proof -
  let ?out = "Trim (slug_loop True (ToLower (TrimSpace s))) ''-''"
  have body: "slug_body True ?out" by (intro slug_body_Trim slug_body_slug_loop)
  have "slug_body True (take 40 ?out)"
    using body by (metis append_take_drop_id slug_body_prefix)
  then have cut: "slug_body True (Trim (take 40 ?out) ''-'')" by (rule slug_body_Trim)
  have "length (Trim (take 40 ?out) ''-'') \<le> 40"
    using length_trim_by [of _ "take 40 ?out"] by (simp add: Trim_def)
  moreover have "last (Trim x ''-'') \<noteq> CHR ''-''" if "Trim x ''-'' \<noteq> []" for x
    using last_trim_by [of "\<lambda>c. c \<in> set ''-''" x] that by (simp add: Trim_def)
  ultimately show ?thesis using body cut by (simp add: safe_slug_def Slug_def Let_def)
qed

lemma slug_rune_lower: "slug_rune c \<or> c = CHR ''-'' \<Longrightarrow> lower_char c = c \<and> \<not> is_space c"
  by (auto simp: slug_rune_def is_lower_def is_digit_def lower_char_def is_upper_def is_space_def)

lemma Slug_safe: "safe_slug s \<Longrightarrow> Slug s = s"
proof -
  assume *: "safe_slug s"
  then have body: "slug_body True s" by (simp add: safe_slug_def)
  have low: "lower_char c = c \<and> \<not> is_space c" if "c \<in> set s" for c
    using slug_rune_lower slug_body_chars [OF body that] by blast
  have "TrimSpace s = s"
    unfolding TrimSpace_def by (rule trim_by_idle) (use low in \<open>cases s; auto\<close>)
  moreover have "ToLower s = s" using low by (simp add: ToLower_def map_idI)
  moreover have "Trim s ''-'' = s"
    unfolding Trim_def by (rule trim_by_idle) (use * slug_body_hd in \<open>auto simp: safe_slug_def\<close>)
  ultimately show ?thesis using * slug_loop_idle [OF body] by (simp add: Slug_def safe_slug_def)
qed

section \<open>Directory and file names\<close>

lemma int_str02_inj [simp]: "int_str02 i = int_str02 j \<longleftrightarrow> i = j"
proof -
  have val: "digits_value (int_str02 k) = nat k" if "0 \<le> k" for k
    using that by (simp add: int_str02_def int_str_def)
  have neg: "hd (int_str02 k) = CHR ''-'' \<longleftrightarrow> k < 0" for k
    using nat_str_hd [of "nat k"] digit_not_sign by (auto simp: int_str02_def int_str_def)
  show ?thesis
  proof (cases "i < 0 \<or> j < 0")
    case True
    then have "int_str02 i = int_str02 j \<longrightarrow> i < 0 \<and> j < 0" using neg by metis
    then show ?thesis by (auto simp: int_str02_def)
  next
    case False
    then show ?thesis using val [of i] val [of j] by (metis eq_nat_nat_iff not_less)
  qed
qed

lemma TitleFileName_inj: "TitleFileName i = TitleFileName j \<longleftrightarrow> i = j"
  by (simp add: TitleFileName_def)

lemma Short_length: "length (Short f) \<le> 12"
  by (simp add: Short_def)

section \<open>Benign lines\<close>

lemma NL_lower: "lower_char c = NL \<longleftrightarrow> c = NL"
proof (cases "is_upper c")
  case True
  then have "(of_char (lower_char c) :: nat) = of_char c + 32" by (rule of_char_lower)
  then have "lower_char c \<noteq> NL" by (auto simp: NL_def)
  with True show ?thesis by (auto simp: NL_def is_upper_def)
next
  case False
  then show ?thesis by (simp add: lower_char_def)
qed

lemma Nil_not_benign: "\<not> IsBenign []"
  by (simp add: IsBenign_def ToLower_def benignFragments_def)

lemma StripBenign_lines:
  "split_on NL (StripBenign m) =
     (let ls = filter (\<lambda>l. \<not> IsBenign l) (split_on NL m) in if ls = [] then [[]] else ls)"
proof (cases "filter (\<lambda>l. \<not> IsBenign l) (split_on NL m) = []")
  case True
  then show ?thesis by (simp add: StripBenign_def)
next
  case False
  have "\<forall>w \<in> set (filter (\<lambda>l. \<not> IsBenign l) (split_on NL m)). NL \<notin> set w"
    using split_on_no_sep by auto
  with False show ?thesis by (simp add: StripBenign_def split_join)
qed

lemma StripBenign_idem: "StripBenign (StripBenign m) = StripBenign m"
  unfolding StripBenign_def [of "StripBenign m"] StripBenign_lines
  by (simp add: Nil_not_benign Let_def) (simp add: StripBenign_def)

lemma split_on_snoc: "sep \<notin> set l \<Longrightarrow> split_on sep (m @ sep # l) = split_on sep m @ [l]"
proof (induction m)
  case Nil
  then show ?case by (simp add: split_on_sep_free)
next
  case (Cons c m)
  then show ?case by (cases "split_on sep m") auto
qed

lemma no_pattern_in_Nil: "match_pattern [] failurePatterns = FailureOther"
  by (simp add: failurePatterns_def)

section \<open>Properties\<close>

text \<open>C37 (disc identity). Two scans have the same fingerprint exactly when their trimmed volume
  labels agree and they list the same runtimes and sizes, in whatever order and with the same
  multiplicities. The only assumptions are that the hash does not collide on the two texts being
  compared and that a label holds no NUL byte, which is the separator.\<close>

theorem fingerprint_identifies_disc:
  assumes "inj_on sha {fingerprint_text l ts, fingerprint_text m us}"
    and "NUL \<notin> set l" and "NUL \<notin> set m"
  shows "ComputeFingerprint sha l ts = ComputeFingerprint sha m us \<longleftrightarrow>
    TrimSpace l = TrimSpace m \<and> mset (map entry ts) = mset (map entry us)"
proof -
  have "ComputeFingerprint sha l ts = ComputeFingerprint sha m us \<longleftrightarrow>
      fingerprint_text l ts = fingerprint_text m us"
    using assms(1) by (simp add: ComputeFingerprint_def inj_on_def) metis
  then show ?thesis using fingerprint_text_iff [OF assms(2,3)] by simp
qed

theorem fingerprint_identifies_disc_witness:
  "ComputeFingerprint id ''STILL_GAME '' [empty_title\<lparr>ti_DurationSecs := 1750\<rparr>, empty_title\<lparr>ti_DurationSecs := 1690\<rparr>]
     = ComputeFingerprint id ''STILL_GAME'' [empty_title\<lparr>ti_DurationSecs := 1690\<rparr>, empty_title\<lparr>ti_DurationSecs := 1750\<rparr>]"
proof -
  let ?ts = "[empty_title\<lparr>ti_DurationSecs := 1750\<rparr>, empty_title\<lparr>ti_DurationSecs := 1690\<rparr>]"
  let ?us = "[empty_title\<lparr>ti_DurationSecs := 1690\<rparr>, empty_title\<lparr>ti_DurationSecs := 1750\<rparr>]"
  have sep: "NUL \<notin> set ''STILL_GAME ''" "NUL \<notin> set ''STILL_GAME''" by (simp_all add: NUL_def)
  have "TrimSpace ''STILL_GAME '' = TrimSpace ''STILL_GAME''" by code_simp
  moreover have "mset (map entry ?ts) = mset (map entry ?us)" by (simp add: entry_def empty_title_def)
  moreover have "inj_on id {fingerprint_text ''STILL_GAME '' ?ts, fingerprint_text ''STILL_GAME'' ?us}" by simp
  ultimately show ?thesis using fingerprint_identifies_disc [OF _ sep] by blast
qed

text \<open>Rip directories. The directory name built for a disc is a single path element: its slug is
  never empty, and the name holds no path separator when the fingerprint holds none, whatever the
  volume label and the disc name are. So a rip directory is always a direct child of the rips
  directory.\<close>

theorem DirName_is_one_path_element:
  assumes "CHR ''/'' \<notin> set (di_Fingerprint d)"
  shows "disc_slug d \<noteq> [] \<and> CHR ''/'' \<notin> set (DirName now d)"
proof -
  have safe: "CHR ''/'' \<notin> set (Slug s)" for s
  proof -
    have "slug_body True (Slug s)" using safe_slug_Slug by (simp add: safe_slug_def)
    then show ?thesis
      using slug_body_chars by (fastforce simp: slug_rune_def is_lower_def is_digit_def)
  qed
  have slug: "disc_slug d \<noteq> [] \<and> CHR ''/'' \<notin> set (disc_slug d)"
    using safe by (auto simp: disc_slug_def Let_def)
  have digits: "CHR ''/'' \<notin> set (nat_str_pad w n)" for w n
    using digits_sep [OF nat_str_digits, of "CHR ''/''" n] by (auto simp: nat_str_pad_def is_digit_def)
  then have "CHR ''/'' \<notin> set (format_date t)" for t by (cases t) auto
  moreover have "CHR ''/'' \<notin> set (Short (di_Fingerprint d))"
    using assms by (auto simp: Short_def dest: in_set_takeD)
  ultimately show ?thesis using slug by (auto simp: DirName_def)
qed

theorem DirName_is_one_path_element_witness:
  "disc_slug (empty_disc\<lparr>di_VolumeLabel := ''../ETC'', di_Fingerprint := ''31181d14abe3''\<rparr>) \<noteq> []
   \<and> CHR ''/'' \<notin> set (DirName (2026, 8, 9) (empty_disc\<lparr>di_VolumeLabel := ''../ETC'', di_Fingerprint := ''31181d14abe3''\<rparr>))"
  by (rule DirName_is_one_path_element) (simp add: empty_disc_def)

text \<open>C40 (slugs). Reducing a label to a path fragment is idempotent, gives at most 40 characters, all
  of them lower-case letters, digits or dashes, and never leaves a dash at either end.\<close>

theorem Slug_is_stable_and_safe:
  "Slug (Slug s) = Slug s \<and> length (Slug s) \<le> 40
   \<and> list_all (\<lambda>c. is_lower c \<or> is_digit c \<or> c = CHR ''-'') (Slug s)
   \<and> \<not> prefix ''-'' (Slug s) \<and> \<not> suffix ''-'' (Slug s)"
proof -
  have safe: "safe_slug (Slug s)" by (rule safe_slug_Slug)
  then have body: "slug_body True (Slug s)" by (simp add: safe_slug_def)
  then have "list_all (\<lambda>c. is_lower c \<or> is_digit c \<or> c = CHR ''-'') (Slug s)"
    using slug_body_chars by (fastforce simp: list_all_iff slug_rune_def)
  moreover have "\<not> prefix ''-'' (Slug s)" using slug_body_hd [OF body] by (auto simp: prefix_def)
  moreover have "\<not> suffix ''-'' (Slug s)" using safe by (auto simp: suffix_def safe_slug_def)
  ultimately show ?thesis using safe Slug_safe by (simp add: safe_slug_def)
qed

text \<open>A line known to be harmless noise never influences how a failure is
  grouped: put before or after any message it leaves the group as it was, and a message that is
  nothing but such a line is grouped as \<^const>\<open>FailureOther\<close>.\<close>

theorem benign_lines_never_group:
  assumes "IsBenign l" and "NL \<notin> set l"
  shows "ClassifyFailure (l @ NL # m) = ClassifyFailure m
    \<and> ClassifyFailure (m @ NL # l) = ClassifyFailure m \<and> ClassifyFailure l = FailureOther"
proof -
  have "StripBenign (l @ NL # m) = StripBenign m"
    using assms by (simp add: StripBenign_def split_on_append)
  moreover have "StripBenign (m @ NL # l) = StripBenign m"
    using assms by (simp add: StripBenign_def split_on_snoc)
  moreover have "StripBenign l = []" using assms by (simp add: StripBenign_def split_on_sep_free)
  ultimately show ?thesis by (simp add: ClassifyFailure_def no_pattern_in_Nil ToLower_def)
qed

theorem benign_lines_never_group_witness:
  "ClassifyFailure (''libdvdnav: Error cracking CSS key'' @ NL # ''Input/output error'') = FailureUnreadable"
proof -
  have "IsBenign ''libdvdnav: Error cracking CSS key''" by code_simp
  moreover have "NL \<notin> set ''libdvdnav: Error cracking CSS key''" by (simp add: NL_def)
  ultimately have "ClassifyFailure (''libdvdnav: Error cracking CSS key'' @ NL # ''Input/output error'')
      = ClassifyFailure ''Input/output error''"
    using benign_lines_never_group by blast
  also have "\<dots> = FailureUnreadable" by code_simp
  finally show ?thesis .
qed

end
