(* ===== verification/Go_Path.thy ===== *)
theory Go_Path
  imports Hellbox_Prelude
begin

text \<open>
  Go's \<^verbatim>\<open>path/filepath\<close> on Unix, as far as hellbox uses it: \<^verbatim>\<open>Clean\<close>, \<^verbatim>\<open>Join\<close>, \<^verbatim>\<open>Base\<close>,
  \<^verbatim>\<open>Dir\<close> and \<^verbatim>\<open>Ext\<close>. The lemmas say what \<^verbatim>\<open>Join\<close> makes of elements none of which is
  \<^verbatim>\<open>.\<close> or \<^verbatim>\<open>..\<close>: it appends their components to those of the directory, and nothing climbs out
  of it.
\<close>

abbreviation SLASH :: char where
  "SLASH \<equiv> CHR ''/''"

text \<open>One component of a path, against the components kept so far, last one first.\<close>

definition clean_step :: "bool \<Rightarrow> string list \<Rightarrow> string \<Rightarrow> string list" where
  "clean_step rooted out c =
     (if c = [] \<or> c = ''.'' then out
      else if c = ''..'' then
        (case out of
           [] \<Rightarrow> if rooted then [] else [c]
         | d # ds \<Rightarrow> if d = ''..'' then c # out else ds)
      else c # out)"

definition clean_comps :: "bool \<Rightarrow> string list \<Rightarrow> string list" where
  "clean_comps rooted cs = rev (foldl (clean_step rooted) [] cs)"

definition rooted_path :: "string \<Rightarrow> bool" where
  "rooted_path p \<longleftrightarrow> p \<noteq> [] \<and> hd p = SLASH"

definition Clean :: "string \<Rightarrow> string" where
  "Clean p =
     (let cs = join_with [SLASH] (clean_comps (rooted_path p) (split_on SLASH p))
      in if rooted_path p then SLASH # cs else if cs = [] then ''.'' else cs)"

definition Join :: "string list \<Rightarrow> string" where
  "Join elems =
     (case dropWhile (\<lambda>e. e = []) elems of
        [] \<Rightarrow> []
      | e # es \<Rightarrow> Clean (join_with [SLASH] (e # es)))"

definition Base :: "string \<Rightarrow> string" where
  "Base p =
     (if p = [] then ''.''
      else let q = trim_right_by (\<lambda>c. c = SLASH) p
           in if q = [] then [SLASH] else last (split_on SLASH q))"

definition Dir :: "string \<Rightarrow> string" where
  "Dir p = Clean (rev (dropWhile (\<lambda>c. c \<noteq> SLASH) (rev p)))"

definition Ext :: "string \<Rightarrow> string" where
  "Ext p = (let b = last (split_on SLASH p)
            in if CHR ''.'' \<in> set b then CHR ''.'' # last (split_on (CHR ''.'') b) else [])"

definition path_comps :: "string \<Rightarrow> string list" where
  "path_comps p = filter (\<lambda>c. c \<noteq> []) (split_on SLASH p)"

definition plain_comp :: "string \<Rightarrow> bool" where
  "plain_comp c \<longleftrightarrow> c \<noteq> ''.'' \<and> c \<noteq> ''..''"

lemma clean_step_plain: "plain_comp c \<Longrightarrow> clean_step r out c = (if c = [] then out else c # out)"
  by (simp add: clean_step_def plain_comp_def)

lemma clean_plain_gen:
  "list_all plain_comp cs \<Longrightarrow> rev (foldl (clean_step r) out cs) = rev out @ filter (\<lambda>c. c \<noteq> []) cs"
  by (induction cs arbitrary: out) (auto simp: clean_step_plain)

lemma clean_comps_append:
  "list_all plain_comp cs \<Longrightarrow> clean_comps r (ds @ cs) = clean_comps r ds @ filter (\<lambda>c. c \<noteq> []) cs"
  by (simp add: clean_comps_def clean_plain_gen)

lemma clean_step_props: "(\<forall>c \<in> set out. P c) \<Longrightarrow> (c \<noteq> [] \<Longrightarrow> P c) \<Longrightarrow> \<forall>x \<in> set (clean_step r out c). P x"
  by (auto simp: clean_step_def split: list.splits)

lemma clean_comps_props:
  assumes "\<And>c. c \<in> set cs \<Longrightarrow> c \<noteq> [] \<Longrightarrow> P c"
  shows "\<forall>c \<in> set (clean_comps r cs). P c"
proof -
  have "\<forall>c \<in> set out. P c \<Longrightarrow> \<forall>c \<in> set (foldl (clean_step r) out cs). P c" for out
    using assms
  proof (induction cs arbitrary: out)
    case (Cons c cs)
    have "\<forall>x \<in> set (clean_step r out c). P x" by (rule clean_step_props) (use Cons.prems in auto)
    with Cons show ?case by simp
  qed simp
  from this [of "[]"] show ?thesis by (simp add: clean_comps_def)
qed

lemma clean_comps_clean:
  assumes "c \<in> set (clean_comps r (split_on SLASH p))"
  shows "c \<noteq> [] \<and> SLASH \<notin> set c"
proof -
  have "\<forall>c \<in> set (clean_comps r (split_on SLASH p)). SLASH \<notin> set c"
    by (rule clean_comps_props) (auto dest: split_on_no_sep)
  moreover have "\<forall>c \<in> set (clean_comps r (split_on SLASH p)). c \<noteq> []"
    by (rule clean_comps_props) simp
  ultimately show ?thesis using assms by blast
qed

lemma path_comps_join:
  assumes "\<And>c. c \<in> set cs \<Longrightarrow> c \<noteq> [] \<and> SLASH \<notin> set c"
  shows "path_comps (SLASH # join_with [SLASH] cs) = cs"
proof (cases "cs = []")
  case False
  then have "split_on SLASH (join_with [SLASH] cs) = cs" using assms by (intro split_join) auto
  moreover have "filter (\<lambda>c. c \<noteq> []) cs = cs" using assms by (simp add: filter_id_conv)
  ultimately show ?thesis by (simp add: path_comps_def)
qed (simp add: path_comps_def)

lemma path_comps_Clean: "rooted_path p \<Longrightarrow> path_comps (Clean p) = clean_comps True (split_on SLASH p)"
  using path_comps_join [OF clean_comps_clean [of _ True p]] by (simp add: Clean_def)

lemma split_append_sep: "split_on c (a @ c # b) = split_on c a @ split_on c b"
proof (induction a)
  case (Cons x a)
  then show ?case by (cases "split_on c a") (auto split: list.splits)
qed simp

lemma split_join_concat: "ws \<noteq> [] \<Longrightarrow> split_on c (join_with [c] ws) = concat (map (split_on c) ws)"
  by (induction "[c]" ws rule: join_with.induct) (simp_all add: split_append_sep)

lemma hd_join: "w \<noteq> [] \<Longrightarrow> hd (join_with s (w # ws)) = hd w"
  by (cases ws) auto

lemma join_neq_Nil: "w \<noteq> [] \<Longrightarrow> join_with s (w # ws) \<noteq> []"
  by (cases ws) auto

text \<open>Joining a rooted directory with elements that hold no dot component appends their components.\<close>

lemma Join_rooted:
  assumes "rooted_path dir" and "\<And>e. e \<in> set es \<Longrightarrow> list_all plain_comp (split_on SLASH e)"
  shows "rooted_path (Join (dir # es))
    \<and> path_comps (Join (dir # es)) = path_comps (Clean dir) @ concat (map path_comps es)"
proof -
  let ?p = "join_with [SLASH] (dir # es)"
  have d: "dir \<noteq> []" using assms(1) by (simp add: rooted_path_def)
  then have r: "rooted_path ?p" using assms(1) hd_join [OF d] join_neq_Nil [OF d] by (simp add: rooted_path_def)
  have j: "Join (dir # es) = Clean ?p" using d by (simp add: Join_def)
  have "split_on SLASH ?p = split_on SLASH dir @ concat (map (split_on SLASH) es)"
    using split_join_concat [of "dir # es" SLASH] by simp
  moreover have "list_all plain_comp (concat (map (split_on SLASH) es))"
    using assms(2) by (fastforce simp: list_all_iff)
  ultimately have "clean_comps True (split_on SLASH ?p) =
      clean_comps True (split_on SLASH dir) @ filter (\<lambda>c. c \<noteq> []) (concat (map (split_on SLASH) es))"
    by (simp add: clean_comps_append)
  moreover have "filter (\<lambda>c. c \<noteq> []) (concat (map (split_on SLASH) es)) = concat (map path_comps es)"
    by (simp add: filter_concat path_comps_def [abs_def] comp_def)
  ultimately have "path_comps (Clean ?p) = path_comps (Clean dir) @ concat (map path_comps es)"
    using path_comps_Clean [OF r] path_comps_Clean [OF assms(1)] by simp
  moreover have "rooted_path (Clean ?p)" using r by (simp add: Clean_def rooted_path_def)
  ultimately show ?thesis using j by simp
qed

lemma plain_comp_no_dot: "CHR ''.'' \<notin> set s \<Longrightarrow> list_all plain_comp (split_on SLASH s)"
proof -
  assume nd: "CHR ''.'' \<notin> set s"
  have "set c \<subseteq> set s" if "c \<in> set (split_on SLASH s)" for c
    using that
  proof (induction s arbitrary: c)
    case (Cons x s)
    obtain w ws where "split_on SLASH s = w # ws" by (cases "split_on SLASH s") auto
    with Cons show ?case by (fastforce split: if_splits)
  qed simp
  then show ?thesis using nd by (fastforce simp: list_all_iff plain_comp_def)
qed

lemma path_comps_single: "SLASH \<notin> set c \<Longrightarrow> c \<noteq> [] \<Longrightarrow> path_comps c = [c]"
  by (simp add: path_comps_def split_on_sep_free)

lemma last_split_snoc: "SLASH \<notin> set b \<Longrightarrow> \<exists>w ws. split_on SLASH (a @ b) = ws @ [w @ b] \<and> (\<exists>u. split_on SLASH a = ws @ [u] \<and> u = w)"
proof (induction a)
  case Nil
  then show ?case by (simp add: split_on_sep_free)
next
  case (Cons x a)
  then obtain w ws where "split_on SLASH (a @ b) = ws @ [w @ b]" "split_on SLASH a = ws @ [w]" by blast
  then show ?case by (cases ws) auto
qed

end
