(* ===== verification/Config.thy ===== *)
theory Config
  imports Go_Path
begin

text \<open>
  \<^verbatim>\<open>internal/config/config.go\<close>: the configuration, its defaults and the checks every configuration passes
  before the daemon starts. A \<^verbatim>\<open>Duration\<close> is its number of nanoseconds, as in Go. Reading the file
  (TOML) is left out: \<^verbatim>\<open>Load\<close> takes what the parser made of it.
\<close>

record drive_config =
  dc_StableID :: string
  dc_Label :: string
  dc_Disabled :: bool

record config =
  RipsDir :: string
  WorkDir :: string
  LibraryDir :: string
  TranscodedDir :: string
  StatePath :: string
  SocketPath :: string
  HTTPAddr :: string
  NativeDVD :: bool
  DVDPreindex :: bool
  MinTitleSeconds :: int
  MinOutputBytes :: int
  MaxRipAttempts :: int
  ScanAttempts :: int
  ScanRetryDelay :: int
  ScanTimeout :: int
  DecryptFallback :: bool
  DVDBackupBin :: string
  RipStallTimeout :: int
  Transcode :: bool
  TranscodeQuality :: int
  TranscodeMaxKbps :: int
  TranscodeMaxHeight :: int
  PreferredLanguage :: string
  AudioKbps :: int
  SoftwarePreset :: string
  FFmpegBin :: string
  VAAPIDevice :: string
  FileToLibrary :: bool
  EjectOnSuccess :: bool
  EjectOnFailure :: bool
  PollInterval :: int
  MakeMKVBin :: string
  MakeMKVSettingsPath :: string
  AutoRefreshKey :: bool
  BetaKeyURL :: string
  KeyRefreshInterval :: int
  ConfigDrives :: "drive_config list"

definition SECOND :: int where
  "SECOND = 1000000000"

definition Default :: config where
  "Default =
     \<lparr>RipsDir = ''/srv/media/rips'', WorkDir = ''/srv/media/work'', LibraryDir = ''/srv/media/library'',
      TranscodedDir = ''/srv/media/transcoded'', StatePath = ''/var/lib/hellbox/state.db'',
      SocketPath = ''/run/hellbox/hellbox.sock'', HTTPAddr = ''127.0.0.1:9494'', NativeDVD = True,
      DVDPreindex = False, MinTitleSeconds = 60, MinOutputBytes = 10 * 2 ^ 20, MaxRipAttempts = 2,
      ScanAttempts = 3, ScanRetryDelay = 15 * SECOND, ScanTimeout = 0, DecryptFallback = True,
      DVDBackupBin = [], RipStallTimeout = 600 * SECOND, Transcode = True, TranscodeQuality = 20,
      TranscodeMaxKbps = 6000, TranscodeMaxHeight = 0, PreferredLanguage = ''eng'', AudioKbps = 640,
      SoftwarePreset = ''medium'', FFmpegBin = [], VAAPIDevice = ''auto'', FileToLibrary = False,
      EjectOnSuccess = True, EjectOnFailure = False, PollInterval = 2 * SECOND,
      MakeMKVBin = ''makemkvcon'', MakeMKVSettingsPath = [], AutoRefreshKey = True, BetaKeyURL = [],
      KeyRefreshInterval = 21600 * SECOND, ConfigDrives = []\<rparr>"

datatype config_error =
    MustBeSet string
  | MustBeAbsolute string
  | NegativeSetting string
  | TooFew string
  | NotPositive string
  | OutOfRange string

definition IsAbs :: "string \<Rightarrow> bool" where
  "IsAbs p \<longleftrightarrow> prefix [SLASH] p"

fun check_paths :: "(string \<times> string) list \<Rightarrow> config_error option" where
  "check_paths [] = None"
| "check_paths ((name, value) # ps) =
     (if value = [] then Some (MustBeSet name)
      else if \<not> IsAbs value then Some (MustBeAbsolute name)
      else check_paths ps)"

definition Validate :: "config \<Rightarrow> config_error option" where
  "Validate c =
     (case check_paths [(''rips_dir'', RipsDir c), (''state_path'', StatePath c), (''socket_path'', SocketPath c)] of
        Some e \<Rightarrow> Some e
      | None \<Rightarrow>
          if MinTitleSeconds c < 0 then Some (NegativeSetting ''min_title_seconds'')
          else if MaxRipAttempts c < 1 then Some (TooFew ''max_rip_attempts'')
          else if ScanAttempts c < 1 then Some (TooFew ''scan_attempts'')
          else if ScanAttempts c > 1 \<and> ScanRetryDelay c \<le> 0 then Some (NotPositive ''scan_retry_delay'')
          else if ScanTimeout c < 0 then Some (NegativeSetting ''scan_timeout'')
          else if RipStallTimeout c < 0 then Some (NegativeSetting ''rip_stall_timeout'')
          else if FileToLibrary c \<and> (LibraryDir c = [] \<or> \<not> IsAbs (LibraryDir c)) then Some (MustBeAbsolute ''library_dir'')
          else if Transcode c \<and> (TranscodedDir c = [] \<or> \<not> IsAbs (TranscodedDir c)) then Some (MustBeAbsolute ''transcoded_dir'')
          else if Transcode c \<and> TranscodeMaxHeight c < 0 then Some (NegativeSetting ''transcode_max_height'')
          else if Transcode c \<and> TranscodeMaxKbps c < 0 then Some (NegativeSetting ''transcode_max_kbps'')
          else if Transcode c \<and> (TranscodeQuality c < 0 \<or> TranscodeQuality c > 51) then Some (OutOfRange ''transcode_quality'')
          else if PollInterval c \<le> 0 then Some (NotPositive ''poll_interval'')
          else if AutoRefreshKey c \<and> KeyRefreshInterval c \<le> 0 then Some (NotPositive ''key_refresh_interval'')
          else if MakeMKVSettingsPath c \<noteq> [] \<and> \<not> IsAbs (MakeMKVSettingsPath c) then Some (MustBeAbsolute ''makemkv_settings_path'')
          else None)"

text \<open>What \<^verbatim>\<open>os.ReadFile\<close> and the TOML parser made of the file: it is missing, cannot be read, cannot be
  parsed, or overrides some of the defaults.\<close>

datatype config_file = FileMissing | FileUnreadable | FileMalformed "config \<Rightarrow> config" | FileParsed "config \<Rightarrow> config"

datatype load_error = ReadError | ParseError | Invalid config_error

definition validated :: "config \<Rightarrow> config \<times> load_error option" where
  "validated cfg = (cfg, map_option Invalid (Validate cfg))"

definition Load :: "config_file \<Rightarrow> config \<times> load_error option" where
  "Load f =
     (case f of
        FileMissing \<Rightarrow> validated Default
      | FileUnreadable \<Rightarrow> (Default, Some ReadError)
      | FileMalformed g \<Rightarrow> (g Default, Some ParseError)
      | FileParsed g \<Rightarrow> validated (g Default))"

definition DriveFor :: "config \<Rightarrow> string \<Rightarrow> drive_config option" where
  "DriveFor c stableID = List.find (\<lambda>d. dc_StableID d = stableID) (ConfigDrives c)"

lemma IsAbs_rooted: "IsAbs p \<longleftrightarrow> rooted_path p"
  by (cases p) (auto simp: IsAbs_def rooted_path_def)

lemma check_paths_None: "check_paths ps = None \<longleftrightarrow> list_all (\<lambda>(n, v). rooted_path v) ps"
  by (induction ps rule: check_paths.induct) (auto simp: IsAbs_rooted, simp add: rooted_path_def)



end
