(* ===== verification/Verify.thy ===== *)
theory Verify
  imports Disc Config Go_Path
begin

text \<open>
  \<^verbatim>\<open>internal/verify\<close>: the check of a finished title against what the disc said it would be, and the part of
  \<^verbatim>\<open>internal/daemon/native.go\<close> that calls it.

  What is on disk and what ffprobe answered are arguments. The tolerance, a fraction in the source, is a ratio of
  two integers here, and \<^verbatim>\<open>diff <= max(want * tolerance, 5)\<close> is compared without rounding; for the only tolerance
  the program uses, two percent, the floating-point comparison gives the same answer for every running time below
  2 to the power 50 seconds. Problems are values that carry the numbers their messages print.
\<close>

type_synonym ratio = "int \<times> int"

definition verify_ebmlMagic :: "byte list" where
  "verify_ebmlMagic = [0x1A, 0x45, 0xDF, 0xA3]"

definition DefaultTolerance :: ratio where
  "DefaultTolerance = (1, 50)"

definition MinToleranceSecs :: int where
  "MinToleranceSecs = 5"

record expectation =
  ex_DurationSecs :: int
  ex_Video :: int
  ex_Audio :: int
  ex_Subtitles :: int
  ex_MinBytes :: int

datatype problem =
    NoOutput string
  | BelowFloor int int
  | BadFile string
  | ProbeFailed string
  | RunsShort int int
  | RunsLong int int
  | TooFewStreams int string int

record verdict =
  vd_OK :: bool
  vd_Problems :: "problem list"
  vd_DurationSecs :: int
  vd_SizeBytes :: int

definition tolerance :: "ratio \<Rightarrow> ratio" where
  "tolerance t = (if fst t \<le> 0 then DefaultTolerance else t)"

text \<open>A file as the check meets it: its size, what opening it and reading its first four bytes gives (the error, or
  the bytes read), and ffprobe's answer, with the duration in microseconds where its text is a number.\<close>

record probe_answer =
  pa_Duration :: "int option"
  pa_Streams :: "string list"

record file_facts =
  ff_size :: "int option"
  ff_head :: "string + byte list"
  ff_probe :: "string + probe_answer"

definition checkMagic :: "string \<Rightarrow> string + byte list \<Rightarrow> string option" where
  "checkMagic path hd4 =
     (case hd4 of
        Inl e \<Rightarrow> Some e
      | Inr bs \<Rightarrow> if take 4 (bs @ replicate 4 0) = verify_ebmlMagic then None
                  else Some (path @ '' does not begin with Matroska's magic bytes''))"

definition durationSecs :: "probe_answer \<Rightarrow> int" where
  "durationSecs p = (case pa_Duration p of None \<Rightarrow> 0 | Some us \<Rightarrow> if us \<le> 0 then 0 else (us + 500000) div 1000000)"

definition counts :: "probe_answer \<Rightarrow> string \<Rightarrow> int" where
  "counts p kind = int (length (filter (\<lambda>k. k = kind) (pa_Streams p)))"

definition durationProblem :: "int \<Rightarrow> int \<Rightarrow> ratio \<Rightarrow> problem option" where
  "durationProblem got want tol =
     (let diff = \<bar>got - want\<bar>
      in if snd tol * diff \<le> want * fst tol \<or> diff \<le> MinToleranceSecs then None
         else if got < want then Some (RunsShort got want) else Some (RunsLong got want))"

definition stream_problems :: "expectation \<Rightarrow> probe_answer \<Rightarrow> problem list" where
  "stream_problems want p =
     map (\<lambda>(kind, w, g). TooFewStreams w kind g)
       (filter (\<lambda>(kind, w, g). w > 0 \<and> g < w)
         [(''video'', ex_Video want, counts p ''video''), (''audio'', ex_Audio want, counts p ''audio''),
          (''subtitle'', ex_Subtitles want, counts p ''subtitle'')])"

definition VerifyTitle :: "ratio \<Rightarrow> string \<Rightarrow> file_facts \<Rightarrow> expectation \<Rightarrow> verdict" where
  "VerifyTitle tol path f want =
     (let bad = (\<lambda>size p. \<lparr>vd_OK = False, vd_Problems = [p], vd_DurationSecs = 0, vd_SizeBytes = size\<rparr>)
      in case ff_size f of
           None \<Rightarrow> bad 0 (NoOutput path)
         | Some sz \<Rightarrow>
             if ex_MinBytes want > 0 \<and> sz < ex_MinBytes want then bad sz (BelowFloor sz (ex_MinBytes want))
             else case checkMagic path (ff_head f) of
               Some e \<Rightarrow> bad sz (BadFile e)
             | None \<Rightarrow>
                 (case ff_probe f of
                    Inl e \<Rightarrow> bad sz (ProbeFailed e)
                  | Inr p \<Rightarrow>
                      (let got = durationSecs p;
                           dur = (if ex_DurationSecs want > 0
                                  then (case durationProblem got (ex_DurationSecs want) (tolerance tol) of None \<Rightarrow> [] | Some d \<Rightarrow> [d])
                                  else []);
                           problems = dur @ stream_problems want p
                       in \<lparr>vd_OK = (problems = []), vd_Problems = problems, vd_DurationSecs = got, vd_SizeBytes = sz\<rparr>)))"

text \<open>\<^verbatim>\<open>Verifier.Disc\<close>: the whole disc's running time.\<close>

definition VerifyDisc :: "ratio \<Rightarrow> verdict list \<Rightarrow> int \<Rightarrow> problem list" where
  "VerifyDisc tol results wantTotalSecs =
     (let gotTotal = fold (\<lambda>r n. wrap64 (n + vd_DurationSecs r)) results 0
      in if wantTotalSecs > 0
         then (case durationProblem gotTotal wantTotalSecs (tolerance tol) of None \<Rightarrow> [] | Some d \<Rightarrow> [d])
         else [])"

definition hms :: "int \<Rightarrow> string" where
  "hms secs =
     (let h = go_div secs 3600; m = go_div (go_mod secs 3600) 60; s = go_mod secs 60
      in if h > 0 then int_str h @ '':'' @ int_str02 m @ '':'' @ int_str02 s else int_str m @ '':'' @ int_str02 s)"

section \<open>The native pipeline's call\<close>

definition verifyNativeTitle :: "config \<Rightarrow> string \<Rightarrow> file_facts \<Rightarrow> title \<Rightarrow> problem list" where
  "verifyNativeTitle cfg path f t =
     (let res = VerifyTitle (0, 1) path f
                  \<lparr>ex_DurationSecs = ti_DurationSecs t, ex_Video = 0, ex_Audio = 0, ex_Subtitles = 0, ex_MinBytes = MinOutputBytes cfg\<rparr>
      in if \<not> vd_OK res then vd_Problems res else [])"

section \<open>What passing means\<close>

lemma durationProblem_None:
  "durationProblem got want tol = None \<longleftrightarrow> snd tol * \<bar>got - want\<bar> \<le> want * fst tol \<or> \<bar>got - want\<bar> \<le> MinToleranceSecs"
  by (simp add: durationProblem_def Let_def)

lemma stream_problems_Nil:
  "stream_problems want p = [] \<longleftrightarrow> (ex_Video want \<le> 0 \<or> ex_Video want \<le> counts p ''video'')
     \<and> (ex_Audio want \<le> 0 \<or> ex_Audio want \<le> counts p ''audio'') \<and> (ex_Subtitles want \<le> 0 \<or> ex_Subtitles want \<le> counts p ''subtitle'')"
  by (auto simp: stream_problems_def not_less not_le)

lemma VerifyTitle_ok:
  "vd_OK (VerifyTitle tol path f want) \<longleftrightarrow>
     (\<exists>sz p. ff_size f = Some sz \<and> (ex_MinBytes want \<le> 0 \<or> ex_MinBytes want \<le> sz) \<and> checkMagic path (ff_head f) = None
        \<and> ff_probe f = Inr p
        \<and> (ex_DurationSecs want \<le> 0 \<or> durationProblem (durationSecs p) (ex_DurationSecs want) (tolerance tol) = None)
        \<and> stream_problems want p = [])"
  by (auto simp: VerifyTitle_def Let_def not_less not_le split: option.splits sum.splits)

lemma checkMagic_None: "checkMagic path h = None \<longleftrightarrow> (\<exists>bs. h = Inr bs \<and> prefix verify_ebmlMagic bs)"
proof -
  have "take 4 (bs @ replicate 4 0) = verify_ebmlMagic \<longleftrightarrow> prefix verify_ebmlMagic bs" for bs
  proof
    assume t: "take 4 (bs @ replicate 4 0) = verify_ebmlMagic"
    have "4 \<le> length bs"
    proof (rule ccontr)
      assume "\<not> 4 \<le> length bs"
      then have "(take 4 (bs @ replicate 4 0)) ! 3 = 0" by (simp add: nth_append)
      then show False unfolding t by (simp add: verify_ebmlMagic_def)
    qed
    then have "take 4 bs = verify_ebmlMagic" using t by simp
    then show "prefix verify_ebmlMagic bs" by (metis take_is_prefix)
  next
    assume "prefix verify_ebmlMagic bs"
    then obtain r where "bs = verify_ebmlMagic @ r" by (auto simp: prefix_def)
    then show "take 4 (bs @ replicate 4 0) = verify_ebmlMagic" by (simp add: verify_ebmlMagic_def)
  qed
  then show ?thesis by (cases h) (auto simp: checkMagic_def)
qed



end
