(* ===== verification/Drive.thy ===== *)
theory Drive
  imports Go_Path
begin

text \<open>
  \<^verbatim>\<open>internal/drive\<close>: what a drive's SCSI answers mean (\<^verbatim>\<open>sense.go\<close>, \<^verbatim>\<open>region.go\<close>, \<^verbatim>\<open>protection.go\<close>,
  \<^verbatim>\<open>profile.go\<close>), over bytes that are 8-bit words; how drives are found and named (\<^verbatim>\<open>drive.go\<close>), over what
  the kernel's directories hold; and the monitor that turns polled readings into events
  (\<^verbatim>\<open>monitor.go\<close>), one step per tick. The ioctls that fetch the bytes are parameters: a reading is
  an argument.
\<close>

unbundle bit_operations_syntax

section \<open>Status\<close>

datatype status = StatusUnknown | StatusNoDisc | StatusTrayOpen | StatusNotReady | StatusDiscOK | StatusIncompatible

section \<open>Sense data\<close>

record senseResult =
  sr_good :: bool
  sr_senseKey :: byte
  sr_asc :: byte
  sr_ascq :: byte

definition zero_sense :: senseResult where
  "zero_sense = \<lparr>sr_good = False, sr_senseKey = 0, sr_asc = 0, sr_ascq = 0\<rparr>"

definition parseSense :: "byte list \<Rightarrow> senseResult" where
  "parseSense b =
     (if length b < 3 then zero_sense
      else if b ! 0 AND 0x7f = 0x72 \<or> b ! 0 AND 0x7f = 0x73 then
        (if length b < 4 then zero_sense
         else zero_sense\<lparr>sr_senseKey := b ! 1 AND 0x0f, sr_asc := b ! 2, sr_ascq := b ! 3\<rparr>)
      else if length b < 14 then zero_sense\<lparr>sr_senseKey := b ! 2 AND 0x0f\<rparr>
      else zero_sense\<lparr>sr_senseKey := b ! 2 AND 0x0f, sr_asc := b ! 12, sr_ascq := b ! 13\<rparr>)"

definition ascNotReady :: byte where "ascNotReady = 0x04"
definition ascIncompatibleMedia :: byte where "ascIncompatibleMedia = 0x30"
definition ascMediumNotPresent :: byte where "ascMediumNotPresent = 0x3a"

definition statusFromSense :: "senseResult \<Rightarrow> status" where
  "statusFromSense r =
     (if sr_good r then StatusDiscOK
      else if sr_asc r = ascMediumNotPresent then (if sr_ascq r = 0x02 then StatusTrayOpen else StatusNoDisc)
      else if sr_asc r = ascIncompatibleMedia then StatusIncompatible
      else if sr_asc r = ascNotReady then StatusNotReady
      else if sr_senseKey r = 0x02 then StatusNotReady
      else StatusUnknown)"

text \<open>\<^verbatim>\<open>queryStatus\<close>: the answer to TEST UNIT READY when there is one, else what the ioctl returned;
  \<^const>\<open>None\<close> is an error.\<close>

definition queryStatusIoctl :: "int option \<Rightarrow> status option" where
  "queryStatusIoctl r =
     (case r of None \<Rightarrow> None
      | Some n \<Rightarrow> Some (if n = 1 then StatusNoDisc else if n = 2 then StatusTrayOpen
          else if n = 3 then StatusNotReady else if n = 4 then StatusDiscOK else StatusUnknown))"

definition queryStatus :: "senseResult option \<Rightarrow> int option \<Rightarrow> status option" where
  "queryStatus tur ioctl = (case tur of Some r \<Rightarrow> Some (statusFromSense r) | None \<Rightarrow> queryStatusIoctl ioctl)"

section \<open>Regions and protection\<close>

record region =
  rg_Scheme :: byte
  rg_TypeCode :: byte
  rg_Mask :: byte
  rg_UserChanges :: byte
  rg_VendorResets :: byte

definition RPC2 :: byte where
  "RPC2 = 1"

definition IsSet :: "region \<Rightarrow> bool" where
  "IsSet r \<longleftrightarrow> rg_TypeCode r \<noteq> 0 \<and> rg_Mask r \<noteq> 0xff"

definition mask_regions :: "byte \<Rightarrow> nat list" where
  "mask_regions m = map Suc (filter (\<lambda>i. m AND push_bit i 1 = 0) [0..<8])"

definition Region_Regions :: "region \<Rightarrow> nat list" where
  "Region_Regions r = (if \<not> IsSet r then [] else mask_regions (rg_Mask r))"

definition CanDecryptCSS :: "region \<Rightarrow> bool" where
  "CanDecryptCSS r \<longleftrightarrow> rg_Scheme r \<noteq> RPC2 \<or> IsSet r"

definition parseRPCState :: "byte list \<Rightarrow> region" where
  "parseRPCState b =
     (if length b < 7 then \<lparr>rg_Scheme = 0, rg_TypeCode = 0, rg_Mask = 0, rg_UserChanges = 0, rg_VendorResets = 0\<rparr>
      else \<lparr>rg_Scheme = b ! 6, rg_TypeCode = drop_bit 6 (b ! 4) AND 0x03, rg_Mask = b ! 5,
            rg_UserChanges = b ! 4 AND 0x07, rg_VendorResets = drop_bit 3 (b ! 4) AND 0x07\<rparr>)"

record protection =
  pr_System :: byte
  pr_RegionMask :: byte

definition Protected :: "protection \<Rightarrow> bool" where
  "Protected p \<longleftrightarrow> pr_System p \<noteq> 0"

definition RegionFree :: "protection \<Rightarrow> bool" where
  "RegionFree p \<longleftrightarrow> pr_RegionMask p = 0"

definition Protection_Regions :: "protection \<Rightarrow> nat list" where
  "Protection_Regions p = mask_regions (pr_RegionMask p)"

definition PlayableIn :: "protection \<Rightarrow> region \<Rightarrow> bool" where
  "PlayableIn p r =
     (if \<not> Protected p then True
      else if \<not> CanDecryptCSS r then False
      else if RegionFree p \<or> rg_Scheme r \<noteq> RPC2 then True
      else (NOT (pr_RegionMask p)) AND (NOT (rg_Mask r)) \<noteq> 0)"

definition parseCopyright :: "byte list \<Rightarrow> protection" where
  "parseCopyright b =
     (if length b < 6 then \<lparr>pr_System = 0, pr_RegionMask = 0\<rparr> else \<lparr>pr_System = b ! 4, pr_RegionMask = b ! 5\<rparr>)"

text \<open>The \<^verbatim>\<open>String\<close> methods; \<^verbatim>\<open>%v\<close> prints a slice of integers in brackets.\<close>

definition ints_str :: "nat list \<Rightarrow> string" where
  "ints_str ns = ''['' @ join_with '' '' (map nat_str ns) @ '']''"

definition Region_String :: "region \<Rightarrow> string" where
  "Region_String r =
     (let scheme = (if rg_Scheme r = RPC2 then ''RPC-2'' else ''RPC-1'');
          changes = nat_str (unat (rg_UserChanges r))
      in if \<not> IsSet r then scheme @ '', no region set ('' @ changes @ '' changes available)''
         else scheme @ '', region '' @ ints_str (Region_Regions r) @ '' ('' @ changes @ '' changes left)'')"

definition Protection_String :: "protection \<Rightarrow> string" where
  "Protection_String p =
     (if \<not> Protected p then ''unprotected''
      else let system = (if pr_System p = 2 then ''CPRM'' else if pr_System p = 1 then ''CSS''
                         else ''protection type '' @ nat_str (unat (pr_System p)))
           in if RegionFree p then system @ '', all regions''
              else system @ '', region '' @ ints_str (Protection_Regions p))"

section \<open>Profiles\<close>

datatype disc_kind = DiscNone | DiscCD | DiscDVD | DiscBluRay | DiscUnknown

definition profiles :: "16 word \<Rightarrow> disc_kind option" where
  "profiles p =
     (if p = 0x0000 then Some DiscNone
      else if p \<in> set [0x0008, 0x0009, 0x000A] then Some DiscCD
      else if p \<in> set [0x0010, 0x0011, 0x0012, 0x0013, 0x0014, 0x0015, 0x0016, 0x0017, 0x001A, 0x001B, 0x002A, 0x002B]
        then Some DiscDVD
      else if p \<in> set [0x0040, 0x0041, 0x0042, 0x0043, 0x0050] then Some DiscBluRay
      else None)"

definition kindFromConfig :: "byte list \<Rightarrow> (disc_kind \<times> 16 word) option" where
  "kindFromConfig b =
     (if length b < 8 then None
      else let p = push_bit 8 (ucast (b ! 6)) OR ucast (b ! 7)
           in Some (case profiles p of Some k \<Rightarrow> k | None \<Rightarrow> DiscUnknown, p))"

section \<open>Finding drives\<close>

record drive =
  dv_StableID :: string
  dv_DevicePath :: string
  dv_Vendor :: string
  dv_Model :: string

text \<open>What the kernel shows: the names under \<^verbatim>\<open>/sys/block\<close>, the links under \<^verbatim>\<open>/dev/disk/by-id\<close> and
  \<^verbatim>\<open>/dev/disk/by-path\<close> with what they resolve to, and the identity strings of a device.\<close>

record sysfs =
  sf_block :: "string list option"
  sf_by_id :: "(string \<times> string option) list option"
  sf_by_path :: "(string \<times> string option) list option"
  sf_identity :: "string \<Rightarrow> string \<times> string"

definition srPattern :: "string \<Rightarrow> bool" where
  "srPattern s \<longleftrightarrow> prefix ''sr'' s \<and> length s > 2 \<and> list_all is_digit (drop 2 s)"

definition opticalDeviceNames :: "sysfs \<Rightarrow> string list option" where
  "opticalDeviceNames sf = map_option (\<lambda>ns. sort (filter srPattern ns)) (sf_block sf)"

definition links_to :: "string \<Rightarrow> (string \<times> string option) list \<Rightarrow> string list" where
  "links_to dev ls = map fst (filter (\<lambda>(n, t). case t of None \<Rightarrow> False | Some p \<Rightarrow> Base p = dev) ls)"

definition preferredID :: "string list \<Rightarrow> string" where
  "preferredID ids =
     (case List.find (\<lambda>i. \<not> prefix ''wwn-'' i) (sort ids) of Some i \<Rightarrow> i | None \<Rightarrow> sort ids ! 0)"

definition stableIDsByDevice :: "sysfs \<Rightarrow> string \<Rightarrow> string option" where
  "stableIDsByDevice sf dev =
     (case sf_by_id sf of
        None \<Rightarrow> None
      | Some ls \<Rightarrow> if srPattern dev \<and> links_to dev ls \<noteq> [] then Some (preferredID (links_to dev ls)) else None)"

definition deviceIdentity :: "sysfs \<Rightarrow> string \<Rightarrow> string \<times> string" where
  "deviceIdentity sf dev = (case sf_identity sf dev of (v, m) \<Rightarrow> (TrimSpace v, TrimSpace m))"

definition syntheticStableID :: "sysfs \<Rightarrow> string \<Rightarrow> string \<Rightarrow> string \<Rightarrow> string" where
  "syntheticStableID sf dev vendor model =
     (case (case sf_by_path sf of None \<Rightarrow> [] | Some ls \<Rightarrow> sort (links_to dev ls)) of
        p # ps \<Rightarrow> ''path-'' @ p
      | [] \<Rightarrow>
          (let ident = TrimSpace (vendor @ ''_'' @ model)
           in if ident = ''_'' \<or> ident = [] then ''dev-'' @ dev
              else ''hw-'' @ map (\<lambda>c. if c = CHR '' '' then CHR ''_'' else c) ident))"

definition drive_for :: "sysfs \<Rightarrow> string \<Rightarrow> drive" where
  "drive_for sf dev =
     (case deviceIdentity sf dev of (vendor, model) \<Rightarrow>
        \<lparr>dv_StableID = (case stableIDsByDevice sf dev of Some i \<Rightarrow> i | None \<Rightarrow> syntheticStableID sf dev vendor model),
         dv_DevicePath = Join [''/dev'', dev], dv_Vendor = vendor, dv_Model = model\<rparr>)"

definition Discover :: "sysfs \<Rightarrow> drive list option" where
  "Discover sf = map_option (\<lambda>ns. sort_key dv_StableID (map (drive_for sf) ns)) (opticalDeviceNames sf)"

definition ReadsBluRay :: "drive \<Rightarrow> bool" where
  "ReadsBluRay d \<longleftrightarrow> (let m = ToUpper (dv_Vendor d @ '' '' @ dv_Model d)
     in list_ex (\<lambda>s. contains m s) [''BD-RE'', ''BD-R'', ''BD-ROM'', ''BDRE'', ''BLU-RAY'', ''BLURAY'', ''UHD''])"

section \<open>The monitor\<close>

record drive_event =
  de_From :: status
  de_To :: status
  de_Err :: bool

record monitor =
  mo_current :: status
  mo_pending :: status
  mo_pendingAt :: int
  mo_started :: bool

definition initial_monitor :: monitor where
  "initial_monitor = \<lparr>mo_current = StatusUnknown, mo_pending = StatusUnknown, mo_pendingAt = 0, mo_started = False\<rparr>"

text \<open>Three seconds, in nanoseconds.\<close>

definition settle :: int where
  "settle = 3000000000"

definition emit :: "status \<Rightarrow> bool \<Rightarrow> monitor \<Rightarrow> monitor \<times> drive_event option" where
  "emit to err m = (m\<lparr>mo_current := to\<rparr>, Some \<lparr>de_From = mo_current m, de_To = to, de_Err = err\<rparr>)"

definition transient :: "status \<Rightarrow> bool" where
  "transient s \<longleftrightarrow> s = StatusNotReady \<or> s = StatusUnknown"

text \<open>One tick of \<^verbatim>\<open>Monitor.Run\<close>: the time, and the reading (\<^const>\<open>None\<close> when the drive could not be read).\<close>

fun poll :: "int \<times> status option \<Rightarrow> monitor \<Rightarrow> monitor \<times> drive_event option" where
  "poll (now, None) m =
     (if mo_current m \<noteq> StatusUnknown \<or> \<not> mo_started m then
        (case emit StatusUnknown True (m\<lparr>mo_started := True\<rparr>) of
           (m', ev) \<Rightarrow> (m'\<lparr>mo_pending := StatusUnknown\<rparr>, ev))
      else (m\<lparr>mo_pending := StatusUnknown\<rparr>, None))"
| "poll (now, Some status) m =
     (if \<not> mo_started m then
        (case emit status False (m\<lparr>mo_started := True, mo_current := StatusUnknown\<rparr>) of
           (m', ev) \<Rightarrow> (m'\<lparr>mo_pending := status\<rparr>, ev))
      else if status = mo_current m then (m\<lparr>mo_pending := status\<rparr>, None)
      else if transient status \<and> mo_pending m \<noteq> status then
        (m\<lparr>mo_pending := status, mo_pendingAt := now\<rparr>, None)
      else if transient status \<and> now - mo_pendingAt m < settle then (m, None)
      else emit status False (m\<lparr>mo_pending := status\<rparr>))"

fun polls :: "(int \<times> status option) list \<Rightarrow> monitor \<Rightarrow> monitor \<times> drive_event list" where
  "polls [] m = (m, [])"
| "polls (r # rs) m =
     (case poll r m of (m', ev) \<Rightarrow>
        (case polls rs m' of (m'', evs) \<Rightarrow> (m'', (case ev of None \<Rightarrow> evs | Some e \<Rightarrow> e # evs))))"

section \<open>Sense and regions\<close>

lemma parseSense_not_good: "\<not> sr_good (parseSense b)"
  by (simp add: parseSense_def zero_sense_def)

lemma and_bit_zero: "m AND 2 ^ i = 0 \<longleftrightarrow> \<not> bit (m :: byte) i"
  by (simp add: bit_iff_and_push_bit_not_eq_0 push_bit_eq_mult)

lemma mem_mask_regions: "k \<in> set (mask_regions m) \<longleftrightarrow> 1 \<le> k \<and> k \<le> 8 \<and> \<not> bit m (k - 1)"
proof -
  have "k \<in> set (mask_regions m) \<longleftrightarrow> (\<exists>i. i < 8 \<and> \<not> bit m i \<and> k = Suc i)"
    by (auto simp: mask_regions_def and_bit_zero)
  also have "\<dots> \<longleftrightarrow> 1 \<le> k \<and> k \<le> 8 \<and> \<not> bit m (k - 1)"
    by (cases k) (auto simp: less_Suc_eq_le)
  finally show ?thesis .
qed

lemma common_bit: "(NOT p) AND (NOT r) \<noteq> (0 :: byte) \<longleftrightarrow> (\<exists>i < 8. \<not> bit p i \<and> \<not> bit r i)"
proof -
  have "(NOT p) AND (NOT r) = (0 :: byte) \<longleftrightarrow> (\<forall>i < 8. bit p i \<or> bit r i)"
    by (auto simp: bit_eq_iff bit_and_iff bit_not_iff)
  then show ?thesis by auto
qed

lemma mask_full: "m \<noteq> (0xff :: byte) \<longleftrightarrow> (\<exists>i < 8. \<not> bit m i)"
proof -
  have "(0xff :: byte) = - 1" by simp
  then have "m = 0xff \<longleftrightarrow> (\<forall>i < 8. bit m i)" by (auto simp: bit_eq_iff bit_minus_1_iff)
  then show ?thesis by auto
qed

text \<open>The bit test decides exactly the question it stands for: an RPC-2 drive can read a protected disc
  when, and only when, there is a region that both the drive is set to and the disc allows. Whether
  the drive has a region at all and whether the disc is region-free make no difference to that.\<close>

theorem PlayableIn_iff_common_region:
  assumes "Protected p" and "rg_Scheme r = RPC2"
  shows "PlayableIn p r \<longleftrightarrow> (\<exists>k. k \<in> set (Protection_Regions p) \<and> k \<in> set (Region_Regions r))"
proof (cases "IsSet r")
  case False
  then show ?thesis using assms by (simp add: PlayableIn_def CanDecryptCSS_def Region_Regions_def)
next
  case True
  have "(\<exists>k. k \<in> set (Protection_Regions p) \<and> k \<in> set (Region_Regions r)) \<longleftrightarrow>
      (\<exists>k. 1 \<le> k \<and> k \<le> 8 \<and> \<not> bit (pr_RegionMask p) (k - 1) \<and> \<not> bit (rg_Mask r) (k - 1))"
    using True by (auto simp: Protection_Regions_def Region_Regions_def mem_mask_regions)
  also have "\<dots> \<longleftrightarrow> (\<exists>i < 8. \<not> bit (pr_RegionMask p) i \<and> \<not> bit (rg_Mask r) i)"
    by (rule iffI, metis Suc_pred' Suc_le_eq less_eq_Suc_le not_less_eq_eq One_nat_def le_simps(3),
        metis Suc_leI diff_Suc_1 le_add1 plus_1_eq_Suc)
  finally have common: "(\<exists>k. k \<in> set (Protection_Regions p) \<and> k \<in> set (Region_Regions r)) \<longleftrightarrow>
      (\<exists>i < 8. \<not> bit (pr_RegionMask p) i \<and> \<not> bit (rg_Mask r) i)" .
  have set_mask: "\<exists>i < 8. \<not> bit (rg_Mask r) i" using True mask_full [of "rg_Mask r"] by (simp add: IsSet_def)
  show ?thesis
  proof (cases "RegionFree p")
    case free: True
    then have "\<not> bit (pr_RegionMask p) i" for i by (simp add: RegionFree_def)
    then show ?thesis using True free assms common set_mask by (simp add: PlayableIn_def CanDecryptCSS_def)
  next
    case False
    then show ?thesis
      using True assms common common_bit [of "pr_RegionMask p" "rg_Mask r"] by (simp add: PlayableIn_def CanDecryptCSS_def)
  qed
qed

theorem PlayableIn_iff_common_region_witness:
  "Protected (parseCopyright [0, 6, 0, 0, 1, 0xfd]) \<and> \<not> PlayableIn (parseCopyright [0, 6, 0, 0, 1, 0xfd])
     (parseRPCState [0, 6, 0, 0, 0x64, 0xfe, 1, 0])
   \<and> (\<nexists>k. k \<in> set (Protection_Regions (parseCopyright [0, 6, 0, 0, 1, 0xfd]))
        \<and> k \<in> set (Region_Regions (parseRPCState [0, 6, 0, 0, 0x64, 0xfe, 1, 0])))"
proof -
  let ?p = "parseCopyright [0, 6, 0, 0, 1, 0xfd]" and ?r = "parseRPCState [0, 6, 0, 0, 0x64, 0xfe, 1, 0]"
  have "Protected ?p" "rg_Scheme ?r = RPC2" and n: "\<not> PlayableIn ?p ?r" by code_simp+
  then show ?thesis using PlayableIn_iff_common_region [of ?p ?r] by blast
qed

text \<open>Decoding a drive's region state loses nothing of the byte that packs three fields: the type code,
  the vendor resets and the user changes put back together are that byte, and each stays in its
  range, whatever the drive answers.\<close>

theorem parseRPCState_unpacks:
  assumes "7 \<le> length b"
  shows "push_bit 6 (rg_TypeCode (parseRPCState b)) OR push_bit 3 (rg_VendorResets (parseRPCState b))
      OR rg_UserChanges (parseRPCState b) = b ! 4
    \<and> rg_TypeCode (parseRPCState b) \<le> 3 \<and> rg_VendorResets (parseRPCState b) \<le> 7 \<and> rg_UserChanges (parseRPCState b) \<le> 7"
proof -
  define w :: byte where "w = b ! 4"
  have m3: "(3 :: byte) = mask 2" and m7: "(7 :: byte) = mask 3" by (simp_all add: mask_eq_exp_minus_1)
  have "push_bit 6 (drop_bit 6 w AND 3) OR push_bit 3 (drop_bit 3 w AND 7) OR (w AND 7) = w"
  proof (rule bit_eqI)
    fix n
    assume "possible_bit TYPE(byte) n"
    then have n: "n < 8" by simp
    show "bit (push_bit 6 (drop_bit 6 w AND 3) OR push_bit 3 (drop_bit 3 w AND 7) OR (w AND 7)) n = bit w n"
      unfolding m3 m7 using n
      by (cases "n < 6") (auto simp: bit_or_iff bit_push_bit_iff bit_and_iff bit_mask_iff bit_drop_bit_eq)
  qed
  moreover have "drop_bit 6 w AND 3 \<le> 3" "drop_bit 3 w AND 7 \<le> 7" "w AND 7 \<le> 7" by (rule word_and_le1)+
  ultimately show ?thesis using assms by (simp add: parseRPCState_def w_def)
qed

theorem parseRPCState_unpacks_witness:
  "rg_TypeCode (parseRPCState [0, 6, 0, 0, 0x64, 0xfe, 1, 0]) \<le> 3
   \<and> push_bit 6 (rg_TypeCode (parseRPCState [0, 6, 0, 0, 0x64, 0xfe, 1, 0]))
      OR push_bit 3 (rg_VendorResets (parseRPCState [0, 6, 0, 0, 0x64, 0xfe, 1, 0]))
      OR rg_UserChanges (parseRPCState [0, 6, 0, 0, 0x64, 0xfe, 1, 0]) = 0x64"
  using parseRPCState_unpacks [of "[0, 6, 0, 0, 0x64, 0xfe, 1, 0]"] by simp

section \<open>What the monitor reports\<close>

lemma polls_append:
  "polls (rs @ [r]) m = (case polls rs m of (m', evs) \<Rightarrow>
     (case poll r m' of (m'', ev) \<Rightarrow> (m'', evs @ (case ev of None \<Rightarrow> [] | Some e \<Rightarrow> [e]))))"
  by (induction rs arbitrary: m) (auto split: prod.splits option.splits)

text \<open>A status that is believed to be on its way has been read at every tick since it was first seen.\<close>

definition since_seen :: "(int \<times> status option) list \<Rightarrow> status \<Rightarrow> int \<Rightarrow> bool" where
  "since_seen rs s t \<longleftrightarrow> (\<exists>pre mid. rs = pre @ mid \<and> mid \<noteq> [] \<and> fst (hd mid) = t \<and> (\<forall>r \<in> set mid. snd r = Some s))"

lemma since_seen_new: "since_seen (rs @ [(t, Some s)]) s t"
  unfolding since_seen_def by (intro exI [of _ rs] exI [of _ "[(t, Some s)]"]) simp

lemma since_seen_more: "since_seen rs s t \<Longrightarrow> since_seen (rs @ [(now, Some s)]) s t"
proof -
  assume "since_seen rs s t"
  then obtain pre mid where "rs = pre @ mid" "mid \<noteq> []" "fst (hd mid) = t" "\<forall>r \<in> set mid. snd r = Some s"
    unfolding since_seen_def by blast
  then show ?thesis unfolding since_seen_def
    by (intro exI [of _ pre] exI [of _ "mid @ [(now, Some s)]"]) auto
qed

definition monitor_inv :: "(int \<times> status option) list \<Rightarrow> monitor \<Rightarrow> bool" where
  "monitor_inv rs m \<longleftrightarrow>
     (mo_started m \<longleftrightarrow> rs \<noteq> [])
     \<and> (mo_started m \<and> transient (mo_pending m) \<and> mo_pending m \<noteq> mo_current m
          \<longrightarrow> since_seen rs (mo_pending m) (mo_pendingAt m))"

lemma monitor_inv_initial: "monitor_inv [] initial_monitor"
  by (simp add: monitor_inv_def initial_monitor_def)

lemma monitor_inv_poll: "monitor_inv rs m \<Longrightarrow> monitor_inv (rs @ [r]) (fst (poll r m))"
proof (cases r)
  case (Pair now st)
  assume inv: "monitor_inv rs m"
  show ?thesis
  proof (cases st)
    case None
    then show ?thesis using inv Pair by (auto simp: monitor_inv_def emit_def)
  next
    case (Some s)
    have "since_seen (rs @ [(now, Some s)]) s (mo_pendingAt m)" if "since_seen rs s (mo_pendingAt m)"
      using that by (rule since_seen_more)
    then show ?thesis using inv Pair Some since_seen_new [of rs now s]
      by (auto simp: monitor_inv_def emit_def transient_def)
  qed
qed

lemma polls_inv: "monitor_inv rs (fst (polls rs initial_monitor))"
proof (induction rs rule: rev_induct)
  case Nil
  show ?case by (simp add: monitor_inv_initial)
next
  case (snoc r rs)
  obtain m evs where p: "polls rs initial_monitor = (m, evs)" by fastforce
  have "monitor_inv (rs @ [r]) (fst (poll r m))" by (rule monitor_inv_poll) (use snoc p in simp)
  then show ?case by (cases "poll r m") (simp add: polls_append p)
qed

text \<open>The monitor reports every settled status at the tick that reads it and believes a transient one
  only once it has been read at every tick for three seconds. After a tick that read a disc, an open
  tray, an empty drive or an unreadable disc, that is what the monitor holds; an event that says not
  ready or unknown, other than the very first one or a drive that could not be read, comes only after
  an unbroken run of that reading at least three seconds long.\<close>

theorem monitor_believes_settled_and_persistent:
  assumes "polls rs initial_monitor = (m, evs)" and "poll (now, Some s) m = (m', ev)"
  shows "(\<not> transient s \<longrightarrow> mo_current m' = s)
    \<and> (\<forall>e. ev = Some e \<longrightarrow> de_To e = s \<and> \<not> de_Err e \<and> mo_current m' = s
         \<and> (transient s \<and> rs \<noteq> [] \<longrightarrow> (\<exists>t. since_seen rs s t \<and> settle \<le> now - t)))
    \<and> (ev = None \<longrightarrow> mo_current m' = mo_current m)"
proof -
  have inv: "monitor_inv rs m" using polls_inv [of rs] assms(1) by simp
  show ?thesis
  proof (cases "mo_started m \<and> s \<noteq> mo_current m \<and> transient s")
    case True
    then show ?thesis using assms(2) inv by (auto simp: monitor_inv_def emit_def split: if_splits)
  next
    case False
    then show ?thesis using assms(2) inv by (auto simp: monitor_inv_def emit_def split: if_splits)
  qed
qed

theorem monitor_believes_settled_and_persistent_witness:
  "\<exists>m evs m'. polls [(0, Some StatusTrayOpen), (2000000000, Some StatusNotReady), (4000000000, Some StatusNotReady)] initial_monitor = (m, evs)
     \<and> poll (6000000000, Some StatusNotReady) m = (m', Some \<lparr>de_From = StatusTrayOpen, de_To = StatusNotReady, de_Err = False\<rparr>)
     \<and> mo_current m' = StatusNotReady"
proof -
  let ?rs = "[(0, Some StatusTrayOpen), (2000000000, Some StatusNotReady), (4000000000, Some StatusNotReady)]"
  obtain m evs where p: "polls ?rs initial_monitor = (m, evs)" by fastforce
  obtain m' ev where q: "poll (6000000000, Some StatusNotReady) m = (m', ev)" by fastforce
  have "snd (poll (6000000000, Some StatusNotReady) (fst (polls ?rs initial_monitor))) =
      Some \<lparr>de_From = StatusTrayOpen, de_To = StatusNotReady, de_Err = False\<rparr>" by code_simp
  then have "ev = Some \<lparr>de_From = StatusTrayOpen, de_To = StatusNotReady, de_Err = False\<rparr>"
    unfolding p fst_conv q snd_conv .
  with monitor_believes_settled_and_persistent [OF p q] p q show ?thesis by blast
qed

text \<open>The events form one chain: each starts at the status the one before it reported.\<close>

fun event_chain :: "status \<Rightarrow> drive_event list \<Rightarrow> bool" where
  "event_chain s [] = True"
| "event_chain s (e # es) = (de_From e = s \<and> event_chain (de_To e) es)"

lemma polls_chain: "mo_started m \<Longrightarrow> polls rs m = (m', evs) \<Longrightarrow> event_chain (mo_current m) evs"
proof (induction rs m arbitrary: evs m' rule: polls.induct)
  case (2 r rs m)
  obtain m1 ev where p: "poll r m = (m1, ev)" by fastforce
  obtain m2 evs1 where q: "polls rs m1 = (m2, evs1)" by fastforce
  have st: "mo_started m1 \<and> (case ev of None \<Rightarrow> mo_current m1 = mo_current m
      | Some e \<Rightarrow> de_From e = mo_current m \<and> mo_current m1 = de_To e)"
    using p "2.prems"(1) by (cases r; cases "snd r") (auto simp: emit_def split: if_splits)
  then have "event_chain (mo_current m1) evs1" using "2.IH" [OF p [symmetric] _ q] by simp
  then show ?case using "2.prems"(2) p q st by (auto split: option.splits)
qed simp

end
