(* ===== verification/Drive_Io.thy ===== *)
theory Drive_Io
  imports Drive
begin

text \<open>
  The commands a drive is sent, \<^verbatim>\<open>internal/drive/scsi_linux.go\<close>, \<^verbatim>\<open>region_linux.go\<close>, \<^verbatim>\<open>protection_linux.go\<close>,
  \<^verbatim>\<open>profile_linux.go\<close> and \<^verbatim>\<open>ioctl_linux.go\<close>. The kernel is an argument: whether the device opens, and what each \<^verbatim>\<open>ioctl\<close>
  does, given the command block and the length asked for. The lemmas show when an answer is believed and what is done
  before the tray is opened.
\<close>

section \<open>The kernel\<close>

record sg_reply =
  sg_status :: byte
  sg_hostStatus :: nat
  sg_driverStatus :: nat
  sg_sbLenWr :: nat
  sg_sense :: "byte list"
  sg_data :: "byte list"

text \<open>An \<^verbatim>\<open>ioctl\<close> by its number: \<^verbatim>\<open>CDROM_DRIVE_STATUS\<close> returns its answer; the door and the tray only succeed or fail.\<close>

record kernel =
  kn_open :: "string option"
  kn_sg :: "byte list \<Rightarrow> nat \<Rightarrow> string + sg_reply"
  kn_ioctl :: "nat \<Rightarrow> nat \<Rightarrow> string + int"

definition senseBufLen :: nat where "senseBufLen = 32"

text \<open>The sense buffer is 32 bytes, and so much of it counts as the kernel says it wrote.\<close>

definition sense_bytes :: "sg_reply \<Rightarrow> byte list" where
  "sense_bytes h = take (sg_sbLenWr h) (take senseBufLen (sg_sense h @ replicate senseBufLen 0))"

definition data_bytes :: "nat \<Rightarrow> sg_reply \<Rightarrow> byte list" where
  "data_bytes n h = take n (sg_data h @ replicate n 0)"

section \<open>Commands\<close>

definition hex2 :: "byte \<Rightarrow> string" where
  "hex2 b = (let d = (\<lambda>n. if n < 10 then char_of (48 + n) else char_of (87 + n)); n = unat b in [d (n div 16), d (n mod 16)])"

definition tur_cdb :: "byte list" where
  "tur_cdb = [0, 0, 0, 0, 0, 0]"

definition testUnitReady :: "kernel \<Rightarrow> string \<Rightarrow> string + senseResult" where
  "testUnitReady k path =
     (case kn_open k of
        Some e \<Rightarrow> Inl (''open '' @ path @ '': '' @ e)
      | None \<Rightarrow>
          (case kn_sg k tur_cdb 0 of
             Inl e \<Rightarrow> Inl (''SG_IO on '' @ path @ '': '' @ e)
           | Inr h \<Rightarrow>
               if sg_status h = 0 \<and> sg_hostStatus h = 0 \<and> sg_driverStatus h mod 16 = 0 then Inr (zero_sense\<lparr>sr_good := True\<rparr>)
               else if sg_sbLenWr h < 14
               then Inl (''SG_IO on '' @ path @ '': status 0x'' @ hex2 (sg_status h) @ '' with no sense data'')
               else Inr (parseSense (sense_bytes h))))"

text \<open>A command that reads: the name it goes by in an error, its block and how much it asks for.\<close>

definition scsi_read :: "string \<Rightarrow> byte list \<Rightarrow> nat \<Rightarrow> kernel \<Rightarrow> string \<Rightarrow> string + byte list" where
  "scsi_read name cdb n k path =
     (case kn_open k of
        Some e \<Rightarrow> Inl (''open '' @ path @ '': '' @ e)
      | None \<Rightarrow>
          (case kn_sg k cdb n of
             Inl e \<Rightarrow> Inl (name @ '' on '' @ path @ '': '' @ e)
           | Inr h \<Rightarrow> if sg_status h \<noteq> 0 then Inl (name @ '' on '' @ path @ '': scsi status 0x'' @ hex2 (sg_status h))
                      else Inr (data_bytes n h)))"

definition rpc_cdb :: "byte list" where
  "rpc_cdb = [0xa4, 0, 0, 0, 0, 0, 0, 0, 0, 8, 0x08, 0]"

definition ReadRegion :: "kernel \<Rightarrow> string \<Rightarrow> string + region" where
  "ReadRegion k path = map_sum id parseRPCState (scsi_read ''REPORT KEY'' rpc_cdb 8 k path)"

definition copyright_cdb :: "byte list" where
  "copyright_cdb = [0xad, 0, 0, 0, 0, 0, 0, 0x01, 0, 8, 0, 0]"

definition ReadProtection :: "kernel \<Rightarrow> string \<Rightarrow> string + protection" where
  "ReadProtection k path = map_sum id parseCopyright (scsi_read ''READ DISC STRUCTURE'' copyright_cdb 8 k path)"

definition config_cdb :: "byte list" where
  "config_cdb = [0x46, 0x01, 0, 0, 0, 0, 0, 0, 8, 0]"

definition ReadDiscKind :: "kernel \<Rightarrow> string \<Rightarrow> string + disc_kind \<times> 16 word" where
  "ReadDiscKind k path =
     (case scsi_read ''GET CONFIGURATION'' config_cdb 8 k path of
        Inl e \<Rightarrow> Inl e
      | Inr b \<Rightarrow> (case kindFromConfig b of None \<Rightarrow> Inl ''short GET CONFIGURATION response'' | Some r \<Rightarrow> Inr r))"

definition cdromEject :: nat where "cdromEject = 0x5309"
definition cdromCloseTray :: nat where "cdromCloseTray = 0x5319"
definition cdromDriveStatus :: nat where "cdromDriveStatus = 0x5326"
definition cdromLockDoor :: nat where "cdromLockDoor = 0x5329"
definition cdslCurrent :: nat where "cdslCurrent = 0x7fffffff"

definition drive_ioctl :: "kernel \<Rightarrow> string \<Rightarrow> string + status" where
  "drive_ioctl k path =
     (case kn_open k of
        Some e \<Rightarrow> Inl (''open '' @ path @ '': '' @ e)
      | None \<Rightarrow>
          (case kn_ioctl k cdromDriveStatus cdslCurrent of
             Inl e \<Rightarrow> Inl (''CDROM_DRIVE_STATUS on '' @ path @ '': '' @ e)
           | Inr r \<Rightarrow> Inr (the (queryStatusIoctl (Some r)))))"

definition drive_status_now :: "kernel \<Rightarrow> string \<Rightarrow> string + status" where
  "drive_status_now k path =
     (case testUnitReady k path of Inr r \<Rightarrow> Inr (statusFromSense r) | Inl e \<Rightarrow> drive_ioctl k path)"

text \<open>The calls an operation makes on the tray, in order, and its error.\<close>

definition tray_eject :: "kernel \<Rightarrow> string \<Rightarrow> (nat \<times> nat) list \<times> string option" where
  "tray_eject k path =
     (case kn_open k of
        Some e \<Rightarrow> ([], Some (''open '' @ path @ '': '' @ e))
      | None \<Rightarrow>
          ([(cdromLockDoor, 0), (cdromEject, 0)],
           case kn_ioctl k cdromEject 0 of Inl e \<Rightarrow> Some (''CDROMEJECT on '' @ path @ '': '' @ e) | Inr r \<Rightarrow> None))"

definition closeTray :: "kernel \<Rightarrow> string \<Rightarrow> (nat \<times> nat) list \<times> string option" where
  "closeTray k path =
     (case kn_open k of
        Some e \<Rightarrow> ([], Some (''open '' @ path @ '': '' @ e))
      | None \<Rightarrow>
          ([(cdromCloseTray, 0)],
           case kn_ioctl k cdromCloseTray 0 of Inl e \<Rightarrow> Some (''CDROMCLOSETRAY on '' @ path @ '': '' @ e) | Inr r \<Rightarrow> None))"

section \<open>What is believed\<close>

lemma length_data_bytes [simp]: "length (data_bytes n h) = n"
  by (simp add: data_bytes_def)

text \<open>Asking for the configuration never comes back too short to read.\<close>

lemma ReadDiscKind_answers: "scsi_read ''GET CONFIGURATION'' config_cdb 8 k path = Inr b \<Longrightarrow> \<exists>r. ReadDiscKind k path = Inr r"
  by (auto simp: ReadDiscKind_def scsi_read_def kindFromConfig_def Let_def split: option.splits sum.splits if_splits)

text \<open>A drive's own answer to TEST UNIT READY goes before the kernel's: a drive that answers that it holds no medium is
  never taken to hold a disc, whatever the older call says, which is asked only when the drive gave no answer.\<close>

theorem drive_answer_goes_first:
  assumes "kn_open k = None" "kn_sg k tur_cdb 0 = Inr h" "sg_status h \<noteq> 0" "14 \<le> sg_sbLenWr h" "sg_sbLenWr h \<le> senseBufLen"
    and "length (sg_sense h) = senseBufLen" "sg_sense h ! 0 AND 0x7f = 0x70" "sg_sense h ! 12 = ascMediumNotPresent"
  shows "drive_status_now k path = Inr (if sg_sense h ! 13 = 0x02 then StatusTrayOpen else StatusNoDisc)"
proof -
  let ?b = "sense_bytes h"
  have len: "length ?b = sg_sbLenWr h" using assms(5, 6) by (simp add: sense_bytes_def)
  have nth: "i < 14 \<Longrightarrow> ?b ! i = sg_sense h ! i" for i using assms(4-6) by (simp add: sense_bytes_def nth_append senseBufLen_def)
  have "parseSense ?b = zero_sense\<lparr>sr_senseKey := ?b ! 2 AND 0x0f, sr_asc := ?b ! 12, sr_ascq := ?b ! 13\<rparr>"
    using assms(4, 7) len nth [of 0] by (simp add: parseSense_def)
  moreover have "testUnitReady k path = Inr (parseSense ?b)" using assms by (simp add: testUnitReady_def)
  ultimately show ?thesis using nth [of 12] nth [of 13] assms(8)
    by (simp add: drive_status_now_def statusFromSense_def zero_sense_def)
qed

text \<open>The door is unlocked before the tray is opened, always.\<close>

lemma eject_unlocks_first: "fst (tray_eject k path) \<in> {[], [(cdromLockDoor, 0), (cdromEject, 0)]}"
  by (simp add: tray_eject_def split: option.splits)

definition lying_drive :: kernel where
  "lying_drive = \<lparr>kn_open = None,
     kn_sg = (\<lambda>cdb n. Inr \<lparr>sg_status = 2, sg_hostStatus = 0, sg_driverStatus = 0, sg_sbLenWr = 18,
       sg_sense = [0x70, 0, 2, 0, 0, 0, 0, 10, 0, 0, 0, 0, 0x3a, 0x02] @ replicate 18 0, sg_data = []\<rparr>),
     kn_ioctl = (\<lambda>c a. Inr 4)\<rparr>"

theorem drive_answer_goes_first_witness: "drive_status_now lying_drive ''/dev/sr0'' = Inr StatusTrayOpen"
proof -
  define h where "h = \<lparr>sg_status = 2 :: byte, sg_hostStatus = 0, sg_driverStatus = 0, sg_sbLenWr = 18,
       sg_sense = [0x70, 0, 2, 0, 0, 0, 0, 10, 0, 0, 0, 0, 0x3a, 0x02] @ replicate 18 (0 :: byte), sg_data = []\<rparr>"
  have "kn_sg lying_drive tur_cdb 0 = Inr h" by (simp add: lying_drive_def h_def)
  from drive_answer_goes_first [OF _ this, of "''/dev/sr0''"] show ?thesis
    by (simp add: lying_drive_def h_def senseBufLen_def ascMediumNotPresent_def)
qed

end
