(* ===== verification/Dvd.thy ===== *)
theory Dvd
  imports Disc Go_Path Config
begin

text \<open>
  \<^verbatim>\<open>internal/dvd/dvd.go\<close> and \<^verbatim>\<open>extract.go\<close>: a DVD's titles as ffprobe's \<^verbatim>\<open>dvdvideo\<close> demuxer shows them, and the copying of
  one title by ffmpeg with its watchdog.

  What ffprobe answers for each title number, how ffmpeg ran, and when the caller's context ended are arguments. A
  duration is given in microseconds, with \<^const>\<open>None\<close> for a text that is not a number; ffprobe prints six decimals.
  The lemmas show that the titles found are the numbers before the first empty one and keep their numbers when they
  are filtered and extracted, and that the watchdog fires exactly when the output has not advanced for longer than
  its timeout, whatever else is printed.
\<close>

section \<open>Probes\<close>

text \<open>A tag or disposition that is absent reads as \<^verbatim>\<open>""\<close> or 0, and so does every one of a nil map.\<close>

record probe_stream =
  ps_Index :: int
  ps_CodecName :: string
  ps_CodecType :: string
  ps_Width :: int
  ps_Height :: int
  ps_DisplayAspect :: string
  ps_AvgFrameRate :: string
  ps_RFrameRate :: string
  ps_Channels :: int
  ps_SampleRate :: string
  ps_Disposition :: "string \<rightharpoonup> int"
  ps_Tags :: "string \<rightharpoonup> string"

record probe_result =
  pb_Duration :: "int option"
  pb_Chapters :: nat
  pb_Streams :: "probe_stream list"

definition probe_durationSecs :: "probe_result \<Rightarrow> int" where
  "probe_durationSecs p = (case pb_Duration p of None \<Rightarrow> 0 | Some us \<Rightarrow> if us \<le> 0 then 0 else us div 1000000)"

definition tag :: "probe_stream \<Rightarrow> string \<Rightarrow> string" where
  "tag s k = (case ps_Tags s k of None \<Rightarrow> [] | Some v \<Rightarrow> v)"

definition probe_stream_stream :: "probe_stream \<Rightarrow> stream" where
  "probe_stream_stream s =
     empty_stream\<lparr>st_Index := ps_Index s, st_Kind := ps_CodecType s, st_Codec := ps_CodecName s,
       st_Channels := ps_Channels s, st_SampleRate := ps_SampleRate s, st_AspectRatio := ps_DisplayAspect s,
       st_FrameRate := ps_RFrameRate s,
       st_Resolution := (if ps_Width s > 0 \<and> ps_Height s > 0 then int_str (ps_Width s) @ ''x'' @ int_str (ps_Height s) else []),
       st_Language := tag s ''language'', st_Name := tag s ''VIEWPORT'',
       st_Flags := join_with '','' (filter (\<lambda>k. ps_Disposition s k = Some 1) [''default'', ''forced''])\<rparr>"

definition probe_title :: "probe_result \<Rightarrow> nat \<Rightarrow> title" where
  "probe_title p index =
     empty_title\<lparr>ti_Index := int index, ti_DurationSecs := probe_durationSecs p, ti_Chapters := int (pb_Chapters p),
       ti_OutputFile := TitleFileName (int index), ti_Streams := map probe_stream_stream (pb_Streams p)\<rparr>"

definition probeTitle_args :: "string \<Rightarrow> nat \<Rightarrow> string list" where
  "probeTitle_args src n =
     [''-hide_banner'', ''-v'', ''quiet'', ''-f'', ''dvdvideo'', ''-title'', nat_str n, ''-region'', ''0'', ''-i'', src,
      ''-show_format'', ''-show_streams'', ''-show_chapters'', ''-of'', ''json'']"

definition maxTitles :: nat where
  "maxTitles = 99"

section \<open>Enumeration\<close>

text \<open>The sweep: \<^verbatim>\<open>stop n\<close> is the context's error just before title \<^verbatim>\<open>n\<close> is probed, \<^verbatim>\<open>probe n\<close> how the probe went.\<close>

fun enum_titles :: "(nat \<Rightarrow> string option) \<Rightarrow> (nat \<Rightarrow> string + probe_result) \<Rightarrow> nat list \<Rightarrow> title list \<Rightarrow> string + title list" where
  "enum_titles stop probe [] ts = Inr ts"
| "enum_titles stop probe (n # ns) ts =
     (case stop n of
        Some e \<Rightarrow> Inl e
      | None \<Rightarrow>
          (case probe n of
             Inl e \<Rightarrow> Inr ts
           | Inr p \<Rightarrow> if probe_durationSecs p \<le> 0 then Inr ts
                      else enum_titles stop probe ns (ts @ [probe_title p (length ts)])))"

definition dvd_Enumerate :: "(nat \<Rightarrow> string option) \<Rightarrow> (nat \<Rightarrow> string + probe_result) \<Rightarrow> string \<Rightarrow> string + disc" where
  "dvd_Enumerate stop probe src =
     (case enum_titles stop probe [1..<maxTitles + 1] [] of
        Inl e \<Rightarrow> Inl e
      | Inr ts \<Rightarrow> if ts = [] then Inl (''no titles found on '' @ src)
                  else Inr (empty_disc\<lparr>di_Type := TypeDVD, di_Titles := ts\<rparr>))"

definition min_seconds :: "int \<Rightarrow> int" where
  "min_seconds m = (if m \<le> 0 then 60 else m)"

definition Filtered :: "int \<Rightarrow> title list \<Rightarrow> title list" where
  "Filtered minSeconds ts = filter (\<lambda>t. ti_DurationSecs t \<ge> min_seconds minSeconds) ts"

section \<open>PAL\<close>

text \<open>\<^verbatim>\<open>strconv.ParseFloat\<close> on a plain decimal: numerator and denominator. ffprobe writes a frame rate as two whole
  numbers; exponents, hexadecimal and infinities, which it never writes, are not numbers here. Quotients of such
  numbers are far enough from 24.9 and 25.1, or equal to them, for \<^verbatim>\<open>float64\<close> to compare them right.\<close>

definition parse_decimal :: "string \<Rightarrow> (int \<times> int) option" where
  "parse_decimal s =
     (let neg = prefix ''-'' s; u = (if prefix ''-'' s \<or> prefix ''+'' s then tl s else s);
          a = takeWhile is_digit u; r = dropWhile is_digit u;
          b = (case r of [] \<Rightarrow> Some [] | c # t \<Rightarrow> if c = CHR ''.'' \<and> list_all is_digit t then Some t else None)
      in case b of
           None \<Rightarrow> None
         | Some f \<Rightarrow> if a @ f = [] then None
                     else Some ((if neg then - 1 else 1) * int (digits_value (a @ f)), 10 ^ length f))"

definition rateIs25 :: "string \<Rightarrow> bool" where
  "rateIs25 rate =
     (let r = TrimSpace rate; num = takeWhile (\<lambda>c. c \<noteq> SLASH) r
      in if r = [] then False
         else if num = r then r = ''25''
         else case (parse_decimal num, parse_decimal (drop (length num + 1) r)) of
                (Some (n, n'), Some (d, d')) \<Rightarrow>
                  if d = 0 then False
                  else let p = 10 * n * d' * sgn d; q = \<bar>d\<bar> * n' in 249 * q < p \<and> p < 251 * q
              | _ \<Rightarrow> False)"

definition pal_stream :: "stream \<Rightarrow> bool" where
  "pal_stream s \<longleftrightarrow> st_Kind s = ''video'' \<and> (suffix ''x576'' (st_Resolution s) \<or> rateIs25 (st_FrameRate s))"

definition PAL :: "title list \<Rightarrow> bool" where
  "PAL ts \<longleftrightarrow> list_ex (\<lambda>t. list_ex pal_stream (ti_Streams t)) ts"

text \<open>\<^verbatim>\<open>TrueSeconds\<close>: 25/24 of the running time, to the nearest second and halves up.\<close>

definition TrueSeconds :: "int \<Rightarrow> int" where
  "TrueSeconds palSeconds = go_div (50 * palSeconds + 24) 48"

section \<open>Extraction\<close>

record extractor =
  ex_FFmpegBin :: string
  ex_Preindex :: bool
  ex_StallTimeout :: int

definition extract_args :: "extractor \<Rightarrow> string \<Rightarrow> title \<Rightarrow> string \<Rightarrow> string list" where
  "extract_args e src t dest =
     [''-hide_banner'', ''-nostdin'', ''-y'', ''-f'', ''dvdvideo'', ''-preindex'', if ex_Preindex e then ''1'' else ''0'',
      ''-region'', ''0'', ''-title'', int_str (ti_Index t + 1), ''-i'', src, ''-map'', ''0'', ''-c'', ''copy'',
      ''-avoid_negative_ts'', ''make_zero'', ''-progress'', ''pipe:1'', ''-nostats'', dest]"

text \<open>What the reader and the watchdog meet, in the order of time: a line of the progress stream, a tick of the
  watchdog's clock, the end of the context. The watchdog returns when it has fired or the context has ended.\<close>

datatype watch_event = OutLine string int | Tick int | CtxDone

record watch_state =
  wt_at :: int
  wt_out :: int
  wt_cur :: int
  wt_over :: bool
  wt_stalled :: bool
  wt_told :: "int list"

definition cut_line :: "string \<Rightarrow> (string \<times> string) option" where
  "cut_line l = (let s = TrimSpace l; k = takeWhile (\<lambda>c. c \<noteq> CHR ''='') s in if k = s then None else Some (k, drop (length k + 1) s))"

text \<open>The output time a line reports, in nanoseconds.\<close>

definition out_time :: "string \<Rightarrow> int option" where
  "out_time l =
     (case cut_line l of
        None \<Rightarrow> None
      | Some (key, v) \<Rightarrow>
          if key = ''out_time_us'' \<or> key = ''out_time_ms''
          then (case Atoi v of None \<Rightarrow> None | Some us \<Rightarrow> if us < 0 then None else Some (wrap64 (us * 1000)))
          else None)"

fun watch_step :: "int \<Rightarrow> watch_event \<Rightarrow> watch_state \<Rightarrow> watch_state" where
  "watch_step tmo (OutLine l now) st =
     (case out_time l of
        Some out \<Rightarrow> (let st1 = st\<lparr>wt_cur := out\<rparr> in if out > wt_out st then st1\<lparr>wt_at := now, wt_out := out\<rparr> else st1)
      | None \<Rightarrow> (case cut_line l of
                   Some (key, v) \<Rightarrow> if key = ''progress'' then st\<lparr>wt_told := wt_told st @ [wt_cur st]\<rparr> else st
                 | None \<Rightarrow> st))"
| "watch_step tmo (Tick now) st =
     (if tmo > 0 \<and> \<not> wt_over st \<and> now - wt_at st > tmo then st\<lparr>wt_stalled := True, wt_over := True\<rparr> else st)"
| "watch_step tmo CtxDone st = st\<lparr>wt_over := True\<rparr>"

definition watch_start :: "int \<Rightarrow> watch_state" where
  "watch_start now = \<lparr>wt_at = now, wt_out = 0, wt_cur = 0, wt_over = False, wt_stalled = False, wt_told = []\<rparr>"

definition watch_run :: "int \<Rightarrow> int \<Rightarrow> watch_event list \<Rightarrow> watch_state" where
  "watch_run tmo now es = fold (watch_step tmo) es (watch_start now)"

text \<open>One extraction: what each call gave, what ffmpeg left at the destination and what was there before.\<close>

record extract_env =
  xe_mkdir :: "string option"
  xe_pipe :: "string option"
  xe_start :: "string option"
  xe_now :: int
  xe_events :: "watch_event list"
  xe_ctx :: "string option"
  xe_wait :: "string option"
  xe_stderr :: string
  xe_before :: "int option"
  xe_left :: "int option"

definition dvd_lastLines :: "string \<Rightarrow> nat \<Rightarrow> string" where
  "dvd_lastLines s n =
     (let ls = split_on NL (TrimRight s [NL]) in join_with ''; '' (if length ls > n then drop (length ls - n) ls else ls))"

text \<open>The error, or the size of the finished file; and the size of what is at the destination afterwards.
  \<^verbatim>\<open>dur\<close> prints the timeout.\<close>

definition Extract :: "(int \<Rightarrow> string) \<Rightarrow> extractor \<Rightarrow> extract_env \<Rightarrow> string \<Rightarrow> (string + int) \<times> int option" where
  "Extract dur e env dest =
     (case xe_mkdir env of
        Some m \<Rightarrow> (Inl (''create '' @ Dir dest @ '': '' @ m), xe_before env)
      | None \<Rightarrow>
          (case xe_pipe env of
             Some m \<Rightarrow> (Inl (''stdout pipe: '' @ m), xe_before env)
           | None \<Rightarrow>
               (case xe_start env of
                  Some m \<Rightarrow> (Inl (''start ffmpeg: '' @ m), xe_before env)
                | None \<Rightarrow>
                    if wt_stalled (watch_run (ex_StallTimeout e) (xe_now env) (xe_events env))
                    then (Inl (''no progress for '' @ dur (ex_StallTimeout e)), None)
                    else case xe_ctx env of
                           Some c \<Rightarrow> (Inl c, None)
                         | None \<Rightarrow>
                             (case xe_wait env of
                                Some w \<Rightarrow> (Inl (''ffmpeg: '' @ w @ '': '' @ dvd_lastLines (xe_stderr env) 3), xe_left env)
                              | None \<Rightarrow>
                                  (case xe_left env of
                                     None \<Rightarrow> (Inl (''ffmpeg reported success but wrote nothing to '' @ dest), None)
                                   | Some sz \<Rightarrow> (Inr sz, Some sz))))))"

section \<open>Titles keep their numbers\<close>

definition title_there :: "(nat \<Rightarrow> string + probe_result) \<Rightarrow> nat \<Rightarrow> bool" where
  "title_there probe n = (case probe n of Inl e \<Rightarrow> False | Inr p \<Rightarrow> probe_durationSecs p > 0)"

definition title_at :: "(nat \<Rightarrow> string + probe_result) \<Rightarrow> nat \<Rightarrow> title" where
  "title_at probe i = probe_title (projr (probe (i + 1))) i"

text \<open>The sweep from a title on: the numbers up to the first that is not there, unless the context ends before.\<close>

lemma enum_titles_run:
  assumes "enum_titles stop probe [Suc a..<Suc b] (map (title_at probe) [0..<a]) = Inr ts" "a \<le> b"
  shows "\<exists>k \<le> b. a \<le> k \<and> ts = map (title_at probe) [0..<k] \<and> (\<forall>n. a < n \<and> n \<le> k \<longrightarrow> title_there probe n)
           \<and> (k < b \<longrightarrow> \<not> title_there probe (Suc k))"
  using assms
proof (induction "b - a" arbitrary: a)
  case 0
  then show ?case by auto
next
  case (Suc m)
  then have up: "[Suc a..<Suc b] = Suc a # [Suc (Suc a)..<Suc b]" by (simp add: upt_conv_Cons del: upt_Suc)
  from Suc(3) have go: "stop (Suc a) = None" by (auto simp: up simp del: upt_Suc split: option.splits)
  show ?case
  proof (cases "title_there probe (Suc a)")
    case False
    then have "ts = map (title_at probe) [0..<a]"
      using Suc(3) go by (auto simp: up title_there_def simp del: upt_Suc split: sum.splits)
    then show ?thesis using False Suc(2, 4) by (intro exI [of _ a]) auto
  next
    case True
    then obtain p where p: "probe (Suc a) = Inr p" "\<not> probe_durationSecs p \<le> 0" by (auto simp: title_there_def split: sum.splits)
    have "map (title_at probe) [0..<a] @ [probe_title p a] = map (title_at probe) [0..<Suc a]" by (simp add: title_at_def p)
    then have rest: "enum_titles stop probe [Suc (Suc a)..<Suc b] (map (title_at probe) [0..<Suc a]) = Inr ts"
      using Suc(3) go p by (simp add: up del: upt_Suc)
    have "m = b - Suc a" "Suc a \<le> b" using Suc(2) by simp_all
    from Suc(1) [OF this(1) rest this(2)] obtain k where k: "k \<le> b" "Suc a \<le> k" "ts = map (title_at probe) [0..<k]"
        "\<forall>n. Suc a < n \<and> n \<le> k \<longrightarrow> title_there probe n" "k < b \<longrightarrow> \<not> title_there probe (Suc k)" by blast
    have "title_there probe n" if "a < n" "n \<le> k" for n
      using that True k(4) by (cases "n = Suc a") auto
    then show ?thesis using k by (intro exI [of _ k]) auto
  qed
qed

lemma dvd_Enumerate_titles:
  assumes "dvd_Enumerate stop probe src = Inr d"
  obtains k where "0 < k" "k \<le> maxTitles" "di_Titles d = map (title_at probe) [0..<k]"
    "\<And>n. 0 < n \<Longrightarrow> n \<le> k \<Longrightarrow> title_there probe n" "k < maxTitles \<Longrightarrow> \<not> title_there probe (Suc k)"
proof -
  from assms obtain ts where ts: "enum_titles stop probe [1..<maxTitles + 1] [] = Inr ts" "ts \<noteq> []" "di_Titles d = ts"
    by (auto simp: dvd_Enumerate_def split: sum.splits if_splits)
  have "enum_titles stop probe [Suc 0..<Suc maxTitles] (map (title_at probe) [0..<0]) = Inr ts" using ts(1) by simp
  from enum_titles_run [OF this] obtain k where "k \<le> maxTitles" "ts = map (title_at probe) [0..<k]"
      "\<forall>n. 0 < n \<and> n \<le> k \<longrightarrow> title_there probe n" "k < maxTitles \<longrightarrow> \<not> title_there probe (Suc k)" by auto
  then show thesis using that [of k] ts(2, 3) by auto
qed

text \<open>A title that is kept is the one its number names: title \<^verbatim>\<open>i\<close> of a disc is the one ffprobe described as
  \<^verbatim>\<open>i + 1\<close>, every number up to it is a title, it runs long enough, and it is \<^verbatim>\<open>i + 1\<close> that ffmpeg is asked for when
  it is extracted; and every title long enough before the first number with nothing in it is kept.\<close>

theorem dvd_titles_keep_their_numbers:
  assumes "dvd_Enumerate stop probe src = Inr d"
  shows "map ti_Index (di_Titles d) = map int [0..<length (di_Titles d)] \<and>
     (t \<in> set (Filtered m (di_Titles d)) \<longleftrightarrow>
      (\<exists>i < maxTitles. (\<forall>n. 0 < n \<and> n \<le> i + 1 \<longrightarrow> title_there probe n) \<and> t = title_at probe i \<and>
         min_seconds m \<le> ti_DurationSecs t \<and> ti_Index t = int i \<and>
         extract_args e src t dest ! 10 = probeTitle_args src (i + 1) ! 6))"
proof -
  obtain k where k: "0 < k" "k \<le> maxTitles" "di_Titles d = map (title_at probe) [0..<k]"
    "\<And>n. 0 < n \<Longrightarrow> n \<le> k \<Longrightarrow> title_there probe n" "k < maxTitles \<Longrightarrow> \<not> title_there probe (Suc k)"
    using dvd_Enumerate_titles [OF assms] by blast
  have idx: "ti_Index (title_at probe i) = int i" for i by (simp add: title_at_def probe_title_def)
  have num: "extract_args e src (title_at probe i) dest ! 10 = probeTitle_args src (i + 1) ! 6" for i
    by (simp add: extract_args_def probeTitle_args_def idx int_str_def nat_add_distrib)
  have there: "(\<forall>n. 0 < n \<and> n \<le> i + 1 \<longrightarrow> title_there probe n) \<longleftrightarrow> i < k" if "i < maxTitles" for i
  proof
    assume all: "\<forall>n. 0 < n \<and> n \<le> i + 1 \<longrightarrow> title_there probe n"
    show "i < k"
    proof (rule ccontr)
      assume "\<not> i < k"
      then show False using all k(5) that by (auto dest: spec [of _ "Suc k"])
    qed
  qed (use k(4) in auto)
  have "t \<in> set (Filtered m (di_Titles d)) \<longleftrightarrow> (\<exists>i < k. t = title_at probe i \<and> min_seconds m \<le> ti_DurationSecs t)"
    by (auto simp: Filtered_def k(3))
  also have "\<dots> \<longleftrightarrow> (\<exists>i < maxTitles. (\<forall>n. 0 < n \<and> n \<le> i + 1 \<longrightarrow> title_there probe n) \<and> t = title_at probe i \<and>
         min_seconds m \<le> ti_DurationSecs t \<and> ti_Index t = int i \<and>
         extract_args e src t dest ! 10 = probeTitle_args src (i + 1) ! 6)"
    using there k(2) idx num by (metis less_le_trans)
  finally show ?thesis by (simp add: k(3) idx comp_def)
qed

section \<open>The watchdog\<close>

text \<open>When the output time last passed everything before it.\<close>

fun advances :: "int \<Rightarrow> watch_event list \<Rightarrow> int list" where
  "advances m [] = []"
| "advances m (OutLine l now # es) =
     (case out_time l of
        None \<Rightarrow> advances m es
      | Some out \<Rightarrow> if out > m then now # advances out es else advances m es)"
| "advances m (e # es) = advances m es"

definition last_advance :: "int \<Rightarrow> watch_event list \<Rightarrow> int" where
  "last_advance start es = last (start # advances 0 es)"

lemma watch_fold_at: "wt_at (fold (watch_step tmo) es st) = last (wt_at st # advances (wt_out st) es)"
proof (induction es arbitrary: st)
  case (Cons e es)
  then show ?case by (cases e) (auto simp: Let_def split: option.splits)
qed simp

lemma watch_run_at: "wt_at (watch_run tmo start es) = last_advance start es"
  by (simp add: watch_run_def watch_fold_at watch_start_def last_advance_def)

lemma watch_run_snoc: "watch_run tmo start (es @ [e]) = watch_step tmo e (watch_run tmo start es)"
  by (simp add: watch_run_def)

lemma watch_run_over: "wt_over (watch_run tmo start es) \<longleftrightarrow> wt_stalled (watch_run tmo start es) \<or> CtxDone \<in> set es"
proof (induction es rule: rev_induct)
  case (snoc e es)
  then show ?case by (cases e) (auto simp: watch_run_snoc Let_def split: option.splits)
qed (simp add: watch_run_def watch_start_def)

lemma stalled_snoc:
  "wt_stalled (watch_run tmo start (es @ [e])) \<longleftrightarrow>
     wt_stalled (watch_run tmo start es) \<or>
     (\<exists>now. e = Tick now \<and> tmo > 0 \<and> CtxDone \<notin> set es \<and> now - last_advance start es > tmo)"
  using watch_run_over [of tmo start es]
  by (cases e) (auto simp: watch_run_snoc watch_run_at Let_def split: option.splits)

text \<open>The watchdog stops an extraction exactly when it is on and some tick, before the context ended, comes more than
  its timeout after the output time last went past what it had reached; whatever else ffmpeg prints does not count.\<close>

theorem watch_stalls_exactly:
  "wt_stalled (watch_run tmo start es) \<longleftrightarrow>
     tmo > 0 \<and> (\<exists>pre now post. es = pre @ Tick now # post \<and> CtxDone \<notin> set pre \<and> now - last_advance start pre > tmo)"
proof (induction es rule: rev_induct)
  case (snoc e es)
  have split: "(\<exists>pre now post. es @ [e] = pre @ Tick now # post \<and> P pre now) \<longleftrightarrow>
      (\<exists>pre now post. es = pre @ Tick now # post \<and> P pre now) \<or> (\<exists>now. e = Tick now \<and> P es now)"
    (is "?l \<longleftrightarrow> ?r") for P
  proof
    assume ?l
    then obtain pre now post where eq: "es @ [e] = pre @ Tick now # post" "P pre now" by blast
    then show ?r by (cases post rule: rev_cases) auto
  next
    assume ?r
    then show ?l by (metis append_Cons append_assoc)
  qed
  show ?case unfolding stalled_snoc snoc.IH split by blast
qed (simp add: watch_run_def watch_start_def)

text \<open>An extraction that succeeds leaves a file of the size it reports. One that is stopped by its watchdog or its
  context leaves nothing, but one whose ffmpeg failed leaves whatever ffmpeg had written.\<close>

theorem Extract_leaves:
  "fst (Extract dur e env dest) = Inr sz \<Longrightarrow> snd (Extract dur e env dest) = Some sz \<and> xe_left env = Some sz \<and> xe_wait env = None"
  "xe_mkdir env = None \<Longrightarrow> xe_pipe env = None \<Longrightarrow> xe_start env = None \<Longrightarrow> xe_ctx env = None \<Longrightarrow>
   \<not> wt_stalled (watch_run (ex_StallTimeout e) (xe_now env) (xe_events env)) \<Longrightarrow> xe_wait env = Some w \<Longrightarrow>
   snd (Extract dur e env dest) = xe_left env"
  by (auto simp: Extract_def split: option.splits if_splits)

end
