(* ===== verification/Ifo.thy ===== *)
theory Ifo
  imports Disc Go_Path
begin

text \<open>
  \<^verbatim>\<open>internal/dvd/ifo.go\<close>: the name a DVD gives itself, read from the Video Manager in \<^verbatim>\<open>VIDEO_TS.IFO\<close>, in a directory, a
  file or on a raw disc.

  Bytes are characters. What the file system and the drive answer is an argument. Names are looked at rune by rune, so
  UTF-8 is decoded as \<^verbatim>\<open>unicode/utf8\<close> does; of Unicode's tables, which characters beyond ASCII are letters and which
  are printable is an argument too. The lemmas show what a name that is returned looks like, that the two searches of a
  raw disc find the same Video Manager, and what becomes of a plain IFO file.
\<close>

section \<open>Runes\<close>

definition RuneError :: nat where
  "RuneError = 0xFFFD"

definition byte_at :: "string \<Rightarrow> nat \<Rightarrow> nat" where
  "byte_at s i = (if i < length s then of_char (s ! i) else 0)"

definition between :: "nat \<Rightarrow> nat \<Rightarrow> nat \<Rightarrow> bool" where
  "between lo hi b \<longleftrightarrow> lo \<le> b \<and> b \<le> hi"

text \<open>\<^verbatim>\<open>utf8.DecodeRune\<close> on a text that is not empty: the rune and how many bytes it takes.\<close>

definition decode_rune :: "string \<Rightarrow> nat \<times> nat" where
  "decode_rune s =
     (let b0 = byte_at s 0; b1 = byte_at s 1; b2 = byte_at s 2; b3 = byte_at s 3
      in if b0 < 0x80 then (b0, 1)
         else if between 0xC2 0xDF b0 \<and> between 0x80 0xBF b1 then ((b0 - 0xC0) * 0x40 + (b1 - 0x80), 2)
         else if between 0xE0 0xEF b0 \<and> between (if b0 = 0xE0 then 0xA0 else 0x80) (if b0 = 0xED then 0x9F else 0xBF) b1
                \<and> between 0x80 0xBF b2
           then ((b0 - 0xE0) * 0x1000 + (b1 - 0x80) * 0x40 + (b2 - 0x80), 3)
         else if between 0xF0 0xF4 b0 \<and> between (if b0 = 0xF0 then 0x90 else 0x80) (if b0 = 0xF4 then 0x8F else 0xBF) b1
                \<and> between 0x80 0xBF b2 \<and> between 0x80 0xBF b3
           then ((b0 - 0xF0) * 0x40000 + (b1 - 0x80) * 0x1000 + (b2 - 0x80) * 0x40 + (b3 - 0x80), 4)
         else (RuneError, 1))"

lemma decode_rune_width: "0 < snd (decode_rune s)"
  by (simp add: decode_rune_def Let_def)

function runes :: "string \<Rightarrow> nat list" where
  "runes s = (if s = [] then [] else fst (decode_rune s) # runes (drop (snd (decode_rune s)) s))"
  by pat_completeness auto
termination
  by (relation "measure length") (use decode_rune_width in auto)

declare runes.simps [simp del]

definition encode_rune :: "nat \<Rightarrow> string" where
  "encode_rune r =
     (if r < 0x80 then [char_of r]
      else if r < 0x800 then [char_of (0xC0 + r div 0x40), char_of (0x80 + r mod 0x40)]
      else if r < 0x10000 then [char_of (0xE0 + r div 0x1000), char_of (0x80 + r div 0x40 mod 0x40), char_of (0x80 + r mod 0x40)]
      else [char_of (0xF0 + r div 0x40000), char_of (0x80 + r div 0x1000 mod 0x40), char_of (0x80 + r div 0x40 mod 0x40),
            char_of (0x80 + r mod 0x40)])"

definition rune_space :: "nat \<Rightarrow> bool" where
  "rune_space r \<longleftrightarrow> r \<in> {0x09, 0x0A, 0x0B, 0x0C, 0x0D, 0x20, 0x85, 0xA0, 0x1680, 0x2028, 0x2029, 0x202F, 0x205F, 0x3000}
     \<or> between 0x2000 0x200A r"

definition rune_control :: "nat \<Rightarrow> bool" where
  "rune_control r \<longleftrightarrow> r < 0x20 \<or> between 0x7F 0x9F r"

record unicode =
  uc_letter :: "nat \<Rightarrow> bool"
  uc_print :: "nat \<Rightarrow> bool"

definition rune_letter :: "unicode \<Rightarrow> nat \<Rightarrow> bool" where
  "rune_letter uc r \<longleftrightarrow> (if r < 0x80 then between 0x41 0x5A r \<or> between 0x61 0x7A r else uc_letter uc r)"

definition rune_print :: "unicode \<Rightarrow> nat \<Rightarrow> bool" where
  "rune_print uc r \<longleftrightarrow> (if r < 0x80 then between 0x20 0x7E r else uc_print uc r)"

section \<open>Names\<close>

definition genericProviders :: "string list" where
  "genericProviders =
     [''dvd_video'', ''dvdvideo'', ''dvd video'', ''dvd'', ''video_ts'', ''untitled'', ''unnamed'', ''unknown'', ''default'',
      ''none'', ''copyright'', ''generic'', ''sony dvd video'', ''dvd authoring'']"

definition isGenericProvider :: "string \<Rightarrow> bool" where
  "isGenericProvider s \<longleftrightarrow> ToLower (TrimSpace s) \<in> set genericProviders"

definition utf8Printable :: "unicode \<Rightarrow> nat list \<Rightarrow> bool" where
  "utf8Printable uc rs \<longleftrightarrow> list_all (\<lambda>r. r \<noteq> RuneError \<and> (rune_print uc r \<or> r = 0x20)) rs"

definition provider_runes :: "string \<Rightarrow> nat list" where
  "provider_runes raw =
     trim_by rune_space (filter (\<lambda>r. \<not> (r = 0 \<or> rune_control r \<and> r \<noteq> 0x09))
       (trim_by rune_space (runes (TrimRight raw [NUL]))))"

definition cleanProvider :: "unicode \<Rightarrow> string \<Rightarrow> string" where
  "cleanProvider uc raw =
     (let rs = provider_runes raw; s = concat (map encode_rune rs)
      in if length rs < 3 then []
         else if \<not> utf8Printable uc rs then []
         else if length (filter (rune_letter uc) rs) * 2 < length rs then []
         else if isGenericProvider s then []
         else s)"

section \<open>The Video Manager\<close>

definition vmgMagic :: string where
  "vmgMagic = ''DVDVIDEO-VMG''"

definition providerOffset :: nat where "providerOffset = 0x40"
definition providerLen :: nat where "providerLen = 32"
definition sectorSize :: nat where "sectorSize = 2048"
definition scanSectors :: nat where "scanSectors = 4096"
definition txtdtOffset :: nat where "txtdtOffset = 0xD4"

definition ErrNoVMG :: string where
  "ErrNoVMG = ''no DVDVIDEO-VMG found''"

text \<open>A source as the code meets it: its \<^verbatim>\<open>Stat\<close>, what \<^verbatim>\<open>ReadFile\<close> gives of each path, whether it can be opened, and
  what \<^verbatim>\<open>ReadAt\<close> gives at an offset for a length: the bytes read and whether there was an error.\<close>

record ifo_source =
  is_path :: string
  is_stat :: "string option"
  is_dir :: bool
  is_regular :: bool
  is_file :: "string \<rightharpoonup> string"
  is_open :: "string option"
  is_read :: "nat \<Rightarrow> nat \<Rightarrow> string \<times> bool"

fun scan_from :: "(nat \<Rightarrow> nat \<Rightarrow> string \<times> bool) \<Rightarrow> nat list \<Rightarrow> string + string" where
  "scan_from rd [] = Inl ErrNoVMG"
| "scan_from rd (s # ss) =
     (let (buf, err) = rd (s * sectorSize) sectorSize
      in if length buf < providerOffset + providerLen then (if err then Inl ErrNoVMG else scan_from rd ss)
         else if prefix vmgMagic buf then Inr buf
         else if err then Inl ErrNoVMG
         else scan_from rd ss)"

definition scanForVMG :: "(nat \<Rightarrow> nat \<Rightarrow> string \<times> bool) \<Rightarrow> string + string" where
  "scanForVMG rd = scan_from rd [0..<scanSectors]"

fun find_from :: "(nat \<Rightarrow> nat \<Rightarrow> string \<times> bool) \<Rightarrow> nat list \<Rightarrow> string + nat" where
  "find_from rd [] = Inl ErrNoVMG"
| "find_from rd (s # ss) =
     (let (buf, err) = rd (s * sectorSize) (length vmgMagic)
      in if err then Inl ErrNoVMG else if buf = vmgMagic then Inr s else find_from rd ss)"

definition findVMGSector :: "(nat \<Rightarrow> nat \<Rightarrow> string \<times> bool) \<Rightarrow> string + nat" where
  "findVMGSector rd = find_from rd [0..<scanSectors]"

definition vmg_file :: "(string \<rightharpoonup> string) \<Rightarrow> string \<Rightarrow> string option" where
  "vmg_file files c = (case files c of Some b \<Rightarrow> if prefix vmgMagic b then Some b else None | None \<Rightarrow> None)"

fun first_some :: "('a \<Rightarrow> 'b option) \<Rightarrow> 'a list \<Rightarrow> 'b option" where
  "first_some f [] = None"
| "first_some f (x # xs) = (case f x of Some y \<Rightarrow> Some y | None \<Rightarrow> first_some f xs)"

definition readVMG :: "ifo_source \<Rightarrow> string + string" where
  "readVMG src =
     (let p = is_path src
      in case is_stat src of
           Some e \<Rightarrow> Inl (''open '' @ p @ '': '' @ e)
         | None \<Rightarrow>
             if is_dir src then
               (case first_some (vmg_file (is_file src))
                       [Join [p, ''VIDEO_TS'', ''VIDEO_TS.IFO''], Join [p, ''video_ts'', ''video_ts.ifo''],
                        Join [p, ''VIDEO_TS.IFO''], Join [p, ''video_ts.ifo'']] of
                  Some b \<Rightarrow> Inr b
                | None \<Rightarrow> Inl ErrNoVMG)
             else case is_open src of
                    Some e \<Rightarrow> Inl (''open '' @ p @ '': '' @ e)
                  | None \<Rightarrow>
                      (let (hd, err) = is_read src 0 (providerOffset + providerLen)
                       in if \<not> err \<and> prefix vmgMagic hd then Inr hd else scanForVMG (is_read src)))"

definition readVMGFile :: "ifo_source \<Rightarrow> string + string option" where
  "readVMGFile src =
     (let p = is_path src
      in case is_stat src of
           Some e \<Rightarrow> Inl e
         | None \<Rightarrow>
             Inr (first_some (vmg_file (is_file src))
                    (if is_dir src
                     then [Join [p, ''VIDEO_TS'', ''VIDEO_TS.IFO''], Join [p, ''video_ts'', ''video_ts.ifo''], Join [p, ''VIDEO_TS.IFO'']]
                     else [p])))"

definition readTextData :: "ifo_source \<Rightarrow> nat \<Rightarrow> string + string" where
  "readTextData src sector =
     (case is_stat src of
        Some e \<Rightarrow> Inl e
      | None \<Rightarrow>
          (let start = sector * sectorSize;
               inside = (if is_dir src \<or> is_regular src
                         then (case readVMGFile src of
                                 Inr (Some raw) \<Rightarrow>
                                   if start < length raw then Some (take (sectorSize * 2) (drop start raw)) else None
                               | _ \<Rightarrow> None)
                         else None)
           in case inside of
                Some b \<Rightarrow> Inr b
              | None \<Rightarrow>
                  (case is_open src of
                     Some e \<Rightarrow> Inl e
                   | None \<Rightarrow>
                       (case findVMGSector (is_read src) of
                          Inl e \<Rightarrow> Inl e
                        | Inr base \<Rightarrow> Inr (fst (is_read src ((base + sector) * sectorSize) (sectorSize * 2)))))))"

definition run_char :: "char \<Rightarrow> bool" where
  "run_char c \<longleftrightarrow> (let b = (of_char c :: nat) in between 0x20 0x7E b \<or> b = 0x09)"

fun printableRun :: "string \<Rightarrow> string option" where
  "printableRun [] = None"
| "printableRun (c # s) =
     (let w = takeWhile run_char (c # s) in if length w \<ge> 6 then Some w else printableRun s)"

definition BigEndian_Uint32 :: "string \<Rightarrow> nat" where
  "BigEndian_Uint32 s = foldl (\<lambda>n c. 256 * n + of_char c) 0 (take 4 s)"

definition TrimPrefix :: "string \<Rightarrow> string \<Rightarrow> string" where
  "TrimPrefix s p = (if prefix p s then drop (length p) s else s)"

definition textDataTitle :: "unicode \<Rightarrow> ifo_source \<Rightarrow> string \<Rightarrow> string" where
  "textDataTitle uc src vmg =
     (if length vmg < txtdtOffset + 4 then []
      else let sector = BigEndian_Uint32 (drop txtdtOffset vmg)
           in if sector = 0 then []
              else case readTextData src sector of
                     Inl e \<Rightarrow> []
                   | Inr blob \<Rightarrow>
                       (case printableRun blob of
                          None \<Rightarrow> []
                        | Some m \<Rightarrow>
                            cleanProvider uc (TrimSpace (hd (split_on (CHR 0x09) (TrimPrefix (TrimSpace m) ''=''))))))"

definition provider_field :: "string \<Rightarrow> string" where
  "provider_field raw = take providerLen (drop providerOffset raw)"

definition DiscTitle :: "unicode \<Rightarrow> ifo_source \<Rightarrow> string + string" where
  "DiscTitle uc src =
     (case readVMG src of
        Inl e \<Rightarrow> Inl e
      | Inr raw \<Rightarrow>
          (let t = textDataTitle uc src raw
           in if t \<noteq> [] then Inr t
              else if length raw \<ge> providerOffset + providerLen then Inr (cleanProvider uc (provider_field raw))
              else Inr []))"

definition ProviderID :: "unicode \<Rightarrow> ifo_source \<Rightarrow> string + string" where
  "ProviderID uc src =
     (case readVMG src of
        Inl e \<Rightarrow> Inl e
      | Inr raw \<Rightarrow> if length raw < providerOffset + providerLen then Inl ErrNoVMG
                    else Inr (cleanProvider uc (provider_field raw)))"

section \<open>UTF-8\<close>

definition valid_rune :: "nat \<Rightarrow> bool" where
  "valid_rune r \<longleftrightarrow> r < 0x110000 \<and> \<not> between 0xD800 0xDFFF r"

lemma of_char_lt: "(of_char c :: nat) < 256"
  by (metis of_char_mod_256 mod_less_divisor zero_less_numeral)

lemma byte_at_lt: "byte_at s i < 256"
  by (simp add: byte_at_def of_char_lt)

lemma of_char_of: "n < 256 \<Longrightarrow> (of_char (char_of n) :: nat) = n"
  by simp

text \<open>Whatever the bytes are, what is decoded is a code point.\<close>

lemma decode_rune_valid: "valid_rune (fst (decode_rune s))"
  by (auto simp: decode_rune_def Let_def valid_rune_def between_def RuneError_def split: if_splits)

lemma runes_valid: "r \<in> set (runes s) \<Longrightarrow> valid_rune r"
proof (induction s rule: runes.induct)
  case (1 s)
  then show ?case by (subst (asm) (2) runes.simps) (auto simp: decode_rune_valid split: if_splits)
qed

lemma byte_at_Cons_0 [simp]: "byte_at (c # s) 0 = of_char c"
  by (simp add: byte_at_def)

lemma byte_at_Cons_Suc [simp]: "byte_at (c # s) (Suc i) = byte_at s i"
  by (simp add: byte_at_def)

lemma byte_at_Cons_num [simp]: "byte_at (c # s) (numeral k) = byte_at s (pred_numeral k)"
  by (simp add: numeral_eq_Suc)

text \<open>A number by its digits to the base 64.\<close>

lemma div64: "b < 64 \<Longrightarrow> (q * 64 + b) div 64 = (q :: nat)" "b < 64 \<Longrightarrow> (q * 64 + b) mod 64 = (b :: nat)"
  by simp_all

lemma digits64:
  assumes "b < 64" "c < 64"
  shows "(a * 4096 + c * 64 + b) div 64 = a * 64 + (c :: nat)" "(a * 4096 + c * 64 + b) div 4096 = a"
    "(a * 4096 + c * 64 + b) mod 64 = b"
proof -
  have e: "a * 4096 + c * 64 + b = (a * 64 + c) * 64 + b" by simp
  show q: "(a * 4096 + c * 64 + b) div 64 = a * 64 + c" unfolding e by (rule div64(1) [OF assms(1)])
  have "(a * 4096 + c * 64 + b) div (64 * 64) = a" unfolding div_mult2_eq q by (rule div64(1) [OF assms(2)])
  then show "(a * 4096 + c * 64 + b) div 4096 = a" by simp
  show "(a * 4096 + c * 64 + b) mod 64 = b" unfolding e by (rule div64(2) [OF assms(1)])
qed

lemma digits64_ex: "\<exists>a b c. (r :: nat) = a * 4096 + c * 64 + b \<and> b < 64 \<and> c < 64"
proof (intro exI conjI)
  have "r = r div 64 * 64 + r mod 64" "r div 64 = r div 64 div 64 * 64 + r div 64 mod 64" by (simp_all only: div_mult_mod_eq)
  then show "r = r div 64 div 64 * 4096 + r div 64 mod 64 * 64 + r mod 64" by linarith
qed simp_all

lemma decode_encode:
  assumes "valid_rune r"
  shows "decode_rune (encode_rune r @ s) = (r, length (encode_rune r))"
proof -
  consider "r < 0x80" | "0x80 \<le> r" "r < 0x800" | "0x800 \<le> r" "r < 0x10000" | "0x10000 \<le> r" "r < 0x110000"
    using assms by (force simp: valid_rune_def)
  then show ?thesis
  proof cases
    case 1
    then show ?thesis by (simp add: encode_rune_def decode_rune_def Let_def)
  next
    case 2
    have "r div 64 < 32" "2 \<le> r div 64" "r mod 64 < 64" using 2 by auto
    then show ?thesis using 2 by (simp add: encode_rune_def decode_rune_def Let_def between_def)
  next
    case 3
    obtain a b c where r: "r = a * 4096 + c * 64 + b" "b < 64" "c < 64" using digits64_ex by blast
    have e: "encode_rune r = [char_of (0xE0 + a), char_of (0x80 + c), char_of (0x80 + b)]"
      using 3 r(2, 3) by (simp add: encode_rune_def) (simp add: r(1) digits64 mod_mult_self3)
    have "a < 16" "a = 0 \<Longrightarrow> 32 \<le> c" "a = 13 \<Longrightarrow> c < 32" "a * 4096 + c * 64 + b < 0x10000"
      using 3 assms r by (auto simp: valid_rune_def between_def)
    then show ?thesis using r(2, 3) unfolding e
      by (auto simp: decode_rune_def Let_def between_def r(1))
  next
    case 4
    obtain a b c where r: "r = a * 4096 + c * 64 + b" "b < 64" "c < 64" using digits64_ex by blast
    obtain d a' where a: "a = d * 64 + a'" "a' < 64" by (metis div_mult_mod_eq mod_less_divisor zero_less_numeral)
    have ra: "r div 4096 = a" "r div 64 mod 64 = c" "r mod 64 = b" using r(2, 3) by (simp_all add: r(1) digits64 mod_mult_self3)
    have "r div (4096 * 64) = d" unfolding div_mult2_eq ra(1) a(1) by (rule div64(1) [OF a(2)])
    then have "r div 0x40000 = d" "r div 0x1000 mod 0x40 = a'" using a(2) by (simp_all add: ra(1) a(1))
    with ra have e: "encode_rune r = [char_of (0xF0 + d), char_of (0x80 + a'), char_of (0x80 + c), char_of (0x80 + b)]"
      using 4 by (simp add: encode_rune_def)
    have "d < 5" "d = 0 \<Longrightarrow> 16 \<le> a'" "d = 4 \<Longrightarrow> a' < 16" using 4 r a by auto
    then show ?thesis using r(2, 3) a(2) unfolding e
      by (auto simp: decode_rune_def Let_def between_def r(1) a(1))
  qed
qed

lemma encode_rune_neq_Nil [simp]: "encode_rune r \<noteq> []"
  by (simp add: encode_rune_def)

text \<open>What is encoded is decoded again.\<close>

lemma runes_encode: "\<forall>r \<in> set rs. valid_rune r \<Longrightarrow> runes (concat (map encode_rune rs)) = rs"
proof (induction rs)
  case Nil
  then show ?case by (simp add: runes.simps)
next
  case (Cons r rs)
  have "decode_rune (encode_rune r @ concat (map encode_rune rs)) = (r, length (encode_rune r))"
    using Cons.prems by (intro decode_encode) simp
  then show ?case using Cons by (subst runes.simps) simp
qed

text \<open>A text of ASCII characters is its own runes.\<close>

lemma runes_ascii: "list_all (\<lambda>c. of_char c < (128 :: nat)) s \<Longrightarrow> runes s = map of_char s"
proof (induction s)
  case (Cons c s)
  then show ?case by (subst runes.simps) (simp add: decode_rune_def Let_def)
qed (simp add: runes.simps)

lemma encode_ascii: "list_all (\<lambda>c. of_char c < (128 :: nat)) s \<Longrightarrow> concat (map encode_rune (map of_char s)) = s"
  by (induction s) (auto simp: encode_rune_def)

section \<open>What a name looks like\<close>

definition looks_like_a_name :: "unicode \<Rightarrow> string \<Rightarrow> bool" where
  "looks_like_a_name uc s \<longleftrightarrow>
     (let rs = runes s
      in 3 \<le> length rs \<and> list_all (\<lambda>r. r \<noteq> RuneError \<and> (rune_print uc r \<or> r = 0x20)) rs
         \<and> length rs \<le> 2 * length (filter (rune_letter uc) rs) \<and> \<not> rune_space (hd rs) \<and> \<not> rune_space (last rs)
         \<and> ToLower (TrimSpace s) \<notin> set genericProviders)"

lemma provider_runes_valid: "r \<in> set (provider_runes raw) \<Longrightarrow> valid_rune r"
  using set_trim_by runes_valid unfolding provider_runes_def by (metis (no_types, lifting) filter_is_subset subsetD)

lemma cleanProvider_abstains: "cleanProvider uc raw = [] \<or> looks_like_a_name uc (cleanProvider uc raw)"
proof (cases "cleanProvider uc raw = []")
  case False
  define rs where "rs = provider_runes raw"
  from False have c: "cleanProvider uc raw = concat (map encode_rune rs)" "3 \<le> length rs" "utf8Printable uc rs"
      "length rs \<le> length (filter (rune_letter uc) rs) * 2" "\<not> isGenericProvider (concat (map encode_rune rs))"
    by (auto simp: cleanProvider_def rs_def Let_def split: if_splits)
  have r: "runes (cleanProvider uc raw) = rs" unfolding c(1) by (rule runes_encode) (simp add: rs_def provider_runes_valid)
  have "rs \<noteq> []" using c(2) by auto
  then have "\<not> rune_space (hd rs)" "\<not> rune_space (last rs)" unfolding rs_def provider_runes_def
    using hd_trim_by last_trim_by by blast+
  then show ?thesis using c unfolding looks_like_a_name_def r c(1) [symmetric]
    by (auto simp: Let_def utf8Printable_def isGenericProvider_def)
qed simp

lemma textDataTitle_abstains: "textDataTitle uc src vmg = [] \<or> looks_like_a_name uc (textDataTitle uc src vmg)"
  unfolding textDataTitle_def using cleanProvider_abstains by (auto simp: Let_def split: sum.splits option.splits)

text \<open>The name a disc is given is nothing at all, or prose: at least three characters, all of them printable, no white
  space at either end, no fewer letters than other characters, and none of the values authoring suites leave.\<close>

theorem DiscTitle_abstains_or_names:
  assumes "DiscTitle uc src = Inr s"
  shows "s = [] \<or> looks_like_a_name uc s"
  using assms cleanProvider_abstains textDataTitle_abstains by (fastforce simp: DiscTitle_def Let_def split: sum.splits if_splits)

section \<open>Raw discs\<close>

text \<open>\<^verbatim>\<open>ReadAt\<close> on a disc that can be read: the bytes that are there, and an error when they are too few.\<close>

definition reader_of :: "string \<Rightarrow> nat \<Rightarrow> nat \<Rightarrow> string \<times> bool" where
  "reader_of content off len = (let b = take len (drop off content) in (b, length b < len))"

lemma reader_prefix:
  "prefix vmgMagic (take sectorSize (drop off c)) \<longleftrightarrow> take (length vmgMagic) (drop off c) = vmgMagic"
proof -
  have "take (length vmgMagic) (take sectorSize (drop off c)) = take (length vmgMagic) (drop off c)"
    by (simp add: vmgMagic_def sectorSize_def)
  then show ?thesis by (metis prefix_def append_eq_conv_conj append_take_drop_id)
qed

lemma scan_find_agree:
  "scan_from (reader_of c) ss = Inr buf \<Longrightarrow>
   \<exists>s. find_from (reader_of c) ss = Inr s \<and> buf = take sectorSize (drop (s * sectorSize) c)
     \<and> prefix vmgMagic buf \<and> providerOffset + providerLen \<le> length buf"
proof (induction ss)
  case (Cons s ss)
  let ?b = "take sectorSize (drop (s * sectorSize) c)"
  let ?m = "take (length vmgMagic) (drop (s * sectorSize) c)"
  have rb: "reader_of c (s * sectorSize) sectorSize = (?b, length ?b < sectorSize)" by (simp add: reader_of_def Let_def)
  have len: "length ?m = min (length vmgMagic) (length ?b)" by (simp add: vmgMagic_def sectorSize_def)
  show ?case
  proof (cases "providerOffset + providerLen \<le> length ?b \<and> prefix vmgMagic ?b")
    case True
    then have "find_from (reader_of c) (s # ss) = Inr s"
      using reader_prefix [of "s * sectorSize" c] by (simp add: reader_of_def Let_def)
    moreover have "buf = ?b" using Cons.prems True by (simp add: reader_of_def Let_def not_less [symmetric])
    ultimately show ?thesis using True by auto
  next
    case False
    have full: "\<not> length ?b < sectorSize" and rest: "scan_from (reader_of c) ss = Inr buf"
      using Cons.prems False rb by (auto simp: Let_def split: if_splits)
    then have "\<not> length ?m < length vmgMagic" using len by (simp add: vmgMagic_def sectorSize_def)
    moreover have "?m \<noteq> vmgMagic"
      using False full reader_prefix [of "s * sectorSize" c] by (auto simp: providerOffset_def providerLen_def sectorSize_def)
    ultimately have "find_from (reader_of c) (s # ss) = find_from (reader_of c) ss"
      by (simp add: reader_of_def Let_def)
    then show ?thesis using Cons.IH [OF rest] by simp
  qed
qed simp

text \<open>On a disc in a drive, the Video Manager that is read is the first there is on a sector boundary, and the text it
  points to is read from the right place: its own start plus the offset it names.\<close>

theorem raw_disc_text_is_the_managers:
  assumes "is_read src = reader_of c" "is_stat src = None" "is_open src = None" "\<not> is_dir src" "\<not> is_regular src"
    and "\<not> prefix vmgMagic c" "readVMG src = Inr vmg"
  shows "\<exists>s < scanSectors. vmg = take sectorSize (drop (s * sectorSize) c) \<and> prefix vmgMagic vmg \<and>
           (\<forall>n. readTextData src n = Inr (take (2 * sectorSize) (drop ((s + n) * sectorSize) c)))"
proof -
  have "\<not> prefix vmgMagic (take (providerOffset + providerLen) c)" using assms(6) by (metis prefix_order.trans take_is_prefix)
  then have "scanForVMG (reader_of c) = Inr vmg"
    using assms by (simp add: readVMG_def reader_of_def [of c 0 "providerOffset + providerLen"] Let_def)
  from scan_find_agree [OF this [unfolded scanForVMG_def]] obtain s where s: "find_from (reader_of c) [0..<scanSectors] = Inr s"
      "vmg = take sectorSize (drop (s * sectorSize) c)" "prefix vmgMagic vmg" by blast
  have find_in: "find_from rd ss = Inr s \<Longrightarrow> s \<in> set ss" for rd ss
    by (induction ss) (auto simp: Let_def split: prod.splits if_splits)
  from find_in [OF s(1)] have lt: "s < scanSectors" by simp
  have "readTextData src n = Inr (take (2 * sectorSize) (drop ((s + n) * sectorSize) c))" for n
    using assms s(1) by (simp add: readTextData_def findVMGSector_def Let_def) (simp add: reader_of_def mult.commute)
  then show ?thesis using s lt by blast
qed

lemma plain_ifo_title:
  assumes "is_stat src = None" "\<not> is_dir src" "is_open src = None" "is_read src = reader_of c"
    and "prefix vmgMagic c" "providerOffset + providerLen \<le> length c"
  shows "DiscTitle uc src = Inr (cleanProvider uc (provider_field c))"
proof -
  let ?h = "take (providerOffset + providerLen) c"
  have "prefix vmgMagic ?h"
  proof -
    have "take (length vmgMagic) ?h = take (length vmgMagic) c" by (simp add: vmgMagic_def providerOffset_def)
    then show ?thesis using assms(5) by (metis append_eq_conv_conj prefix_def append_take_drop_id)
  qed
  then have r: "readVMG src = Inr ?h"
    using assms by (simp add: readVMG_def reader_of_def [of c 0 "providerOffset + providerLen"] Let_def)
  have len: "length ?h = providerOffset + providerLen" using assms(6) by simp
  then have t: "textDataTitle uc src ?h = []" by (simp add: textDataTitle_def providerOffset_def providerLen_def txtdtOffset_def)
  have "provider_field ?h = provider_field c" by (simp add: provider_field_def drop_take)
  then show ?thesis using r t len by (simp add: DiscTitle_def Let_def)
qed

text \<open>A plain IFO file is a source the code accepts, but only its first ninety-six bytes are read, so the text in it is
  never looked at: whatever the file holds, its name is what the provider field gives.\<close>

theorem plain_ifo_text_is_never_read:
  assumes "is_stat src = None" "\<not> is_dir src" "is_open src = None" "is_read src = reader_of c"
    and "prefix vmgMagic c" "providerOffset + providerLen \<le> length c"
  shows "DiscTitle uc src = Inr (cleanProvider uc (provider_field c))"
  using assms by (rule plain_ifo_title)

definition ascii_only :: unicode where
  "ascii_only = \<lparr>uc_letter = (\<lambda>r. False), uc_print = (\<lambda>r. False)\<rparr>"

text \<open>An IFO whose provider field says \<^verbatim>\<open>The Film\<close>, as a file and as the first sector of a disc.\<close>

definition sample_ifo :: string where
  "sample_ifo = vmgMagic @ replicate 52 NUL @ ''The Film'' @ replicate 24 NUL"

definition sample_source :: "string \<Rightarrow> ifo_source" where
  "sample_source c = \<lparr>is_path = ''/dev/sr0'', is_stat = None, is_dir = False, is_regular = False, is_file = Map.empty,
     is_open = None, is_read = reader_of c\<rparr>"

lemma sample_field: "provider_field sample_ifo = ''The Film'' @ replicate 24 NUL"
  by (simp add: provider_field_def sample_ifo_def providerOffset_def providerLen_def vmgMagic_def)

lemma sample_ifo_name: "cleanProvider ascii_only (provider_field sample_ifo) = ''The Film''"
proof -
  have "TrimRight (''The Film'' @ replicate 24 NUL) [NUL] = ''The Film''"
    by (simp add: TrimRight_def trim_right_by_def NUL_def numeral_eq_Suc)
  moreover have "runes ''The Film'' = [84, 104, 101, 32, 70, 105, 108, 109]" by (simp add: runes_ascii)
  ultimately have "provider_runes (''The Film'' @ replicate 24 NUL) = [84, 104, 101, 32, 70, 105, 108, 109]"
    by (simp add: provider_runes_def trim_by_def trim_right_by_def rune_space_def rune_control_def between_def)
  moreover have "concat (map encode_rune [84, 104, 101, 32, 70, 105, 108, 109]) = ''The Film''"
    using encode_ascii [of "''The Film''"] by simp
  ultimately show ?thesis
    by (simp add: sample_field cleanProvider_def utf8Printable_def rune_print_def rune_letter_def between_def RuneError_def
        isGenericProvider_def genericProviders_def TrimSpace_def trim_by_def trim_right_by_def is_space_def ToLower_def
        lower_char_def is_upper_def)
qed

lemma sample_ifo_shape: "prefix vmgMagic sample_ifo" "providerOffset + providerLen \<le> length sample_ifo"
  by (simp_all add: sample_ifo_def providerOffset_def providerLen_def vmgMagic_def)

theorem plain_ifo_text_is_never_read_witness:
  "DiscTitle ascii_only (sample_source sample_ifo) = Inr ''The Film''"
  using plain_ifo_text_is_never_read [of "sample_source sample_ifo" sample_ifo ascii_only] sample_ifo_name sample_ifo_shape
  by (simp add: sample_source_def)

lemma sample_title: "DiscTitle ascii_only (sample_source sample_ifo) = Inr ''The Film''"
  using plain_ifo_title [of "sample_source sample_ifo" sample_ifo ascii_only] sample_ifo_name sample_ifo_shape
  by (simp add: sample_source_def)

theorem DiscTitle_abstains_or_names_witness: "looks_like_a_name ascii_only ''The Film''"
  using DiscTitle_abstains_or_names [OF sample_title] by simp

text \<open>A disc whose first sector is something else.\<close>

definition sample_image :: string where
  "sample_image = replicate sectorSize (CHR ''x'') @ sample_ifo"

lemma sample_disc_magic: "\<not> prefix vmgMagic sample_image"
  by (simp add: sample_image_def vmgMagic_def sectorSize_def numeral_eq_Suc [of "Num.inc n" for n] replicate_Suc [of 2047, simplified])

lemma sample_disc_scan: "readVMG (sample_source sample_image) = Inr sample_ifo"
proof -
  have x: "take (providerOffset + providerLen) sample_image = replicate 96 (CHR ''x'')"
      "take sectorSize sample_image = replicate sectorSize (CHR ''x'')" "drop sectorSize sample_image = sample_ifo"
    by (simp_all add: sample_image_def sectorSize_def providerOffset_def providerLen_def)
  have no: "\<not> prefix vmgMagic (replicate 96 (CHR ''x''))" "\<not> prefix vmgMagic (replicate sectorSize (CHR ''x''))"
    by (simp_all add: vmgMagic_def sectorSize_def numeral_eq_Suc)
  have len: "length sample_ifo = 96" by (simp add: sample_ifo_def vmgMagic_def)
  have "0 < scanSectors" "1 < scanSectors" by (simp_all add: scanSectors_def)
  then have up: "[0..<scanSectors] = 0 # 1 # [Suc 1..<scanSectors]"
    using upt_conv_Cons [of 0 scanSectors] upt_conv_Cons [of 1 scanSectors] by (metis One_nat_def)
  have "scanForVMG (reader_of sample_image) = Inr sample_ifo"
    unfolding scanForVMG_def up using x no len sample_ifo_shape
    by (simp add: reader_of_def Let_def sectorSize_def providerOffset_def providerLen_def)
  then show ?thesis using x(1) no(1)
    by (simp add: readVMG_def sample_source_def Let_def) (simp add: reader_of_def Let_def)
qed

theorem raw_disc_text_is_the_managers_witness:
  "\<exists>s < scanSectors. sample_ifo = take sectorSize (drop (s * sectorSize) sample_image)"
  using raw_disc_text_is_the_managers [OF _ _ _ _ _ sample_disc_magic sample_disc_scan] by (auto simp: sample_source_def)

end
