(* ===== verification/Makemkv.thy ===== *)
theory Makemkv
  imports Disc Go_Path "HOL-Library.AList"
begin

unbundle bit_operations_syntax

text \<open>
  \<^verbatim>\<open>internal/makemkv\<close>: the robot-mode output of makemkvcon read line by line (\<^verbatim>\<open>robot.go\<close>), the disc that a scan
  makes of it and the judgements on its messages (\<^verbatim>\<open>makemkv.go\<close>), and the watchdog that stops a rip which
  makes no progress (\<^verbatim>\<open>stall.go\<close>).

  What makemkvcon prints, and whether it exits with an error, is an argument. Attribute maps, which Go reads
  with a default of the empty string, are maps from codes to strings; the maps that are iterated over are
  association lists, since the iteration's order does not reach the result.
\<close>

section \<open>Lines\<close>

record line =
  ln_Kind :: string
  ln_Fields :: "string list"
  ln_Raw :: string

abbreviation QUOTE :: char where "QUOTE \<equiv> CHR 0x22"
abbreviation BACKSLASH :: char where "BACKSLASH \<equiv> CHR 0x5C"

fun split_fields :: "bool \<Rightarrow> string \<Rightarrow> string \<Rightarrow> string list" where
  "split_fields inQ buf [] = [buf]"
| "split_fields inQ buf (c # s) =
     (if c = QUOTE then
        (if inQ \<and> s \<noteq> [] \<and> hd s = QUOTE then split_fields inQ (buf @ [QUOTE]) (tl s)
         else split_fields (\<not> inQ) buf s)
      else if c = BACKSLASH \<and> inQ \<and> s \<noteq> [] \<and> hd s = QUOTE then split_fields inQ (buf @ [QUOTE]) (tl s)
      else if c = CHR '','' \<and> \<not> inQ then buf # split_fields inQ [] s
      else split_fields inQ (buf @ [c]) s)"

definition splitFields :: "string \<Rightarrow> string list" where
  "splitFields s = split_fields False [] s"

definition kind_char :: "char \<Rightarrow> bool" where
  "kind_char r \<longleftrightarrow> is_upper r \<or> is_digit r \<or> r = CHR ''_''"

definition ParseLine :: "string \<Rightarrow> line option" where
  "ParseLine raw =
     (let s = TrimRight raw [CHR 0x0D, CHR 0x0A]; kind = takeWhile (\<lambda>c. c \<noteq> CHR '':'') s
      in if s = [] \<or> kind = [] \<or> kind = s \<or> \<not> list_all kind_char kind then None
         else Some \<lparr>ln_Kind = kind, ln_Fields = splitFields (drop (length kind + 1) s), ln_Raw = s\<rparr>)"

definition field :: "line \<Rightarrow> nat \<Rightarrow> string" where
  "field l n = (if n \<ge> length (ln_Fields l) then [] else ln_Fields l ! n)"

definition atoi_or_zero :: "string \<Rightarrow> int" where
  "atoi_or_zero s = (case Atoi (TrimSpace s) of None \<Rightarrow> 0 | Some v \<Rightarrow> v)"

definition intField :: "line \<Rightarrow> nat \<Rightarrow> int" where
  "intField l n = atoi_or_zero (field l n)"

fun duration_parts :: "int \<Rightarrow> string list \<Rightarrow> int" where
  "duration_parts tot [] = tot"
| "duration_parts tot (p # ps) =
     (case Atoi p of
        None \<Rightarrow> 0
      | Some v \<Rightarrow> if v < 0 then 0 else duration_parts (wrap64 (wrap64 (tot * 60) + v)) ps)"

definition ParseDuration :: "string \<Rightarrow> int" where
  "ParseDuration s =
     (let parts = split_on (CHR '':'') (TrimSpace s)
      in if length parts < 2 \<or> length parts > 3 then 0 else duration_parts 0 parts)"

definition parseBytes :: "string \<Rightarrow> int" where
  "parseBytes s =
     (let clean = filter is_digit s
      in if clean = [] then 0 else case Atoi clean of None \<Rightarrow> 0 | Some v \<Rightarrow> v)"

record message =
  ms_Code :: int
  ms_Flags :: int
  ms_Text :: string

definition parseMessage :: "line \<Rightarrow> message" where
  "parseMessage l = \<lparr>ms_Code = intField l 0, ms_Flags = intField l 1, ms_Text = field l 3\<rparr>"

record drive_line =
  dl_Index :: int
  dl_Visible :: int
  dl_Enabled :: int
  dl_Flags :: int
  dl_DriveName :: string
  dl_DiscName :: string
  dl_DevicePath :: string

definition parseDriveLine :: "line \<Rightarrow> drive_line" where
  "parseDriveLine l = \<lparr>dl_Index = intField l 0, dl_Visible = intField l 1, dl_Enabled = intField l 2, dl_Flags = intField l 3,
     dl_DriveName = field l 4, dl_DiscName = field l 5, dl_DevicePath = field l 6\<rparr>"

type_synonym attrs = "int \<rightharpoonup> string"

definition attrString :: "attrs \<Rightarrow> int \<Rightarrow> string" where
  "attrString a code = (case a code of None \<Rightarrow> [] | Some v \<Rightarrow> v)"

definition attrInt :: "attrs \<Rightarrow> int \<Rightarrow> int" where
  "attrInt a code = atoi_or_zero (attrString a code)"

section \<open>Sources\<close>

definition DevicePath :: "string \<Rightarrow> string" where
  "DevicePath src = (if prefix ''dev:'' src then drop 4 src else [])"

definition IsFolder_src :: "string \<Rightarrow> bool" where
  "IsFolder_src src \<longleftrightarrow> prefix ''file:'' src"

section \<open>Messages\<close>

text \<open>\<^verbatim>\<open>versionRE\<close>: the word, white space, \<^verbatim>\<open>v\<close>, a digit, then digits and dots; the first place it matches.\<close>

definition re_space :: "char \<Rightarrow> bool" where
  "re_space c \<longleftrightarrow> c \<in> {CHR 0x09, CHR 0x0A, CHR 0x0C, CHR 0x0D, CHR '' ''}"

definition version_at :: "string \<Rightarrow> string option" where
  "version_at s =
     (if \<not> prefix ''MakeMKV'' s then None
      else let t = drop 7 s; u = dropWhile re_space t
           in if u = t \<or> \<not> prefix ''v'' u \<or> tl u = [] \<or> \<not> is_digit (hd (tl u)) then None
              else Some (takeWhile (\<lambda>c. is_digit c \<or> c = CHR ''.'') (tl u)))"

fun version_in :: "string \<Rightarrow> string option" where
  "version_in [] = None"
| "version_in (c # s) = (case version_at (c # s) of Some v \<Rightarrow> Some v | None \<Rightarrow> version_in s)"

fun versionFromMessages :: "message list \<Rightarrow> string" where
  "versionFromMessages [] = []"
| "versionFromMessages (m # ms) = (case version_in (ms_Text m) of Some v \<Rightarrow> v | None \<Rightarrow> versionFromMessages ms)"

definition msgTitleAdded :: int where "msgTitleAdded = 3028"
definition msgKeyInvalid :: int where "msgKeyInvalid = 5020"
definition msgKeyRequired :: int where "msgKeyRequired = 5021"

definition announcedTitles :: "message list \<Rightarrow> nat" where
  "announcedTitles msgs = length (filter (\<lambda>m. ms_Code m = msgTitleAdded) msgs)"

record key_status =
  ks_Present :: bool
  ks_Expired :: bool
  ks_Detail :: string
  ks_VersionTooOld :: bool

definition contains_any :: "string list \<Rightarrow> string \<Rightarrow> bool" where
  "contains_any ws s \<longleftrightarrow> list_ex (contains (ToLower s)) ws"

text \<open>\<^verbatim>\<open>enter.*key\<close> within one line.\<close>

definition enter_key :: "string \<Rightarrow> bool" where
  "enter_key s \<longleftrightarrow> list_ex (\<lambda>l. list_ex (\<lambda>n. prefix ''enter'' (drop n l) \<and> contains (drop (n + 5) l) ''key'') [0..<length l])
     (split_on (CHR 0x0A) (ToLower s))"

definition versionTooOldRE :: "string \<Rightarrow> bool" where
  "versionTooOldRE = contains_any [''version is too old'', ''download the latest version'']"

definition keyExpiredRE :: "string \<Rightarrow> bool" where
  "keyExpiredRE = contains_any [''expired'', ''evaluation period'', ''out of date'', ''too old'', ''no longer valid'']"

definition keyMissingRE :: "string \<Rightarrow> bool" where
  "keyMissingRE s \<longleftrightarrow> contains_any [''registration key'', ''activation key'', ''not registered'', ''invalid key'', ''shareware''] s \<or> enter_key s"

fun key_by_prose :: "message list \<Rightarrow> key_status" where
  "key_by_prose [] = \<lparr>ks_Present = True, ks_Expired = False, ks_Detail = [], ks_VersionTooOld = False\<rparr>"
| "key_by_prose (m # ms) =
     (if keyExpiredRE (ms_Text m) then \<lparr>ks_Present = True, ks_Expired = True, ks_Detail = ms_Text m, ks_VersionTooOld = False\<rparr>
      else if keyMissingRE (ms_Text m) then \<lparr>ks_Present = False, ks_Expired = False, ks_Detail = ms_Text m, ks_VersionTooOld = False\<rparr>
      else key_by_prose ms)"

definition keyStatusFromMessages :: "message list \<Rightarrow> key_status" where
  "keyStatusFromMessages msgs =
     (case List.find (\<lambda>m. ms_Code m = msgKeyInvalid \<or> ms_Code m = msgKeyRequired) msgs of
        Some m \<Rightarrow> \<lparr>ks_Present = True, ks_Expired = True, ks_Detail = ms_Text m, ks_VersionTooOld = versionTooOldRE (ms_Text m)\<rparr>
      | None \<Rightarrow> key_by_prose msgs)"

definition summarise :: "message list \<Rightarrow> string" where
  "summarise msgs =
     (let texts = filter (\<lambda>t. t \<noteq> []) (map (\<lambda>m. TrimSpace (ms_Text m)) msgs);
          out = filter (contains_any [''fail'', ''error'', ''unable'']) texts;
          out' = take 4 (if out = [] then take 2 (rev texts) else out)
      in if out' = [] then ''no diagnostic output'' else join_with ''; '' out')"

section \<open>A scan\<close>

type_synonym attr_table = "(int \<times> attrs) list"

definition set_attr :: "int \<Rightarrow> int \<Rightarrow> string \<Rightarrow> attr_table \<Rightarrow> attr_table" where
  "set_attr key code v tab =
     (case map_of tab key of
        None \<Rightarrow> tab @ [(key, [code \<mapsto> v])]
      | Some a \<Rightarrow> AList.update key (a(code \<mapsto> v)) tab)"

text \<open>\<^verbatim>\<open>t<<16 | s\<close> on 64-bit integers, and the two halves read back with \<^verbatim>\<open>>>\<close> and \<^verbatim>\<open>&\<close>.\<close>

definition stream_key :: "int \<Rightarrow> int \<Rightarrow> int" where
  "stream_key t s = wrap64 (push_bit 16 t) OR s"

definition key_title :: "int \<Rightarrow> int" where
  "key_title k = drop_bit 16 k"

definition key_index :: "int \<Rightarrow> int" where
  "key_index k = k AND 0xFFFF"

record scan_state =
  sn_messages :: "message list"
  sn_titles :: attr_table
  sn_streams :: attr_table
  sn_disc :: attrs
  sn_count :: int
  sn_model :: string

definition scan_start :: scan_state where
  "scan_start = \<lparr>sn_messages = [], sn_titles = [], sn_streams = [], sn_disc = Map.empty, sn_count = 0, sn_model = []\<rparr>"

definition scan_line :: "string \<Rightarrow> string \<Rightarrow> scan_state \<Rightarrow> scan_state" where
  "scan_line devicePath raw st =
     (case ParseLine raw of
        None \<Rightarrow> st
      | Some l \<Rightarrow>
          if ln_Kind l = ''MSG'' then st\<lparr>sn_messages := sn_messages st @ [parseMessage l]\<rparr>
          else if ln_Kind l = ''DRV'' then
            (let d = parseDriveLine l
             in if dl_DevicePath d = devicePath \<and> dl_DriveName d \<noteq> [] then st\<lparr>sn_model := dl_DriveName d\<rparr> else st)
          else if ln_Kind l = ''TCOUNT'' then st\<lparr>sn_count := intField l 0\<rparr>
          else if ln_Kind l = ''CINFO'' then st\<lparr>sn_disc := (sn_disc st)(intField l 0 \<mapsto> field l 2)\<rparr>
          else if ln_Kind l = ''TINFO'' then
            st\<lparr>sn_titles := set_attr (intField l 0) (intField l 1) (field l 3) (sn_titles st)\<rparr>
          else if ln_Kind l = ''SINFO'' then
            st\<lparr>sn_streams := set_attr (stream_key (intField l 0) (intField l 1)) (intField l 2) (field l 4) (sn_streams st)\<rparr>
          else st)"

definition normaliseStreamKind :: "string \<Rightarrow> string" where
  "normaliseStreamKind s =
     (let k = ToLower (TrimSpace s) in if k = ''subtitles'' then ''subtitle'' else k)"

definition firstNonEmpty :: "string \<Rightarrow> string \<Rightarrow> string" where
  "firstNonEmpty a b = (if TrimSpace a \<noteq> [] then a else if TrimSpace b \<noteq> [] then b else [])"

definition stream_of :: "int \<times> attrs \<Rightarrow> stream" where
  "stream_of e =
     (case e of (key, a) \<Rightarrow>
        \<lparr>st_Index = key_index key, st_Kind = normaliseStreamKind (attrString a 1),
         st_Codec = firstNonEmpty (attrString a 6) (attrString a 5), st_Language = attrString a 3, st_LangName = attrString a 4,
         st_Channels = attrInt a 14, st_SampleRate = attrString a 17, st_Resolution = attrString a 19,
         st_AspectRatio = attrString a 20, st_FrameRate = attrString a 21, st_Bitrate = attrString a 13,
         st_Flags = firstNonEmpty (attrString a 22) (attrString a 38), st_Name = attrString a 2, st_Attrs = a\<rparr>)"

definition title_of :: "attr_table \<Rightarrow> int \<times> attrs \<Rightarrow> title" where
  "title_of streams e =
     (case e of (idx, a) \<Rightarrow>
        \<lparr>ti_Index = idx, ti_DurationSecs = ParseDuration (attrString a 9), ti_Chapters = attrInt a 8,
         ti_SizeBytes = parseBytes (attrString a 11), ti_SourceFile = attrString a 16, ti_SegmentsCount = attrInt a 25,
         ti_SegmentsMap = attrString a 26, ti_Name = attrString a 2, ti_OutputFile = TitleFileName idx,
         ti_MakeMKVSuggestedName = attrString a 27,
         ti_Streams = sort_key st_Index (map stream_of (filter (\<lambda>(key, b). key_title key = idx) streams)),
         ti_Attrs = a\<rparr>)"

definition src_type :: "string \<Rightarrow> disc_type option" where
  "src_type f =
     (let src = ToLower f
      in if contains src ''.m2ts'' \<or> contains src ''.mpls'' then Some TypeBluRay
         else if contains src ''.vob'' \<or> contains src ''vts_'' then Some TypeDVD else None)"

fun inferType :: "title list \<Rightarrow> disc_type" where
  "inferType [] = TypeUnknown"
| "inferType (t # ts) = (case src_type (ti_SourceFile t) of Some k \<Rightarrow> k | None \<Rightarrow> inferType ts)"

record scan_result =
  sr_Disc :: disc
  sr_Raw :: string
  sr_Messages :: "message list"

definition plain_message :: "string \<Rightarrow> message" where
  "plain_message t = \<lparr>ms_Code = 0, ms_Flags = 0, ms_Text = t\<rparr>"

text \<open>\<^verbatim>\<open>Scan\<close>, given the lines makemkvcon printed and the error it ended with, if any.\<close>

definition Scan :: "(string \<Rightarrow> string) \<Rightarrow> date \<Rightarrow> string \<Rightarrow> string list \<Rightarrow> string option \<Rightarrow> string + scan_result" where
  "Scan sha today src lines err =
     (case err of
        Some e \<Rightarrow> Inl e
      | None \<Rightarrow>
          (let st = fold (scan_line (DevicePath src)) lines scan_start;
               ts = map (title_of (sn_streams st)) (sort_key fst (sn_titles st));
               label = TrimSpace (attrString (sn_disc st) 32);
               announced = announcedTitles (sn_messages st);
               msgs1 = sn_messages st @ (if announced > length ts then [plain_message (''hellbox: MakeMKV analysed '' @ nat_str announced
                         @ '' titles but offered '' @ nat_str (length ts) @ ''; the drive may be unable to read all of this disc'')] else []);
               msgs2 = msgs1 @ (if sn_count st > 0 \<and> sn_count st \<noteq> int (length ts) then [plain_message (''hellbox: TCOUNT reported ''
                         @ int_str (sn_count st) @ '' titles but '' @ nat_str (length ts) @ '' were parsed'')] else []);
               d = empty_disc\<lparr>di_VolumeLabel := label, di_ScannedAt := Some today, di_DriveModel := sn_model st,
                     di_MakeMKVVersion := versionFromMessages (sn_messages st), di_Type := inferType ts, di_Titles := ts,
                     di_TotalBytes := fold (\<lambda>t n. wrap64 (n + ti_SizeBytes t)) ts 0,
                     di_Fingerprint := ComputeFingerprint sha label ts\<rparr>
           in if ts = [] then Inl (''no titles found on '' @ src @ '': '' @ summarise msgs2)
              else Inr \<lparr>sr_Disc = d, sr_Raw = concat (map (\<lambda>l. l @ [CHR 0x0A]) lines), sr_Messages = msgs2\<rparr>))"

section \<open>Choosing the file a rip produced\<close>

definition singleMKV :: "string \<Rightarrow> (string \<times> bool) list \<Rightarrow> string + string" where
  "singleMKV dir entries =
     (let found = map (\<lambda>(n, d). Join [dir, n]) (filter (\<lambda>(n, d). \<not> d \<and> ToLower (Ext n) = ''.mkv'') entries)
      in case found of
           [p] \<Rightarrow> Inr p
         | [] \<Rightarrow> Inl ''makemkvcon produced no output file''
         | _ \<Rightarrow> Inl (''makemkvcon produced '' @ nat_str (length found) @ '' output files, expected 1''))"

text \<open>\<^verbatim>\<open>RipTitle\<close>: the directories, the run (its messages, the watchdog's verdict and its error), what it left in the
  staging directory, and moving that into place. A stall is looked at before the error it ends the run with.\<close>

record rip_env =
  re_mkdir :: "string option"
  re_staging :: "string + string"
  re_messages :: "message list"
  re_stalled :: bool
  re_timeout :: string
  re_error :: "string option"
  re_entries :: "string + (string \<times> bool) list"
  re_rename :: "string option"
  re_stat :: "string + int"

definition RipTitle :: "rip_env \<Rightarrow> int \<Rightarrow> string \<Rightarrow> string + string \<times> int" where
  "RipTitle env titleIndex destDir =
     (let why = '': '' @ summarise (re_messages env); what = ''rip title '' @ int_str titleIndex @ '': '';
          final = Join [destDir, TitleFileName titleIndex]
      in case re_mkdir env of
           Some e \<Rightarrow> Inl (''create '' @ destDir @ '': '' @ e)
         | None \<Rightarrow>
             (case re_staging env of
                Inl e \<Rightarrow> Inl (''create staging dir: '' @ e)
              | Inr staging \<Rightarrow>
                  if re_stalled env then Inl (what @ ''no progress for '' @ re_timeout env
                    @ '', so it was stopped; a drive with no region set stalls like this on a region-coded disc'' @ why)
                  else case re_error env of
                    Some e \<Rightarrow> Inl (what @ e @ why)
                  | None \<Rightarrow>
                      (case (case re_entries env of Inl e \<Rightarrow> Inl (''read staging dir: '' @ e) | Inr es \<Rightarrow> singleMKV staging es) of
                         Inl e \<Rightarrow> Inl (what @ e @ why)
                       | Inr produced \<Rightarrow>
                           (case re_rename env of
                              Some e \<Rightarrow> Inl (''move title '' @ int_str titleIndex @ '' into place: '' @ e)
                            | None \<Rightarrow>
                                (case re_stat env of
                                   Inl e \<Rightarrow> Inl (''stat '' @ final @ '': '' @ e)
                                 | Inr n \<Rightarrow> Inr (final, n))))))"

section \<open>The stall watchdog\<close>

record stall_timer =
  sl_timeout :: int
  sl_last :: int
  sl_fired :: bool
  sl_marker :: "(int \<times> int \<times> int) option"

definition newStallTimer :: "int \<Rightarrow> int \<Rightarrow> stall_timer" where
  "newStallTimer timeout now = \<lparr>sl_timeout = timeout, sl_last = now, sl_fired = False, sl_marker = None\<rparr>"

definition observe :: "int \<times> int \<times> int \<Rightarrow> int \<Rightarrow> stall_timer \<Rightarrow> stall_timer" where
  "observe m now s = (if sl_marker s = Some m then s else s\<lparr>sl_marker := Some m, sl_last := now\<rparr>)"

definition expired :: "int \<Rightarrow> stall_timer \<Rightarrow> bool \<times> stall_timer" where
  "expired now s =
     (if sl_timeout s \<le> 0 then (False, s)
      else if sl_fired s \<or> now - sl_last s < sl_timeout s then (False, s)
      else (True, s\<lparr>sl_fired := True\<rparr>))"

definition SECONDS :: int where "SECONDS = 1000000000"

definition checkInterval :: "int \<Rightarrow> int" where
  "checkInterval timeout =
     (if timeout \<le> 0 then 0
      else let d = timeout div 10
           in if d < 30 * SECONDS then (if d < SECONDS then SECONDS else d) else 30 * SECONDS)"

section \<open>Fields\<close>

text \<open>How makemkvcon writes a field: in quotes, with a quote inside doubled.\<close>

definition enc_char :: "char \<Rightarrow> string" where
  "enc_char c = (if c = QUOTE then [QUOTE, QUOTE] else [c])"

definition quote_field :: "string \<Rightarrow> string" where
  "quote_field f = QUOTE # concat (map enc_char f) @ [QUOTE]"

text \<open>A backslash before a quote or at the end of a field is taken for the other way of escaping one.\<close>

fun no_escape :: "string \<Rightarrow> bool" where
  "no_escape [] = True"
| "no_escape [c] = (c \<noteq> BACKSLASH)"
| "no_escape (c # d # s) = (\<not> (c = BACKSLASH \<and> d = QUOTE) \<and> no_escape (d # s))"

lemma hd_enc: "f \<noteq> [] \<Longrightarrow> hd (concat (map enc_char f)) = hd f \<and> concat (map enc_char f) \<noteq> []"
  by (cases f) (auto simp: enc_char_def)

lemma split_quoted:
  "no_escape f \<Longrightarrow> rest = [] \<or> hd rest \<noteq> QUOTE \<Longrightarrow>
     split_fields True buf (concat (map enc_char f) @ QUOTE # rest) = split_fields False (buf @ f) rest"
proof (induction f arbitrary: buf)
  case Nil
  then show ?case by auto
next
  case (Cons c f)
  have f: "no_escape f" using Cons.prems(1) by (cases f) auto
  note IH = Cons.IH [OF f Cons.prems(2)]
  show ?case
  proof (cases "c = QUOTE")
    case True
    then show ?thesis using IH by (simp add: enc_char_def)
  next
    case False
    have "c = BACKSLASH \<Longrightarrow> hd (concat (map enc_char f) @ QUOTE # rest) \<noteq> QUOTE"
      using Cons.prems(1) hd_enc [of f] by (cases f) (auto simp: hd_append)
    moreover have "enc_char c = [c]" using False by (simp add: enc_char_def)
    ultimately show ?thesis using False IH by (cases "c = BACKSLASH") auto
  qed
qed

lemma split_quoted_field:
  "no_escape f \<Longrightarrow> rest = [] \<or> hd rest \<noteq> QUOTE \<Longrightarrow> split_fields False [] (quote_field f @ rest) = split_fields False f rest"
  using split_quoted [of f rest "[]"] by (simp add: quote_field_def)

text \<open>Reading a robot line's values undoes writing them: fields written in quotes, with the quotes inside
  doubled, are read back exactly, commas and quotes inside them included, as long as none has a backslash
  before a quote or at its end.\<close>

theorem splitFields_reads_quoted:
  assumes "fs \<noteq> []" and "list_all no_escape fs"
  shows "splitFields (join_with '','' (map quote_field fs)) = fs"
  using assms unfolding splitFields_def
proof (induction fs)
  case (Cons f fs)
  show ?case
  proof (cases fs)
    case Nil
    then show ?thesis using split_quoted_field [of f "[]"] Cons.prems by simp
  next
    case (Cons g gs)
    then have "split_fields False [] (join_with '','' (map quote_field fs)) = fs" using Cons.IH Cons.prems by simp
    then show ?thesis
      using split_quoted_field [of f "CHR '','' # join_with '','' (map quote_field fs)"] Cons Cons.prems by simp
  qed
qed simp

theorem splitFields_reads_quoted_witness:
  "splitFields (join_with '','' (map quote_field [''Alien, the film'', [QUOTE, CHR ''x'', QUOTE], [BACKSLASH, CHR ''x'']]))
     = [''Alien, the film'', [QUOTE, CHR ''x'', QUOTE], [BACKSLASH, CHR ''x'']]"
  by (rule splitFields_reads_quoted) code_simp+

section \<open>Durations\<close>

text \<open>The range is compared on integers when an expression is evaluated: natural numbers are counted out there.\<close>

lemma Atoi_code [code]:
  "Atoi s =
     (case s of
        [] \<Rightarrow> None
      | c # cs \<Rightarrow>
          if c = CHR ''-'' then
            (case parse_digits cs of None \<Rightarrow> None
             | Some n \<Rightarrow> if int n \<le> 9223372036854775808 then Some (- int n) else None)
          else
            (case parse_digits (if c = CHR ''+'' then cs else s) of None \<Rightarrow> None
             | Some n \<Rightarrow> if int n < 9223372036854775808 then Some (int n) else None))"
proof -
  have "int n \<le> 9223372036854775808 \<longleftrightarrow> n \<le> 2 ^ 63" "int n < 9223372036854775808 \<longleftrightarrow> n < 2 ^ 63" for n by simp_all
  then show ?thesis unfolding Atoi_def by (simp only:)
qed

lemma Atoi_digits: "list_all is_digit s \<Longrightarrow> s \<noteq> [] \<Longrightarrow> digits_value s < 2 ^ 63 \<Longrightarrow> Atoi s = Some (int (digits_value s))"
  using digit_not_sign by (cases s) (auto simp: Atoi_def parse_digits_def)

lemma Atoi_int_str02: "0 \<le> i \<Longrightarrow> i < 2 ^ 63 \<Longrightarrow> Atoi (int_str02 i) = Some i"
proof -
  assume i: "0 \<le> i" "i < 2 ^ 63"
  have d: "list_all is_digit (int_str02 i)" and ne: "int_str02 i \<noteq> []" and v: "digits_value (int_str02 i) = nat i"
    using i(1) nat_str_digits [of "nat i"] by (simp_all add: int_str02_def int_str_def is_digit_def)
  have "digits_value (int_str02 i) < 2 ^ 63" using i by (simp add: v nat_less_iff)
  from Atoi_digits [OF d ne this] show ?thesis using i by (simp add: v)
qed

lemma split_duration:
  assumes "list_all is_digit a" "a \<noteq> []" "list_all is_digit b" "list_all is_digit c" "c \<noteq> []"
  shows "split_on (CHR '':'') (TrimSpace (a @ '':'' @ b @ '':'' @ c)) = [a, b, c]"
proof -
  let ?s = "a @ '':'' @ b @ '':'' @ c"
  have "is_digit (hd ?s)" and "is_digit (last ?s)" using assms by (simp_all add: list_all_iff)
  then have "\<not> is_space (hd ?s)" and "\<not> is_space (last ?s)" by (auto simp: is_space_def is_digit_def)
  then have "TrimSpace ?s = ?s" by (simp add: TrimSpace_def trim_by_idle)
  moreover have "CHR '':'' \<notin> set a" "CHR '':'' \<notin> set b" "CHR '':'' \<notin> set c"
    using assms by (auto simp: list_all_iff is_digit_def)
  ultimately show ?thesis by (simp add: split_on_append split_on_sep_free)
qed

lemma int_str02_digits: "0 \<le> i \<Longrightarrow> list_all is_digit (int_str02 i) \<and> int_str02 i \<noteq> []"
  using nat_str_digits [of "nat i"] by (simp add: int_str02_def int_str_def is_digit_def)

text \<open>A running time that hellbox prints is the running time its MakeMKV parser reads: for every title of 0
  seconds or more (and fewer than go's durations can hold), reading back the H:MM:SS text gives the seconds.\<close>

theorem ParseDuration_Duration:
  assumes "0 \<le> ti_DurationSecs t" and "ti_DurationSecs t * 1000000000 < 2 ^ 63"
  shows "ParseDuration (Duration t) = ti_DurationSecs t"
proof -
  define d where "d = ti_DurationSecs t"
  have d: "0 \<le> d" "d < 2 ^ 63" using assms by (simp_all add: d_def)
  let ?h = "d div 3600" and ?m = "(d div 60) mod 60" and ?s = "d mod 60"
  have dur: "Duration t = int_str ?h @ '':'' @ int_str02 ?m @ '':'' @ int_str02 ?s"
    using d(1) by (simp add: Duration_def Let_def go_div_nonneg go_mod_nonneg d_def [symmetric])
  have r: "0 \<le> ?h" "?h < 2 ^ 63" "0 \<le> ?m" "?m < 2 ^ 63" "0 \<le> ?s" "?s < 2 ^ 63" using d by simp_all
  have "list_all is_digit (int_str ?h) \<and> int_str ?h \<noteq> []" using nat_str_digits r(1) by (simp add: int_str_def)
  with int_str02_digits [OF r(3)] int_str02_digits [OF r(5)]
  have "split_on (CHR '':'') (TrimSpace (Duration t)) = [int_str ?h, int_str02 ?m, int_str02 ?s]"
    unfolding dur by (intro split_duration) simp_all
  moreover have atoi: "Atoi (int_str ?h) = Some ?h" "Atoi (int_str02 ?m) = Some ?m" "Atoi (int_str02 ?s) = Some ?s"
    by (rule Atoi_int_str [OF order_trans [OF _ r(1)] r(2)], simp) (rule Atoi_int_str02 [OF r(3, 4)] Atoi_int_str02 [OF r(5, 6)])+
  moreover have "duration_parts 0 [int_str ?h, int_str02 ?m, int_str02 ?s] = d"
  proof -
    have q: "?h * 60 + ?m = d div 60" "d div 60 * 60 + ?s = d"
      using zdiv_zmult2_eq [of 60 d 60] by simp_all
    have w: "wrap64 (0 * 60) = 0" "wrap64 (0 + ?h) = ?h" "wrap64 (?h * 60) = ?h * 60" "wrap64 (?h * 60 + ?m) = d div 60"
      "wrap64 (d div 60 * 60) = d div 60 * 60" "wrap64 (d div 60 * 60 + ?s) = d"
      unfolding q using d by (auto intro!: wrap64_idle)
    show ?thesis using r(1, 3, 5) by (simp only: duration_parts.simps atoi option.case w not_less [symmetric] if_False)
  qed
  ultimately show ?thesis by (simp add: ParseDuration_def d_def)
qed

theorem ParseDuration_Duration_witness:
  "ParseDuration (Duration (empty_title\<lparr>ti_DurationSecs := 7025\<rparr>)) = 7025 \<and> Duration (empty_title\<lparr>ti_DurationSecs := 7025\<rparr>) = ''1:57:05''"
proof
  show "ParseDuration (Duration (empty_title\<lparr>ti_DurationSecs := 7025\<rparr>)) = 7025"
    using ParseDuration_Duration [of "empty_title\<lparr>ti_DurationSecs := 7025\<rparr>"] by simp
  show "Duration (empty_title\<lparr>ti_DurationSecs := 7025\<rparr>) = ''1:57:05''" by code_simp
qed

section \<open>Titles and streams of a scan\<close>

lemma stream_key_parts:
  assumes "0 \<le> s" "s < 2 ^ 16" "- (2 ^ 47) \<le> t" "t < 2 ^ 47"
  shows "key_title (stream_key t s) = t" and "key_index (stream_key t s) = s"
proof -
  have b: "- (2 ^ 63) \<le> t * 2 ^ 16" "t * 2 ^ 16 < 2 ^ 63" using assms(3, 4) by simp_all
  then have w: "wrap64 (push_bit 16 t) = push_bit 16 t" by (simp add: wrap64_idle push_bit_eq_mult)
  have s: "take_bit 16 s = s" using assms(1, 2) by (simp add: take_bit_int_eq_self_iff)
  have k: "stream_key t s = concat_bit 16 s t" by (simp add: stream_key_def w concat_bit_def s or.commute)
  show "key_title (stream_key t s) = t"
    unfolding k key_title_def by (rule bit_eqI) (simp add: bit_simps bit_concat_bit_iff)
  have m: "(0xFFFF :: int) = mask 16" by (simp add: mask_eq_exp_minus_1)
  have "key_index (stream_key t s) = take_bit 16 (concat_bit 16 s t)" unfolding k key_index_def m take_bit_eq_mask ..
  also have "\<dots> = take_bit 16 s" by (rule bit_eqI) (auto simp: bit_simps bit_concat_bit_iff)
  finally show "key_index (stream_key t s) = s" by (simp only: s)
qed

lemma keys_set_attr: "map fst (set_attr k code v tab) = (if k \<in> set (map fst tab) then map fst tab else map fst tab @ [k])"
proof (cases "map_of tab k")
  case None
  moreover from None have "k \<notin> fst ` set tab" by (simp add: map_of_eq_None_iff)
  ultimately show ?thesis by (simp add: set_attr_def)
next
  case (Some a)
  then have "k \<in> fst ` set tab" by (auto dest: map_of_SomeD intro: rev_image_eqI)
  with Some show ?thesis by (simp add: set_attr_def update_keys)
qed

lemma map_of_set_attr: "map_of (set_attr k code v tab) =
    (map_of tab)(k \<mapsto> (case map_of tab k of None \<Rightarrow> Map.empty | Some a \<Rightarrow> a)(code \<mapsto> v))"
  by (auto simp: set_attr_def update_conv' fun_eq_iff map_add_def split: option.splits)

text \<open>The title a TINFO line is about, and the title and stream an SINFO line is about.\<close>

definition tinfo_of :: "string \<Rightarrow> int set" where
  "tinfo_of raw = (case ParseLine raw of None \<Rightarrow> {} | Some l \<Rightarrow> if ln_Kind l = ''TINFO'' then {intField l 0} else {})"

definition sinfo_of :: "string \<Rightarrow> (int \<times> int) set" where
  "sinfo_of raw = (case ParseLine raw of None \<Rightarrow> {} | Some l \<Rightarrow> if ln_Kind l = ''SINFO'' then {(intField l 0, intField l 1)} else {})"

definition scan_inv :: "scan_state \<Rightarrow> bool" where
  "scan_inv st \<longleftrightarrow> distinct (map fst (sn_titles st)) \<and> distinct (map fst (sn_streams st))"

lemma scan_line_keys:
  "set (map fst (sn_titles (scan_line dev raw st))) = tinfo_of raw \<union> set (map fst (sn_titles st))"
  "set (map fst (sn_streams (scan_line dev raw st))) = (\<lambda>(t, s). stream_key t s) ` sinfo_of raw \<union> set (map fst (sn_streams st))"
  unfolding scan_line_def tinfo_of_def sinfo_of_def Let_def
  by (auto simp: keys_set_attr simp del: set_map split: option.split)

lemma scan_line_inv: "scan_inv st \<Longrightarrow> scan_inv (scan_line dev raw st)"
  by (auto simp: scan_inv_def scan_line_def Let_def keys_set_attr simp del: set_map split: option.split)

lemma scan_lines:
  "scan_inv st \<Longrightarrow> scan_inv (fold (scan_line dev) ls st) \<and>
     set (map fst (sn_titles (fold (scan_line dev) ls st))) = \<Union> (tinfo_of ` set ls) \<union> set (map fst (sn_titles st)) \<and>
     set (map fst (sn_streams (fold (scan_line dev) ls st))) =
       (\<lambda>(t, s). stream_key t s) ` \<Union> (sinfo_of ` set ls) \<union> set (map fst (sn_streams st))"
  by (induction ls arbitrary: st) (auto simp: scan_line_inv scan_line_keys simp del: set_map)

lemma strictly_sorted_by:
  assumes "distinct (map f xs)"
  shows "sorted_wrt (<) (map f (sort_key (f :: 'a \<Rightarrow> int) xs))"
proof -
  have "distinct (map f (sort_key f xs))"
    using assms by (metis mset_map mset_sort mset_eq_imp_distinct_iff)
  then show ?thesis by (simp add: strict_sorted_iff)
qed

lemma Scan_ok:
  "Scan sha today src ls err = Inr r \<longleftrightarrow> err = None \<and>
     (let st = fold (scan_line (DevicePath src)) ls scan_start
      in sn_titles st \<noteq> [] \<and> di_Titles (sr_Disc r) = map (title_of (sn_streams st)) (sort_key fst (sn_titles st)) \<and>
         Scan sha today src ls err = Inr r)"
  by (auto simp: Scan_def Let_def empty_disc_def split: option.splits if_splits)

lemma title_streams:
  assumes inv: "distinct (map fst streams)" and keys: "set (map fst streams) = (\<lambda>(t, s). stream_key t s) ` P"
    and small: "\<And>t s. (t, s) \<in> P \<Longrightarrow> 0 \<le> s \<and> s < 2 ^ 16 \<and> - (2 ^ 47) \<le> t \<and> t < 2 ^ 47"
  shows "sorted_wrt (<) (map st_Index (ti_Streams (title_of streams e)))"
    and "set (map st_Index (ti_Streams (title_of streams e))) = {s. (fst e, s) \<in> P}"
proof -
  let ?mine = "filter (\<lambda>(key, b). key_title key = fst e) streams"
  have st: "ti_Streams (title_of streams e) = sort_key st_Index (map stream_of ?mine)"
    by (cases e) (simp add: title_of_def)
  have ix: "map st_Index (map stream_of xs) = map key_index (map fst xs)" for xs
    by (simp add: stream_of_def case_prod_beta)
  have mine: "map fst ?mine = filter (\<lambda>k. key_title k = fst e) (map fst streams)"
    by (induction streams) auto
  have kt: "key_title (stream_key t s) = t" "key_index (stream_key t s) = s" if "(t, s) \<in> P" for t s
    using stream_key_parts [of s t] small [OF that] by blast+
  have "inj_on key_index {k \<in> set (map fst streams). key_title k = fst e}"
  proof (rule inj_onI)
    fix k k'
    assume k: "k \<in> {k \<in> set (map fst streams). key_title k = fst e}"
      and k': "k' \<in> {k \<in> set (map fst streams). key_title k = fst e}" and eq: "key_index k = key_index k'"
    from k obtain t s where "(t, s) \<in> P" "k = stream_key t s" unfolding keys by auto
    moreover from k' obtain t' s' where "(t', s') \<in> P" "k' = stream_key t' s'" unfolding keys by auto
    ultimately show "k = k'" using k k' eq kt by (metis (mono_tags, lifting) mem_Collect_eq)
  qed
  then have "distinct (map st_Index (map stream_of ?mine))"
    unfolding ix mine by (intro distinct_map [THEN iffD2] conjI distinct_filter inv) (simp only: set_filter)
  then show "sorted_wrt (<) (map st_Index (ti_Streams (title_of streams e)))" unfolding st by (rule strictly_sorted_by)
  have "set (map st_Index (map stream_of ?mine)) = key_index ` {k \<in> set (map fst streams). key_title k = fst e}"
    unfolding ix mine by simp
  also have "\<dots> = {s. (fst e, s) \<in> P}"
  proof (intro subset_antisym subsetI)
    fix x assume "x \<in> key_index ` {k \<in> set (map fst streams). key_title k = fst e}"
    then obtain t s where "(t, s) \<in> P" "x = key_index (stream_key t s)" "key_title (stream_key t s) = fst e"
      unfolding keys by auto
    with kt [of t s] show "x \<in> {s. (fst e, s) \<in> P}" by simp
  next
    fix x assume "x \<in> {s. (fst e, s) \<in> P}"
    then have P: "(fst e, x) \<in> P" by simp
    then have "stream_key (fst e) x \<in> {k \<in> set (map fst streams). key_title k = fst e}"
      unfolding keys using kt(1) [OF P] by force
    from imageI [OF this, of key_index] show "x \<in> key_index ` {k \<in> set (map fst streams). key_title k = fst e}"
      by (simp only: kt(2) [OF P])
  qed
  finally show "set (map st_Index (ti_Streams (title_of streams e))) = {s. (fst e, s) \<in> P}"
    unfolding st by (simp add: image_image)
qed

text \<open>C19. A scan lists each title makemkvcon described exactly once, in increasing order, and under each title
  exactly the streams described for it, once each and in increasing order, provided the title and stream numbers
  fit the key that a scan packs them into: 16 bits for the stream, 48 for the title.\<close>

theorem Scan_titles_and_streams:
  assumes ok: "Scan sha today src ls err = Inr r"
    and small: "\<forall>raw \<in> set ls. \<forall>(t, s) \<in> sinfo_of raw. 0 \<le> s \<and> s < 2 ^ 16 \<and> - (2 ^ 47) \<le> t \<and> t < 2 ^ 47"
  shows "sorted_wrt (<) (map ti_Index (di_Titles (sr_Disc r)))
    \<and> set (map ti_Index (di_Titles (sr_Disc r))) = \<Union> (tinfo_of ` set ls)
    \<and> (\<forall>t \<in> set (di_Titles (sr_Disc r)). sorted_wrt (<) (map st_Index (ti_Streams t))
         \<and> set (map st_Index (ti_Streams t)) = {s. (ti_Index t, s) \<in> \<Union> (sinfo_of ` set ls)})"
proof -
  define st where "st = fold (scan_line (DevicePath src)) ls scan_start"
  have ts: "di_Titles (sr_Disc r) = map (title_of (sn_streams st)) (sort_key fst (sn_titles st))"
    using ok Scan_ok unfolding st_def Let_def by blast
  have "scan_inv scan_start" by (simp add: scan_inv_def scan_start_def)
  from scan_lines [OF this, of "DevicePath src" ls]
  have inv: "scan_inv st" and titles: "set (map fst (sn_titles st)) = \<Union> (tinfo_of ` set ls)"
    and streams: "set (map fst (sn_streams st)) = (\<lambda>(t, s). stream_key t s) ` \<Union> (sinfo_of ` set ls)"
    unfolding st_def [symmetric] by (simp_all add: scan_start_def)
  have ix: "ti_Index (title_of xs e) = fst e" for xs e by (cases e) (simp add: title_of_def)
  have d: "distinct (map fst (sn_titles st))" "distinct (map fst (sn_streams st))" using inv by (simp_all add: scan_inv_def)
  have "sorted_wrt (<) (map ti_Index (di_Titles (sr_Disc r)))" and "set (map ti_Index (di_Titles (sr_Disc r))) = \<Union> (tinfo_of ` set ls)"
    using strictly_sorted_by [OF d(1)] titles by (simp_all add: ts ix comp_def)
  moreover have "sorted_wrt (<) (map st_Index (ti_Streams t))
      \<and> set (map st_Index (ti_Streams t)) = {s. (ti_Index t, s) \<in> \<Union> (sinfo_of ` set ls)}"
    if t: "t \<in> set (di_Titles (sr_Disc r))" for t
  proof -
    obtain e where e: "t = title_of (sn_streams st) e" using t by (auto simp: ts)
    show ?thesis unfolding e ix
      by (intro conjI title_streams [OF d(2) streams]) (use small in blast)+
  qed
  ultimately show ?thesis by blast
qed

definition sample_lines :: "string list" where
  "sample_lines =
     [''MSG:5,0,1,'' @ quote_field ''MakeMKV v1.18.1 started'' @ '','' @ quote_field ''x'',
      ''TINFO:1,9,0,'' @ quote_field ''0:22:10'', ''TINFO:0,9,0,'' @ quote_field ''1:57:05'',
      ''SINFO:0,1,1,6202,'' @ quote_field ''Audio'', ''SINFO:0,0,1,6201,'' @ quote_field ''Video'', ''SINFO:1,0,1,6201,'' @ quote_field ''Video'',
      ''TINFO:0,11,0,'' @ quote_field ''5,0'']"

theorem Scan_titles_and_streams_witness:
  "\<exists>r. Scan (\<lambda>_. ''f00d'') (2026, 1, 1) ''dev:/dev/sr0'' sample_lines None = Inr r
     \<and> map ti_Index (di_Titles (sr_Disc r)) = [0, 1] \<and> sorted_wrt (<) (map ti_Index (di_Titles (sr_Disc r)))"
proof -
  let ?scan = "Scan (\<lambda>_. ''f00d'') (2026, 1, 1) ''dev:/dev/sr0'' sample_lines None"
  have "(case ?scan of Inl e \<Rightarrow> False | Inr r \<Rightarrow> map ti_Index (di_Titles (sr_Disc r)) = [0, 1])" by code_simp
  then obtain r where r: "?scan = Inr r" "map ti_Index (di_Titles (sr_Disc r)) = [0, 1]" by (cases ?scan) simp_all
  have "\<forall>raw \<in> set sample_lines. \<forall>(t, s) \<in> sinfo_of raw. 0 \<le> s \<and> s < 2 ^ 16 \<and> - (2 ^ 47) \<le> t \<and> t < 2 ^ 47"
    by code_simp
  from Scan_titles_and_streams [OF r(1) this] r show ?thesis by (intro exI [of _ r] conjI) simp_all
qed

section \<open>The watchdog's verdict\<close>

text \<open>What reaches the watchdog, with the time it does: progress readings and checks.\<close>

datatype stall_event = Reading "int \<times> int \<times> int" int | Check int

fun ev_time :: "stall_event \<Rightarrow> int" where
  "ev_time (Reading m now) = now"
| "ev_time (Check now) = now"

fun stall_step :: "stall_event \<Rightarrow> stall_timer \<Rightarrow> stall_timer" where
  "stall_step (Reading m now) s = observe m now s"
| "stall_step (Check now) s = snd (expired now s)"

text \<open>The readings among them, oldest first, and when the last one came that differed from the one before it.\<close>

fun readings :: "stall_event list \<Rightarrow> ((int \<times> int \<times> int) \<times> int) list" where
  "readings [] = []"
| "readings (Reading m now # es) = (m, now) # readings es"
| "readings (Check now # es) = readings es"

fun last_change :: "int \<Rightarrow> (int \<times> int \<times> int) option \<Rightarrow> ((int \<times> int \<times> int) \<times> int) list \<Rightarrow> int" where
  "last_change t m [] = t"
| "last_change t m ((m', now) # rs) = (if m = Some m' then last_change t m rs else last_change now (Some m') rs)"

definition stall_run :: "int \<Rightarrow> int \<Rightarrow> stall_event list \<Rightarrow> stall_timer" where
  "stall_run timeout t0 es = fold stall_step es (newStallTimer timeout t0)"

lemma last_change_snoc: "last_change t m (rs @ [(m', now)]) =
    (if (if rs = [] then m else Some (fst (last rs))) = Some m' then last_change t m rs else now)"
  by (induction t m rs rule: last_change.induct) auto

lemma readings_append [simp]: "readings (es @ fs) = readings es @ readings fs"
  by (induction es rule: readings.induct) simp_all

lemma stall_run_Nil: "stall_run timeout t0 [] = newStallTimer timeout t0"
  by (simp add: stall_run_def)

lemma stall_run_snoc: "stall_run timeout t0 (es @ [e]) = stall_step e (stall_run timeout t0 es)"
  by (simp add: stall_run_def)

lemma stall_run_clock:
  "sl_timeout (stall_run timeout t0 es) = timeout
    \<and> sl_marker (stall_run timeout t0 es) = (if readings es = [] then None else Some (fst (last (readings es))))
    \<and> sl_last (stall_run timeout t0 es) = last_change t0 None (readings es)"
proof (induction es rule: rev_induct)
  case Nil
  show ?case by (simp add: stall_run_Nil newStallTimer_def)
next
  case (snoc e es)
  then show ?case
    by (cases e) (auto simp: stall_run_snoc observe_def expired_def last_change_snoc)
qed

definition stall_due :: "int \<Rightarrow> int \<Rightarrow> stall_event list \<Rightarrow> int \<Rightarrow> bool" where
  "stall_due timeout t0 es now \<longleftrightarrow> 0 < timeout \<and> timeout \<le> now - last_change t0 None (readings es)"

lemma stall_fires_snoc:
  "sl_fired (stall_run timeout t0 (es @ [e])) \<longleftrightarrow>
     sl_fired (stall_run timeout t0 es) \<or> (\<exists>now. e = Check now \<and> stall_due timeout t0 es now)"
  using stall_run_clock [of timeout t0 es]
  by (cases e) (auto simp: stall_run_snoc observe_def expired_def stall_due_def)

lemma snoc_split: "(\<exists>pre x post. es @ [e] = pre @ x # post \<and> P pre x) \<longleftrightarrow> (\<exists>pre x post. es = pre @ x # post \<and> P pre x) \<or> P es e"
proof -
  have "es @ [e] = pre @ x # post \<longleftrightarrow> (post = [] \<and> pre = es \<and> x = e) \<or> (\<exists>post'. post = post' @ [e] \<and> es = pre @ x # post')" for pre x post
    by (cases post rule: rev_cases) auto
  then show ?thesis by metis
qed

text \<open>The watchdog stops a rip exactly when one of its checks comes a whole timeout or more after the last
  progress reading that differed from the one before it (or after the start, when there was none); repeating a
  reading, and messages, do not put it off. It answers so once, and a timeout of zero or less turns it off.\<close>

theorem stall_watchdog_exact:
  "(sl_fired (stall_run timeout t0 es) \<longleftrightarrow>
      (\<exists>pre now post. es = pre @ Check now # post \<and> 0 < timeout \<and> timeout \<le> now - last_change t0 None (readings pre)))
   \<and> (fst (expired now (stall_run timeout t0 es)) \<longleftrightarrow>
      0 < timeout \<and> timeout \<le> now - last_change t0 None (readings es) \<and> \<not> sl_fired (stall_run timeout t0 es))"
proof
  have "sl_fired (stall_run timeout t0 es) \<longleftrightarrow>
      (\<exists>pre x post. es = pre @ x # post \<and> (\<exists>now. x = Check now \<and> stall_due timeout t0 pre now))"
  proof (induction es rule: rev_induct)
    case Nil
    show ?case by (simp add: stall_run_Nil newStallTimer_def)
  next
    case (snoc e es)
    show ?case unfolding stall_fires_snoc snoc snoc_split ..
  qed
  then show "sl_fired (stall_run timeout t0 es) \<longleftrightarrow>
      (\<exists>pre now post. es = pre @ Check now # post \<and> 0 < timeout \<and> timeout \<le> now - last_change t0 None (readings pre))"
    unfolding stall_due_def by blast
next
  show "fst (expired now (stall_run timeout t0 es)) \<longleftrightarrow>
      0 < timeout \<and> timeout \<le> now - last_change t0 None (readings es) \<and> \<not> sl_fired (stall_run timeout t0 es)"
    using stall_run_clock [of timeout t0 es] by (auto simp: expired_def)
qed

end
