(* ===== verification/Native.thy ===== *)
theory Native
  imports Dvd Ifo Makemkv
begin

text \<open>
  \<^verbatim>\<open>internal/daemon/native.go\<close>: the DVD path without MakeMKV, which scans a disc with ffprobe, names it from its IFO
  and extracts its titles with ffmpeg; and \<^verbatim>\<open>internal/drive/label.go\<close>, which gives the volume label.

  The lemmas show that the titles a scan keeps can be extracted by their numbers, and what the scan's verbatim record
  says of each title.
\<close>

section \<open>The label\<close>

definition isPrintable :: "string \<Rightarrow> bool" where
  "isPrintable s \<longleftrightarrow> list_all (\<lambda>c. \<not> (of_char c < (0x20 :: nat) \<or> c = CHR 0x7F)) s"

text \<open>\<^verbatim>\<open>VolumeLabel\<close>, given what \<^verbatim>\<open>blkid\<close> printed, or \<^const>\<open>None\<close> when it failed: the label and the error.\<close>

definition VolumeLabel :: "string option \<Rightarrow> string \<Rightarrow> string \<times> string option" where
  "VolumeLabel out path =
     (case out of
        None \<Rightarrow> ([], None)
      | Some o' \<Rightarrow>
          (let label = TrimSpace o'
           in if label = [] then ([], None)
              else if \<not> isPrintable label then ([], Some (''unreadable volume label on '' @ path))
              else (label, None)))"

section \<open>Names of tools and files\<close>

fun Replace_first :: "string \<Rightarrow> string \<Rightarrow> string \<Rightarrow> string" where
  "Replace_first [] old new = (if old = [] then new else [])"
| "Replace_first (c # s) old new =
     (if prefix old (c # s) then new @ drop (length old) (c # s) else c # Replace_first s old new)"

definition ffprobeBeside :: "string \<Rightarrow> string" where
  "ffprobeBeside ffmpegBin =
     (if ffmpegBin = [] \<or> ffmpegBin = ''ffmpeg'' then ''ffprobe''
      else let base = last (split_on SLASH ffmpegBin); dir = take (length ffmpegBin - length base) ffmpegBin
           in Join [dir, Replace_first base ''ffmpeg'' ''ffprobe''])"

definition scanFileName :: "bool \<Rightarrow> string" where
  "scanFileName native = (if native then ''scan-native.txt'' else ''makemkv-info.txt'')"

definition readPath :: "config \<Rightarrow> string" where
  "readPath cfg = (if NativeDVD cfg then ''native-dvd'' else ''makemkv'')"

section \<open>The scan\<close>

definition pad_left :: "nat \<Rightarrow> string \<Rightarrow> string" where
  "pad_left w s = replicate (w - length s) (CHR '' '') @ s"

definition pad_right :: "nat \<Rightarrow> string \<Rightarrow> string" where
  "pad_right w s = s @ replicate (w - length s) (CHR '' '')"

definition kept_word :: "config \<Rightarrow> title \<Rightarrow> string" where
  "kept_word cfg t = (if ti_DurationSecs t < MinTitleSeconds cfg then ''skipped'' else ''  kept'')"

definition scan_entry :: "config \<Rightarrow> title \<Rightarrow> string" where
  "scan_entry cfg t =
     kept_word cfg t @ '' title '' @ pad_left 2 (int_str (ti_Index t)) @ ''  '' @ pad_right 9 (Duration t) @ '' ''
     @ pad_left 2 (int_str (ti_Chapters t)) @ '' chapters  '' @ nat_str (length (ti_Streams t)) @ '' streams'' @ [NL]"

text \<open>What a scan meets: the label, the probes with the context's state before each, and the IFO.\<close>

record native_env =
  ne_device :: string
  ne_stableID :: string
  ne_describe :: string
  ne_blkid :: "string option"
  ne_stop :: "nat \<Rightarrow> string option"
  ne_probe :: "nat \<Rightarrow> string + probe_result"
  ne_ifo :: ifo_source
  ne_today :: date

definition native_raw :: "config \<Rightarrow> native_env \<Rightarrow> string \<Rightarrow> string \<Rightarrow> title list \<Rightarrow> title list \<Rightarrow> string" where
  "native_raw cfg env label name all kept =
     ''native dvd enumeration (ffmpeg dvdvideo demuxer)'' @ [NL]
     @ ''device: '' @ ne_device env @ [NL] @ ''volume label: '' @ label @ [NL] @ ''disc name: '' @ name @ [NL]
     @ ''pal: '' @ (if PAL all then ''true'' else ''false'') @ [NL]
     @ ''titles found: '' @ nat_str (length all) @ '', above '' @ int_str (MinTitleSeconds cfg) @ ''s: '' @ nat_str (length kept) @ [NL, NL]
     @ concat (map (scan_entry cfg) all)"

definition nativeScan :: "(string \<Rightarrow> string) \<Rightarrow> unicode \<Rightarrow> config \<Rightarrow> native_env \<Rightarrow> string + scan_result" where
  "nativeScan sha uc cfg env =
     (let label = fst (VolumeLabel (ne_blkid env) (ne_device env))
      in case dvd_Enumerate (ne_stop env) (ne_probe env) (ne_device env) of
           Inl e \<Rightarrow> Inl e
         | Inr d \<Rightarrow>
             (let all = di_Titles d;
                  kept = Filtered (MinTitleSeconds cfg) all;
                  name = (case DiscTitle uc (ne_ifo env) of Inl e \<Rightarrow> [] | Inr n \<Rightarrow> n);
                  d1 = d\<lparr>di_VolumeLabel := label, di_Type := TypeDVD, di_ScannedAt := Some (ne_today env),
                         di_DriveStableID := ne_stableID env, di_DriveModel := ne_describe env, di_Titles := kept,
                         di_Fingerprint := ComputeFingerprint sha label kept\<rparr>;
                  d2 = (if name \<noteq> [] then d1\<lparr>di_DiscName := name\<rparr> else d1)
              in Inr \<lparr>sr_Disc = d2, sr_Raw = native_raw cfg env label name all kept, sr_Messages = []\<rparr>))"

section \<open>The rip of a title\<close>

definition native_extractor :: "config \<Rightarrow> extractor" where
  "native_extractor cfg = \<lparr>ex_FFmpegBin = FFmpegBin cfg, ex_Preindex = DVDPreindex cfg, ex_StallTimeout = RipStallTimeout cfg\<rparr>"

definition native_out :: "string \<Rightarrow> title \<Rightarrow> string" where
  "native_out ripDir t = Join [ripDir, TitleFileName (ti_Index t)]"

text \<open>The path and the size, as \<^verbatim>\<open>RipTitle\<close> of MakeMKV's driver returns them.\<close>

definition nativeRipTitle :: "(int \<Rightarrow> string) \<Rightarrow> config \<Rightarrow> extract_env \<Rightarrow> title \<Rightarrow> string \<Rightarrow> string + string \<times> int" where
  "nativeRipTitle dur cfg env t ripDir =
     (case fst (Extract dur (native_extractor cfg) env (native_out ripDir t)) of
        Inl e \<Rightarrow> Inl e
      | Inr sz \<Rightarrow> Inr (native_out ripDir t, sz))"

section \<open>What is published of a disc\<close>

record title_event =
  te_index :: int
  te_duration_seconds :: int
  te_chapters :: int
  te_source_file :: string
  te_audio_count :: nat
  te_subtitle_count :: nat

record disc_event =
  de_stage :: string
  de_fingerprint :: string
  de_volume_label :: string
  de_disc_name :: string
  de_disc_type :: disc_type
  de_read_path :: string
  de_rip_dir :: string
  de_blocked :: bool
  de_blocked_reason :: string
  de_drive :: string
  de_titles :: "title_event list"

definition title_event_of :: "title \<Rightarrow> title_event" where
  "title_event_of t =
     (let n = (\<lambda>kind. length (filter (\<lambda>s. st_Kind s = kind) (ti_Streams t)))
      in \<lparr>te_index = ti_Index t, te_duration_seconds = ti_DurationSecs t, te_chapters = ti_Chapters t,
          te_source_file = ti_SourceFile t, te_audio_count = n ''audio'', te_subtitle_count = n ''subtitle''\<rparr>)"

definition disc_event_of :: "config \<Rightarrow> string \<Rightarrow> string \<Rightarrow> disc \<Rightarrow> string \<Rightarrow> bool \<Rightarrow> string \<Rightarrow> disc_event" where
  "disc_event_of cfg label stage d ripDir blocked reason =
     \<lparr>de_stage = stage, de_fingerprint = di_Fingerprint d, de_volume_label = di_VolumeLabel d, de_disc_name = di_DiscName d,
      de_disc_type = di_Type d, de_read_path = readPath cfg, de_rip_dir = ripDir, de_blocked = blocked,
      de_blocked_reason = reason, de_drive = label, de_titles = map title_event_of (di_Titles d)\<rparr>"

section \<open>Scans and rips agree\<close>

lemma nativeScan_run:
  assumes "nativeScan sha uc cfg env = Inr r"
  obtains d where "dvd_Enumerate (ne_stop env) (ne_probe env) (ne_device env) = Inr d"
    "di_Titles (sr_Disc r) = Filtered (MinTitleSeconds cfg) (di_Titles d)"
    "di_Fingerprint (sr_Disc r) = ComputeFingerprint sha (di_VolumeLabel (sr_Disc r)) (di_Titles (sr_Disc r))"
    "di_VolumeLabel (sr_Disc r) = fst (VolumeLabel (ne_blkid env) (ne_device env))"
  using assms by (auto simp: nativeScan_def Let_def split: sum.splits if_splits intro: that)

text \<open>C32. The titles a native scan keeps are exactly those ffprobe described, before the first number with nothing in it,
  that run long enough; each is written to a file of its own, and it is under the number ffprobe described it by that
  ffmpeg is asked for it.\<close>

theorem native_titles_are_extracted_by_number:
  assumes "nativeScan sha uc cfg env = Inr r"
  shows "(t \<in> set (di_Titles (sr_Disc r)) \<longleftrightarrow>
      (\<exists>i < maxTitles. (\<forall>n. 0 < n \<and> n \<le> i + 1 \<longrightarrow> title_there (ne_probe env) n) \<and> t = title_at (ne_probe env) i \<and>
         min_seconds (MinTitleSeconds cfg) \<le> ti_DurationSecs t \<and> ti_Index t = int i \<and>
         extract_args (native_extractor cfg) (ne_device env) t dest ! 10 = probeTitle_args (ne_device env) (i + 1) ! 6)) \<and>
     distinct (map ti_Index (di_Titles (sr_Disc r)))"
proof -
  obtain d where d: "dvd_Enumerate (ne_stop env) (ne_probe env) (ne_device env) = Inr d"
      "di_Titles (sr_Disc r) = Filtered (MinTitleSeconds cfg) (di_Titles d)"
    using nativeScan_run [OF assms] by blast
  note spec = dvd_titles_keep_their_numbers [OF d(1)]
  have "map ti_Index (di_Titles d) = map int [0..<length (di_Titles d)]" using spec by blast
  then have "distinct (map ti_Index (di_Titles d))" by (simp add: distinct_map)
  then have "distinct (map ti_Index (di_Titles (sr_Disc r)))" unfolding d(2) Filtered_def by (rule distinct_map_filter)
  then show ?thesis using spec unfolding d(2) by blast
qed

text \<open>With no shortest running time configured, the scan leaves out titles of less than a minute but its record says
  that they were kept.\<close>

theorem native_record_says_kept:
  assumes "MinTitleSeconds cfg = 0" "0 \<le> ti_DurationSecs t" "ti_DurationSecs t < 60"
  shows "kept_word cfg t = ''  kept'' \<and> t \<notin> set (Filtered (MinTitleSeconds cfg) ts)"
  using assms by (simp add: kept_word_def Filtered_def min_seconds_def)

definition sample_probe :: "nat \<Rightarrow> string + probe_result" where
  "sample_probe n =
     (let p = (\<lambda>secs. Inr \<lparr>pb_Duration = Some (secs * 1000000), pb_Chapters = 2, pb_Streams = []\<rparr>)
      in if n = 1 then p 90 else if n = 2 then p 10 else if n = 3 then p 70 else Inl ''exit status 1'')"

definition sample_native :: native_env where
  "sample_native = \<lparr>ne_device = ''/dev/sr0'', ne_stableID = ''d'', ne_describe = ''drive'', ne_blkid = Some ''X'',
     ne_stop = (\<lambda>n. None), ne_probe = sample_probe, ne_ifo = sample_source [], ne_today = (2026, 1, 1)\<rparr>"

lemma sample_enumerate:
  "dvd_Enumerate (\<lambda>n. None) sample_probe ''/dev/sr0'' = Inr (empty_disc\<lparr>di_Type := TypeDVD, di_Titles := map (title_at sample_probe) [0, 1, 2]\<rparr>)"
proof -
  have up: "[1..<maxTitles + 1] = [1, 2, 3, 4] @ [5..<maxTitles + 1]" by code_simp
  show ?thesis unfolding dvd_Enumerate_def up
    by (simp add: sample_probe_def title_at_def probe_durationSecs_def Let_def numeral_2_eq_2)
qed

lemma sample_scan:
  obtains r where "nativeScan (\<lambda>s. s) ascii_only cfg sample_native = Inr r"
  using that sample_enumerate by (auto simp: nativeScan_def sample_native_def Let_def)

theorem native_titles_are_extracted_by_number_witness:
  "\<exists>r. nativeScan (\<lambda>s. s) ascii_only Default sample_native = Inr r \<and> title_at sample_probe 2 \<in> set (di_Titles (sr_Disc r)) \<and>
     title_at sample_probe 1 \<notin> set (di_Titles (sr_Disc r))"
proof -
  obtain r where r: "nativeScan (\<lambda>s. s) ascii_only Default sample_native = Inr r" by (rule sample_scan)
  note spec = native_titles_are_extracted_by_number [OF r]
  have there: "title_there (ne_probe sample_native) n" if "0 < n" "n \<le> 3" for n
  proof -
    have "n = 1 \<or> n = 2 \<or> n = 3" using that by linarith
    then show ?thesis by (auto simp: sample_native_def sample_probe_def title_there_def probe_durationSecs_def)
  qed
  have secs: "ti_DurationSecs (title_at sample_probe 2) = 70" "ti_DurationSecs (title_at sample_probe 1) = 10"
    by (simp_all add: title_at_def probe_title_def sample_probe_def probe_durationSecs_def)
  have env: "ne_probe sample_native = sample_probe" "min_seconds (MinTitleSeconds Default) = 60"
    by (simp_all add: sample_native_def Default_def min_seconds_def)
  have "extract_args (native_extractor Default) dev (title_at sample_probe 2) [] ! 10 = probeTitle_args dev 3 ! 6" for dev
    by (simp add: extract_args_def probeTitle_args_def title_at_def probe_title_def int_str_def)
  moreover have "ti_Index (title_at sample_probe 2) = 2" by (simp add: title_at_def probe_title_def)
  ultimately have "title_at sample_probe 2 \<in> set (di_Titles (sr_Disc r))"
    using spec [of "title_at sample_probe 2" "[]"] there secs(1) env
    by (auto simp: maxTitles_def intro!: exI [of _ 2])
  moreover have "title_at sample_probe 1 \<notin> set (di_Titles (sr_Disc r))"
    using spec [of "title_at sample_probe 1" "[]"] secs(2) env by auto
  ultimately show ?thesis using r by blast
qed

end
