(* ===== verification/Identify.thy ===== *)
theory Identify
  imports Disc
begin

text \<open>
  \<^verbatim>\<open>internal/identify/identify.go\<close> and \<^verbatim>\<open>label.go\<close>: what a disc is called, by weighing what several nets propose, and
  the net that reads the volume label.

  A confidence is a \<^verbatim>\<open>float64\<close>, here the number of its units of \<^verbatim>\<open>2^-60\<close>; sums and differences are rounded to 53
  significant bits as the machine does. Case mapping is that of ASCII. The regular expressions are matchers: a lazy
  group at the start of a pattern is the shortest one the rest matches after, and the rest never has to give back what
  it took. The lemmas show that every title proposed has exactly one entry in the answer, the entries are in order
  of confidence, and agreement never counts for less than the ceiling allows.
\<close>

section \<open>Confidence\<close>

type_synonym confidence = int

definition fl_shift :: "int \<Rightarrow> nat" where
  "fl_shift n = (case List.find (\<lambda>k. n < 2 ^ (53 + k)) [0..<64] of Some k \<Rightarrow> k | None \<Rightarrow> 0)"

text \<open>To the nearest number of 53 bits, ties to even.\<close>

definition fl :: "int \<Rightarrow> confidence" where
  "fl n =
     (let u = 2 ^ fl_shift n; q = n div u; r = n mod u
      in if 2 * r < u then q * u else if 2 * r > u then (q + 1) * u else if even q then q * u else (q + 1) * u)"

definition c015 :: confidence where "c015 = 172938225691027040"
definition c020 :: confidence where "c020 = 230584300921369408"
definition c035 :: confidence where "c035 = 403522526612396416"
definition c050 :: confidence where "c050 = 576460752303423488"
definition c055 :: confidence where "c055 = 634106827533765888"
definition c060 :: confidence where "c060 = 691752902764108160"
definition c065 :: confidence where "c065 = 749398977994450560"
definition c080 :: confidence where "c080 = 922337203685477632"
definition c095 :: confidence where "c095 = 1095275429376504576"

section \<open>Candidates\<close>

datatype id_kind = IdUnknown | IdMovie | IdSeries

record id_input =
  ii_VolumeLabel :: string
  ii_DiscType :: string
  ii_Titles :: "int list"
  ii_Fingerprint :: string
  ii_ContentHash :: string
  ii_DiscName :: string
  ii_DiscNameSource :: string

record candidate =
  ca_Title :: string
  ca_Year :: int
  ca_Kind :: id_kind
  ca_Season :: int
  ca_Disc :: int
  ca_Net :: string
  ca_Confidence :: confidence
  ca_Why :: string

definition empty_candidate :: candidate where
  "empty_candidate = \<lparr>ca_Title = [], ca_Year = 0, ca_Kind = IdUnknown, ca_Season = 0, ca_Disc = 0, ca_Net = [],
     ca_Confidence = 0, ca_Why = []\<rparr>"

record id_result =
  re_Best :: candidate
  re_All :: "candidate list"
  re_Contested :: bool

fun norm_loop :: "bool \<Rightarrow> bool \<Rightarrow> string \<Rightarrow> string" where
  "norm_loop lastSpace started [] = []"
| "norm_loop lastSpace started (c # s) =
     (if is_lower c \<or> is_digit c then c # norm_loop False True s
      else if \<not> lastSpace \<and> started then CHR '' '' # norm_loop True True s
      else norm_loop lastSpace started s)"

definition normaliseTitle :: "string \<Rightarrow> string" where
  "normaliseTitle s = TrimSpace (norm_loop False False (ToLower (TrimSpace s)))"

text \<open>\<^verbatim>\<open>sort.SliceStable\<close> by falling confidence.\<close>

definition by_confidence :: "candidate list \<Rightarrow> candidate list" where
  "by_confidence cs = sort_key (\<lambda>c. - ca_Confidence c) cs"

definition take_details :: "candidate \<Rightarrow> candidate \<Rightarrow> candidate" where
  "take_details c best =
     best\<lparr>ca_Year := (if ca_Year best = 0 then ca_Year c else ca_Year best),
          ca_Season := (if ca_Season best = 0 then ca_Season c else ca_Season best),
          ca_Disc := (if ca_Disc best = 0 then ca_Disc c else ca_Disc best),
          ca_Kind := (if ca_Kind best = IdUnknown then ca_Kind c else ca_Kind best)\<rparr>"

definition agreed :: "candidate list \<Rightarrow> candidate \<Rightarrow> candidate" where
  "agreed g best =
     (let n = length (remdups (map ca_Net g))
      in if n > 1
         then (let c = fl (ca_Confidence best + fl (c015 * int (n - 1)))
               in best\<lparr>ca_Confidence := (if c > c095 then c095 else c),
                       ca_Why := ca_Why best @ '' (agreed by '' @ join_with '', '' (map ca_Net g) @ '')''\<rparr>)
         else best)"

definition mergeGroup :: "candidate list \<Rightarrow> candidate" where
  "mergeGroup g0 =
     (let g = by_confidence g0; best = hd g
      in if length g = 1 then best else fold take_details (tl g) (agreed g best))"

text \<open>The groups by normalised title, in the order their first members come.\<close>

definition group_titles :: "candidate list \<Rightarrow> string list" where
  "group_titles all = rev (remdups (rev (map (\<lambda>c. normaliseTitle (ca_Title c)) all)))"

definition group_of :: "candidate list \<Rightarrow> string \<Rightarrow> candidate list" where
  "group_of all k = filter (\<lambda>c. normaliseTitle (ca_Title c) = k) all"

definition Resolve :: "candidate list \<Rightarrow> id_result" where
  "Resolve all =
     (if all = [] then \<lparr>re_Best = empty_candidate, re_All = [], re_Contested = False\<rparr>
      else let merged = by_confidence (map (\<lambda>k. mergeGroup (group_of all k)) (group_titles all))
           in \<lparr>re_Best = hd merged, re_All = merged,
               re_Contested = (length merged > 1 \<and> fl (ca_Confidence (hd merged) - ca_Confidence (merged ! 1)) < c020)\<rparr>)"

text \<open>\<^verbatim>\<open>Run\<close>: a net is its name and what it answers.\<close>

type_synonym net = "string \<times> (id_input \<Rightarrow> string + candidate list)"

definition net_candidates :: "id_input \<Rightarrow> net \<Rightarrow> candidate list" where
  "net_candidates inp n =
     (case snd n inp of
        Inl e \<Rightarrow> []
      | Inr cs \<Rightarrow> filter (\<lambda>c. TrimSpace (ca_Title c) \<noteq> [])
                   (map (\<lambda>c. if ca_Net c = [] then c\<lparr>ca_Net := fst n\<rparr> else c) cs))"

definition identify_Run :: "net list \<Rightarrow> id_input \<Rightarrow> id_result" where
  "identify_Run nets inp = Resolve (concat (map (net_candidates inp) nets))"

section \<open>The label\<close>

definition junkLabels :: "string list" where
  "junkLabels =
     [''dvd_video'', ''dvdvideo'', ''dvd'', ''video_ts'', ''bluray'', ''blu_ray'', ''bd_rom'', ''bdrom'', ''untitled'',
      ''unnamed'', ''new_volume'', ''disc'', ''movie'', ''video'', ''cdrom'', ''default'', ''logical_volume_id'', ''volume'',
      ''my_disc'', ''dvd_rom'']"

definition is_junk :: "string \<Rightarrow> bool" where
  "is_junk raw \<longleftrightarrow> ToLower (map (\<lambda>c. if c = CHR '' '' then CHR ''_'' else c) raw) \<in> set junkLabels"

definition formatMarkers :: "string list" where
  "formatMarkers =
     [''lb'', ''ws'', ''fs'', ''sf'', ''se'', ''ce'', ''de'', ''ee'', ''uncut'', ''unrated'', ''remastered'', ''restored'',
      ''ntsc'', ''pal'', ''r1'', ''r2'', ''dvd'', ''bd'', ''disc'', ''side'', ''16x9'', ''4x3'']"

definition label_sep :: "char \<Rightarrow> bool" where
  "label_sep c \<longleftrightarrow> c = CHR '' '' \<or> c = CHR ''_'' \<or> c = CHR ''-''"

text \<open>\<^verbatim>\<open>^(.*?)rest\<close>: the shortest prefix, with no line break in it, after which the rest matches.\<close>

fun lazy_prefix :: "string \<Rightarrow> (string \<Rightarrow> 'a option) \<Rightarrow> string \<Rightarrow> (string \<times> 'a) option" where
  "lazy_prefix acc rest s =
     (case rest s of
        Some a \<Rightarrow> Some (rev acc, a)
      | None \<Rightarrow> (case s of [] \<Rightarrow> None | c # t \<Rightarrow> if c = NL then None else lazy_prefix (c # acc) rest t))"

declare lazy_prefix.simps [simp del]

text \<open>One or two digits and the end of the text.\<close>

definition digits12_end :: "string \<Rightarrow> string option" where
  "digits12_end s = (if (length s = 1 \<or> length s = 2) \<and> list_all is_digit s then Some s else None)"

definition fold_prefix :: "string \<Rightarrow> string \<Rightarrow> bool" where
  "fold_prefix p s \<longleftrightarrow> ToLower (take (length p) s) = p"

text \<open>A letter with one of its longer spellings, separators around it.\<close>

definition marker :: "string \<Rightarrow> string list \<Rightarrow> string \<Rightarrow> string option" where
  "marker letter words s =
     (let t = dropWhile label_sep s
      in if \<not> fold_prefix letter t then None
         else let u = drop (length letter) t
              in Some (dropWhile label_sep
                   (case List.find (\<lambda>w. fold_prefix w u) words of Some w \<Rightarrow> drop (length w) u | None \<Rightarrow> u)))"

definition discSuffix :: "string \<Rightarrow> (string \<times> string) option" where
  "discSuffix = lazy_prefix [] (\<lambda>s. case marker ''d'' [''isc'', ''isk''] s of None \<Rightarrow> None | Some t \<Rightarrow> digits12_end t)"

definition seasonSuffix :: "string \<Rightarrow> (string \<times> string) option" where
  "seasonSuffix = lazy_prefix [] (\<lambda>s. case marker ''s'' [''eason'', ''sn''] s of None \<Rightarrow> None | Some t \<Rightarrow> digits12_end t)"

definition seasonDisc :: "string \<Rightarrow> (string \<times> string \<times> string) option" where
  "seasonDisc = lazy_prefix [] (\<lambda>s.
     case marker ''s'' [''eason''] s of
       None \<Rightarrow> None
     | Some t \<Rightarrow>
         (let d = take 2 (takeWhile is_digit t)
          in if d = [] then None
             else case marker ''d'' [''isc'', ''isk''] (drop (length d) t) of
                    None \<Rightarrow> None
                  | Some u \<Rightarrow> map_option (\<lambda>e. (d, e)) (digits12_end u)))"

definition yearSuffix :: "string \<Rightarrow> (string \<times> string) option" where
  "yearSuffix = lazy_prefix [] (\<lambda>s.
     let t = dropWhile label_sep s
     in if length t = 4 \<and> list_all is_digit t \<and> (prefix ''19'' t \<or> prefix ''20'' t) then Some t else None)"

text \<open>\<^verbatim>\<open>^(.*?[a-z])[ _-]*(digits)$\<close>: the lazy group ends with a letter.\<close>

definition trailingDigits :: "string \<Rightarrow> (string \<times> string) option" where
  "trailingDigits s =
     map_option (\<lambda>(p, l, d). (p @ [l], d))
       (lazy_prefix [] (\<lambda>t. case t of [] \<Rightarrow> None
                           | l # u \<Rightarrow> if is_lower l then map_option (\<lambda>d. (l, d)) (digits12_end (dropWhile label_sep u)) else None) s)"

definition word_sep :: "char \<Rightarrow> bool" where
  "word_sep c \<longleftrightarrow> c = CHR ''_'' \<or> c = CHR ''-'' \<or> c = CHR ''.'' \<or> c = CHR '' '' \<or> c = CHR ''+''"

definition splitWords :: "string \<Rightarrow> string list" where
  "splitWords s = fields_by word_sep s"

definition stripMarkers :: "string \<Rightarrow> string \<times> string list" where
  "stripMarkers s =
     (let parts = splitWords s; marks = (\<lambda>p. ToLower p \<in> set formatMarkers)
      in if filter (\<lambda>p. \<not> marks p) parts = [] then (s, [])
         else (join_with '' '' (filter (\<lambda>p. \<not> marks p) parts), filter marks parts))"

definition capitalise :: "string \<Rightarrow> string" where
  "capitalise w = (let l = ToLower w in ToUpper (take 1 l) @ drop 1 l)"

definition titleCase :: "string \<Rightarrow> string" where
  "titleCase s = (let ws = splitWords s in join_with '' '' (if s \<noteq> ToUpper s then ws else map capitalise ws))"

definition looksAbbreviated :: "string \<Rightarrow> bool \<Rightarrow> bool" where
  "looksAbbreviated title wasUpper \<longleftrightarrow> wasUpper \<and> CHR '' '' \<notin> set title \<and> length title \<le> 8"

definition atoi0 :: "string \<Rightarrow> int" where
  "atoi0 s = (case Atoi s of None \<Rightarrow> 0 | Some n \<Rightarrow> n)"

text \<open>Season and disc: the work that is left and the candidate so far.\<close>

definition label_marks :: "string \<Rightarrow> candidate \<Rightarrow> string \<times> candidate" where
  "label_marks work c =
     (case seasonDisc work of
        Some (w, s, d) \<Rightarrow>
          (w, c\<lparr>ca_Season := atoi0 s, ca_Disc := atoi0 d, ca_Kind := IdSeries, ca_Confidence := c065,
                ca_Why := ''label gives an explicit season and disc''\<rparr>)
      | None \<Rightarrow>
          (case seasonSuffix work of
             Some (w, s) \<Rightarrow>
               (w, c\<lparr>ca_Season := atoi0 s, ca_Kind := IdSeries, ca_Confidence := c060, ca_Why := ''label gives an explicit season''\<rparr>)
           | None \<Rightarrow>
               (case discSuffix work of
                  Some (w, d) \<Rightarrow> (w, c\<lparr>ca_Disc := atoi0 d, ca_Confidence := c055, ca_Why := ''label gives an explicit disc number''\<rparr>)
                | None \<Rightarrow> (work, c))))"

definition label_year :: "string \<times> candidate \<Rightarrow> string \<times> candidate" where
  "label_year wc =
     (let (work, c) = wc
      in if ca_Season c = 0 \<and> ca_Disc c = 0
         then (case yearSuffix work of
                 Some (w, y) \<Rightarrow> (w, c\<lparr>ca_Year := atoi0 y, ca_Confidence := c060, ca_Why := ''label carries a year''\<rparr>)
               | None \<Rightarrow> wc)
         else wc)"

definition label_number :: "string \<times> candidate \<Rightarrow> string \<times> candidate" where
  "label_number wc =
     (let (work, c) = wc
      in if ca_Season c = 0 \<and> ca_Disc c = 0 \<and> ca_Year c = 0
         then (case trailingDigits (ToLower work) of
                 Some (p, d) \<Rightarrow>
                   (let n = atoi0 d
                    in if n > 0 \<and> n \<le> 20
                       then (take (length p) work,
                             c\<lparr>ca_Disc := n, ca_Confidence := c035,
                               ca_Why := ''label ends in a bare number, which may be a disc or a season''\<rparr>)
                       else wc)
               | None \<Rightarrow> wc)
         else wc)"

definition LabelNet :: "id_input \<Rightarrow> candidate list" where
  "LabelNet inp =
     (let raw = TrimSpace (ii_VolumeLabel inp)
      in if raw = [] then []
         else if is_junk raw then []
         else let c = empty_candidate\<lparr>ca_Net := ''label'', ca_Confidence := c050, ca_Why := ''read from the volume label''\<rparr>;
                  (work, c1) = label_year (label_marks raw c);
                  (kept, dropped) = stripMarkers work;
                  (rest, c2) = label_number (kept, c1);
                  title = titleCase rest
              in if title = [] then []
                 else let c3 = c2\<lparr>ca_Title := title\<rparr>;
                          c4 = (if looksAbbreviated title (raw = ToUpper raw)
                                then c3\<lparr>ca_Confidence := c015, ca_Why := ''label looks like an abbreviation rather than a title''\<rparr>
                                else c3)
                      in [if dropped = [] then c4 else c4\<lparr>ca_Why := ca_Why c4 @ '' (ignored '' @ join_with '', '' dropped @ '')''\<rparr>])"

section \<open>Rounding\<close>

text \<open>A \<^verbatim>\<open>float64\<close> that is not negative: a multiple of its unit in the last place.\<close>

definition is_float :: "int \<Rightarrow> bool" where
  "is_float a \<longleftrightarrow> 0 \<le> a \<and> 2 ^ fl_shift a dvd a"

lemma fl_shift_Some:
  assumes "n < 2 ^ 116"
  shows "n < 2 ^ (53 + fl_shift n)" "k < fl_shift n \<Longrightarrow> 2 ^ (53 + k) \<le> n"
proof -
  have "\<exists>k \<in> set [0..<64]. n < 2 ^ (53 + k)" using assms by (intro bexI [of _ 63]) auto
  then obtain k0 where k0: "List.find (\<lambda>k. n < 2 ^ (53 + k)) [0..<64] = Some k0"
    by (cases "List.find (\<lambda>k. n < 2 ^ (53 + k)) [0..<64]") (auto simp: find_None_iff)
  then obtain i where i: "i < 64" "n < 2 ^ (53 + [0..<64] ! i)" "k0 = [0..<64] ! i" "\<forall>j < i. \<not> n < 2 ^ (53 + [0..<64] ! j)"
    by (auto simp: find_Some_iff simp del: upt_rec_numeral upt_Suc)
  have s: "fl_shift n = i" using k0 i(1, 3) by (simp add: fl_shift_def del: upt_rec_numeral)
  show "n < 2 ^ (53 + fl_shift n)" using i(1, 2) s by (simp del: upt_rec_numeral)
  show "2 ^ (53 + k) \<le> n" if "k < fl_shift n" using i(4) that i(1) s by (force simp del: upt_rec_numeral)
qed

lemma fl_above: "q * u \<le> fl n" if "u = 2 ^ fl_shift n" "q = n div u"
  using that by (simp add: fl_def Let_def algebra_simps)

text \<open>Rounding never goes below a float that is not above the exact value.\<close>

lemma fl_ge:
  assumes "is_float a" "a \<le> n" "n < 2 ^ 116"
  shows "a \<le> fl n"
proof -
  let ?u = "2 ^ fl_shift n :: int"
  have a: "a < 2 ^ 116" "0 \<le> a" using assms by (auto simp: is_float_def)
  have "a \<le> n div ?u * ?u"
  proof (cases "fl_shift n \<le> fl_shift a")
    case True
    then have "?u dvd a" using assms(1) unfolding is_float_def by (meson dvd_trans le_imp_power_dvd)
    then have "a = a div ?u * ?u" by simp
    also have "\<dots> \<le> n div ?u * ?u" using assms(2) by (intro mult_right_mono zdiv_mono1) simp_all
    finally show ?thesis .
  next
    case False
    then obtain k where k: "fl_shift n = Suc k" "fl_shift a \<le> k" by (metis not_le less_imp_Suc_add le_add1 add_Suc_right)
    have "(2 :: int) ^ (53 + fl_shift a) \<le> 2 ^ (53 + k)" using k(2) by (intro power_increasing) simp_all
    then have "a < 2 ^ (53 + k)" using fl_shift_Some(1) [OF a(1)] by (rule order.strict_trans2 [rotated])
    moreover have "2 ^ (53 + k) \<le> n" using fl_shift_Some(2) [OF assms(3)] k(1) by simp
    moreover have "2 ^ (53 + k) = 2 ^ 52 * ?u" using k(1) by (simp add: power_add)
    ultimately have le: "2 ^ 52 * ?u \<le> n" "a \<le> 2 ^ 52 * ?u" by linarith+
    have "2 ^ 52 * ?u div ?u \<le> n div ?u" using le(1) by (rule zdiv_mono1) simp
    then have "2 ^ 52 \<le> n div ?u" by simp
    then have "2 ^ 52 * ?u \<le> n div ?u * ?u" by (rule mult_right_mono) simp
    with le(2) show ?thesis by (rule order_trans)
  qed
  also have "\<dots> \<le> fl n" by (rule fl_above) simp_all
  finally show ?thesis .
qed

lemma fl_le: "fl n \<le> n + 2 ^ 63"
proof -
  let ?u = "2 ^ fl_shift n :: int"
  have "fl_shift n < 64" by (auto simp: fl_shift_def find_Some_iff simp del: upt_rec_numeral split: option.splits)
  then have "?u \<le> 2 ^ 63" by (intro power_increasing) simp_all
  moreover have "n div ?u * ?u \<le> n" by (simp add: minus_mod_eq_div_mult [symmetric])
  ultimately show ?thesis by (auto simp: fl_def Let_def algebra_simps)
qed

section \<open>The answer\<close>

lemma take_details_keeps [simp]:
  "ca_Title (take_details c b) = ca_Title b" "ca_Confidence (take_details c b) = ca_Confidence b"
  "ca_Net (take_details c b) = ca_Net b"
  by (simp_all add: take_details_def)

lemma fold_take_details [simp]:
  "ca_Title (fold take_details cs b) = ca_Title b" "ca_Confidence (fold take_details cs b) = ca_Confidence b"
  by (induction cs arbitrary: b) simp_all

lemma agreed_title [simp]: "ca_Title (agreed g b) = ca_Title b"
  by (simp add: agreed_def Let_def)

lemma set_by_confidence [simp]: "set (by_confidence cs) = set cs" "length (by_confidence cs) = length cs"
  by (simp_all add: by_confidence_def)

lemma by_confidence_falls: "sorted_wrt (\<lambda>a b. ca_Confidence b \<le> ca_Confidence a) (by_confidence cs)"
proof -
  have "sorted (map (\<lambda>c. - ca_Confidence c) (by_confidence cs))" by (simp add: by_confidence_def)
  then show ?thesis by (simp add: sorted_map)
qed

lemma by_confidence_hd: "c \<in> set cs \<Longrightarrow> ca_Confidence c \<le> ca_Confidence (hd (by_confidence cs)) \<and> hd (by_confidence cs) \<in> set cs"
proof -
  assume c: "c \<in> set cs"
  then obtain d ds where d: "by_confidence cs = d # ds" by (metis set_by_confidence(1) list.set_cases)
  then have "c = d \<or> c \<in> set ds" "d \<in> set cs" using c set_by_confidence(1) [of cs] by auto
  then show ?thesis using by_confidence_falls [of cs] d by auto
qed

definition confident :: "candidate list \<Rightarrow> bool" where
  "confident cs \<longleftrightarrow> list_all (\<lambda>c. is_float (ca_Confidence c) \<and> ca_Confidence c \<le> 2 ^ 60) cs \<and> length cs < 2 ^ 50"

lemma agreed_confidence:
  assumes "is_float (ca_Confidence b)" "ca_Confidence b \<le> 2 ^ 60" "length g < 2 ^ 50"
  shows "min (ca_Confidence b) c095 \<le> ca_Confidence (agreed g b)"
proof -
  let ?n = "length (remdups (map ca_Net g))"
  have n: "int (?n - 1) < 2 ^ 50" using assms(3) length_remdups_leq [of "map ca_Net g"] by simp
  have b: "c015 * int (?n - 1) \<le> 2 ^ 58 * 2 ^ 50" using n by (intro mult_mono) (simp_all add: c015_def)
  then have m: "c015 * int (?n - 1) < 2 ^ 116" "0 \<le> c015 * int (?n - 1)" by (simp_all add: c015_def)
  have "0 \<le> fl (c015 * int (?n - 1))" by (rule fl_ge [OF _ m(2) m(1)]) (simp add: is_float_def)
  moreover have "fl (c015 * int (?n - 1)) \<le> 2 ^ 58 * 2 ^ 50 + 2 ^ 63" using fl_le [of "c015 * int (?n - 1)"] b by linarith
  ultimately have "ca_Confidence b \<le> fl (ca_Confidence b + fl (c015 * int (?n - 1)))"
    using assms(2) by (intro fl_ge [OF assms(1)]) simp_all
  then show ?thesis by (auto simp: agreed_def Let_def)
qed

lemma mergeGroup_title: "g \<noteq> [] \<Longrightarrow> \<exists>b \<in> set g. ca_Title (mergeGroup g) = ca_Title b"
  using by_confidence_hd [of "hd g" g] by (intro bexI [of _ "hd (by_confidence g)"]) (auto simp: mergeGroup_def Let_def)

lemma mergeGroup_confidence:
  assumes "c \<in> set g" "confident g"
  shows "min (ca_Confidence c) c095 \<le> ca_Confidence (mergeGroup g)"
proof -
  let ?b = "hd (by_confidence g)"
  have b: "ca_Confidence c \<le> ca_Confidence ?b" "?b \<in> set g" using by_confidence_hd [OF assms(1)] by auto
  then have "min (ca_Confidence ?b) c095 \<le> ca_Confidence (agreed (by_confidence g) ?b)"
    using assms(2) by (intro agreed_confidence) (auto simp: confident_def list_all_iff)
  moreover have "ca_Confidence (mergeGroup g) = ca_Confidence ?b \<or> ca_Confidence (mergeGroup g) = ca_Confidence (agreed (by_confidence g) ?b)"
    by (simp add: mergeGroup_def Let_def)
  ultimately show ?thesis using b(1) by linarith
qed

abbreviation norm_of :: "candidate \<Rightarrow> string" where
  "norm_of c \<equiv> normaliseTitle (ca_Title c)"

lemma set_group_titles [simp]: "set (group_titles cs) = norm_of ` set cs" "distinct (group_titles cs)"
  by (simp_all add: group_titles_def)

lemma norm_mergeGroup: "k \<in> norm_of ` set cs \<Longrightarrow> norm_of (mergeGroup (group_of cs k)) = k"
proof -
  assume "k \<in> norm_of ` set cs"
  then have "group_of cs k \<noteq> []" by (auto simp: group_of_def filter_empty_conv)
  from mergeGroup_title [OF this] obtain b where "b \<in> set (group_of cs k)" "ca_Title (mergeGroup (group_of cs k)) = ca_Title b" by blast
  then show ?thesis by (simp add: group_of_def)
qed

lemma confident_filter: "confident cs \<Longrightarrow> confident (filter p cs)"
  unfolding confident_def list_all_iff using le_less_trans [OF length_filter_le [of p cs]] by force

definition merged_groups :: "candidate list \<Rightarrow> candidate list" where
  "merged_groups cs = map (\<lambda>k. mergeGroup (group_of cs k)) (group_titles cs)"

lemma merged_norms: "map norm_of (merged_groups cs) = group_titles cs"
  unfolding merged_groups_def map_map comp_def by (rule map_idI) (simp add: norm_mergeGroup)

lemma merged_complete:
  assumes "c \<in> set cs" "confident cs"
  shows "\<exists>m \<in> set (merged_groups cs). norm_of m = norm_of c \<and> min (ca_Confidence c) c095 \<le> ca_Confidence m"
proof (intro bexI conjI)
  let ?m = "mergeGroup (group_of cs (norm_of c))"
  show "?m \<in> set (merged_groups cs)" using assms(1) by (simp add: merged_groups_def)
  show "norm_of ?m = norm_of c" using assms(1) by (simp add: norm_mergeGroup)
  show "min (ca_Confidence c) c095 \<le> ca_Confidence ?m"
    using assms by (intro mergeGroup_confidence) (auto simp: group_of_def confident_filter)
qed

lemma merged_sound: "m \<in> set (merged_groups cs) \<Longrightarrow> \<exists>c \<in> set cs. ca_Title m = ca_Title c"
proof -
  assume "m \<in> set (merged_groups cs)"
  then obtain k where k: "k \<in> norm_of ` set cs" "m = mergeGroup (group_of cs k)" by (auto simp: merged_groups_def)
  then have "group_of cs k \<noteq> []" by (auto simp: group_of_def filter_empty_conv)
  from mergeGroup_title [OF this] show ?thesis unfolding k(2) by (auto simp: group_of_def)
qed

lemma Resolve_All: "cs \<noteq> [] \<Longrightarrow> re_All (Resolve cs) = by_confidence (merged_groups cs) \<and> re_Best (Resolve cs) = hd (by_confidence (merged_groups cs))"
  by (simp add: Resolve_def Let_def merged_groups_def)

lemma Resolve_spec:
  assumes "cs \<noteq> []" "confident cs"
  shows "distinct (map norm_of (re_All (Resolve cs))) \<and> norm_of ` set (re_All (Resolve cs)) = norm_of ` set cs \<and>
    ca_Title ` set (re_All (Resolve cs)) \<subseteq> ca_Title ` set cs \<and>
    sorted_wrt (\<lambda>a b. ca_Confidence b \<le> ca_Confidence a) (re_All (Resolve cs)) \<and>
    re_Best (Resolve cs) \<in> set (re_All (Resolve cs)) \<and>
    (\<forall>c. c \<in> set cs \<longrightarrow> min (ca_Confidence c) c095 \<le> ca_Confidence (re_Best (Resolve cs)) \<and>
       (\<exists>m \<in> set (re_All (Resolve cs)). norm_of m = norm_of c \<and> min (ca_Confidence c) c095 \<le> ca_Confidence m))"
proof -
  let ?m = "merged_groups cs"
  note R = Resolve_All [OF assms(1), THEN conjunct1] Resolve_All [OF assms(1), THEN conjunct2]
  have norms: "norm_of ` set ?m = norm_of ` set cs" using arg_cong [OF merged_norms, of set cs] by simp
  have "distinct (map norm_of ?m)" by (simp add: merged_norms)
  then have "distinct (map norm_of (by_confidence ?m))" by (simp add: by_confidence_def distinct_map)
  moreover have "?m \<noteq> []" using norms assms(1) by auto
  then have best: "hd (by_confidence ?m) \<in> set ?m" "m \<in> set ?m \<Longrightarrow> ca_Confidence m \<le> ca_Confidence (hd (by_confidence ?m))" for m
    using by_confidence_hd [of _ ?m] by (meson list.set_sel(1)) (use by_confidence_hd [of _ ?m] in blast)
  moreover have "min (ca_Confidence c) c095 \<le> ca_Confidence (hd (by_confidence ?m))" if "c \<in> set cs" for c
    using merged_complete [OF that assms(2)] best(2) by (meson order_trans)
  moreover have "ca_Title ` set ?m \<subseteq> ca_Title ` set cs" using merged_sound by fastforce
  ultimately show ?thesis unfolding R using norms merged_complete [OF _ assms(2)] by_confidence_falls [of ?m] by simp
qed

text \<open>The answer has one entry for each title proposed, titles being the same when their letters and digits are; every
  entry carries a title that was proposed; the entries are by falling confidence and the first is the best; and no
  proposal counts for less than it claimed, up to the ceiling of 0.95.\<close>

theorem Resolve_weighs_every_proposal:
  assumes "cs \<noteq> []" "confident cs"
  shows "distinct (map norm_of (re_All (Resolve cs))) \<and> norm_of ` set (re_All (Resolve cs)) = norm_of ` set cs \<and>
    ca_Title ` set (re_All (Resolve cs)) \<subseteq> ca_Title ` set cs \<and>
    sorted_wrt (\<lambda>a b. ca_Confidence b \<le> ca_Confidence a) (re_All (Resolve cs)) \<and>
    re_Best (Resolve cs) \<in> set (re_All (Resolve cs)) \<and>
    (\<forall>c. c \<in> set cs \<longrightarrow> min (ca_Confidence c) c095 \<le> ca_Confidence (re_Best (Resolve cs)) \<and>
       (\<exists>m \<in> set (re_All (Resolve cs)). norm_of m = norm_of c \<and> min (ca_Confidence c) c095 \<le> ca_Confidence m))"
  using assms by (rule Resolve_spec)

text \<open>Normalising twice changes nothing, and a title of letters beyond ASCII alone normalises to nothing: any two
  such titles count as agreeing.\<close>

theorem foreign_titles_agree:
  assumes "list_all (\<lambda>c. \<not> is_lower (lower_char c) \<and> \<not> is_digit (lower_char c)) s"
  shows "normaliseTitle s = []"
proof -
  have "norm_loop False False t = []" if "list_all (\<lambda>c. \<not> is_lower c \<and> \<not> is_digit c) t" for t
    using that by (induction t) simp_all
  moreover have "list_all (\<lambda>c. \<not> is_lower c \<and> \<not> is_digit c) (ToLower (TrimSpace s))"
    using assms set_TrimSpace [of s] by (auto simp: list_all_iff ToLower_def)
  ultimately show ?thesis by (simp add: normaliseTitle_def)
qed

text \<open>The label \<^verbatim>\<open>DIE_HARD_2\<close> is read as disc 2 of something called \<^verbatim>\<open>Die Har\<close>: the separators of the pattern for a disc
  number are optional on the left, so the last letter of a title is taken for the mark.\<close>

definition label_input :: "string \<Rightarrow> id_input" where
  "label_input l = \<lparr>ii_VolumeLabel = l, ii_DiscType = [], ii_Titles = [], ii_Fingerprint = [], ii_ContentHash = [],
     ii_DiscName = [], ii_DiscNameSource = []\<rparr>"

lemma die_hard_marks:
  "seasonDisc ''DIE_HARD_2'' = None" "seasonSuffix ''DIE_HARD_2'' = None" "discSuffix ''DIE_HARD_2'' = Some (''DIE_HAR'', ''2'')"
  by (simp_all add: seasonDisc_def seasonSuffix_def discSuffix_def lazy_prefix.simps marker_def fold_prefix_def label_sep_def
      ToLower_def lower_char_def is_upper_def digits12_end_def is_digit_def NL_def Let_def char_of_eq_iff)

lemma die_hard_words: "splitWords ''DIE_HAR'' = [''DIE'', ''HAR'']" "splitWords ''DIE HAR'' = [''DIE'', ''HAR'']"
  by (simp_all add: splitWords_def fields_by.simps word_sep_def)

lemma die_hard_markers: "stripMarkers ''DIE_HAR'' = (''DIE HAR'', [])"
  by (simp add: stripMarkers_def die_hard_words Let_def ToLower_def lower_char_def is_upper_def formatMarkers_def char_of_eq_iff)

lemma die_hard_title: "titleCase ''DIE HAR'' = ''Die Har''"
  by (simp add: titleCase_def die_hard_words Let_def capitalise_def ToUpper_def upper_char_def is_lower_def ToLower_def lower_char_def
      is_upper_def char_of_eq_iff)

theorem label_eats_a_letter:
  "map (\<lambda>c. (ca_Title c, ca_Disc c, ca_Confidence c)) (LabelNet (label_input ''DIE_HARD_2'')) = [(''Die Har'', 2, c055)]"
proof -
  have "TrimSpace ''DIE_HARD_2'' = ''DIE_HARD_2''"
    by (simp add: TrimSpace_def trim_by_def trim_right_by_def is_space_def)
  moreover have "\<not> is_junk ''DIE_HARD_2''"
    by (simp add: is_junk_def junkLabels_def ToLower_def lower_char_def is_upper_def char_of_eq_iff)
  moreover have "atoi0 ''2'' = 2"
    by (simp add: atoi0_def Atoi_def parse_digits_def is_digit_def digits_value_def digit_value_def)
  ultimately show ?thesis
    by (simp add: LabelNet_def label_input_def Let_def label_marks_def die_hard_marks label_year_def die_hard_markers label_number_def
        die_hard_title looksAbbreviated_def empty_candidate_def)
qed

definition sample_candidates :: "candidate list" where
  "sample_candidates =
     [empty_candidate\<lparr>ca_Title := ''A_1'', ca_Net := ''label'', ca_Confidence := c050\<rparr>,
      empty_candidate\<lparr>ca_Title := ''a 1'', ca_Net := ''discname'', ca_Confidence := c080, ca_Year := 1953\<rparr>]"

lemma sample_confident: "confident sample_candidates"
proof -
  have "fl_shift c050 = 7" "fl_shift c080 = 7" by code_simp+
  then have "is_float c050" "is_float c080" by (simp_all add: is_float_def c050_def c080_def)
  then show ?thesis by (simp add: confident_def sample_candidates_def c050_def c080_def)
qed

theorem Resolve_weighs_every_proposal_witness:
  "c080 \<le> ca_Confidence (re_Best (Resolve sample_candidates)) \<and> norm_of ` set (re_All (Resolve sample_candidates)) = {''a 1''}"
proof -
  have n: "norm_of ` set sample_candidates = {''a 1''}"
    by (simp add: sample_candidates_def normaliseTitle_def TrimSpace_def trim_by_def trim_right_by_def is_space_def ToLower_def
        lower_char_def is_upper_def is_lower_def is_digit_def char_of_eq_iff)
  have "sample_candidates ! 1 \<in> set sample_candidates" "ca_Confidence (sample_candidates ! 1) = c080" "min c080 c095 = c080"
    by (simp_all add: sample_candidates_def c080_def c095_def)
  then show ?thesis using Resolve_weighs_every_proposal [OF _ sample_confident] n by (metis empty_iff list.set(1))
qed

end
