(* ===== verification/Makemkv_Key.thy ===== *)
theory Makemkv_Key
  imports Makemkv
begin

text \<open>
  \<^verbatim>\<open>internal/makemkv/key.go\<close>: the beta key MakeMKV publishes, found on a forum page and written into its settings file,
  and \<^verbatim>\<open>CheckKey\<close> and \<^verbatim>\<open>Version\<close> of \<^verbatim>\<open>makemkv.go\<close>, which ask whether it is any good.

  The page, the file system's answers and \<^verbatim>\<open>html.UnescapeString\<close> are arguments. The regular expressions are
  written out as the matchers they stand for: leftmost match, as many characters as they can have.
\<close>

section \<open>Keys\<close>

definition is_letter :: "char \<Rightarrow> bool" where
  "is_letter c \<longleftrightarrow> is_upper c \<or> is_lower c"

definition word_char :: "char \<Rightarrow> bool" where
  "word_char c \<longleftrightarrow> is_letter c \<or> is_digit c \<or> c = CHR ''_''"

definition key_char :: "char \<Rightarrow> bool" where
  "key_char c \<longleftrightarrow> word_char c \<or> c \<in> {CHR ''@'', CHR ''+'', CHR ''/'', CHR ''*'', CHR ''-''}"

text \<open>A word boundary after the first \<^verbatim>\<open>n\<close> characters of a text.\<close>

definition boundary_at :: "string \<Rightarrow> nat \<Rightarrow> bool" where
  "boundary_at s n \<longleftrightarrow> (0 < n \<and> word_char (s ! (n - 1))) \<noteq> (n < length s \<and> word_char (s ! n))"

text \<open>\<^verbatim>\<open>keyRE\<close> at the start of a text, \<^verbatim>\<open>prev\<close> saying whether a word character comes before it.\<close>

definition key_at :: "bool \<Rightarrow> string \<Rightarrow> string option" where
  "key_at prev s =
     (if prev \<or> \<not> prefix ''T-'' s then None
      else let run = length (takeWhile key_char (drop 2 s))
           in map_option (\<lambda>n. take (n + 2) s) (List.find (\<lambda>n. boundary_at s (n + 2)) (rev [40..<Suc (min 120 run)])))"

fun key_in :: "bool \<Rightarrow> string \<Rightarrow> string option" where
  "key_in prev [] = None"
| "key_in prev (c # s) = (case key_at prev (c # s) of Some k \<Rightarrow> Some k | None \<Rightarrow> key_in (word_char c) s)"

definition keyRE :: "string \<Rightarrow> string option" where
  "keyRE s = key_in False s"

section \<open>The page\<close>

fun prefix_fold :: "string \<Rightarrow> string \<Rightarrow> bool" where
  "prefix_fold [] s = True"
| "prefix_fold (p # pat) [] = False"
| "prefix_fold (p # pat) (c # s) = (if lower_char c = p then prefix_fold pat s else False)"

fun find_fold :: "string \<Rightarrow> string \<Rightarrow> (string \<times> string) option" where
  "find_fold pat [] = (if pat = [] then Some ([], []) else None)"
| "find_fold pat (c # s) =
     (if prefix_fold pat (c # s) then Some ([], drop (length pat) (c # s))
      else map_option (\<lambda>(a, b). (c # a, b)) (find_fold pat s))"

lemma find_fold_length: "find_fold pat s = Some (a, b) \<Longrightarrow> length b \<le> length s"
  by (induction pat s arbitrary: a b rule: find_fold.induct) (fastforce split: if_splits)+

text \<open>\<^verbatim>\<open>codeBlockRE\<close> at the start of a text: what the block holds and what follows it.\<close>

definition code_block_at :: "string \<Rightarrow> (string \<times> string) option" where
  "code_block_at s =
     (if \<not> prefix_fold ''<code'' s then None
      else case dropWhile (\<lambda>c. c \<noteq> CHR ''>'') (drop 5 s) of
        [] \<Rightarrow> None
      | c # t \<Rightarrow> find_fold ''</code>'' t)"

lemma code_block_at_length: "code_block_at s = Some (a, b) \<Longrightarrow> length b < length s"
proof -
  assume m: "code_block_at s = Some (a, b)"
  then obtain c t where t: "dropWhile (\<lambda>c. c \<noteq> CHR ''>'') (drop 5 s) = c # t" and f: "find_fold ''</code>'' t = Some (a, b)"
    by (auto simp: code_block_at_def split: if_splits list.splits)
  have "Suc (length t) \<le> length s" using length_dropWhile_le [of "\<lambda>c. c \<noteq> CHR ''>''" "drop 5 s"] t by simp
  then show ?thesis using find_fold_length [OF f] by simp
qed

function code_blocks :: "string \<Rightarrow> string list" where
  "code_blocks s =
     (case s of
        [] \<Rightarrow> []
      | c # t \<Rightarrow> (case code_block_at s of Some (a, b) \<Rightarrow> a # code_blocks b | None \<Rightarrow> code_blocks t))"
  by pat_completeness auto
termination
  by (relation "measure length") (auto dest: code_block_at_length)

declare code_blocks.simps [simp del]

definition until_char :: "char \<Rightarrow> bool" where
  "until_char c \<longleftrightarrow> c \<noteq> CHR ''.'' \<and> c \<noteq> CHR ''<''"

fun validUntil :: "string \<Rightarrow> string option" where
  "validUntil [] = None"
| "validUntil (c # s) =
     (if prefix_fold ''valid until '' (c # s)
      then (case takeWhile until_char (drop 12 (c # s)) of [] \<Rightarrow> validUntil s | d # t \<Rightarrow> Some (take 60 (d # t)))
      else validUntil s)"

record beta_key =
  bk_Key :: string
  bk_ValidUntil :: string

definition BetaKey_String :: "beta_key \<Rightarrow> string" where
  "BetaKey_String b =
     (if bk_Key b = [] then ''(no key)''
      else let k = bk_Key b; suf = (if bk_ValidUntil b \<noteq> [] then '', valid until '' @ bk_ValidUntil b else [])
           in take (min 6 (length k)) k @ [CHR 0xE2, CHR 0x80, CHR 0xA6] @ drop (length k - 4) k
              @ '' ('' @ nat_str (length k) @ '' chars'' @ suf @ '')'')"

definition ParseBetaKey :: "(string \<Rightarrow> string) \<Rightarrow> string \<Rightarrow> string + beta_key" where
  "ParseBetaKey unescape page =
     (let in_block = map_option (\<lambda>b. the (keyRE (TrimSpace (unescape b))))
                       (List.find (\<lambda>b. keyRE (TrimSpace (unescape b)) \<noteq> None) (code_blocks page))
      in case (case in_block of Some k \<Rightarrow> Some k | None \<Rightarrow> keyRE (unescape page)) of
           None \<Rightarrow> Inl ''no MakeMKV key found on the page; its layout may have changed''
         | Some k \<Rightarrow> Inr \<lparr>bk_Key = k, bk_ValidUntil = (case validUntil page of None \<Rightarrow> [] | Some t \<Rightarrow> TrimSpace t)\<rparr>)"

text \<open>\<^verbatim>\<open>FetchBetaKey\<close>, given how the request went: the error, or the status and the body read.\<close>

definition FetchBetaKey :: "(string \<Rightarrow> string) \<Rightarrow> string \<Rightarrow> string + int \<times> string \<Rightarrow> string + beta_key" where
  "FetchBetaKey unescape url resp =
     (let u = (if url = [] then ''https://forum.makemkv.com/forum/viewtopic.php?t=1053'' else url)
      in case resp of
           Inl e \<Rightarrow> Inl (''fetch '' @ u @ '': '' @ e)
         | Inr (status, body) \<Rightarrow>
             if status \<noteq> 200 then Inl (''fetch '' @ u @ '': HTTP '' @ int_str status)
             else ParseBetaKey unescape (take (4 * 2 ^ 20) body))"

section \<open>The settings file\<close>

definition blank :: "char \<Rightarrow> bool" where
  "blank c \<longleftrightarrow> c = CHR '' '' \<or> c = CHR 0x09"

definition settings_line :: "string \<Rightarrow> bool" where
  "settings_line l \<longleftrightarrow>
     (let t = dropWhile blank l
      in prefix ''app_key'' (ToLower t) \<and> prefix ''='' (dropWhile blank (drop 7 t)))"

definition settings_value :: "string \<Rightarrow> string" where
  "settings_value l = Trim (TrimSpace (tl (dropWhile (\<lambda>c. c \<noteq> CHR ''='') l))) [QUOTE]"

definition text_lines :: "string \<Rightarrow> string list" where
  "text_lines s = split_on (CHR 0x0A) s"

definition ReadSettingsKey :: "string option \<Rightarrow> string" where
  "ReadSettingsKey file =
     (case file of
        None \<Rightarrow> []
      | Some s \<Rightarrow> (case List.find settings_line (text_lines s) of None \<Rightarrow> [] | Some l \<Rightarrow> settings_value l))"

text \<open>\<^verbatim>\<open>%q\<close> on ASCII text.\<close>

definition hex_digit :: "nat \<Rightarrow> char" where
  "hex_digit n = (if n < 10 then char_of (48 + n) else char_of (87 + n))"

definition quote_char :: "char \<Rightarrow> string" where
  "quote_char c =
     (let n = of_char c :: nat
      in if c = QUOTE \<or> c = BACKSLASH then [BACKSLASH, c]
         else if n = 7 then [BACKSLASH, CHR ''a''] else if n = 8 then [BACKSLASH, CHR ''b'']
         else if n = 9 then [BACKSLASH, CHR ''t''] else if n = 10 then [BACKSLASH, CHR ''n'']
         else if n = 11 then [BACKSLASH, CHR ''v''] else if n = 12 then [BACKSLASH, CHR ''f'']
         else if n = 13 then [BACKSLASH, CHR ''r'']
         else if n < 32 \<or> n = 127 then [BACKSLASH, CHR ''x'', hex_digit (n div 16), hex_digit (n mod 16)]
         else [c])"

definition go_quote :: "string \<Rightarrow> string" where
  "go_quote s = [QUOTE] @ concat (map quote_char s) @ [QUOTE]"

definition key_line :: "string \<Rightarrow> string" where
  "key_line key = ''app_Key = '' @ go_quote key"

definition updated_settings :: "string option \<Rightarrow> string \<Rightarrow> string" where
  "updated_settings file key =
     (let old = (case file of None \<Rightarrow> [] | Some s \<Rightarrow> s)
      in if list_ex settings_line (text_lines old)
         then join_with [CHR 0x0A] (map (\<lambda>l. if settings_line l then key_line key else l) (text_lines old))
         else if old = [] then key_line key @ [CHR 0x0A]
         else TrimRight old [CHR 0x0A] @ [CHR 0x0A] @ key_line key @ [CHR 0x0A])"

text \<open>The settings file and its backup, and what writing a key meets.\<close>

record settings_dir =
  sd_file :: "string option"
  sd_bak :: "string option"

record write_env =
  we_mkdir :: "string option"
  we_read :: "string option"
  we_backup :: "string option"
  we_temp :: "string option"
  we_rename :: "string option"

definition WriteSettingsKey :: "write_env \<Rightarrow> string \<Rightarrow> string \<Rightarrow> settings_dir \<Rightarrow> settings_dir list \<times> (string + unit)" where
  "WriteSettingsKey env path key d =
     (if keyRE key = None then ([d], Inl ''refusing to write a value that is not a MakeMKV key'')
      else case we_mkdir env of
        Some e \<Rightarrow> ([d], Inl (''create '' @ Dir path @ '': '' @ e))
      | None \<Rightarrow>
          (case we_read env of
             Some e \<Rightarrow> ([d], Inl (''read '' @ path @ '': '' @ e))
           | None \<Rightarrow>
               if sd_file d \<noteq> None \<and> we_backup env \<noteq> None then ([d], Inl (''back up '' @ path @ '': '' @ the (we_backup env)))
               else (let d1 = (if sd_file d = None then d else d\<lparr>sd_bak := sd_file d\<rparr>)
                     in case we_temp env of
                          Some e \<Rightarrow> ([d, d1], Inl e)
                        | None \<Rightarrow>
                            (case we_rename env of
                               Some e \<Rightarrow> ([d, d1], Inl (''install '' @ path @ '': '' @ e))
                             | None \<Rightarrow> ([d, d1, d1\<lparr>sd_file := Some (updated_settings (sd_file d) key)\<rparr>], Inr ())))))"

record refresh_result =
  rf_Fetched :: beta_key
  rf_Changed :: bool

definition RefreshBetaKey :: "(string \<Rightarrow> string) \<Rightarrow> string \<Rightarrow> string \<Rightarrow> string + int \<times> string \<Rightarrow> write_env \<Rightarrow> settings_dir
    \<Rightarrow> settings_dir list \<times> (string + refresh_result)" where
  "RefreshBetaKey unescape url path resp env d =
     (if path = [] then ([d], Inl ''no MakeMKV settings path; set makemkv_settings_path in the config'')
      else case FetchBetaKey unescape url resp of
        Inl e \<Rightarrow> ([d], Inl e)
      | Inr fetched \<Rightarrow>
          (case we_read env of
             Some e \<Rightarrow> ([d], Inl (''read '' @ path @ '': '' @ e))
           | None \<Rightarrow>
               if ReadSettingsKey (sd_file d) = bk_Key fetched then ([d], Inr \<lparr>rf_Fetched = fetched, rf_Changed = False\<rparr>)
               else (case WriteSettingsKey env path (bk_Key fetched) d of
                       (states, Inl e) \<Rightarrow> (states, Inl e)
                     | (states, Inr u) \<Rightarrow> (states, Inr \<lparr>rf_Fetched = fetched, rf_Changed = True\<rparr>))))"

section \<open>Asking MakeMKV\<close>

definition banner_messages :: "string list \<Rightarrow> message list" where
  "banner_messages ls = concat (map (\<lambda>raw. case ParseLine raw of None \<Rightarrow> []
     | Some l \<Rightarrow> if ln_Kind l = ''MSG'' then [parseMessage l] else []) ls)"

definition Version :: "string list \<Rightarrow> string option \<Rightarrow> string + string" where
  "Version ls err =
     (let v = versionFromMessages (banner_messages ls)
      in if v \<noteq> [] then Inr v
         else Inl (''could not determine makemkvcon version'' @ (case err of None \<Rightarrow> [] | Some e \<Rightarrow> '': '' @ e)))"

definition CheckKey :: "string \<Rightarrow> string + string option \<Rightarrow> string list \<Rightarrow> string option \<Rightarrow> string + key_status" where
  "CheckKey path file ls err =
     (let absent = (\<lambda>detail. Inr \<lparr>ks_Present = False, ks_Expired = False, ks_Detail = detail, ks_VersionTooOld = False\<rparr>);
          ask = (if banner_messages ls = [] \<and> err \<noteq> None then Inl (''could not query makemkvcon: '' @ the err)
                 else Inr (keyStatusFromMessages (banner_messages ls)))
      in if path = [] then ask
         else case file of
           Inl e \<Rightarrow> absent (''read '' @ path @ '': '' @ e)
         | Inr f \<Rightarrow> if ReadSettingsKey f = [] then absent (''no registration key in '' @ path) else ask)"

section \<open>Only a key is ever written\<close>

definition is_key :: "string \<Rightarrow> bool" where
  "is_key k \<longleftrightarrow> prefix ''T-'' k \<and> 42 \<le> length k \<and> length k \<le> 122 \<and> list_all key_char k"

lemma find_in_set: "List.find P xs = Some x \<Longrightarrow> x \<in> set xs \<and> P x"
  by (auto simp: find_Some_iff)

lemma key_at_is_key: "key_at prev s = Some k \<Longrightarrow> is_key k"
proof -
  assume m: "key_at prev s = Some k"
  let ?run = "takeWhile key_char (drop 2 s)"
  obtain n where n: "n \<in> set [40..<Suc (min 120 (length ?run))]" and k: "k = take (n + 2) s" and pre: "prefix ''T-'' s"
    using m by (auto simp: key_at_def Let_def simp del: upt_Suc split: if_splits dest!: find_in_set)
  obtain t where s: "s = ''T-'' @ t" using pre by (auto simp: prefix_def)
  have len: "40 \<le> n" "n \<le> 120" "n \<le> length ?run" using n by auto
  have "take n (?run @ dropWhile key_char t) = take n ?run" using len(3) by simp
  then have "take n t = take n ?run" by (simp add: s)
  then have "list_all key_char (take n t)"
    by (metis in_set_takeD list_all_iff set_takeWhileD)
  moreover have "n \<le> length t" using len(3) length_takeWhile_le [of key_char "drop 2 s"] by (simp add: s)
  ultimately show ?thesis using len by (simp add: is_key_def k s key_char_def word_char_def is_letter_def is_upper_def)
qed

lemma key_in_is_key: "key_in prev s = Some k \<Longrightarrow> is_key k"
  by (induction prev s rule: key_in.induct) (auto split: option.splits dest: key_at_is_key)

lemma keyRE_is_key: "keyRE s = Some k \<Longrightarrow> is_key k"
  unfolding keyRE_def by (rule key_in_is_key)

lemma ParseBetaKey_is_key: "ParseBetaKey unescape page = Inr b \<Longrightarrow> is_key (bk_Key b)"
  by (auto simp: ParseBetaKey_def Let_def find_Some_iff split: option.splits dest: keyRE_is_key)

lemma FetchBetaKey_is_key: "FetchBetaKey unescape url resp = Inr b \<Longrightarrow> is_key (bk_Key b)"
  by (auto simp: FetchBetaKey_def Let_def split: sum.splits prod.splits if_splits dest: ParseBetaKey_is_key)

section \<open>A written key is read back\<close>

lemma key_char_plain: "key_char c \<Longrightarrow> quote_char c = [c] \<and> c \<noteq> QUOTE \<and> c \<noteq> CHR 0x0A \<and> \<not> is_space c"
proof -
  assume c: "key_char c"
  have "33 \<le> (of_char c :: nat)" "(of_char c :: nat) < 127"
    using c by (auto simp: key_char_def word_char_def is_letter_def is_upper_def is_lower_def is_digit_def)
  moreover have "c \<noteq> QUOTE" "c \<noteq> BACKSLASH"
    using c by (auto simp: key_char_def word_char_def is_letter_def is_upper_def is_lower_def is_digit_def)
  ultimately show ?thesis by (auto simp: quote_char_def Let_def is_space_def)
qed

lemma key_line_key: "is_key k \<Longrightarrow> key_line k = ''app_Key = '' @ [QUOTE] @ k @ [QUOTE]"
proof -
  assume "is_key k"
  then have "list_all key_char k" by (simp add: is_key_def)
  then have "concat (map quote_char k) = k" by (induction k) (simp_all add: key_char_plain)
  then show ?thesis by (simp add: key_line_def go_quote_def)
qed

lemma key_line_matches: "settings_line (key_line k)"
proof -
  have t: "dropWhile blank (key_line k) = key_line k" by (simp add: key_line_def blank_def)
  have "ToLower (''app_Key'' @ r) = ToLower ''app_Key'' @ ToLower r" for r by (simp add: ToLower_def)
  moreover have "ToLower ''app_Key'' = ''app_key''" by code_simp
  moreover have "key_line k = ''app_Key'' @ drop 7 (key_line k)" by (simp add: key_line_def)
  ultimately have "ToLower (key_line k) = ''app_key'' @ ToLower (drop 7 (key_line k))" by metis
  moreover have "dropWhile blank (drop 7 (key_line k)) = ''= '' @ go_quote k" by (simp add: key_line_def blank_def)
  ultimately show ?thesis unfolding settings_line_def Let_def t by simp
qed

lemma key_line_value: "is_key k \<Longrightarrow> settings_value (key_line k) = k"
proof -
  assume k: "is_key k"
  then have ends: "k \<noteq> []" "\<forall>c \<in> set k. c \<noteq> QUOTE" using key_char_plain by (auto simp: is_key_def list_all_iff)
  let ?v = "[QUOTE] @ k @ [QUOTE]"
  have "tl (dropWhile (\<lambda>c. c \<noteq> CHR ''='') (key_line k)) = CHR '' '' # ?v" using key_line_key [OF k] by simp
  moreover have "TrimSpace (CHR '' '' # ?v) = ?v"
    by (simp add: TrimSpace_def trim_by_def trim_right_by_def is_space_def)
  moreover have "Trim ?v [QUOTE] = k"
  proof -
    have "dropWhile (\<lambda>c. c \<in> set [QUOTE]) k = k" using ends by (cases k) auto
    moreover have "dropWhile (\<lambda>c. c \<in> set [QUOTE]) (rev k) = rev k" using ends by (cases "rev k") (auto dest: arg_cong [of "rev k" _ set])
    ultimately show ?thesis using ends by (simp add: Trim_def trim_by_def trim_right_by_def dropWhile_append)
  qed
  ultimately show ?thesis by (simp add: settings_value_def)
qed

lemma text_lines_join: "ls \<noteq> [] \<Longrightarrow> \<forall>l \<in> set ls. CHR 0x0A \<notin> set l \<Longrightarrow> text_lines (join_with [CHR 0x0A] ls) = ls"
  unfolding text_lines_def by (rule split_join) auto

lemma text_lines_no_newline: "l \<in> set (text_lines s) \<Longrightarrow> CHR 0x0A \<notin> set l"
  unfolding text_lines_def by (rule split_on_no_sep)

lemma text_lines_append: "text_lines (a @ CHR 0x0A # b) = text_lines a @ text_lines b"
  unfolding text_lines_def by (rule split_append_sep)

lemma key_line_no_newline: "is_key k \<Longrightarrow> CHR 0x0A \<notin> set (key_line k)"
  using key_char_plain by (auto simp: key_line_key is_key_def list_all_iff)

lemma text_lines_trim:
  "\<exists>n. text_lines s = text_lines (TrimRight s [CHR 0x0A]) @ replicate n []"
proof (induction s rule: rev_induct)
  case (snoc c s)
  show ?case
  proof (cases "c = CHR 0x0A")
    case True
    then have "TrimRight (s @ [c]) [CHR 0x0A] = TrimRight s [CHR 0x0A]" by (simp add: TrimRight_def trim_right_by_def)
    moreover have "text_lines (s @ [c]) = text_lines s @ [[]]"
      using True text_lines_append [of s "[]"] by (simp add: text_lines_def)
    ultimately show ?thesis using snoc by (metis append.assoc replicate_Suc replicate_append_same)
  next
    case False
    then have "TrimRight (s @ [c]) [CHR 0x0A] = s @ [c]" by (simp add: TrimRight_def trim_right_by_def)
    then show ?thesis by (intro exI [of _ 0]) simp
  qed
qed (simp add: TrimRight_def text_lines_def exI [of _ 0])

lemma blank_line: "\<not> settings_line []"
  by (simp add: settings_line_def Let_def ToLower_def)

lemma find_map_same:
  "list_ex p xs \<Longrightarrow> p y \<Longrightarrow> List.find p (map (\<lambda>x. if p x then y else x) xs) = Some y"
  by (induction xs) auto

text \<open>The lines that say something other than the key, and the lines of the file that is written.\<close>

definition other_lines :: "string \<Rightarrow> string list" where
  "other_lines s = filter (\<lambda>l. l \<noteq> [] \<and> \<not> settings_line l) (text_lines s)"

lemma updated_lines:
  assumes k: "is_key k"
  shows "List.find settings_line (text_lines (updated_settings file k)) = Some (key_line k)
    \<and> other_lines (updated_settings file k) = other_lines (case file of None \<Rightarrow> [] | Some s \<Rightarrow> s)"
proof -
  let ?old = "case file of None \<Rightarrow> [] | Some s \<Rightarrow> s"
  show ?thesis
  proof (cases "list_ex settings_line (text_lines ?old)")
    case True
    let ?new = "map (\<lambda>l. if settings_line l then key_line k else l) (text_lines ?old)"
    have "text_lines (updated_settings file k) = ?new"
      using True text_lines_join [of ?new] text_lines_no_newline [of _ ?old] key_line_no_newline [OF k]
      by (simp add: updated_settings_def Let_def) (auto simp: text_lines_def)
    moreover have "filter (\<lambda>l. l \<noteq> [] \<and> \<not> settings_line l) (map (\<lambda>l. if settings_line l then key_line k else l) ls)
        = filter (\<lambda>l. l \<noteq> [] \<and> \<not> settings_line l) ls" for ls
      by (induction ls) (auto simp: key_line_matches)
    ultimately show ?thesis using find_map_same [OF True key_line_matches [of k]] by (simp only: other_lines_def)
  next
    case False
    obtain n where n: "text_lines ?old = text_lines (TrimRight ?old [CHR 0x0A]) @ replicate n []" using text_lines_trim by blast
    define pre where "pre = (if ?old = [] then [] else text_lines (TrimRight ?old [CHR 0x0A]))"
    have one: "text_lines (key_line k @ [CHR 0x0A]) = [key_line k, []]"
      using text_lines_append [of "key_line k" "[]"] key_line_no_newline [OF k] by (simp add: text_lines_def split_on_sep_free)
    have new: "text_lines (updated_settings file k) = pre @ [key_line k, []]"
      using False one text_lines_append [of "TrimRight ?old [CHR 0x0A]" "key_line k @ [CHR 0x0A]"]
      by (auto simp: updated_settings_def Let_def pre_def)
    have "\<not> list_ex settings_line pre" using False n by (auto simp: pre_def split: if_splits)
    then have "List.find settings_line (pre @ [key_line k, []]) = Some (key_line k)"
      by (induction pre) (auto simp: key_line_matches)
    moreover have "filter (\<lambda>l. l \<noteq> [] \<and> \<not> settings_line l) pre = other_lines ?old"
      using n by (auto simp: pre_def other_lines_def text_lines_def TrimRight_def)
    ultimately show ?thesis unfolding new other_lines_def by (simp add: key_line_matches)
  qed
qed

text \<open>C18. A refresh that succeeds installs what it fetched, and only ever a key: the text written has the shape of one, so
  nothing else of the page reaches the settings file; MakeMKV's settings then hold exactly that key, every other line of
  the file is kept in order, and the old file is kept as the backup. Wherever the machine stops, the settings file is
  the old one or the whole new one, and a refresh that fails leaves the old one.\<close>

theorem RefreshBetaKey_installs:
  assumes "RefreshBetaKey unescape url path resp env d = (states, out)"
  shows "(\<forall>s \<in> set states. sd_file s = sd_file d \<or> s = last states \<and> (\<exists>r. out = Inr r))
    \<and> (case out of
         Inl e \<Rightarrow> sd_file (last states) = sd_file d
       | Inr r \<Rightarrow> is_key (bk_Key (rf_Fetched r)) \<and> ReadSettingsKey (sd_file (last states)) = bk_Key (rf_Fetched r)
           \<and> (rf_Changed r \<longleftrightarrow> ReadSettingsKey (sd_file d) \<noteq> bk_Key (rf_Fetched r))
           \<and> (if rf_Changed r then \<exists>s. sd_file (last states) = Some s
                \<and> other_lines s = other_lines (case sd_file d of None \<Rightarrow> [] | Some t \<Rightarrow> t)
                \<and> sd_bak (last states) = (if sd_file d = None then sd_bak d else sd_file d)
              else states = [d]))"
proof -
  consider (failed) e where "out = Inl e" "set states \<subseteq> {d, d\<lparr>sd_bak := sd_file d\<rparr>}" "states \<noteq> []"
    | (same) b where "out = Inr \<lparr>rf_Fetched = b, rf_Changed = False\<rparr>" "states = [d]" "is_key (bk_Key b)" "ReadSettingsKey (sd_file d) = bk_Key b"
    | (changed) b d1 where "out = Inr \<lparr>rf_Fetched = b, rf_Changed = True\<rparr>" "is_key (bk_Key b)" "ReadSettingsKey (sd_file d) \<noteq> bk_Key b"
        "d1 = (if sd_file d = None then d else d\<lparr>sd_bak := sd_file d\<rparr>)"
        "states = [d, d1, d1\<lparr>sd_file := Some (updated_settings (sd_file d) (bk_Key b))\<rparr>]"
    using assms FetchBetaKey_is_key [of unescape url resp]
    by (auto simp: RefreshBetaKey_def WriteSettingsKey_def Let_def split: if_splits sum.splits option.splits)
  then show ?thesis
  proof cases
    case failed
    then have "\<forall>s \<in> set states. sd_file s = sd_file d" by auto
    then show ?thesis using failed last_in_set by auto
  next
    case same
    then show ?thesis by simp
  next
    case (changed b d1)
    note new = updated_lines [OF changed(2), of "sd_file d"]
    have "ReadSettingsKey (sd_file (last states)) = bk_Key b"
      using new key_line_value [OF changed(2)] by (simp add: changed(5) ReadSettingsKey_def)
    then show ?thesis using changed new by (auto simp: changed(4))
  qed
qed

definition sample_page :: string where
  "sample_page = ''<code>T-abcdefghijklmnopqrstuvwxyzABCDEFGHIJKLMN_0123</code> valid until May.''"

definition sample_settings :: settings_dir where
  "sample_settings = \<lparr>sd_file = Some (''a=1'' @ [CHR 0x0A] @ '' app_key = old'' @ [CHR 0x0A] @ ''b=2''), sd_bak = None\<rparr>"

theorem RefreshBetaKey_installs_witness:
  "\<exists>states r. RefreshBetaKey id [] ''/s'' (Inr (200, sample_page)) \<lparr>we_mkdir = None, we_read = None, we_backup = None, we_temp = None, we_rename = None\<rparr> sample_settings = (states, Inr r)
     \<and> rf_Changed r \<and> ReadSettingsKey (sd_file (last states)) = ''T-abcdefghijklmnopqrstuvwxyzABCDEFGHIJKLMN_0123''"
proof -
  let ?run = "RefreshBetaKey id [] ''/s'' (Inr (200, sample_page)) \<lparr>we_mkdir = None, we_read = None, we_backup = None, we_temp = None, we_rename = None\<rparr> sample_settings"
  have "length sample_page \<le> 200" by code_simp
  then have body: "take (4 * 2 ^ 20) sample_page = sample_page" by (intro take_all) (erule order_trans, simp)
  have parsed: "ParseBetaKey id sample_page = Inr \<lparr>bk_Key = ''T-abcdefghijklmnopqrstuvwxyzABCDEFGHIJKLMN_0123'', bk_ValidUntil = ''May''\<rparr>"
    by code_simp
  have old: "ReadSettingsKey (sd_file sample_settings) = ''old''" by code_simp
  have key: "keyRE ''T-abcdefghijklmnopqrstuvwxyzABCDEFGHIJKLMN_0123'' \<noteq> None" by code_simp
  obtain states where run: "?run = (states, Inr \<lparr>rf_Fetched = \<lparr>bk_Key = ''T-abcdefghijklmnopqrstuvwxyzABCDEFGHIJKLMN_0123'', bk_ValidUntil = ''May''\<rparr>, rf_Changed = True\<rparr>)"
    using old key unfolding RefreshBetaKey_def FetchBetaKey_def Let_def prod.case sum.case body parsed by (simp add: WriteSettingsKey_def Let_def)
  from RefreshBetaKey_installs [OF run] run show ?thesis by auto
qed

end
