(* ===== verification/Disc_Name.thy ===== *)
theory Disc_Name
  imports Identify Ifo Makemkv_Key
begin

text \<open>
  \<^verbatim>\<open>internal/identify/discname.go\<close>: the net that reads the name a disc gives itself, with the marks of disc, season,
  year and edition taken off its end. The lemmas show that a disc's own name outranks its label.
\<close>

section \<open>Disc names\<close>

definition editionWords :: "string list" where
  "editionWords =
     [''special edition'', ''collector'' @ [CHR 0x27] @ ''s edition'', ''collectors edition'', ''deluxe edition'', ''extended edition'',
      ''director'' @ [CHR 0x27] @ ''s cut'', ''directors cut'', ''unrated'', ''uncut'', ''remastered'', ''restored'',
      ''anniversary edition'', ''limited edition'', ''ultimate edition'', ''widescreen'', ''fullscreen'', ''full screen'',
      ''wide screen'', ''theatrical cut'', ''theatrical version'', ''2-disc set'', ''two-disc set'', ''disc 1'', ''disc 2'', ''bonus disc'']"

definition isEdition :: "string \<Rightarrow> bool" where
  "isEdition s \<longleftrightarrow> (let l = ToLower (TrimSpace s) in list_ex (\<lambda>w. l = w \<or> contains l w) editionWords)"

definition name_sep :: "char \<Rightarrow> bool" where
  "name_sep c \<longleftrightarrow> re_space c \<or> c = CHR '':'' \<or> c = CHR '','' \<or> c = CHR ''-''"

definition number_tail :: "string \<Rightarrow> string option" where
  "number_tail s =
     (let t = dropWhile re_space s; d = takeWhile is_digit t
      in if (length d = 1 \<or> length d = 2) \<and> list_all re_space (drop (length d) t) then Some d else None)"

text \<open>Separators, at least one, a word, and a number to the end.\<close>

definition word_number :: "string list \<Rightarrow> string \<Rightarrow> string option" where
  "word_number words s =
     (let t = dropWhile name_sep s
      in if t = s then None
         else case List.find (\<lambda>w. fold_prefix w t) words of None \<Rightarrow> None | Some w \<Rightarrow> number_tail (drop (length w) t))"

definition discInName :: "string \<Rightarrow> (string \<times> string) option" where
  "discInName = lazy_prefix [] (word_number [''disc'', ''disk''])"

definition seasonInName :: "string \<Rightarrow> (string \<times> string) option" where
  "seasonInName = lazy_prefix [] (word_number [''season'', ''series''])"

definition paren_tail :: "string \<Rightarrow> string option" where
  "paren_tail s =
     (let t = dropWhile re_space s; u = tl t; inner = takeWhile (\<lambda>c. c \<noteq> CHR ''('' \<and> c \<noteq> CHR '')'') u;
          rest = drop (length inner) u
      in if t \<noteq> [] \<and> hd t = CHR ''('' \<and> inner \<noteq> [] \<and> length (runes inner) \<le> 40 \<and> prefix '')'' rest \<and> list_all re_space (tl rest)
         then Some inner else None)"

definition trailingParen :: "string \<Rightarrow> (string \<times> string) option" where
  "trailingParen = lazy_prefix [] paren_tail"

definition yearParen :: "string \<Rightarrow> bool" where
  "yearParen s \<longleftrightarrow> length s = 4 \<and> list_all is_digit s \<and> (prefix ''19'' s \<or> prefix ''20'' s)"

lemma lazy_prefix_shorter: "lazy_prefix acc rest s = Some (w, a) \<Longrightarrow> \<exists>t. rev acc @ s = w @ t \<and> rest t = Some a"
  by (induction acc rest s rule: lazy_prefix.induct)
    (subst (asm) (2) lazy_prefix.simps, fastforce split: option.splits list.splits if_splits)

lemma word_number_Nil [simp]: "word_number words [] = None"
  by (simp add: word_number_def)

lemma in_name_shorter: "lazy_prefix [] (word_number words) s = Some (w, a) \<Longrightarrow> length w < length s"
  using lazy_prefix_shorter [of "[]" "word_number words" s w a] by (metis word_number_Nil append_Nil length_append length_greater_0_conv
      less_add_same_cancel1 option.distinct(1) rev.simps(1))

text \<open>The marks peeled off the tail: the name that is left, the candidate and the notes. A disc mark is looked for first
  each time round, and either only while its number is not known.\<close>

function peel :: "string \<Rightarrow> candidate \<Rightarrow> string list \<Rightarrow> string \<times> candidate \<times> string list" where
  "peel work c notes =
     (case (if ca_Disc c = 0 then discInName work else None) of
        Some (w, d) \<Rightarrow>
          peel w (c\<lparr>ca_Disc := atoi0 d, ca_Kind := (if ca_Kind c = IdUnknown then IdSeries else ca_Kind c)\<rparr>) (notes @ [''disc '' @ d])
      | None \<Rightarrow>
          (case (if ca_Season c = 0 then seasonInName work else None) of
             Some (w, s) \<Rightarrow> peel w (c\<lparr>ca_Season := atoi0 s, ca_Kind := IdSeries\<rparr>) (notes @ [''season '' @ s])
           | None \<Rightarrow> (work, c, notes)))"
  by pat_completeness auto
termination
  by (relation "measure (\<lambda>(w, c, n). length w)")
    (auto simp: discInName_def seasonInName_def in_name_shorter split: if_splits)

declare peel.simps [simp del]

text \<open>\<^verbatim>\<open>strings.Trim\<close> with the cutset of punctuation and the two long dashes, three bytes each.\<close>

definition name_cuts :: "string list" where
  "name_cuts = ['':'', '','', ''-'', [CHR 0xE2, CHR 0x80, CHR 0x93], [CHR 0xE2, CHR 0x80, CHR 0x94]]"

function drop_cuts :: "string list \<Rightarrow> string \<Rightarrow> string" where
  "drop_cuts cuts s =
     (case List.find (\<lambda>w. w \<noteq> [] \<and> prefix w s) cuts of None \<Rightarrow> s | Some w \<Rightarrow> drop_cuts cuts (drop (length w) s))"
  by pat_completeness auto
termination
  by (relation "measure (\<lambda>(c, s). length s)") (auto simp: find_Some_iff prefix_def)

declare drop_cuts.simps [simp del]

definition trim_cuts :: "string \<Rightarrow> string" where
  "trim_cuts s = rev (drop_cuts (map rev name_cuts) (rev (drop_cuts name_cuts s)))"

definition capitalise_first :: "string \<Rightarrow> string" where
  "capitalise_first w = (case w of [] \<Rightarrow> [] | c # t \<Rightarrow> upper_char c # t)"

definition tidyDiscName :: "string \<Rightarrow> string" where
  "tidyDiscName s =
     (let t = join_with '' '' (Fields (TrimSpace (trim_cuts (TrimSpace s))))
      in if t = [] then []
         else if t = ToUpper t \<and> ToUpper t \<noteq> ToLower t then join_with '' '' (map capitalise_first (Fields (ToLower t)))
         else t)"

text \<open>The year or the edition in a trailing parenthesis.\<close>

definition name_paren :: "string \<times> candidate \<times> string list \<Rightarrow> string \<times> candidate \<times> string list" where
  "name_paren st =
     (let (work, c, notes) = st
      in case trailingParen work of
           None \<Rightarrow> st
         | Some (w, p) \<Rightarrow>
             (let inner = TrimSpace p
              in if yearParen inner then (w, c\<lparr>ca_Year := atoi0 inner\<rparr>, notes @ [''year '' @ inner])
                 else if isEdition inner then (w, c, notes @ [''edition '' @ go_quote inner])
                 else st))"

definition DiscNameNet :: "id_input \<Rightarrow> candidate list" where
  "DiscNameNet inp =
     (let raw = TrimSpace (ii_DiscName inp)
      in if raw = [] then []
         else if is_junk raw then []
         else let src = TrimSpace (ii_DiscNameSource inp);
                  c = empty_candidate\<lparr>ca_Net := ''discname'', ca_Confidence := c080,
                        ca_Why := ''read from '' @ (if src = [] then ''the disc'' else src)\<rparr>;
                  (work, c1, notes) = name_paren (peel raw c []);
                  title = tidyDiscName work
              in if title = [] then []
                 else [c1\<lparr>ca_Title := title,
                          ca_Why := (if notes = [] then ca_Why c1 else ca_Why c1 @ '' ('' @ join_with '', '' notes @ '')'')\<rparr>])"

section \<open>A disc's own name outranks its label\<close>

lemma label_marks_confidence: "ca_Confidence (snd (label_marks w c)) \<in> {ca_Confidence c, c055, c060, c065}"
  by (simp add: label_marks_def split: option.splits prod.splits)

lemma label_year_confidence: "ca_Confidence (snd (label_year wc)) \<in> {ca_Confidence (snd wc), c060}"
  by (cases wc) (simp add: label_year_def split: option.splits prod.splits)

lemma label_number_confidence: "ca_Confidence (snd (label_number wc)) \<in> {ca_Confidence (snd wc), c035}"
  by (cases wc) (simp add: label_number_def Let_def split: option.splits prod.splits)

lemma LabelNet_weak:
  assumes "c \<in> set (LabelNet inp)"
  shows "ca_Confidence c \<in> {c015, c035, c050, c055, c060, c065} \<and> LabelNet inp = [c]"
proof -
  define c0 where "c0 = empty_candidate\<lparr>ca_Net := ''label'', ca_Confidence := c050, ca_Why := ''read from the volume label''\<rparr>"
  define wy where "wy = label_year (label_marks (TrimSpace (ii_VolumeLabel inp)) c0)"
  define wn where "wn = label_number (fst (stripMarkers (fst wy)), snd wy)"
  have "ca_Confidence (snd wn) \<in> {c035, c050, c055, c060, c065}"
    using label_number_confidence [of "(fst (stripMarkers (fst wy)), snd wy)"]
      label_year_confidence [of "label_marks (TrimSpace (ii_VolumeLabel inp)) c0"]
      label_marks_confidence [of "TrimSpace (ii_VolumeLabel inp)" c0]
    by (auto simp: wn_def wy_def c0_def)
  moreover have "LabelNet inp = [c] \<and> ca_Confidence c \<in> {c015, ca_Confidence (snd wn)}"
    using assms unfolding LabelNet_def Let_def case_prod_unfold c0_def [symmetric] wy_def [symmetric] wn_def [symmetric]
    by (simp split: if_splits)
  ultimately show ?thesis by auto
qed

lemma peel_keeps: "ca_Confidence (fst (snd (peel work c ns))) = ca_Confidence c \<and> ca_Net (fst (snd (peel work c ns))) = ca_Net c"
proof (induction work c ns rule: peel.induct)
  case (1 work c ns)
  show ?case
  proof (cases "if ca_Disc c = 0 then discInName work else None")
    case None
    note first = this
    show ?thesis
    proof (cases "if ca_Season c = 0 then seasonInName work else None")
      case None
      then show ?thesis using first by (subst (1 2) peel.simps) simp
    next
      case (Some p)
      then show ?thesis using 1(1) [OF first Some] first by (subst (1 2) peel.simps) (simp add: case_prod_unfold)
    qed
  next
    case (Some p)
    then show ?thesis using 1(2) [OF Some] by (subst (1 2) peel.simps) (simp add: case_prod_unfold)
  qed
qed

lemma name_paren_keeps: "ca_Confidence (fst (snd (name_paren st))) = ca_Confidence (fst (snd st))"
  by (simp add: name_paren_def Let_def case_prod_unfold split: option.splits)

lemma DiscNameNet_strong: "c \<in> set (DiscNameNet inp) \<Longrightarrow> ca_Confidence c = c080 \<and> DiscNameNet inp = [c]"
  unfolding DiscNameNet_def Let_def case_prod_unfold
  by (simp add: name_paren_keeps peel_keeps split: if_splits)

definition label_net :: net where
  "label_net = (''label'', \<lambda>inp. Inr (LabelNet inp))"

definition disc_name_net :: net where
  "disc_name_net = (''discname'', \<lambda>inp. Inr (DiscNameNet inp))"

lemma net_candidates_keep:
  "snd n inp = Inr cs \<Longrightarrow> m \<in> set (net_candidates inp n) \<Longrightarrow> \<exists>c \<in> set cs. ca_Confidence m = ca_Confidence c \<and> ca_Title m = ca_Title c"
  by (auto simp: net_candidates_def split: if_splits)

lemma length_net_candidates: "snd n inp = Inr cs \<Longrightarrow> length (net_candidates inp n) \<le> length cs"
  by (simp add: net_candidates_def le_trans [OF length_filter_le])

lemma is_float_constants:
  "is_float c015" "is_float c035" "is_float c050" "is_float c055" "is_float c060" "is_float c065" "is_float c080"
  by code_simp+

lemma mergeGroup_single: "mergeGroup [c] = c"
  by (simp add: mergeGroup_def by_confidence_def)

lemma TrimSpace_neq_Nil: "s \<noteq> [] \<Longrightarrow> \<not> is_space (hd s) \<Longrightarrow> TrimSpace s \<noteq> []"
  by (cases s) (auto simp: TrimSpace_def trim_by_def trim_right_by_def dropWhile_eq_Nil_conv)

lemma join_words_hd: "w \<noteq> [] \<Longrightarrow> \<exists>t. join_with '' '' (w # ws) = hd w # t"
  by (cases w; cases ws) auto

lemma words_nonblank:
  assumes "ws \<noteq> []" "\<forall>w \<in> set ws. w \<noteq> [] \<and> \<not> is_space (hd w)"
  shows "TrimSpace (join_with '' '' ws) \<noteq> []"
proof -
  obtain w vs where ws: "ws = w # vs" using assms(1) by (cases ws) auto
  then obtain t where "join_with '' '' ws = hd w # t" using join_words_hd [of w vs] assms(2) by auto
  then show ?thesis using assms(2) ws by (intro TrimSpace_neq_Nil) simp_all
qed

lemma Fields_words: "\<forall>w \<in> set (Fields s). w \<noteq> [] \<and> \<not> is_space (hd w)"
  using fields_by_props unfolding Fields_def by (metis list.set_sel(1))

lemma upper_not_space: "\<not> is_space c \<Longrightarrow> \<not> is_space (upper_char c)"
proof
  assume c: "\<not> is_space c" "is_space (upper_char c)"
  then have "\<not> is_upper (upper_char c)" by (auto simp: is_space_def is_upper_def)
  from upper_char_same [OF this refl] c show False by simp
qed

lemma tidyDiscName_nonblank: "tidyDiscName s \<noteq> [] \<Longrightarrow> TrimSpace (tidyDiscName s) \<noteq> []"
proof -
  assume ne: "tidyDiscName s \<noteq> []"
  define t where "t = join_with '' '' (Fields (TrimSpace (trim_cuts (TrimSpace s))))"
  have caps: "\<forall>w \<in> set (map capitalise_first (Fields u)). w \<noteq> [] \<and> \<not> is_space (hd w)" for u
    using Fields_words [of u] upper_not_space by (fastforce simp: capitalise_first_def split: list.splits)
  have "tidyDiscName s = t \<or> tidyDiscName s = join_with '' '' (map capitalise_first (Fields (ToLower t)))"
    using ne by (auto simp: tidyDiscName_def t_def Let_def split: if_splits)
  then show ?thesis
  proof
    assume "tidyDiscName s = t"
    then show ?thesis using ne words_nonblank [OF _ Fields_words] unfolding t_def by (metis join_with.simps(1))
  next
    assume "tidyDiscName s = join_with '' '' (map capitalise_first (Fields (ToLower t)))"
    then show ?thesis using ne words_nonblank [OF _ caps] by (metis join_with.simps(1))
  qed
qed

lemma DiscNameNet_title: "DiscNameNet inp = [d] \<Longrightarrow> TrimSpace (ca_Title d) \<noteq> []"
  unfolding DiscNameNet_def Let_def case_prod_unfold
  by (auto split: if_splits dest: tidyDiscName_nonblank)

text \<open>What the label contributes: one proposal at most, and a weak one.\<close>

lemma label_contributes:
  assumes L: "L = net_candidates inp label_net"
  shows "length L \<le> 1" "l \<in> set L \<Longrightarrow> is_float (ca_Confidence l) \<and> ca_Confidence l \<le> c065"
proof -
  have l1: "snd label_net inp = Inr (LabelNet inp)" by (simp add: label_net_def)
  have "length (LabelNet inp) \<le> 1"
  proof (cases "LabelNet inp")
    case (Cons c cs)
    then show ?thesis using LabelNet_weak [of c inp] by simp
  qed simp
  then show "length L \<le> 1" using length_net_candidates [OF l1] unfolding L by linarith
  assume "l \<in> set L"
  with net_candidates_keep [OF l1] obtain c where c: "c \<in> set (LabelNet inp)" "ca_Confidence l = ca_Confidence c"
    unfolding L by blast
  from LabelNet_weak [OF c(1)] have "ca_Confidence c \<in> {c015, c035, c050, c055, c060, c065}" by blast
  then show "is_float (ca_Confidence l) \<and> ca_Confidence l \<le> c065" unfolding c(2) using is_float_constants
    by (auto simp: c015_def c035_def c050_def c055_def c060_def c065_def)
qed

text \<open>One strong proposal goes before at most one weak one.\<close>

lemma strong_outranks_weak:
  assumes L: "length L \<le> 1" "\<And>l. l \<in> set L \<Longrightarrow> is_float (ca_Confidence l) \<and> ca_Confidence l \<le> c065"
    and d: "ca_Confidence d = c080"
  shows "norm_of (re_Best (Resolve (L @ [d]))) = norm_of d" (is "norm_of ?b = _")
proof (rule ccontr)
  let ?cs = "L @ [d]"
  assume other: "norm_of ?b \<noteq> norm_of d"
  have conf: "confident ?cs" unfolding confident_def list_all_iff
    using L d is_float_constants(7) by (force simp: c065_def c080_def)
  have spec: "?b \<in> set (merged_groups ?cs)" "c080 \<le> ca_Confidence ?b"
    using Resolve_spec [OF _ conf] Resolve_All [of ?cs] d by (auto simp: c080_def c095_def)
  from spec(1) obtain k where k: "k \<in> norm_of ` set ?cs" "?b = mergeGroup (group_of ?cs k)" by (auto simp: merged_groups_def)
  then have "k \<noteq> norm_of d" using other norm_mergeGroup [OF k(1)] by auto
  then have g: "group_of ?cs k = filter (\<lambda>c. norm_of c = k) L" "group_of ?cs k \<noteq> []"
    using k(1) by (auto simp: group_of_def filter_empty_conv)
  then have "length (group_of ?cs k) \<le> 1" using L(1) by (metis length_filter_le le_trans)
  then obtain l where l: "group_of ?cs k = [l]" using g(2) by (cases "group_of ?cs k") auto
  then have "l \<in> set (filter (\<lambda>c. norm_of c = k) L)" using g(1) by (metis list.set_intros(1))
  then have "l \<in> set L" by simp
  moreover have "?b = l" using k(2) l mergeGroup_single by simp
  ultimately show False using L(2) [of l] spec(2) by (auto simp: c065_def c080_def)
qed

text \<open>When a disc names itself and its label is read too, the answer is the disc's own name, whatever the label says: no
  label is read with a confidence that reaches a name's.\<close>

theorem disc_name_outranks_label:
  assumes d: "DiscNameNet inp = [d]"
  shows "norm_of (re_Best (identify_Run [label_net, disc_name_net] inp)) = norm_of d"
proof -
  have strong: "ca_Confidence d = c080" using DiscNameNet_strong [of d inp] d by simp
  have "net_candidates inp disc_name_net = [if ca_Net d = [] then d\<lparr>ca_Net := ''discname''\<rparr> else d]"
    using DiscNameNet_title [OF d] by (simp add: net_candidates_def disc_name_net_def d)
  then obtain d' where d': "net_candidates inp disc_name_net = [d']" "ca_Confidence d' = c080" "ca_Title d' = ca_Title d"
    using strong by auto
  from strong_outranks_weak [OF label_contributes [OF refl] d'(2), of inp] show ?thesis
    by (simp add: identify_Run_def d')
qed

definition named_input :: id_input where
  "named_input = (label_input ''DIE_HARD_2'')\<lparr>ii_DiscName := ''Ab''\<rparr>"

lemma named_disc: "DiscNameNet named_input \<noteq> []"
proof -
  have t: "TrimSpace ''Ab'' = ''Ab''" by (simp add: TrimSpace_def trim_by_def trim_right_by_def is_space_def)
  have j: "\<not> is_junk ''Ab''" by (simp add: is_junk_def junkLabels_def ToLower_def lower_char_def is_upper_def char_of_eq_iff)
  have w: "discInName ''Ab'' = None" "seasonInName ''Ab'' = None" "trailingParen ''Ab'' = None"
    by (simp_all add: discInName_def seasonInName_def trailingParen_def lazy_prefix.simps word_number_def paren_tail_def name_sep_def
        re_space_def NL_def Let_def)
  then have p: "peel ''Ab'' c ns = (''Ab'', c, ns)" "name_paren (''Ab'', c, ns) = (''Ab'', c, ns)" for c ns
    by (simp_all add: peel.simps [of "''Ab''"] name_paren_def)
  have "trim_cuts ''Ab'' = ''Ab''" by (simp add: trim_cuts_def name_cuts_def drop_cuts.simps)
  then have "tidyDiscName ''Ab'' \<noteq> []"
    by (simp add: tidyDiscName_def t Fields_def fields_by.simps [of _ "''Ab''"] fields_by.simps [of _ "[]"] is_space_def Let_def ToUpper_def
        upper_char_def is_lower_def trans [OF eq_commute char_of_eq_iff])
  then show ?thesis using t j p by (simp add: DiscNameNet_def named_input_def label_input_def)
qed

theorem disc_name_outranks_label_witness:
  "\<exists>d. DiscNameNet named_input = [d] \<and> norm_of (re_Best (identify_Run [label_net, disc_name_net] named_input)) = norm_of d"
proof -
  obtain d where "d \<in> set (DiscNameNet named_input)" using named_disc by (meson list.set_sel(1))
  then have "DiscNameNet named_input = [d]" by (simp add: DiscNameNet_strong)
  with disc_name_outranks_label [OF this] show ?thesis by blast
qed

end
