(* ===== verification/Menu_Text.thy ===== *)
theory Menu_Text
  imports Identify Makemkv
begin

text \<open>
  \<^verbatim>\<open>internal/identify/menutext.go\<close>: the names read off a disc's menu, matched to its titles by the running times printed
  beside them. The lemmas show what it takes for a name to be given to a title: it is within the tolerance, no title that
  is still without a name is as close, and no title gets two.
\<close>

section \<open>Reading a menu\<close>

record menu_entry =
  me_Name :: string
  me_Seconds :: int
  me_Raw :: string

definition clock_sep :: "char \<Rightarrow> bool" where
  "clock_sep c \<longleftrightarrow> c = CHR '':'' \<or> c = CHR '';'' \<or> c = CHR ''.''"

text \<open>A separator, white space on both sides of it, and two digits: the digits and what follows.\<close>

definition clock_part :: "string \<Rightarrow> (string \<times> string) option" where
  "clock_part s =
     (let t = dropWhile re_space s
      in if t \<noteq> [] \<and> clock_sep (hd t)
         then (let u = dropWhile re_space (tl t)
               in if length (take 2 u) = 2 \<and> list_all is_digit (take 2 u) then Some (take 2 u, drop 2 u) else None)
         else None)"

text \<open>\<^verbatim>\<open>timePattern\<close> at the start of a text: its three groups.\<close>

definition time_at :: "string \<Rightarrow> (string \<times> string \<times> string) option" where
  "time_at s =
     (let t = dropWhile re_space (if s \<noteq> [] \<and> hd s \<in> {CHR ''('', CHR ''['', CHR 0x7B} then tl s else s);
          a = take 2 (takeWhile is_digit t)
      in if a = [] then None
         else case clock_part (drop (length a) t) of
                None \<Rightarrow> None
              | Some (b, r) \<Rightarrow> Some (a, b, case clock_part r of None \<Rightarrow> [] | Some (c, r') \<Rightarrow> c))"

definition parseClock :: "string \<Rightarrow> string \<Rightarrow> string \<Rightarrow> int" where
  "parseClock a b c =
     (let x = atoi0 a; y = atoi0 b; z = atoi0 c
      in if c \<noteq> [] then (if y > 59 \<or> z > 59 then 0 else x * 3600 + y * 60 + z)
         else if y > 59 then 0 else x * 60 + y)"

text \<open>Each run of characters replaced by one space.\<close>

fun replace_runs :: "(char \<Rightarrow> bool) \<Rightarrow> bool \<Rightarrow> string \<Rightarrow> string" where
  "replace_runs p inrun [] = []"
| "replace_runs p inrun (c # s) =
     (if p c then (if inrun then replace_runs p True s else CHR '' '' # replace_runs p True s)
      else c # replace_runs p False s)"

definition menu_char :: "char \<Rightarrow> bool" where
  "menu_char c \<longleftrightarrow> is_upper c \<or> is_lower c \<or> is_digit c
     \<or> c \<in> {CHR 0x27, CHR ''&'', CHR '':'', CHR '','', CHR ''!'', CHR ''?'', CHR ''/'', CHR ''.'', CHR '' '', CHR ''-''}"

definition isWordish :: "string \<Rightarrow> bool" where
  "isWordish s \<longleftrightarrow> ToLower s \<in> set [''a'', ''i'', ''an'', ''of'', ''in'', ''on'', ''to'', ''it'', ''is'', ''at'', ''up'', ''my'', ''no'',
     ''we'', ''dr'', ''mr'', ''ms'', ''st'']"

fun drop_debris :: "string list \<Rightarrow> string list" where
  "drop_debris (w # v # ws) = (if length w \<le> 2 \<and> \<not> isWordish w then drop_debris (v # ws) else w # v # ws)"
| "drop_debris ws = ws"

text \<open>After the noise is gone the only white space is the space itself.\<close>

definition cleanMenuName :: "string \<Rightarrow> string" where
  "cleanMenuName s =
     (let t = replace_runs (\<lambda>c. c = CHR '' '') False (replace_runs (\<lambda>c. \<not> menu_char c) False s);
          u = Trim t ('' .,:-'' @ [CHR 0x27] @ ''/'');
          n = join_with '' '' (drop_debris (Fields u))
      in if length n < 3 then []
         else if length (filter (\<lambda>c. is_lower c \<or> is_upper c) n) * 2 < length n then []
         else n)"

definition menu_line :: "string \<Rightarrow> menu_entry option" where
  "menu_line l =
     (case lazy_prefix [] time_at l of
        None \<Rightarrow> None
      | Some (pre, a, b, c) \<Rightarrow>
          (let secs = parseClock a b c
           in if secs \<le> 0 then None else Some \<lparr>me_Name = cleanMenuName pre, me_Seconds = secs, me_Raw = TrimSpace l\<rparr>))"

definition ParseMenuLines :: "string \<Rightarrow> menu_entry list" where
  "ParseMenuLines text = List.map_filter menu_line (split_on NL text)"

section \<open>Names for titles\<close>

text \<open>One title against an entry: the best so far, how far it is, and how many are as close.\<close>

definition closer :: "nat list \<Rightarrow> int \<Rightarrow> int \<Rightarrow> nat \<times> int \<Rightarrow> nat option \<times> int \<times> nat \<Rightarrow> nat option \<times> int \<times> nat" where
  "closer used tol secs t st =
     (let (i, d) = t; (best, bestDelta, ties) = st; delta = \<bar>d - secs\<bar>
      in if i \<in> set used then st
         else if delta > tol then st
         else if delta < bestDelta then (Some i, delta, 1)
         else if delta = bestDelta then (best, bestDelta, ties + 1)
         else st)"

definition closest :: "nat list \<Rightarrow> int \<Rightarrow> int \<Rightarrow> (nat \<times> int) list \<Rightarrow> nat option \<times> int \<times> nat" where
  "closest used tol secs ts = fold (closer used tol secs) ts (None, tol + 1, 0)"

definition assign_entry :: "int list \<Rightarrow> int \<Rightarrow> menu_entry \<Rightarrow> (nat \<times> menu_entry) list \<Rightarrow> (nat \<times> menu_entry) list" where
  "assign_entry titleSecs tol e out =
     (if me_Name e = [] then out
      else case closest (map fst out) tol (me_Seconds e) (enumerate 0 titleSecs) of
             (Some i, d, ties) \<Rightarrow> if ties = 1 then out @ [(i, e)] else out
           | (None, d, ties) \<Rightarrow> out)"

definition AssignByDuration :: "menu_entry list \<Rightarrow> int list \<Rightarrow> int \<Rightarrow> (nat \<times> menu_entry) list" where
  "AssignByDuration entries titleSecs tol = fold (assign_entry titleSecs tol) entries []"

text \<open>The titles an entry could go to.\<close>

definition in_reach :: "nat list \<Rightarrow> int \<Rightarrow> int \<Rightarrow> (nat \<times> int) list \<Rightarrow> (nat \<times> int) list" where
  "in_reach used tol secs ts = filter (\<lambda>(i, d). i \<notin> set used \<and> \<bar>d - secs\<bar> \<le> tol) ts"

definition closest_ok :: "int \<Rightarrow> int \<Rightarrow> (nat \<times> int) list \<Rightarrow> nat option \<times> int \<times> nat \<Rightarrow> bool" where
  "closest_ok tol secs cands st =
     (case st of
        (None, bd, n) \<Rightarrow> bd = tol + 1 \<and> n = 0 \<and> cands = []
      | (Some i, bd, n) \<Rightarrow> bd \<le> tol \<and> (\<exists>d. (i, d) \<in> set cands \<and> \<bar>d - secs\<bar> = bd)
          \<and> n = length (filter (\<lambda>(j, d). \<bar>d - secs\<bar> = bd) cands) \<and> (\<forall>(j, d) \<in> set cands. bd \<le> \<bar>d - secs\<bar>))"

lemma closest_spec: "closest_ok tol secs (in_reach used tol secs ts) (closest used tol secs ts)"
proof (induction ts rule: rev_induct)
  case Nil
  then show ?case by (simp add: closest_def in_reach_def closest_ok_def)
next
  case (snoc t ts)
  obtain i d where t: "t = (i, d)" by (cases t)
  obtain b bd n where st: "closest used tol secs ts = (b, bd, n)" by (cases "closest used tol secs ts")
  have new: "closest used tol secs (ts @ [t]) = closer used tol secs t (b, bd, n)" using st by (simp add: closest_def)
  show ?case
  proof (cases "i \<in> set used \<or> \<bar>d - secs\<bar> > tol")
    case True
    then show ?thesis using snoc st unfolding new by (auto simp: t closer_def in_reach_def Let_def)
  next
    case False
    let ?c = "in_reach used tol secs ts"
    have reach: "in_reach used tol secs (ts @ [t]) = ?c @ [(i, d)]" using False by (simp add: t in_reach_def)
    consider "\<bar>d - secs\<bar> < bd" | "\<bar>d - secs\<bar> = bd" | "\<bar>d - secs\<bar> > bd" by linarith
    then show ?thesis
    proof cases
      case 1
      have "\<bar>d' - secs\<bar> \<noteq> \<bar>d - secs\<bar>" "\<bar>d - secs\<bar> \<le> \<bar>d' - secs\<bar>" if "(j, d') \<in> set ?c" for j d'
        using snoc that 1 unfolding st by (auto simp: closest_ok_def split: option.splits)
      then have "filter (\<lambda>(j, d'). \<bar>d' - secs\<bar> = \<bar>d - secs\<bar>) ?c = []" "\<forall>(j, d') \<in> set ?c. \<bar>d - secs\<bar> \<le> \<bar>d' - secs\<bar>"
        by (auto simp: filter_empty_conv)
      then show ?thesis using 1 False unfolding new reach by (auto simp: t closer_def closest_ok_def)
    next
      case 2
      then obtain k where "b = Some k" using snoc False unfolding st by (cases b) (auto simp: closest_ok_def)
      then show ?thesis using 2 False snoc unfolding new reach st by (auto simp: t closer_def closest_ok_def)
    next
      case 3
      then obtain k where "b = Some k" using snoc False unfolding st by (cases b) (auto simp: closest_ok_def)
      then show ?thesis using 3 False snoc unfolding new reach st by (auto simp: t closer_def closest_ok_def)
    qed
  qed
qed

text \<open>An entry goes to the only title that is as close as it is, among those within reach.\<close>

lemma only_one_as_close:
  assumes "closest used tol secs (enumerate 0 xs) = (Some i, bd, 1)"
  shows "i < length xs \<and> i \<notin> set used \<and> \<bar>xs ! i - secs\<bar> \<le> tol \<and>
    (\<forall>j < length xs. j \<noteq> i \<and> j \<notin> set used \<longrightarrow> \<bar>xs ! i - secs\<bar> < \<bar>xs ! j - secs\<bar>)"
proof -
  let ?c = "in_reach used tol secs (enumerate 0 xs)"
  have mem: "(j, d) \<in> set ?c \<longleftrightarrow> j < length xs \<and> d = xs ! j \<and> j \<notin> set used \<and> \<bar>d - secs\<bar> \<le> tol" for j d
    by (auto simp: in_reach_def in_set_enumerate_eq)
  have ok: "closest_ok tol secs ?c (Some i, bd, 1)" using closest_spec [of tol secs used "enumerate 0 xs"] assms by simp
  then have i: "(i, xs ! i) \<in> set ?c" "\<bar>xs ! i - secs\<bar> = bd" using mem by (auto simp: closest_ok_def)
  have one: "length (filter (\<lambda>(j, d). \<bar>d - secs\<bar> = bd) ?c) = 1" using ok by (simp add: closest_ok_def)
  have "bd < \<bar>xs ! j - secs\<bar>" if j: "j < length xs" "j \<noteq> i" "j \<notin> set used" for j
  proof (rule ccontr)
    assume near: "\<not> bd < \<bar>xs ! j - secs\<bar>"
    then have c: "(j, xs ! j) \<in> set ?c" using j i mem [of j] mem [of i] by auto
    with ok near have "\<bar>xs ! j - secs\<bar> = bd" by (auto simp: closest_ok_def)
    with c i have "{(i, xs ! i), (j, xs ! j)} \<subseteq> set (filter (\<lambda>(j, d). \<bar>d - secs\<bar> = bd) ?c)" by auto
    then have "card {(i, xs ! i), (j, xs ! j)} \<le> length (filter (\<lambda>(j, d). \<bar>d - secs\<bar> = bd) ?c)"
      by (meson List.finite_set card_length card_mono le_trans)
    then show False using j(2) one by simp
  qed
  then show ?thesis using i mem [of i "xs ! i"] by auto
qed

definition given :: "int list \<Rightarrow> int \<Rightarrow> menu_entry list \<Rightarrow> (nat \<times> menu_entry) list \<Rightarrow> bool" where
  "given xs tol es out \<longleftrightarrow>
     distinct (map fst out) \<and>
     (\<forall>before i e after. out = before @ (i, e) # after \<longrightarrow>
        i < length xs \<and> e \<in> set es \<and> me_Name e \<noteq> [] \<and> \<bar>xs ! i - me_Seconds e\<bar> \<le> tol \<and>
        (\<forall>j < length xs. j \<noteq> i \<and> j \<notin> fst ` set before \<longrightarrow> \<bar>xs ! i - me_Seconds e\<bar> < \<bar>xs ! j - me_Seconds e\<bar>))"

lemma assign_entry_given:
  assumes "given xs tol es out" "e \<in> set es"
  shows "given xs tol es (assign_entry xs tol e out)"
proof (cases "\<exists>i bd. me_Name e \<noteq> [] \<and> closest (map fst out) tol (me_Seconds e) (enumerate 0 xs) = (Some i, bd, 1)")
  case True
  then obtain i bd where c: "closest (map fst out) tol (me_Seconds e) (enumerate 0 xs) = (Some i, bd, 1)" and n: "me_Name e \<noteq> []" by blast
  note one = only_one_as_close [OF c]
  have out: "assign_entry xs tol e out = out @ [(i, e)]" using c n by (simp add: assign_entry_def)
  show ?thesis unfolding given_def out
  proof (intro conjI allI impI)
    show "distinct (map fst (out @ [(i, e)]))" using assms(1) one by (auto simp: given_def)
    fix before k f after assume split: "out @ [(i, e)] = before @ (k, f) # after"
    show "k < length xs" "f \<in> set es" "me_Name f \<noteq> []" "\<bar>xs ! k - me_Seconds f\<bar> \<le> tol"
      using split assms one n by (cases after rule: rev_cases; auto simp: given_def)+
    fix j assume "j < length xs" "j \<noteq> k \<and> j \<notin> fst ` set before"
    then show "\<bar>xs ! k - me_Seconds f\<bar> < \<bar>xs ! j - me_Seconds f\<bar>"
      using split assms one by (cases after rule: rev_cases; auto simp: given_def)
  qed
next
  case False
  then have "assign_entry xs tol e out = out" by (auto simp: assign_entry_def split: prod.splits option.splits)
  then show ?thesis using assms by simp
qed

text \<open>C34. A name read off the menu goes to a title within the tolerance of the time printed beside it, and only when every
  other title that has no name yet is further away; no title gets two names. The names are given in the order of the
  menu, so a title that already has its name is out of the reckoning.\<close>

theorem AssignByDuration_is_unambiguous:
  "distinct (map fst (AssignByDuration es xs tol)) \<and>
   (\<forall>before i e after. AssignByDuration es xs tol = before @ (i, e) # after \<longrightarrow>
      i < length xs \<and> e \<in> set es \<and> me_Name e \<noteq> [] \<and> \<bar>xs ! i - me_Seconds e\<bar> \<le> tol \<and>
      (\<forall>j < length xs. j \<noteq> i \<and> j \<notin> fst ` set before \<longrightarrow> \<bar>xs ! i - me_Seconds e\<bar> < \<bar>xs ! j - me_Seconds e\<bar>))"
proof -
  have "given xs tol es (fold (assign_entry xs tol) fs out)" if "given xs tol es out" "set fs \<subseteq> set es" for fs out
    using that by (induction fs arbitrary: out) (auto intro: assign_entry_given)
  from this [of "[]" es] have "given xs tol es (AssignByDuration es xs tol)" by (simp add: AssignByDuration_def given_def)
  then show ?thesis by (simp add: given_def)
qed

definition sample_menu :: "menu_entry list" where
  "sample_menu = [\<lparr>me_Name = ''Bloopers'', me_Seconds = 61, me_Raw = []\<rparr>, \<lparr>me_Name = ''Trailer'', me_Seconds = 120, me_Raw = []\<rparr>]"

lemma sample_menu_given: "AssignByDuration sample_menu [60, 119, 121] 5 = [] @ (0, sample_menu ! 0) # []"
  by (simp add: AssignByDuration_def sample_menu_def assign_entry_def closest_def closer_def enumerate_eq_zip Let_def)

theorem AssignByDuration_is_unambiguous_witness:
  "AssignByDuration sample_menu [60, 119, 121] 5 = [(0, sample_menu ! 0)] \<and> \<bar>[60, 119, 121] ! 0 - me_Seconds (sample_menu ! 0)\<bar> \<le> 5"
  using AssignByDuration_is_unambiguous [of sample_menu "[60, 119, 121]" 5, THEN conjunct2, rule_format, OF sample_menu_given]
    sample_menu_given by simp

end
