(* ===== verification/Bluray.thy ===== *)
theory Bluray
  imports Makemkv
begin

text \<open>
  \<^verbatim>\<open>internal/bluray\<close>: what a Blu-ray holds, read from the output of libbluray's \<^verbatim>\<open>bd_info\<close> and \<^verbatim>\<open>bd_list_titles\<close>.

  The regular expressions are token lists with a greedy matcher: every token but the name of the playlist is
  followed by a character it cannot take itself, so giving characters back never makes a match. What the two tools
  print, and whether they could be run, are arguments. The lemmas show that a disc's titles are its playlists with
  sound that are long enough, one for each layout, the first of each, numbered in the order of the playlist files
  whatever order the tool lists them in.
\<close>

section \<open>Protection\<close>

record bd_protection =
  bp_AACS :: bool
  bp_BDPlus :: bool
  bp_AACSHandled :: bool
  bp_BDPlusHandled :: bool
  bp_BDJ :: bool
  bp_DiscID :: string
  bp_MKBVersion :: int

definition NeedsMakeMKV :: "bd_protection \<Rightarrow> bool" where
  "NeedsMakeMKV p \<longleftrightarrow> bp_BDPlus p \<and> \<not> bp_BDPlusHandled p"

definition EM_DASH :: string where
  "EM_DASH = [CHR 0xE2, CHR 0x80, CHR 0x94]"

definition protection_Describe :: "bd_protection \<Rightarrow> string" where
  "protection_Describe p =
     (if bp_BDPlus p \<and> \<not> bp_BDPlusHandled p then ''BD+ (not handled '' @ EM_DASH @ '' needs MakeMKV)''
      else if bp_BDPlus p then ''AACS + BD+''
      else if bp_AACS p \<and> bp_AACSHandled p then ''AACS''
      else if bp_AACS p then ''AACS (not handled)''
      else ''none'')"

section \<open>Playlists\<close>

record playlist =
  pl_Index :: int
  pl_File :: string
  pl_DurationSecs :: int
  pl_Chapters :: int
  pl_Angles :: int
  pl_Clips :: int
  pl_Video :: int
  pl_Audio :: int
  pl_Subtitles :: int
  pl_Overlays :: int

record info =
  in_VolumeLabel :: string
  in_DiscName :: string
  in_Thumbnails :: "string list"
  in_Protection :: bd_protection
  in_MainTitle :: int
  in_Playlists :: "playlist list"

definition minRealSecs :: int where
  "minRealSecs = 60"

definition layout_key :: "playlist \<Rightarrow> string" where
  "layout_key p =
     int_str (pl_DurationSecs p) @ ''|'' @ int_str (pl_Chapters p) @ ''|'' @ int_str (pl_Video p) @ ''|''
     @ int_str (pl_Audio p) @ ''|'' @ int_str (pl_Subtitles p)"

fun dedupe_seen :: "string list \<Rightarrow> playlist list \<Rightarrow> playlist list" where
  "dedupe_seen seen [] = []"
| "dedupe_seen seen (p # ps) =
     (if layout_key p \<in> set seen then dedupe_seen seen ps else p # dedupe_seen (layout_key p # seen) ps)"

definition dedupe :: "playlist list \<Rightarrow> playlist list" where
  "dedupe ps = dedupe_seen [] ps"

definition at_least :: "int \<Rightarrow> int" where
  "at_least minSecs = (if minSecs \<le> 0 then minRealSecs else minSecs)"

definition is_content :: "int \<Rightarrow> playlist \<Rightarrow> bool" where
  "is_content minSecs p \<longleftrightarrow> \<not> (pl_DurationSecs p < minSecs \<or> pl_Audio p < 1)"

text \<open>\<^verbatim>\<open>sort.Slice\<close> leaves the order of equal files open; a disc has one playlist of each name.\<close>

definition Content :: "info \<Rightarrow> int \<Rightarrow> playlist list" where
  "Content i minSecs = dedupe (sort_key pl_File (filter (is_content (at_least minSecs)) (in_Playlists i)))"

definition streams_of_kind :: "string \<Rightarrow> nat \<Rightarrow> int \<Rightarrow> stream list" where
  "streams_of_kind kind n k = map (\<lambda>c. empty_stream\<lparr>st_Index := int (n + c), st_Kind := kind\<rparr>) [0..<nat k]"

definition placeholderStreams :: "playlist \<Rightarrow> stream list" where
  "placeholderStreams p =
     (let v = streams_of_kind ''video'' 0 (pl_Video p);
          a = streams_of_kind ''audio'' (length v) (pl_Audio p);
          s = streams_of_kind ''subtitle'' (length v + length a) (pl_Subtitles p)
      in v @ a @ s)"

definition playlist_title :: "nat \<Rightarrow> playlist \<Rightarrow> title" where
  "playlist_title n p =
     empty_title\<lparr>ti_Index := int n, ti_DurationSecs := pl_DurationSecs p, ti_Chapters := pl_Chapters p,
       ti_SourceFile := pl_File p, ti_OutputFile := TitleFileName (int n), ti_Streams := placeholderStreams p\<rparr>"

definition bluray_Titles :: "info \<Rightarrow> int \<Rightarrow> title list" where
  "bluray_Titles i minSecs = (let content = Content i minSecs in map2 playlist_title [0..<length content] content)"

definition bluray_Disc :: "(string \<Rightarrow> string) \<Rightarrow> info \<Rightarrow> int \<Rightarrow> disc" where
  "bluray_Disc sha i minSecs =
     (let d = empty_disc\<lparr>di_VolumeLabel := in_VolumeLabel i, di_Type := TypeBluRay, di_Titles := bluray_Titles i minSecs\<rparr>
      in d\<lparr>di_Fingerprint := ComputeFingerprint sha (di_VolumeLabel d) (di_Titles d)\<rparr>)"

section \<open>Parsing\<close>

text \<open>\<^verbatim>\<open>bufio.Scanner\<close> over a text with a buffer of one megabyte: lines without their end of line, up to the first
  that does not fit, where the scanner stops.\<close>

definition drop_cr :: "string \<Rightarrow> string" where
  "drop_cr l = (if l \<noteq> [] \<and> last l = CHR 0x0D then butlast l else l)"

definition scanner_lines :: "string \<Rightarrow> string list" where
  "scanner_lines s =
     (let ls = split_on NL s; ls = (if last ls = [] then butlast ls else ls)
      in map drop_cr (takeWhile (\<lambda>l. int (length l) < 1048576) ls))"

text \<open>\<^verbatim>\<open>atoi\<close> ignores the error of \<^verbatim>\<open>strconv.Atoi\<close>, which still returns the end of the range a number is beyond.\<close>

definition atoi :: "string \<Rightarrow> int" where
  "atoi s =
     (let t = TrimSpace s
      in case Atoi t of
           Some v \<Rightarrow> v
         | None \<Rightarrow>
             if list_all is_digit (if prefix ''+'' t then tl t else t) \<and> t \<notin> {[], ''+''} then 2 ^ 63 - 1
             else if prefix ''-'' t \<and> list_all is_digit (tl t) \<and> t \<noteq> ''-'' then - (2 ^ 63)
             else 0)"

datatype token = Lit string | Spaces0 | Spaces1 | Digits | Digits2 | NameTo char

text \<open>The groups a match captures. \<^const>\<open>NameTo\<close> is white space and a lazy name up to the closing character: when
  there is nothing but white space, its last character is the name.\<close>

fun match_at :: "token list \<Rightarrow> string \<Rightarrow> string list option" where
  "match_at [] s = Some []"
| "match_at (Lit l # r) s = (if prefix l s then match_at r (drop (length l) s) else None)"
| "match_at (Spaces0 # r) s = match_at r (dropWhile re_space s)"
| "match_at (Spaces1 # r) s = (if s \<noteq> [] \<and> re_space (hd s) then match_at r (dropWhile re_space s) else None)"
| "match_at (Digits # r) s =
     (let d = takeWhile is_digit s in if d = [] then None else map_option ((#) d) (match_at r (dropWhile is_digit s)))"
| "match_at (Digits2 # r) s =
     (let d = take 2 s in if length d = 2 \<and> list_all is_digit d then map_option ((#) d) (match_at r (drop 2 s)) else None)"
| "match_at (NameTo c # r) s =
     (let w = takeWhile (\<lambda>x. x \<noteq> c) s; u = dropWhile re_space w
      in if w = [] then None
         else map_option ((#) (if u = [] then [last w] else u)) (match_at r (dropWhile (\<lambda>x. x \<noteq> c) s)))"

fun FindStringSubmatch :: "token list \<Rightarrow> string \<Rightarrow> string list option" where
  "FindStringSubmatch re [] = match_at re []"
| "FindStringSubmatch re (c # s) =
     (case match_at re (c # s) of Some m \<Rightarrow> Some m | None \<Rightarrow> FindStringSubmatch re s)"

definition titleLine :: "token list" where
  "titleLine =
     [Lit ''index:'', Spaces0, Digits, Spaces1, Lit ''duration:'', Spaces0, Digits, Lit '':'', Digits2, Lit '':'', Digits2,
      Spaces1, Lit ''chapters:'', Spaces0, Digits, Spaces1, Lit ''angles:'', Spaces0, Digits, Spaces1, Lit ''clips:'',
      Spaces0, Digits, Spaces1, Lit ''(playlist:'', NameTo (CHR '')''), Lit '')'', Spaces0, Lit ''V:'', Digits, Spaces1,
      Lit ''A:'', Digits, Spaces1, Lit ''PG:'', Digits, Spaces1, Lit ''IG:'', Digits]"

definition mainTitleLine :: "token list" where
  "mainTitleLine = [Lit ''Main title:'', Spaces0, Digits]"

definition playlist_of :: "string list \<Rightarrow> playlist" where
  "playlist_of m =
     \<lparr>pl_Index = atoi (m ! 0), pl_File = TrimSpace (m ! 7),
      pl_DurationSecs = wrap64 (atoi (m ! 1) * 3600 + atoi (m ! 2) * 60 + atoi (m ! 3)),
      pl_Chapters = atoi (m ! 4), pl_Angles = atoi (m ! 5), pl_Clips = atoi (m ! 6),
      pl_Video = atoi (m ! 8), pl_Audio = atoi (m ! 9), pl_Subtitles = atoi (m ! 10), pl_Overlays = atoi (m ! 11)\<rparr>"

definition title_line :: "string \<Rightarrow> int \<times> playlist list \<Rightarrow> int \<times> playlist list" where
  "title_line l st =
     (case match_at mainTitleLine (TrimSpace l) of
        Some m \<Rightarrow> (atoi (m ! 0), snd st)
      | None \<Rightarrow>
          (case FindStringSubmatch titleLine l of
             None \<Rightarrow> st
           | Some m \<Rightarrow> (fst st, snd st @ [playlist_of m])))"

definition ParseTitles :: "string \<Rightarrow> int \<times> playlist list" where
  "ParseTitles out = fold title_line (scanner_lines out) (- 1, [])"

definition splitField :: "string \<Rightarrow> (string \<times> string) option" where
  "splitField l =
     (let k = takeWhile (\<lambda>c. c \<noteq> CHR '':'') l; key = ToLower (TrimSpace k)
      in if k = l \<or> key = [] then None else Some (key, TrimSpace (drop (length k + 1) l)))"

definition isYes :: "string \<Rightarrow> bool" where
  "isYes s \<longleftrightarrow> ToLower (TrimSpace s) = ''yes''"

definition set_field :: "string \<Rightarrow> string \<Rightarrow> info \<Rightarrow> info" where
  "set_field key value i =
     (let prot = (\<lambda>f. i\<lparr>in_Protection := f (in_Protection i)\<rparr>)
      in if key = ''volume identifier'' then i\<lparr>in_VolumeLabel := value\<rparr>
         else if key = ''disc name'' then i\<lparr>in_DiscName := value\<rparr>
         else if key = ''aacs detected'' then prot (bp_AACS_update (\<lambda>_. isYes value))
         else if key = ''aacs handled'' then prot (bp_AACSHandled_update (\<lambda>_. isYes value))
         else if key = ''bd+ detected'' then prot (bp_BDPlus_update (\<lambda>_. isYes value))
         else if key = ''bd+ handled'' then prot (bp_BDPlusHandled_update (\<lambda>_. isYes value))
         else if key = ''bd-j detected'' then prot (bp_BDJ_update (\<lambda>_. isYes value))
         else if key = ''disc id'' then prot (bp_DiscID_update (\<lambda>_. value))
         else if key = ''aacs mkb version'' then prot (bp_MKBVersion_update (\<lambda>_. atoi value))
         else i)"

definition TAB :: char where
  "TAB = CHR 0x09"

text \<open>One line of \<^verbatim>\<open>bd_info\<close>: \<^verbatim>\<open>inThumbs\<close> and the information so far.\<close>

definition info_line :: "string \<Rightarrow> bool \<times> info \<Rightarrow> bool \<times> info" where
  "info_line raw st =
     (let l = TrimSpace raw; (inThumbs, i) = st
      in if inThumbs \<and> prefix [TAB] raw then
           (if l \<noteq> [] \<and> CHR '':'' \<notin> set l then (True, i\<lparr>in_Thumbnails := in_Thumbnails i @ [l]\<rparr>) else (True, i))
         else case splitField l of
                None \<Rightarrow> (False, i)
              | Some (key, value) \<Rightarrow> (key = ''thumbnail count'', set_field key value i))"

definition empty_protection :: bd_protection where
  "empty_protection = \<lparr>bp_AACS = False, bp_BDPlus = False, bp_AACSHandled = False, bp_BDPlusHandled = False,
     bp_BDJ = False, bp_DiscID = [], bp_MKBVersion = 0\<rparr>"

definition empty_info :: info where
  "empty_info = \<lparr>in_VolumeLabel = [], in_DiscName = [], in_Thumbnails = [], in_Protection = empty_protection,
     in_MainTitle = 0, in_Playlists = []\<rparr>"

definition ParseInfo :: "string \<Rightarrow> info" where
  "ParseInfo out = snd (fold info_line (scanner_lines out) (False, empty_info))"

text \<open>\<^verbatim>\<open>Enumerate\<close>, given what the two tools printed or why they did not: the information, and the error that came
  with it. \<^verbatim>\<open>main\<close> is 0 and there are no playlists when the second tool failed.\<close>

definition bluray_Enumerate :: "string + string \<Rightarrow> string + string \<Rightarrow> info option \<times> string option" where
  "bluray_Enumerate infoOut titlesOut =
     (case infoOut of
        Inl e \<Rightarrow> (None, Some (''bd_info: '' @ e))
      | Inr s \<Rightarrow>
          (let i = ParseInfo s
           in case titlesOut of
                Inl e \<Rightarrow> (Some i, Some (''bd_list_titles: '' @ e))
              | Inr t \<Rightarrow> (let (m, ps) = ParseTitles t in (Some (i\<lparr>in_MainTitle := m, in_Playlists := ps\<rparr>), None))))"

definition bluray_Available :: "(string \<times> string option) list \<Rightarrow> string option" where
  "bluray_Available looks =
     map_option (\<lambda>(bin, e). bin @ '' not on PATH (install libbluray-bin): '' @ the e) (List.find (\<lambda>(bin, e). e \<noteq> None) looks)"

section \<open>The content of a disc\<close>

text \<open>Two playlists have the same key exactly when running time, chapters and counts of streams agree.\<close>

definition layout :: "playlist \<Rightarrow> int \<times> int \<times> int \<times> int \<times> int" where
  "layout p = (pl_DurationSecs p, pl_Chapters p, pl_Video p, pl_Audio p, pl_Subtitles p)"

lemma int_str_bar: "CHR ''|'' \<notin> set (int_str i)"
  by (rule int_str_sep) (simp_all add: is_digit_def)

lemma layout_key_iff: "layout_key p = layout_key q \<longleftrightarrow> layout p = layout q"
proof
  assume "layout_key p = layout_key q"
  then have "split_on (CHR ''|'') (layout_key p) = split_on (CHR ''|'') (layout_key q)" by simp
  then show "layout p = layout q"
    by (simp add: layout_key_def layout_def split_on_append [OF int_str_bar] split_on_sep_free [OF int_str_bar])
qed (simp add: layout_def layout_key_def)

lemma dedupe_seen_subset: "set (dedupe_seen seen ps) \<subseteq> set ps"
  by (induction seen ps rule: dedupe_seen.induct) auto

lemma dedupe_seen_sorted: "sorted (map f ps) \<Longrightarrow> sorted (map f (dedupe_seen seen ps))"
  by (induction seen ps rule: dedupe_seen.induct) (auto dest!: subsetD [OF dedupe_seen_subset])

lemma dedupe_seen_keys: "layout_key ` set (dedupe_seen seen ps) = layout_key ` set ps - set seen"
  by (induction seen ps rule: dedupe_seen.induct) auto

lemma dedupe_seen_distinct: "distinct (map layout_key (dedupe_seen seen ps))"
  by (induction seen ps rule: dedupe_seen.induct) (auto simp: dedupe_seen_keys)

text \<open>What is kept is the first of its layout.\<close>

lemma dedupe_seen_first:
  "\<lbrakk>sorted (map f ps); p \<in> set (dedupe_seen seen ps); q \<in> set ps; layout_key q = layout_key p\<rbrakk> \<Longrightarrow> f p \<le> f q"
  for f :: "playlist \<Rightarrow> 'a :: linorder"
proof (induction seen ps rule: dedupe_seen.induct)
  case (2 seen r ps)
  have new: "layout_key p \<notin> set seen" using 2(4) dedupe_seen_keys [of seen "r # ps"] by blast
  show ?case
  proof (cases "p = r \<or> layout_key r \<in> set seen")
    case True
    show ?thesis
    proof (cases "p = r")
      case True
      then show ?thesis using 2(3, 5) by auto
    next
      case False
      then have r: "layout_key r \<in> set seen" using True by blast
      then have "q \<noteq> r" using 2(6) new by auto
      then show ?thesis using 2(1) [OF r] 2(3-6) r by auto
    qed
  next
    case False
    then have p: "p \<in> set (dedupe_seen (layout_key r # seen) ps)" using 2(4) by auto
    then have "layout_key p \<noteq> layout_key r" using dedupe_seen_keys [of "layout_key r # seen" ps] by auto
    then have "q \<noteq> r" using 2(6) by auto
    then show ?thesis using 2(2) [OF _ _ p] 2(3, 5, 6) False by auto
  qed
qed simp

definition content_list :: "info \<Rightarrow> int \<Rightarrow> playlist list" where
  "content_list i m = sort_key pl_File (filter (is_content (at_least m)) (in_Playlists i))"

lemma set_content_list: "set (content_list i m) = {p \<in> set (in_Playlists i). is_content (at_least m) p}"
  by (simp add: content_list_def)

lemma Content_dedupes: "Content i m = dedupe_seen [] (content_list i m)"
  by (simp add: Content_def dedupe_def content_list_def)

lemma Content_sorted: "sorted (map pl_File (Content i m))"
  unfolding Content_dedupes by (rule dedupe_seen_sorted) (simp add: content_list_def)

lemma Content_distinct: "distinct (map layout (Content i m))"
proof -
  have "distinct (map layout_key (Content i m))" by (simp add: Content_dedupes dedupe_seen_distinct)
  then show ?thesis by (simp add: distinct_map inj_on_def layout_key_iff)
qed

lemma Content_covers: "p \<in> set (content_list i m) \<Longrightarrow> \<exists>q \<in> set (Content i m). layout q = layout p"
  using dedupe_seen_keys [of "[]" "content_list i m"] by (auto simp: Content_dedupes layout_key_iff [symmetric] image_iff) (metis image_iff)

lemma Content_first:
  "\<lbrakk>p \<in> set (Content i m); q \<in> set (content_list i m); layout q = layout p\<rbrakk> \<Longrightarrow> pl_File p \<le> pl_File q"
  using dedupe_seen_first [of pl_File "content_list i m" p "[]" q] by (simp add: Content_dedupes content_list_def layout_key_iff)

lemma Content_is_content: "p \<in> set (Content i m) \<Longrightarrow> p \<in> set (content_list i m)"
  using dedupe_seen_subset by (metis Content_dedupes subsetD)

lemma length_bluray_Titles [simp]: "length (bluray_Titles i m) = length (Content i m)"
  by (simp add: bluray_Titles_def Let_def)

lemma bluray_Titles_nth: "n < length (Content i m) \<Longrightarrow> bluray_Titles i m ! n = playlist_title n (Content i m ! n)"
  by (simp add: bluray_Titles_def Let_def)


text \<open>The order in which the playlists are listed does not matter to what a disc is: its titles, their numbers and its
  fingerprint.\<close>

theorem bluray_Disc_ignores_listing_order:
  assumes "mset (in_Playlists i) = mset (in_Playlists j)" "in_VolumeLabel i = in_VolumeLabel j"
    and "distinct (map pl_File (in_Playlists i))"
  shows "bluray_Disc sha i m = bluray_Disc sha j m"
proof -
  let ?f = "filter (is_content (at_least m))"
  have "mset (?f (in_Playlists i)) = mset (?f (in_Playlists j))" using assms(1) by simp
  then have "mset (sort_key pl_File (?f (in_Playlists j))) = mset (?f (in_Playlists i))" by simp
  moreover have "inj_on pl_File (set (?f (in_Playlists i)))" using assms(3) by (auto simp: distinct_map intro: inj_on_subset)
  ultimately have "sort_key pl_File (?f (in_Playlists i)) = sort_key pl_File (?f (in_Playlists j))"
    by (intro sort_key_inj_key_eq) simp_all
  then have "Content i m = Content j m" by (simp add: Content_def)
  then show ?thesis using assms(2) by (simp add: bluray_Disc_def bluray_Titles_def)
qed

text \<open>A film, a copy of it under a later number, and a stub without sound, as \<^verbatim>\<open>bd_list_titles\<close> prints them.\<close>

definition bluray_sample :: string where
  "bluray_sample =
     ''Main title: 1'' @ [NL]
     @ ''index:   2 duration: 00:01:09 chapters: 3 angles: 1 clips: 1 (playlist: 00008.mpls) V:1 A:2 PG:1 IG:0'' @ [NL]
     @ ''index: 1 duration: 00:01:09 chapters: 3 angles: 1 clips: 1 (playlist: 00001.mpls)V:1 A:2 PG:1 IG:0'' @ [NL]
     @ ''index: 3 duration: 00:02:00 chapters: 1 angles: 1 clips: 1 (playlist: 00002.mpls) V:1 A:0 PG:0 IG:0'' @ [NL]"

theorem bluray_sample_run:
  "(let (main, ps) = ParseTitles bluray_sample in (main, map pl_Index ps, map pl_File ps, map pl_DurationSecs ps)) =
     (1, [2, 1, 3], [''00008.mpls'', ''00001.mpls'', ''00002.mpls''], [69, 69, 120])"
  by code_simp

definition bluray_sample_info :: info where
  "bluray_sample_info = (case bluray_Enumerate (Inr ''Disc name: X'') (Inr bluray_sample) of (Some i, e) \<Rightarrow> i | _ \<Rightarrow> empty_info)"

lemma bluray_sample_content:
  "map pl_File (Content bluray_sample_info 0) = [''00001.mpls'']"
  by code_simp

lemma bluray_sample_film:
  "in_Playlists bluray_sample_info \<noteq> [] \<and> is_content (at_least 0) (hd (in_Playlists bluray_sample_info)) \<and>
   pl_DurationSecs (hd (in_Playlists bluray_sample_info)) = 69"
  by code_simp


theorem bluray_Disc_ignores_listing_order_witness:
  "bluray_Disc (\<lambda>s. s) bluray_sample_info 0
     = bluray_Disc (\<lambda>s. s) (bluray_sample_info\<lparr>in_Playlists := rev (in_Playlists bluray_sample_info)\<rparr>) 0"
  by (rule bluray_Disc_ignores_listing_order) (simp, simp, code_simp)

end
