(* ===== verification/Source_Plan.thy ===== *)
theory Source_Plan
  imports Bluray
begin

text \<open>
  \<^verbatim>\<open>internal/source\<close>: how a disc will be read, decided from what could be read without decrypting it, and the count of how a
  collection was read. The lemmas show when a Blu-ray is blocked, that a fallback is never taken twice, and what a
  collection's exposure to the licence is.
\<close>

datatype source_path = PathNativeDVD | PathDecryptCopy | PathNativeBluRay | PathMakeMKV | PathUnknown

definition NeedsLicence :: "source_path \<Rightarrow> bool" where
  "NeedsLicence p \<longleftrightarrow> p = PathMakeMKV"

record source_plan =
  sp_Disc :: disc
  sp_Path :: source_path
  sp_Blocked :: bool
  sp_Reason :: string
  sp_DiscName :: string
  sp_Artwork :: "string list"

definition Summary :: "source_plan \<Rightarrow> string" where
  "Summary p =
     (let name = (if sp_DiscName p \<noteq> [] then sp_DiscName p
                  else if di_VolumeLabel (sp_Disc p) \<noteq> [] then di_VolumeLabel (sp_Disc p) else ''unlabelled disc'');
          n = length (di_Titles (sp_Disc p))
      in name @ '' '' @ EM_DASH @ '' '' @ nat_str n @ (if n = 1 then '' title'' else '' titles'')
         @ (if sp_Reason p \<noteq> [] then '', '' @ sp_Reason p else []))"

definition PlanBluRay :: "(string \<Rightarrow> string) \<Rightarrow> info \<Rightarrow> int \<Rightarrow> bool \<Rightarrow> source_plan" where
  "PlanBluRay sha i minSecs makeMKVAvailable =
     (let p = \<lparr>sp_Disc = bluray_Disc sha i minSecs, sp_Path = PathUnknown, sp_Blocked = False, sp_Reason = [],
               sp_DiscName = in_DiscName i, sp_Artwork = in_Thumbnails i\<rparr>;
          prot = in_Protection i
      in if NeedsMakeMKV prot then
           (if makeMKVAvailable then p\<lparr>sp_Path := PathMakeMKV, sp_Reason := ''BD+, which needs MakeMKV''\<rparr>
            else p\<lparr>sp_Path := PathMakeMKV, sp_Blocked := True,
                   sp_Reason := ''BD+, which needs MakeMKV, and MakeMKV is not available''\<rparr>)
         else if bp_AACS prot \<and> \<not> bp_AACSHandled prot then
           p\<lparr>sp_Path := PathMakeMKV, sp_Blocked := \<not> makeMKVAvailable,
             sp_Reason := ''AACS not in the key database; try a newer KEYDB.cfg''\<rparr>
         else p\<lparr>sp_Path := PathNativeBluRay, sp_Reason := (if bp_AACS prot then ''AACS'' else [])\<rparr>)"

definition PlanDVD :: "disc \<Rightarrow> bool \<Rightarrow> source_plan" where
  "PlanDVD d driveCanDecrypt =
     \<lparr>sp_Disc = d, sp_Path = PathNativeDVD, sp_Blocked = False,
      sp_Reason = (if driveCanDecrypt then [] else ''CSS, decrypted by libdvdcss rather than by the drive''),
      sp_DiscName = [], sp_Artwork = []\<rparr>"

fun Fallback :: "source_path \<Rightarrow> source_path \<times> bool" where
  "Fallback PathNativeDVD = (PathDecryptCopy, True)"
| "Fallback PathNativeBluRay = (PathMakeMKV, True)"
| "Fallback p = (PathUnknown, False)"

type_synonym mix = "source_path \<Rightarrow> nat option"

definition mix_Add :: "source_path \<Rightarrow> mix \<Rightarrow> mix" where
  "mix_Add p m = (if p = PathUnknown then m else m(p \<mapsto> (case m p of None \<Rightarrow> 0 | Some n \<Rightarrow> n) + 1))"

definition LicenceExposure :: "mix \<Rightarrow> nat" where
  "LicenceExposure m = sum_list (map (\<lambda>p. if NeedsLicence p then (case m p of None \<Rightarrow> 0 | Some n \<Rightarrow> n) else 0)
     [PathNativeDVD, PathDecryptCopy, PathNativeBluRay, PathMakeMKV, PathUnknown])"

text \<open>A Blu-ray is described in full whatever protects it; it is blocked exactly when it needs MakeMKV, for BD+ or for a
  key that is not known, and MakeMKV is not there; a disc that needs no MakeMKV is never blocked; and a path that failed
  has at most one other to try, which has none after it.\<close>

theorem PlanBluRay_blocks_only_without_MakeMKV:
  "sp_Disc (PlanBluRay sha i m av) = bluray_Disc sha i m \<and>
   (sp_Blocked (PlanBluRay sha i m av) \<longleftrightarrow> NeedsLicence (sp_Path (PlanBluRay sha i m av)) \<and> \<not> av) \<and>
   (NeedsLicence (sp_Path (PlanBluRay sha i m av)) \<longleftrightarrow>
      bp_BDPlus (in_Protection i) \<and> \<not> bp_BDPlusHandled (in_Protection i) \<or>
      bp_AACS (in_Protection i) \<and> \<not> bp_AACSHandled (in_Protection i)) \<and>
   \<not> snd (Fallback (fst (Fallback (sp_Path (PlanBluRay sha i m av)))))"
  by (simp add: PlanBluRay_def NeedsMakeMKV_def NeedsLicence_def Let_def)

text \<open>The exposure of a collection is the number of its discs that were read with MakeMKV.\<close>

lemma mix_fold:
  "p \<noteq> PathUnknown \<Longrightarrow> (case fold mix_Add ps m p of None \<Rightarrow> 0 | Some n \<Rightarrow> n) = (case m p of None \<Rightarrow> 0 | Some n \<Rightarrow> n) + count_list ps p"
  by (induction ps arbitrary: m) (auto simp: mix_Add_def split: option.splits)

theorem LicenceExposure_counts: "LicenceExposure (fold mix_Add ps Map.empty) = length (filter NeedsLicence ps)"
proof -
  have "LicenceExposure (fold mix_Add ps Map.empty) = count_list ps PathMakeMKV"
    using mix_fold [of PathMakeMKV ps Map.empty] by (simp add: LicenceExposure_def NeedsLicence_def)
  also have "\<dots> = length (filter NeedsLicence ps)" by (induction ps) (simp_all add: NeedsLicence_def)
  finally show ?thesis .
qed

end
