(* ===== verification/Sql_Table.thy ===== *)
theory Sql_Table
  imports Hellbox_Prelude
begin

text \<open>
  The statements of SQL that hellbox's store is written in, over tables that are lists of rows in
  rowid order: \<^verbatim>\<open>UPDATE ... WHERE\<close>, \<^verbatim>\<open>INSERT\<close> with an \<^verbatim>\<open>INTEGER PRIMARY KEY\<close>,
  \<^verbatim>\<open>INSERT ... ON CONFLICT DO UPDATE\<close> and the lookup by a unique key. SQLite gives a new row the
  largest rowid plus one; nothing in the store deletes a row, so ids only ever grow.

  The locale \<^verbatim>\<open>keyed_table\<close> is the contract of a table with a unique key: what an upsert keeps
  of the table and what a lookup returns after it. Every keyed table of the store interprets it.
\<close>

definition next_id :: "('r \<Rightarrow> int) \<Rightarrow> 'r list \<Rightarrow> int" where
  "next_id ident rs = foldr (\<lambda>r m. max (ident r) m) rs 0 + 1"

definition update_where :: "('r \<Rightarrow> bool) \<Rightarrow> ('r \<Rightarrow> 'r) \<Rightarrow> 'r list \<Rightarrow> 'r list" where
  "update_where p f rs = map (\<lambda>r. if p r then f r else r) rs"

definition upsert_where :: "('r \<Rightarrow> bool) \<Rightarrow> ('r \<Rightarrow> 'r) \<Rightarrow> 'r \<Rightarrow> 'r list \<Rightarrow> 'r list" where
  "upsert_where p f new rs = (if list_ex p rs then update_where p f rs else rs @ [new])"

definition table_ok :: "('r \<Rightarrow> int) \<Rightarrow> ('r \<Rightarrow> 'k) \<Rightarrow> 'r list \<Rightarrow> bool" where
  "table_ok ident key rs \<longleftrightarrow>
     distinct (map ident rs) \<and> distinct (map key rs) \<and> list_all (\<lambda>r. 0 < ident r) rs"

section \<open>Ids\<close>

lemma next_id_greater: "r \<in> set rs \<Longrightarrow> ident r < next_id ident rs"
  unfolding next_id_def by (induction rs) auto

lemma next_id_pos: "0 < next_id ident rs"
proof -
  have "0 \<le> foldr (\<lambda>r m. max (ident r) m) rs 0" by (induction rs) auto
  then show ?thesis by (simp add: next_id_def)
qed

lemma next_id_fresh: "next_id ident rs \<notin> ident ` set rs"
  using next_id_greater [of _ rs ident] by fastforce

section \<open>Updates\<close>

lemma update_where_Nil [simp]: "update_where p f [] = []"
  by (simp add: update_where_def)

lemma length_update_where [simp]: "length (update_where p f rs) = length rs"
  by (simp add: update_where_def)

lemma map_update_where: "(\<And>r. p r \<Longrightarrow> g (f r) = g r) \<Longrightarrow> map g (update_where p f rs) = map g rs"
  by (simp add: update_where_def)

lemma image_update_where:
  "(\<And>r. p r \<Longrightarrow> g (f r) = g r) \<Longrightarrow> g ` set (update_where p f rs) = g ` set rs"
  by (metis map_update_where set_map)

lemma next_id_update_where: "(\<And>r. p r \<Longrightarrow> ident (f r) = ident r) \<Longrightarrow> next_id ident (update_where p f rs) = next_id ident rs"
  unfolding next_id_def by (induction rs) (auto simp: update_where_def)

lemma next_id_snoc: "next_id ident (rs @ [r]) = max (next_id ident rs) (ident r + 1)"
proof (cases "0 \<le> ident r")
  case True
  then show ?thesis unfolding next_id_def by (induction rs) auto
next
  case False
  then have "max (ident r) 0 = 0" by simp
  then have "next_id ident (rs @ [r]) = next_id ident rs" by (simp add: next_id_def)
  with False next_id_pos [of ident rs] show ?thesis by simp
qed

lemma update_where_none: "\<not> list_ex p rs \<Longrightarrow> update_where p f rs = rs"
  by (induction rs) (auto simp: update_where_def)

lemma set_update_where: "r \<in> set (update_where p f rs) \<Longrightarrow> \<exists>r0 \<in> set rs. r = (if p r0 then f r0 else r0)"
  by (auto simp: update_where_def)

lemma find_update_where_same:
  "(\<And>r. p r \<Longrightarrow> q (f r) = q r) \<Longrightarrow> (\<And>r. q r \<Longrightarrow> p r) \<Longrightarrow>
   List.find q (update_where p f rs) = map_option f (List.find q rs)"
  by (induction rs) (auto simp: update_where_def)

lemma find_update_where_other:
  "(\<And>r. p r \<Longrightarrow> \<not> q r) \<Longrightarrow> (\<And>r. p r \<Longrightarrow> \<not> q (f r)) \<Longrightarrow>
   List.find q (update_where p f rs) = List.find q rs"
  by (induction rs) (auto simp: update_where_def)

lemma find_update_where_frame:
  "(\<And>r. q (f r) = q r) \<Longrightarrow>
   List.find q (update_where p f rs) =
     map_option (\<lambda>r. if p r then f r else r) (List.find q rs)"
  by (induction rs) (auto simp: update_where_def)

lemma filter_update_where:
  "(\<And>r. p r \<Longrightarrow> q (f r) = q r) \<Longrightarrow>
   filter q (update_where p f rs) = map (\<lambda>r. if p r then f r else r) (filter q rs)"
  by (induction rs) (auto simp: update_where_def)

lemma find_Some_iff_distinct:
  "distinct (map key rs) \<Longrightarrow> List.find (\<lambda>r. key r = k) rs = Some r \<longleftrightarrow> r \<in> set rs \<and> key r = k"
  by (induction rs) (auto simp: rev_image_eqI)

lemma find_Some_D: "List.find p rs = Some r \<Longrightarrow> r \<in> set rs \<and> p r"
  by (induction rs) (auto split: if_splits)

lemma find_not_None: "r \<in> set rs \<Longrightarrow> p r \<Longrightarrow> List.find p rs \<noteq> None"
  by (induction rs) auto

lemma find_append: "List.find p (xs @ ys) = (case List.find p xs of None \<Rightarrow> List.find p ys | Some r \<Rightarrow> Some r)"
  by (induction xs) auto

lemma find_None_list_ex: "List.find p rs = None \<longleftrightarrow> \<not> list_ex p rs"
  by (induction rs) auto

lemma table_ok_Nil [simp]: "table_ok ident key []"
  by (simp add: table_ok_def)

lemma table_ok_update:
  assumes "table_ok ident key rs" and "\<And>r. p r \<Longrightarrow> ident (f r) = ident r" and "\<And>r. p r \<Longrightarrow> key (f r) = key r"
  shows "table_ok ident key (update_where p f rs)"
proof -
  have i: "map ident (update_where p f rs) = map ident rs"
    and k: "map key (update_where p f rs) = map key rs"
    using assms(2,3) by (simp_all add: map_update_where)
  have "list_all (\<lambda>r. 0 < ident r) (update_where p f rs)"
    using assms(1,2) unfolding table_ok_def by (auto simp: update_where_def list_all_iff)
  with i k assms(1) show ?thesis by (simp add: table_ok_def)
qed

lemma table_ok_insert:
  assumes "table_ok ident key rs" and "ident new = next_id ident rs" and "key new \<notin> key ` set rs"
  shows "table_ok ident key (rs @ [new])"
  using assms next_id_fresh [of ident rs] next_id_pos [of ident rs] by (simp add: table_ok_def)

lemma table_ok_key: "table_ok ident key rs \<Longrightarrow> distinct (map key rs)"
  by (simp add: table_ok_def)

lemma table_ok_ident_find:
  "table_ok ident key rs \<Longrightarrow> r \<in> set rs \<Longrightarrow> List.find (\<lambda>x. ident x = ident r) rs = Some r"
  by (simp add: table_ok_def find_Some_iff_distinct)

lemma count_update_one:
  assumes "distinct (map ident rs)" and "r \<in> set rs"
  shows "length (filter p (update_where (\<lambda>x. ident x = ident r) f rs)) + (if p r then 1 else 0)
    = length (filter p rs) + (if p (f r) then 1 else 0)"
  using assms
proof (induction rs)
  case Nil
  then show ?case by simp
next
  case (Cons x rs)
  show ?case
  proof (cases "x = r")
    case True
    then have "\<not> list_ex (\<lambda>y. ident y = ident r) rs" using Cons.prems(1) by (auto simp: list_ex_iff image_iff)
    then have "update_where (\<lambda>y. ident y = ident r) f rs = rs" by (rule update_where_none)
    then show ?thesis using True by (simp add: update_where_def)
  next
    case False
    then have r: "r \<in> set rs" using Cons.prems(2) by simp
    then have "ident x \<noteq> ident r" using Cons.prems(1) by (auto simp: image_iff)
    then have "update_where (\<lambda>y. ident y = ident r) f (x # rs) = x # update_where (\<lambda>y. ident y = ident r) f rs"
      by (simp add: update_where_def)
    then show ?thesis using Cons.IH Cons.prems(1) r by simp
  qed
qed

section \<open>A table with a unique key\<close>

locale keyed_table =
  fixes ident :: "'r \<Rightarrow> int"
    and key :: "'r \<Rightarrow> 'k"
    and fresh :: "int \<Rightarrow> 'k \<Rightarrow> 'v \<Rightarrow> 'r"
    and refresh :: "'v \<Rightarrow> 'r \<Rightarrow> 'r"
  assumes ident_fresh [simp]: "ident (fresh i k v) = i"
    and key_fresh [simp]: "key (fresh i k v) = k"
    and ident_refresh [simp]: "ident (refresh v r) = ident r"
    and key_refresh [simp]: "key (refresh v r) = key r"
begin

abbreviation put where
  "put k v rs \<equiv> upsert_where (\<lambda>r. key r = k) (refresh v) (fresh (next_id ident rs) k v) rs"

abbreviation lookup where
  "lookup rs k \<equiv> List.find (\<lambda>r. key r = k) rs"

lemma put_ok: "table_ok ident key rs \<Longrightarrow> table_ok ident key (put k v rs)"
  unfolding upsert_where_def
  by (auto simp: list_ex_iff intro!: table_ok_update table_ok_insert)

lemma lookup_put_same:
  "lookup (put k v rs) k =
     Some (case lookup rs k of None \<Rightarrow> fresh (next_id ident rs) k v | Some r \<Rightarrow> refresh v r)"
proof (cases "list_ex (\<lambda>r. key r = k) rs")
  case True
  then have "lookup rs k \<noteq> None" by (simp add: find_None_list_ex)
  then obtain r where r: "lookup rs k = Some r" by blast
  have "lookup (update_where (\<lambda>r. key r = k) (refresh v) rs) k = map_option (refresh v) (lookup rs k)"
    by (rule find_update_where_same) simp_all
  with r show ?thesis using True by (simp add: upsert_where_def)
next
  case False
  then have "lookup rs k = None" by (simp add: find_None_list_ex)
  with False show ?thesis by (simp add: upsert_where_def find_append)
qed

lemma lookup_put_other: "k \<noteq> k' \<Longrightarrow> lookup (put k v rs) k' = lookup rs k'"
proof -
  assume ne: "k \<noteq> k'"
  have "lookup (update_where (\<lambda>r. key r = k) (refresh v) rs) k' = lookup rs k'"
    by (rule find_update_where_other) (use ne in auto)
  then show ?thesis using ne by (simp add: upsert_where_def find_append split: option.splits)
qed

text \<open>An upsert never moves a row to another id, and adds at most one row.\<close>

lemma put_keeps_ident: "lookup rs k = Some r \<Longrightarrow> \<exists>r'. lookup (put k v rs) k = Some r' \<and> ident r' = ident r"
  by (simp add: lookup_put_same)

lemma length_put: "length (put k v rs) = length rs + (if lookup rs k = None then 1 else 0)"
  by (simp add: upsert_where_def find_None_list_ex)

lemma keys_put: "key ` set (put k v rs) = insert k (key ` set rs)"
proof -
  have "map key (update_where (\<lambda>r. key r = k) (refresh v) rs) = map key rs"
    by (rule map_update_where) simp
  then have "key ` set (update_where (\<lambda>r. key r = k) (refresh v) rs) = key ` set rs"
    by (metis set_map)
  then show ?thesis by (auto simp: upsert_where_def list_ex_iff)
qed

text \<open>A sequence of upserts: every key written is found, the others are as they were.\<close>

lemma lookup_fold_put_other:
  "k \<notin> fst ` set kvs \<Longrightarrow> lookup (fold (\<lambda>(k, v) rs. put k v rs) kvs rs) k = lookup rs k"
  by (induction kvs arbitrary: rs) (auto simp: lookup_put_other)

lemma fold_put_ok: "table_ok ident key rs \<Longrightarrow> table_ok ident key (fold (\<lambda>(k, v) rs. put k v rs) kvs rs)"
  by (induction kvs arbitrary: rs) (auto simp: put_ok)

end

end
