(* ===== verification/Store.thy ===== *)
theory Store
  imports Disc Sql_Table
begin

text \<open>
  The SQLite store of \<^verbatim>\<open>internal/store/store.go\<close> and \<^verbatim>\<open>internal/store/transcode.go\<close>: the tables of
  \<^verbatim>\<open>schema.sql\<close> as lists of rows, and one definition per exported operation, with its SQL written
  over \<^verbatim>\<open>Sql_Table\<close>. The clock an operation reads is its argument \<^verbatim>\<open>now\<close>, in seconds. An
  operation that can be refused returns a \<^verbatim>\<open>store_error\<close>; a statement whose context was cancelled
  is refused as a whole (\<^verbatim>\<open>with_ctx\<close>).

  Shown here: every operation keeps the tables well formed, forgetting a disc really gives it back
  its attempts and loses no history, an interruption never counts as an attempt, the transcode queue
  hands out each title at most as often as its budget allows, and the library reconciliation lists
  exactly what was finished and never filed.
\<close>

section \<open>Rows and tables\<close>

datatype store_error = ErrNoRows | ErrForeignKey | ErrCanceled | ErrNoDisc string | ErrVersion int

datatype job_state = JobPending | JobScanning | JobRipping | JobVerifying | JobComplete | JobFailed
  | JobDuplicate | JobCancelled

datatype transcode_state = TranscodePending | TranscodeRunning | TranscodeComplete | TranscodeFailed

record drive_row =
  dr_id :: int
  dr_stable_id :: string
  dr_device_path :: string
  dr_label :: string
  dr_vendor_model :: string
  dr_first_seen :: int
  dr_last_seen :: int

record disc_row =
  d_id :: int
  d_fingerprint :: string
  d_volume_label :: string
  d_disc_type :: disc_type
  d_title_count :: int
  d_total_bytes :: int
  d_first_seen :: int
  d_rip_dir :: "string option"
  d_makemkv_info :: string
  d_forgotten_after_job :: "int option"
  d_read_path :: "string option"
  d_disc_name :: "string option"

record job_row =
  j_id :: int
  j_disc_id :: int
  j_drive_id :: int
  j_state :: job_state
  j_attempt :: int
  j_created_at :: int
  j_started_at :: "int option"
  j_ended_at :: "int option"
  j_error :: "string option"
  j_titles_total :: int
  j_titles_done :: int

record transcode_row =
  tc_id :: int
  tc_disc_id :: int
  tc_title_index :: int
  tc_state :: transcode_state
  tc_profile :: string
  tc_source_path :: string
  tc_output_path :: "string option"
  tc_size_bytes :: int
  tc_attempt :: int
  tc_hardware :: bool
  tc_created_at :: int
  tc_started_at :: "int option"
  tc_ended_at :: "int option"
  tc_error :: "string option"

record title_row =
  x_id :: int
  x_disc_id :: int
  x_title_index :: int
  x_duration_secs :: int
  x_chapters :: int
  x_size_bytes :: int
  x_source_file :: string
  x_output_file :: string
  x_ripped :: bool
  x_verified :: bool

record stream_row =
  s_id :: int
  s_title_id :: int
  s_stream_index :: int
  s_kind :: string
  s_codec :: string
  s_language :: string
  s_channels :: int
  s_resolution :: string
  s_frame_rate :: string
  s_flags :: string

record link_row =
  l_id :: int
  l_disc_id :: int
  l_title_index :: int
  l_path :: string
  l_created_at :: int

record event_row =
  e_id :: int
  e_ts :: int
  e_job_id :: "int option"
  e_drive_id :: "int option"
  e_level :: string
  e_message :: string

record store =
  drives :: "drive_row list"
  discs :: "disc_row list"
  jobs :: "job_row list"
  transcodes :: "transcode_row list"
  titles :: "title_row list"
  streams :: "stream_row list"
  links :: "link_row list"
  events :: "event_row list"
  version :: "int option"

definition empty_store :: store where
  "empty_store = \<lparr>drives = [], discs = [], jobs = [], transcodes = [], titles = [], streams = [],
     links = [], events = [], version = None\<rparr>"

text \<open>A statement run under a cancelled context fails before it reaches the database.\<close>

definition with_ctx :: "bool \<Rightarrow> (store_error + 'a) \<Rightarrow> store_error + 'a" where
  "with_ctx cancelled r = (if cancelled then Inl ErrCanceled else r)"

definition nullIfEmpty :: "string \<Rightarrow> string option" where
  "nullIfEmpty s = (if s = [] then None else Some s)"

definition coalesce :: "'a option \<Rightarrow> 'a \<Rightarrow> 'a" where
  "coalesce x d = (case x of None \<Rightarrow> d | Some v \<Rightarrow> v)"

definition has_disc :: "store \<Rightarrow> int \<Rightarrow> bool" where
  "has_disc db i \<longleftrightarrow> list_ex (\<lambda>d. d_id d = i) (discs db)"

definition has_drive :: "store \<Rightarrow> int \<Rightarrow> bool" where
  "has_drive db i \<longleftrightarrow> list_ex (\<lambda>d. dr_id d = i) (drives db)"

definition has_job :: "store \<Rightarrow> int \<Rightarrow> bool" where
  "has_job db i \<longleftrightarrow> list_ex (\<lambda>j. j_id j = i) (jobs db)"

section \<open>Schema version\<close>

definition schemaVersion :: int where
  "schemaVersion = 1"

definition initVersion :: "store \<Rightarrow> store_error + store" where
  "initVersion db =
     (case version db of
        None \<Rightarrow> Inr (db\<lparr>version := Some schemaVersion\<rparr>)
      | Some v \<Rightarrow> if v > schemaVersion then Inl (ErrVersion v) else Inr db)"

section \<open>Drives\<close>

definition drive_fresh :: "int \<Rightarrow> string \<Rightarrow> string \<times> string \<times> string \<times> int \<Rightarrow> drive_row" where
  "drive_fresh i stableID v =
     (case v of (devicePath, label, vendorModel, now) \<Rightarrow>
        \<lparr>dr_id = i, dr_stable_id = stableID, dr_device_path = devicePath, dr_label = label,
         dr_vendor_model = vendorModel, dr_first_seen = now, dr_last_seen = now\<rparr>)"

definition drive_refresh :: "string \<times> string \<times> string \<times> int \<Rightarrow> drive_row \<Rightarrow> drive_row" where
  "drive_refresh v r =
     (case v of (devicePath, label, vendorModel, now) \<Rightarrow>
        r\<lparr>dr_device_path := devicePath, dr_label := label, dr_vendor_model := vendorModel,
          dr_last_seen := now\<rparr>)"

definition UpsertDrive ::
  "int \<Rightarrow> string \<Rightarrow> string \<Rightarrow> string \<Rightarrow> string \<Rightarrow> store \<Rightarrow> store_error + int \<times> store" where
  "UpsertDrive now stableID devicePath label vendorModel db =
     (let v = (devicePath, label, vendorModel, now);
          rs = upsert_where (\<lambda>r. dr_stable_id r = stableID) (drive_refresh v)
                 (drive_fresh (next_id dr_id (drives db)) stableID v) (drives db)
      in case List.find (\<lambda>r. dr_stable_id r = stableID) rs of
           None \<Rightarrow> Inl ErrNoRows
         | Some r \<Rightarrow> Inr (dr_id r, db\<lparr>drives := rs\<rparr>))"

definition Drives :: "store \<Rightarrow> drive_row list" where
  "Drives db = sort_key dr_stable_id (drives db)"

section \<open>Discs\<close>

text \<open>\<^verbatim>\<open>DiscRecord\<close>, as \<^verbatim>\<open>FindDisc\<close> fills it.\<close>

record disc_record =
  r_ID :: int
  r_Fingerprint :: string
  r_VolumeLabel :: string
  r_Type :: disc_type
  r_TitleCount :: int
  r_TotalBytes :: int
  r_FirstSeen :: int
  r_RipDir :: string

definition Ripped :: "disc_record \<Rightarrow> bool" where
  "Ripped d \<longleftrightarrow> r_RipDir d \<noteq> []"

definition disc_record_of :: "disc_row \<Rightarrow> disc_record" where
  "disc_record_of d =
     \<lparr>r_ID = d_id d, r_Fingerprint = d_fingerprint d, r_VolumeLabel = d_volume_label d,
      r_Type = d_disc_type d, r_TitleCount = d_title_count d, r_TotalBytes = d_total_bytes d,
      r_FirstSeen = d_first_seen d, r_RipDir = coalesce (d_rip_dir d) []\<rparr>"

definition FindDisc :: "string \<Rightarrow> store \<Rightarrow> disc_record option" where
  "FindDisc fingerprint db =
     map_option disc_record_of (List.find (\<lambda>d. d_fingerprint d = fingerprint) (discs db))"

definition disc_fresh :: "int \<Rightarrow> string \<Rightarrow> disc \<times> string \<times> int \<Rightarrow> disc_row" where
  "disc_fresh i fingerprint v =
     (case v of (d, rawInfo, now) \<Rightarrow>
        \<lparr>d_id = i, d_fingerprint = fingerprint, d_volume_label = di_VolumeLabel d,
         d_disc_type = di_Type d, d_title_count = int (length (di_Titles d)),
         d_total_bytes = di_TotalBytes d, d_first_seen = now, d_rip_dir = None,
         d_makemkv_info = rawInfo, d_forgotten_after_job = None, d_read_path = None,
         d_disc_name = None\<rparr>)"

definition disc_refresh :: "disc \<times> string \<times> int \<Rightarrow> disc_row \<Rightarrow> disc_row" where
  "disc_refresh v r =
     (case v of (d, rawInfo, now) \<Rightarrow>
        r\<lparr>d_volume_label := di_VolumeLabel d, d_disc_type := di_Type d,
          d_title_count := int (length (di_Titles d)), d_total_bytes := di_TotalBytes d,
          d_makemkv_info := rawInfo\<rparr>)"

definition title_fresh :: "int \<Rightarrow> int \<times> int \<Rightarrow> title \<Rightarrow> title_row" where
  "title_fresh i k t =
     \<lparr>x_id = i, x_disc_id = fst k, x_title_index = snd k, x_duration_secs = ti_DurationSecs t,
      x_chapters = ti_Chapters t, x_size_bytes = ti_SizeBytes t, x_source_file = ti_SourceFile t,
      x_output_file = ti_OutputFile t, x_ripped = False, x_verified = False\<rparr>"

definition title_refresh :: "title \<Rightarrow> title_row \<Rightarrow> title_row" where
  "title_refresh t r =
     r\<lparr>x_duration_secs := ti_DurationSecs t, x_chapters := ti_Chapters t, x_size_bytes := ti_SizeBytes t,
       x_source_file := ti_SourceFile t, x_output_file := ti_OutputFile t\<rparr>"

definition stream_fresh :: "int \<Rightarrow> int \<times> int \<Rightarrow> stream \<Rightarrow> stream_row" where
  "stream_fresh i k st =
     \<lparr>s_id = i, s_title_id = fst k, s_stream_index = snd k, s_kind = st_Kind st, s_codec = st_Codec st,
      s_language = st_Language st, s_channels = st_Channels st, s_resolution = st_Resolution st,
      s_frame_rate = st_FrameRate st, s_flags = st_Flags st\<rparr>"

definition stream_refresh :: "stream \<Rightarrow> stream_row \<Rightarrow> stream_row" where
  "stream_refresh st r =
     r\<lparr>s_kind := st_Kind st, s_codec := st_Codec st, s_language := st_Language st,
       s_channels := st_Channels st, s_resolution := st_Resolution st, s_frame_rate := st_FrameRate st,
       s_flags := st_Flags st\<rparr>"

abbreviation title_key :: "title_row \<Rightarrow> int \<times> int" where
  "title_key r \<equiv> (x_disc_id r, x_title_index r)"

abbreviation stream_key :: "stream_row \<Rightarrow> int \<times> int" where
  "stream_key r \<equiv> (s_title_id r, s_stream_index r)"

definition save_stream :: "int \<Rightarrow> stream \<Rightarrow> stream_row list \<Rightarrow> stream_row list" where
  "save_stream titleID st rs =
     upsert_where (\<lambda>r. stream_key r = (titleID, st_Index st)) (stream_refresh st)
       (stream_fresh (next_id s_id rs) (titleID, st_Index st) st) rs"

definition save_title :: "int \<Rightarrow> title \<Rightarrow> title_row list \<times> stream_row list \<Rightarrow>
    store_error + title_row list \<times> stream_row list" where
  "save_title discID t tabs =
     (let ts = upsert_where (\<lambda>r. title_key r = (discID, ti_Index t)) (title_refresh t)
                 (title_fresh (next_id x_id (fst tabs)) (discID, ti_Index t) t) (fst tabs)
      in case List.find (\<lambda>r. title_key r = (discID, ti_Index t)) ts of
           None \<Rightarrow> Inl ErrNoRows
         | Some r \<Rightarrow> Inr (ts, fold (save_stream (x_id r)) (ti_Streams t) (snd tabs)))"

fun save_titles :: "int \<Rightarrow> title list \<Rightarrow> title_row list \<times> stream_row list \<Rightarrow>
    store_error + title_row list \<times> stream_row list" where
  "save_titles discID [] tabs = Inr tabs"
| "save_titles discID (t # ts) tabs =
     (case save_title discID t tabs of Inl e \<Rightarrow> Inl e | Inr tabs' \<Rightarrow> save_titles discID ts tabs')"

text \<open>\<^verbatim>\<open>SaveDisc\<close> is one transaction: a failure anywhere leaves the database as it was.\<close>

definition SaveDisc :: "int \<Rightarrow> disc \<Rightarrow> string \<Rightarrow> store \<Rightarrow> store_error + int \<times> store" where
  "SaveDisc now d rawInfo db =
     (let fp = di_Fingerprint d; v = (d, rawInfo, now);
          ds = upsert_where (\<lambda>r. d_fingerprint r = fp) (disc_refresh v)
                 (disc_fresh (next_id d_id (discs db)) fp v) (discs db)
      in case List.find (\<lambda>r. d_fingerprint r = fp) ds of
           None \<Rightarrow> Inl ErrNoRows
         | Some r \<Rightarrow>
             (case save_titles (d_id r) (di_Titles d) (titles db, streams db) of
                Inl e \<Rightarrow> Inl e
              | Inr (ts, ss) \<Rightarrow> Inr (d_id r, db\<lparr>discs := ds, titles := ts, streams := ss\<rparr>)))"

definition update_disc :: "int \<Rightarrow> (disc_row \<Rightarrow> disc_row) \<Rightarrow> store \<Rightarrow> store" where
  "update_disc discID f db = db\<lparr>discs := update_where (\<lambda>d. d_id d = discID) f (discs db)\<rparr>"

definition SetDiscRipDir :: "int \<Rightarrow> string \<Rightarrow> store \<Rightarrow> store" where
  "SetDiscRipDir discID dir = update_disc discID (\<lambda>d. d\<lparr>d_rip_dir := Some dir\<rparr>)"

definition SetReadPath :: "int \<Rightarrow> string \<Rightarrow> string \<Rightarrow> store \<Rightarrow> store" where
  "SetReadPath discID readPath discName =
     update_disc discID (\<lambda>d. d\<lparr>d_read_path := Some readPath,
       d_disc_name := (case nullIfEmpty discName of None \<Rightarrow> d_disc_name d | Some n \<Rightarrow> Some n)\<rparr>)"

definition DiscName :: "int \<Rightarrow> store \<Rightarrow> store_error + string" where
  "DiscName discID db =
     (case List.find (\<lambda>d. d_id d = discID) (discs db) of
        None \<Rightarrow> Inl ErrNoRows
      | Some d \<Rightarrow> Inr (coalesce (d_disc_name d) []))"

definition ReadPathMix :: "store \<Rightarrow> (string \<rightharpoonup> nat)" where
  "ReadPathMix db =
     (\<lambda>p. let n = length (filter (\<lambda>d. d_read_path d = Some p) (discs db))
          in if p = [] \<or> n = 0 then None else Some n)"

definition max_job :: "int \<Rightarrow> store \<Rightarrow> int option" where
  "max_job discID db =
     (case map j_id (filter (\<lambda>j. j_disc_id j = discID) (jobs db)) of
        [] \<Rightarrow> None | i # is \<Rightarrow> Some (foldr max is i))"

definition ForgetDisc :: "string \<Rightarrow> store \<Rightarrow> store_error + store" where
  "ForgetDisc fingerprint db =
     (case List.find (\<lambda>d. d_fingerprint d = fingerprint) (discs db) of
        None \<Rightarrow> Inl (ErrNoDisc fingerprint)
      | Some r \<Rightarrow>
          (let discID = d_id r;
               db1 = update_disc discID (\<lambda>d. d\<lparr>d_rip_dir := None\<rparr>) db
           in Inr (update_disc discID
                     (\<lambda>d. d\<lparr>d_forgotten_after_job := Some (coalesce (max_job discID db1) 0)\<rparr>) db1)))"

definition MarkTitleRipped :: "int \<Rightarrow> int \<Rightarrow> int \<Rightarrow> bool \<Rightarrow> store \<Rightarrow> store" where
  "MarkTitleRipped discID titleIndex sizeBytes verified db =
     db\<lparr>titles := update_where (\<lambda>t. x_disc_id t = discID \<and> x_title_index t = titleIndex)
          (\<lambda>t. t\<lparr>x_ripped := True, x_verified := verified, x_size_bytes := sizeBytes\<rparr>) (titles db)\<rparr>"

section \<open>Jobs\<close>

definition CreateJob :: "int \<Rightarrow> int \<Rightarrow> int \<Rightarrow> int \<Rightarrow> store \<Rightarrow> store_error + int \<times> store" where
  "CreateJob now discID driveID attempt db =
     (if \<not> has_disc db discID \<or> \<not> has_drive db driveID then Inl ErrForeignKey
      else (let i = next_id j_id (jobs db)
            in Inr (i, db\<lparr>jobs := jobs db @
                 [\<lparr>j_id = i, j_disc_id = discID, j_drive_id = driveID, j_state = JobPending,
                   j_attempt = attempt, j_created_at = now, j_started_at = Some now, j_ended_at = None,
                   j_error = None, j_titles_total = 0, j_titles_done = 0\<rparr>]\<rparr>)))"

definition job_terminal :: "job_state \<Rightarrow> bool" where
  "job_terminal s \<longleftrightarrow> s = JobComplete \<or> s = JobFailed \<or> s = JobDuplicate \<or> s = JobCancelled"

definition update_job :: "int \<Rightarrow> (job_row \<Rightarrow> job_row) \<Rightarrow> store \<Rightarrow> store" where
  "update_job jobID f db = db\<lparr>jobs := update_where (\<lambda>j. j_id j = jobID) f (jobs db)\<rparr>"

definition SetJobState :: "int \<Rightarrow> int \<Rightarrow> job_state \<Rightarrow> string \<Rightarrow> store \<Rightarrow> store" where
  "SetJobState now jobID st errText =
     (if job_terminal st then
        update_job jobID (\<lambda>j. j\<lparr>j_state := st, j_error := nullIfEmpty errText, j_ended_at := Some now\<rparr>)
      else update_job jobID (\<lambda>j. j\<lparr>j_state := st, j_error := nullIfEmpty errText\<rparr>))"

definition SetJobProgress :: "int \<Rightarrow> int \<Rightarrow> int \<Rightarrow> store \<Rightarrow> store" where
  "SetJobProgress jobID done tot =
     update_job jobID (\<lambda>j. j\<lparr>j_titles_done := done, j_titles_total := tot\<rparr>)"

definition forgotten_after :: "int \<Rightarrow> store \<Rightarrow> int" where
  "forgotten_after discID db =
     (case List.find (\<lambda>d. d_id d = discID) (discs db) of
        None \<Rightarrow> 0 | Some d \<Rightarrow> coalesce (d_forgotten_after_job d) 0)"

definition counts_as_attempt :: "int \<Rightarrow> store \<Rightarrow> job_row \<Rightarrow> bool" where
  "counts_as_attempt discID db j \<longleftrightarrow>
     j_disc_id j = discID \<and> j_state j \<noteq> JobCancelled \<and> forgotten_after discID db < j_id j"

definition AttemptsForDisc :: "int \<Rightarrow> store \<Rightarrow> nat" where
  "AttemptsForDisc discID db = length (filter (counts_as_attempt discID db) (jobs db))"

definition unfinished :: "job_state \<Rightarrow> bool" where
  "unfinished s \<longleftrightarrow> s \<in> {JobPending, JobScanning, JobRipping, JobVerifying}"

definition ReclaimUnfinishedJobs :: "int \<Rightarrow> store \<Rightarrow> nat \<times> store" where
  "ReclaimUnfinishedJobs now db =
     (length (filter (\<lambda>j. unfinished (j_state j)) (jobs db)),
      db\<lparr>jobs := update_where (\<lambda>j. unfinished (j_state j))
           (\<lambda>j. j\<lparr>j_state := JobCancelled, j_ended_at := Some (coalesce (j_ended_at j) now),
                  j_error := Some (coalesce (j_error j) ''interrupted by a restart'')\<rparr>) (jobs db)\<rparr>)"

definition CompletedCount :: "store \<Rightarrow> nat" where
  "CompletedCount db = length (remdups (map j_disc_id (filter (\<lambda>j. j_state j = JobComplete) (jobs db))))"

text \<open>\<^verbatim>\<open>proto.JobSummary\<close>: a job joined with its disc and its drive.\<close>

record job_summary =
  js_ID :: int
  js_State :: job_state
  js_Attempt :: int
  js_CreatedAt :: int
  js_EndedAt :: "int option"
  js_Error :: string
  js_TitlesDone :: int
  js_TitlesTotal :: int
  js_VolumeLabel :: string
  js_Fingerprint :: string
  js_RipDir :: string
  js_DriveLabel :: string
  js_DriveStableID :: string

definition job_join :: "store \<Rightarrow> job_row \<Rightarrow> job_summary list" where
  "job_join db j =
     (case (List.find (\<lambda>d. d_id d = j_disc_id j) (discs db),
            List.find (\<lambda>d. dr_id d = j_drive_id j) (drives db)) of
        (Some d, Some dr) \<Rightarrow>
          [\<lparr>js_ID = j_id j, js_State = j_state j, js_Attempt = j_attempt j, js_CreatedAt = j_created_at j,
            js_EndedAt = j_ended_at j, js_Error = coalesce (j_error j) [],
            js_TitlesDone = j_titles_done j, js_TitlesTotal = j_titles_total j,
            js_VolumeLabel = d_volume_label d, js_Fingerprint = d_fingerprint d,
            js_RipDir = coalesce (d_rip_dir d) [], js_DriveLabel = dr_label dr,
            js_DriveStableID = dr_stable_id dr\<rparr>]
      | _ \<Rightarrow> [])"

definition limit_or :: "int \<Rightarrow> nat \<Rightarrow> nat" where
  "limit_or lim dflt = (if lim \<le> 0 then dflt else nat lim)"

definition RecentJobs :: "int \<Rightarrow> store \<Rightarrow> job_summary list" where
  "RecentJobs lim db =
     take (limit_or lim 50) (rev (sort_key js_ID (concat (map (job_join db) (jobs db)))))"

section \<open>Events and failures\<close>

definition LogEvent :: "int \<Rightarrow> string \<Rightarrow> string \<Rightarrow> int option \<Rightarrow> int option \<Rightarrow> store \<Rightarrow> store_error + store" where
  "LogEvent now level message jobID driveID db =
     (if (case jobID of None \<Rightarrow> False | Some i \<Rightarrow> \<not> has_job db i)
         \<or> (case driveID of None \<Rightarrow> False | Some i \<Rightarrow> \<not> has_drive db i) then Inl ErrForeignKey
      else Inr (db\<lparr>events := events db @
             [\<lparr>e_id = next_id e_id (events db), e_ts = now, e_job_id = jobID, e_drive_id = driveID,
               e_level = level, e_message = message\<rparr>]\<rparr>))"

definition RecentEvents :: "int \<Rightarrow> store \<Rightarrow> event_row list" where
  "RecentEvents lim db = take (limit_or lim 100) (rev (sort_key e_id (events db)))"

record failure =
  f_When :: int
  f_VolumeLabel :: string
  f_Fingerprint :: string
  f_Kind :: failure_kind
  f_Advice :: string
  f_Error :: string
  f_Attempt :: int

definition failure_of :: "store \<Rightarrow> job_row \<Rightarrow> failure list" where
  "failure_of db j =
     (if (j_state j = JobFailed \<or> j_state j = JobCancelled) \<and> coalesce (j_error j) [] \<noteq> [] then
        (case List.find (\<lambda>d. d_id d = j_disc_id j) (discs db) of
           None \<Rightarrow> []
         | Some d \<Rightarrow>
             (let err = coalesce (j_error j) []; kind = ClassifyFailure err
              in [\<lparr>f_When = j_created_at j, f_VolumeLabel = d_volume_label d,
                    f_Fingerprint = d_fingerprint d, f_Kind = kind, f_Advice = FailureAdvice kind,
                    f_Error = err, f_Attempt = j_attempt j\<rparr>]))
      else [])"

definition Failures :: "int \<Rightarrow> store \<Rightarrow> failure list" where
  "Failures lim db =
     take (limit_or lim 50) (sort_key (\<lambda>f. - f_When f) (concat (map (failure_of db) (jobs db))))"

section \<open>The invariant\<close>

text \<open>The tables' keys and ids are unique, every reference points at a row that exists, and no disc was
  forgotten after a job that does not exist yet.\<close>

abbreviation tc_key :: "transcode_row \<Rightarrow> int \<times> int" where
  "tc_key r \<equiv> (tc_disc_id r, tc_title_index r)"

abbreviation link_key :: "link_row \<Rightarrow> int \<times> int" where
  "link_key r \<equiv> (l_disc_id r, l_title_index r)"

definition tables_ok :: "store \<Rightarrow> bool" where
  "tables_ok db \<longleftrightarrow>
     table_ok dr_id dr_stable_id (drives db) \<and> table_ok d_id d_fingerprint (discs db)
     \<and> table_ok j_id j_id (jobs db) \<and> table_ok tc_id tc_key (transcodes db)
     \<and> table_ok x_id title_key (titles db) \<and> table_ok s_id stream_key (streams db)
     \<and> table_ok l_id link_key (links db) \<and> table_ok e_id e_id (events db)"

definition refs_ok :: "store \<Rightarrow> bool" where
  "refs_ok db \<longleftrightarrow>
     j_disc_id ` set (jobs db) \<subseteq> d_id ` set (discs db)
     \<and> j_drive_id ` set (jobs db) \<subseteq> dr_id ` set (drives db)
     \<and> tc_disc_id ` set (transcodes db) \<subseteq> d_id ` set (discs db)
     \<and> x_disc_id ` set (titles db) \<subseteq> d_id ` set (discs db)
     \<and> s_title_id ` set (streams db) \<subseteq> x_id ` set (titles db)
     \<and> l_disc_id ` set (links db) \<subseteq> d_id ` set (discs db)"

definition forgets_ok :: "store \<Rightarrow> bool" where
  "forgets_ok db \<longleftrightarrow>
     list_all (\<lambda>d. coalesce (d_forgotten_after_job d) 0 < next_id j_id (jobs db)) (discs db)"

definition store_ok :: "store \<Rightarrow> bool" where
  "store_ok db \<longleftrightarrow> tables_ok db \<and> refs_ok db \<and> forgets_ok db"

lemmas store_ok_defs = store_ok_def tables_ok_def refs_ok_def forgets_ok_def

lemma store_ok_empty: "store_ok empty_store"
  by (simp add: store_ok_defs empty_store_def)

lemma has_disc_iff: "has_disc db i \<longleftrightarrow> i \<in> d_id ` set (discs db)"
  by (auto simp: has_disc_def list_ex_iff)

lemma has_drive_iff: "has_drive db i \<longleftrightarrow> i \<in> dr_id ` set (drives db)"
  by (auto simp: has_drive_def list_ex_iff)

section \<open>The keyed tables\<close>

interpretation drive_table: keyed_table dr_id dr_stable_id drive_fresh drive_refresh
  by unfold_locales (auto simp: drive_fresh_def drive_refresh_def split: prod.splits)

interpretation disc_table: keyed_table d_id d_fingerprint disc_fresh disc_refresh
  by unfold_locales (auto simp: disc_fresh_def disc_refresh_def split: prod.splits)

interpretation title_table: keyed_table x_id title_key title_fresh title_refresh
  by unfold_locales (auto simp: title_fresh_def title_refresh_def)

interpretation stream_table: keyed_table s_id stream_key stream_fresh stream_refresh
  by unfold_locales (auto simp: stream_fresh_def stream_refresh_def)

section \<open>Drives\<close>

lemma UpsertDrive_eq:
  "UpsertDrive now sid dev lab vm db =
     Inr (case List.find (\<lambda>r. dr_stable_id r = sid) (drives db) of
            None \<Rightarrow> next_id dr_id (drives db) | Some r \<Rightarrow> dr_id r,
          db\<lparr>drives := upsert_where (\<lambda>r. dr_stable_id r = sid) (drive_refresh (dev, lab, vm, now))
             (drive_fresh (next_id dr_id (drives db)) sid (dev, lab, vm, now)) (drives db)\<rparr>)"
  using drive_table.lookup_put_same [of sid "(dev, lab, vm, now)" "drives db"]
  by (cases "List.find (\<lambda>r. dr_stable_id r = sid) (drives db)") (simp_all add: UpsertDrive_def Let_def)

lemma drive_ids_upsert:
  "dr_id ` set (drives db) \<subseteq> dr_id ` set (upsert_where (\<lambda>r. dr_stable_id r = sid) (drive_refresh v) new (drives db))"
proof -
  have "dr_id ` set (update_where (\<lambda>r. dr_stable_id r = sid) (drive_refresh v) (drives db)) = dr_id ` set (drives db)"
    by (rule image_update_where) simp
  then show ?thesis by (auto simp: upsert_where_def)
qed

lemma UpsertDrive_ok: "store_ok db \<Longrightarrow> UpsertDrive now sid dev lab vm db = Inr (i, db') \<Longrightarrow> store_ok db'"
proof -
  assume ok: "store_ok db" and up: "UpsertDrive now sid dev lab vm db = Inr (i, db')"
  let ?v = "(dev, lab, vm, now)"
  let ?rs = "upsert_where (\<lambda>r. dr_stable_id r = sid) (drive_refresh ?v)
    (drive_fresh (next_id dr_id (drives db)) sid ?v) (drives db)"
  have db': "db' = db\<lparr>drives := ?rs\<rparr>" using up by (simp add: UpsertDrive_eq)
  have "table_ok dr_id dr_stable_id ?rs"
    by (rule drive_table.put_ok) (use ok in \<open>simp add: store_ok_defs\<close>)
  moreover have "j_drive_id ` set (jobs db) \<subseteq> dr_id ` set ?rs"
    by (rule subset_trans [OF _ drive_ids_upsert]) (use ok in \<open>simp add: store_ok_defs\<close>)
  ultimately show ?thesis using ok unfolding db' store_ok_defs by simp
qed

section \<open>Saving a disc\<close>

lemma save_title_eq:
  "save_title discID t tabs =
     (let ts = upsert_where (\<lambda>r. title_key r = (discID, ti_Index t)) (title_refresh t)
                 (title_fresh (next_id x_id (fst tabs)) (discID, ti_Index t) t) (fst tabs);
          i = (case List.find (\<lambda>r. title_key r = (discID, ti_Index t)) (fst tabs) of
                 None \<Rightarrow> next_id x_id (fst tabs) | Some r \<Rightarrow> x_id r)
      in Inr (ts, fold (save_stream i) (ti_Streams t) (snd tabs)))"
  using title_table.lookup_put_same [of "(discID, ti_Index t)" t "fst tabs"]
  by (cases "List.find (\<lambda>r. title_key r = (discID, ti_Index t)) (fst tabs)")
    (simp_all add: save_title_def Let_def title_fresh_def title_refresh_def)

lemma save_titles_total: "\<exists>ts' ss'. save_titles discID ts tabs = Inr (ts', ss')"
  by (induction discID ts tabs rule: save_titles.induct) (auto simp: save_title_eq Let_def)

lemma SaveDisc_eq:
  "SaveDisc now d raw db =
     (let discID = (case List.find (\<lambda>r. d_fingerprint r = di_Fingerprint d) (discs db) of
                      None \<Rightarrow> next_id d_id (discs db) | Some r \<Rightarrow> d_id r);
          ds = upsert_where (\<lambda>r. d_fingerprint r = di_Fingerprint d) (disc_refresh (d, raw, now))
                 (disc_fresh (next_id d_id (discs db)) (di_Fingerprint d) (d, raw, now)) (discs db)
      in case save_titles discID (di_Titles d) (titles db, streams db) of
           Inl e \<Rightarrow> Inl e
         | Inr (ts, ss) \<Rightarrow> Inr (discID, db\<lparr>discs := ds, titles := ts, streams := ss\<rparr>))"
  using disc_table.lookup_put_same [of "di_Fingerprint d" "(d, raw, now)" "discs db"]
  by (cases "List.find (\<lambda>r. d_fingerprint r = di_Fingerprint d) (discs db)")
    (simp_all add: SaveDisc_def Let_def split: sum.split)

text \<open>Saving a disc always succeeds: the rows it reads back are the ones it has just written.\<close>

lemma SaveDisc_total: "\<exists>i db'. SaveDisc now d raw db = Inr (i, db')"
  unfolding SaveDisc_eq Let_def
  using save_titles_total [of _ "di_Titles d" "(titles db, streams db)"]
  by (metis (no_types, lifting) old.prod.case sum.case(2))

lemma save_stream_ok: "table_ok s_id stream_key rs \<Longrightarrow> table_ok s_id stream_key (save_stream i st rs)"
  unfolding save_stream_def by (rule stream_table.put_ok)

lemma save_streams_ok: "table_ok s_id stream_key rs \<Longrightarrow> table_ok s_id stream_key (fold (save_stream i) sts rs)"
  by (induction sts arbitrary: rs) (auto simp: save_stream_ok)

lemma save_streams_titles: "s_title_id ` set (fold (save_stream i) sts rs) \<subseteq> insert i (s_title_id ` set rs)"
proof (induction sts arbitrary: rs)
  case Nil
  show ?case by auto
next
  case (Cons st sts)
  have "stream_key ` set (save_stream i st rs) = insert (i, st_Index st) (stream_key ` set rs)"
    unfolding save_stream_def by (rule stream_table.keys_put)
  then have "fst ` stream_key ` set (save_stream i st rs) = fst ` insert (i, st_Index st) (stream_key ` set rs)"
    by simp
  then have "s_title_id ` set (save_stream i st rs) = insert i (s_title_id ` set rs)"
    by (simp add: image_image)
  with Cons.IH [of "save_stream i st rs"] show ?case by auto
qed

lemma save_title_ok:
  assumes "table_ok x_id title_key ts" and "table_ok s_id stream_key ss"
    and "x_disc_id ` set ts \<subseteq> D" and "discID \<in> D" and "s_title_id ` set ss \<subseteq> x_id ` set ts"
    and "save_title discID t (ts, ss) = Inr (ts', ss')"
  shows "table_ok x_id title_key ts' \<and> table_ok s_id stream_key ss'
    \<and> x_disc_id ` set ts' \<subseteq> D \<and> s_title_id ` set ss' \<subseteq> x_id ` set ts'"
proof -
  let ?k = "(discID, ti_Index t)"
  let ?new = "title_fresh (next_id x_id ts) ?k t"
  obtain i where ts': "ts' = upsert_where (\<lambda>r. title_key r = ?k) (title_refresh t) ?new ts"
    and i: "i = (case List.find (\<lambda>r. title_key r = ?k) ts of None \<Rightarrow> next_id x_id ts | Some r \<Rightarrow> x_id r)"
    and ss': "ss' = fold (save_stream i) (ti_Streams t) ss"
    using assms(6) unfolding save_title_eq Let_def fst_conv snd_conv by blast
  have tab: "table_ok x_id title_key ts'" unfolding ts' by (rule title_table.put_ok [OF assms(1)])
  have "title_key ` set ts' = insert ?k (title_key ` set ts)" unfolding ts' by (rule title_table.keys_put)
  then have "fst ` title_key ` set ts' = fst ` insert ?k (title_key ` set ts)" by simp
  then have keys: "x_disc_id ` set ts' = insert discID (x_disc_id ` set ts)" by (simp add: image_image)
  have "x_id ` set (update_where (\<lambda>r. title_key r = ?k) (title_refresh t) ts) = x_id ` set ts"
    by (rule image_update_where) (simp add: title_refresh_def)
  then have sub: "x_id ` set ts \<subseteq> x_id ` set ts'" by (auto simp: ts' upsert_where_def)
  have "List.find (\<lambda>r. title_key r = ?k) ts' =
      Some (case List.find (\<lambda>r. title_key r = ?k) ts of None \<Rightarrow> ?new | Some r \<Rightarrow> title_refresh t r)"
    unfolding ts' by (rule title_table.lookup_put_same)
  moreover have "x_id (case List.find (\<lambda>r. title_key r = ?k) ts of None \<Rightarrow> ?new | Some r \<Rightarrow> title_refresh t r) = i"
    unfolding i by (cases "List.find (\<lambda>r. title_key r = ?k) ts") (simp_all add: title_fresh_def title_refresh_def)
  ultimately obtain r where "List.find (\<lambda>r. title_key r = ?k) ts' = Some r" and ri: "x_id r = i" by blast
  from find_Some_D [OF this(1)] have "r \<in> set ts'" by (rule conjunct1)
  then have "i \<in> x_id ` set ts'" by (rule rev_image_eqI) (simp add: ri)
  then have "insert i (s_title_id ` set ss) \<subseteq> x_id ` set ts'"
    by (simp add: subset_trans [OF assms(5) sub])
  then have "s_title_id ` set ss' \<subseteq> x_id ` set ts'"
    unfolding ss' by (rule subset_trans [OF save_streams_titles])
  moreover have "table_ok s_id stream_key ss'" unfolding ss' by (rule save_streams_ok [OF assms(2)])
  ultimately show ?thesis using tab keys assms(3,4) by simp
qed

lemma save_titles_ok:
  assumes "save_titles discID tts tabs = Inr (ts', ss')"
    and "table_ok x_id title_key (fst tabs)" and "table_ok s_id stream_key (snd tabs)"
    and "x_disc_id ` set (fst tabs) \<subseteq> D" and "discID \<in> D"
    and "s_title_id ` set (snd tabs) \<subseteq> x_id ` set (fst tabs)"
  shows "table_ok x_id title_key ts' \<and> table_ok s_id stream_key ss'
    \<and> x_disc_id ` set ts' \<subseteq> D \<and> s_title_id ` set ss' \<subseteq> x_id ` set ts'"
  using assms
proof (induction discID tts tabs rule: save_titles.induct)
  case (1 discID tabs)
  then show ?case by auto
next
  case (2 discID t tts tabs)
  obtain ts1 ss1 where st: "save_title discID t tabs = Inr (ts1, ss1)"
    by (auto simp: save_title_eq Let_def)
  then have st': "save_title discID t (fst tabs, snd tabs) = Inr (ts1, ss1)" by simp
  have ok: "table_ok x_id title_key ts1 \<and> table_ok s_id stream_key ss1
      \<and> x_disc_id ` set ts1 \<subseteq> D \<and> s_title_id ` set ss1 \<subseteq> x_id ` set ts1"
    by (rule save_title_ok [OF "2.prems"(2-6) st'])
  have rest: "save_titles discID tts (ts1, ss1) = Inr (ts', ss')" using "2.prems"(1) st by simp
  show ?case by (rule "2.IH" [OF st rest]) (use ok "2.prems"(5) in auto)
qed

lemma disc_ids_upsert:
  assumes ds: "ds = upsert_where (\<lambda>r. d_fingerprint r = fp) (disc_refresh v) (disc_fresh (next_id d_id rs) fp v) rs"
    and i: "i = (case List.find (\<lambda>r. d_fingerprint r = fp) rs of None \<Rightarrow> next_id d_id rs | Some r \<Rightarrow> d_id r)"
  shows "d_id ` set ds = insert i (d_id ` set rs)"
proof (cases "List.find (\<lambda>r. d_fingerprint r = fp) rs")
  case None
  then have "i = next_id d_id rs" and "\<not> list_ex (\<lambda>r. d_fingerprint r = fp) rs"
    using i by (simp_all add: find_None_list_ex [symmetric])
  then show ?thesis by (simp add: ds upsert_where_def)
next
  case (Some r)
  then have "list_ex (\<lambda>r. d_fingerprint r = fp) rs" using find_None_list_ex by (metis option.distinct(1))
  moreover have "d_id ` set (update_where (\<lambda>r. d_fingerprint r = fp) (disc_refresh v) rs) = d_id ` set rs"
    by (rule image_update_where) simp
  moreover have "d_id r \<in> d_id ` set rs" using find_Some_D [OF Some] by simp
  ultimately show ?thesis using Some i by (auto simp: ds upsert_where_def)
qed

lemma forgets_upsert:
  assumes "list_all (\<lambda>d. coalesce (d_forgotten_after_job d) 0 < N) rs" and "0 < N"
  shows "list_all (\<lambda>d. coalesce (d_forgotten_after_job d) 0 < N)
    (upsert_where p (disc_refresh v) (disc_fresh i k v') rs)"
  using assms by (auto simp: upsert_where_def update_where_def list_all_iff disc_refresh_def disc_fresh_def
      coalesce_def split: prod.splits)

lemma SaveDisc_ok: "store_ok db \<Longrightarrow> SaveDisc now d raw db = Inr (i, db') \<Longrightarrow> store_ok db'"
proof -
  assume ok: "store_ok db" and "SaveDisc now d raw db = Inr (i, db')"
  let ?fp = "di_Fingerprint d" and ?v = "(d, raw, now)"
  let ?ds = "upsert_where (\<lambda>r. d_fingerprint r = ?fp) (disc_refresh ?v)
    (disc_fresh (next_id d_id (discs db)) ?fp ?v) (discs db)"
  obtain ts ss where i: "i = (case List.find (\<lambda>r. d_fingerprint r = ?fp) (discs db) of
        None \<Rightarrow> next_id d_id (discs db) | Some r \<Rightarrow> d_id r)"
    and sv: "save_titles i (di_Titles d) (titles db, streams db) = Inr (ts, ss)"
    and db': "db' = db\<lparr>discs := ?ds, titles := ts, streams := ss\<rparr>"
    using \<open>SaveDisc now d raw db = Inr (i, db')\<close>
    by (auto simp: SaveDisc_eq Let_def split: sum.splits)
  have tabs: "tables_ok db" and refs: "refs_ok db" and fg: "forgets_ok db"
    using ok by (simp_all add: store_ok_def)
  have ids: "d_id ` set ?ds = insert i (d_id ` set (discs db))" by (rule disc_ids_upsert [OF refl i])
  have "table_ok x_id title_key ts \<and> table_ok s_id stream_key ss
      \<and> x_disc_id ` set ts \<subseteq> d_id ` set ?ds \<and> s_title_id ` set ss \<subseteq> x_id ` set ts"
    by (rule save_titles_ok [OF sv]) (use tabs refs ids in \<open>auto simp: tables_ok_def refs_ok_def\<close>)
  moreover have "table_ok d_id d_fingerprint ?ds"
    by (rule disc_table.put_ok) (use tabs in \<open>simp add: tables_ok_def\<close>)
  moreover have "list_all (\<lambda>d. coalesce (d_forgotten_after_job d) 0 < next_id j_id (jobs db)) ?ds"
    by (rule forgets_upsert) (use fg next_id_pos in \<open>auto simp: forgets_ok_def\<close>)
  ultimately show ?thesis using tabs refs ids unfolding db' store_ok_defs by auto
qed

section \<open>What the other operations keep\<close>

lemma update_disc_ok:
  assumes "store_ok db" and "\<And>d. d_id (f d) = d_id d" and "\<And>d. d_fingerprint (f d) = d_fingerprint d"
    and "\<And>d. d \<in> set (discs db) \<Longrightarrow> coalesce (d_forgotten_after_job (f d)) 0 < next_id j_id (jobs db)"
  shows "store_ok (update_disc i f db)"
proof -
  let ?ds = "update_where (\<lambda>d. d_id d = i) f (discs db)"
  have "table_ok d_id d_fingerprint ?ds"
    by (rule table_ok_update) (use assms in \<open>simp_all add: store_ok_defs\<close>)
  moreover have "d_id ` set ?ds = d_id ` set (discs db)" by (rule image_update_where) (rule assms(2))
  moreover have "list_all (\<lambda>d. coalesce (d_forgotten_after_job d) 0 < next_id j_id (jobs db)) ?ds"
    using assms(1,4) by (auto simp: store_ok_defs list_all_iff update_where_def)
  ultimately show ?thesis using assms(1) unfolding store_ok_defs update_disc_def by simp
qed

lemma forgets_okD: "store_ok db \<Longrightarrow> d \<in> set (discs db) \<Longrightarrow> coalesce (d_forgotten_after_job d) 0 < next_id j_id (jobs db)"
  by (simp add: store_ok_defs list_all_iff)

lemma SetDiscRipDir_ok: "store_ok db \<Longrightarrow> store_ok (SetDiscRipDir i dir db)"
  unfolding SetDiscRipDir_def by (rule update_disc_ok) (auto dest: forgets_okD)

lemma SetReadPath_ok: "store_ok db \<Longrightarrow> store_ok (SetReadPath i p n db)"
  unfolding SetReadPath_def by (rule update_disc_ok) (auto dest: forgets_okD)

lemma foldr_max_mem: "foldr max is (i::int) \<in> insert i (set is)"
  by (induction "is") (auto simp: max_def)

lemma max_job_less: "coalesce (max_job i db) 0 < next_id j_id (jobs db)"
proof (cases "map j_id (filter (\<lambda>j. j_disc_id j = i) (jobs db))")
  case Nil
  then show ?thesis using next_id_pos by (simp add: max_job_def coalesce_def)
next
  case (Cons k ks)
  have "foldr max ks k \<in> set (k # ks)" using foldr_max_mem [of ks k] by simp
  then have "foldr max ks k \<in> set (map j_id (filter (\<lambda>j. j_disc_id j = i) (jobs db)))" by (simp only: Cons)
  then have "foldr max ks k < next_id j_id (jobs db)" by (auto dest: next_id_greater)
  with Cons show ?thesis by (simp add: max_job_def coalesce_def)
qed

lemma foldr_max_ge: "x \<in> insert i (set is) \<Longrightarrow> x \<le> foldr max is (i::int)"
  by (induction "is") (auto simp: max_def)

lemma max_job_ge: "j \<in> set (jobs db) \<Longrightarrow> j_disc_id j = i \<Longrightarrow> j_id j \<le> coalesce (max_job i db) 0"
proof -
  assume "j \<in> set (jobs db)" and "j_disc_id j = i"
  then have mem: "j_id j \<in> set (map j_id (filter (\<lambda>j. j_disc_id j = i) (jobs db)))" by auto
  then obtain k ks where ks: "map j_id (filter (\<lambda>j. j_disc_id j = i) (jobs db)) = k # ks"
    by (cases "map j_id (filter (\<lambda>j. j_disc_id j = i) (jobs db))") auto
  with mem have "j_id j \<le> foldr max ks k" by (auto intro: foldr_max_ge)
  then show ?thesis by (simp add: max_job_def coalesce_def ks)
qed

lemma ForgetDisc_eq:
  "ForgetDisc fp db =
     (case List.find (\<lambda>d. d_fingerprint d = fp) (discs db) of
        None \<Rightarrow> Inl (ErrNoDisc fp)
      | Some r \<Rightarrow> Inr (update_disc (d_id r)
          (\<lambda>d. d\<lparr>d_rip_dir := None, d_forgotten_after_job := Some (coalesce (max_job (d_id r) db) 0)\<rparr>) db))"
  by (auto simp: ForgetDisc_def Let_def update_disc_def update_where_def max_job_def split: option.splits)

lemma ForgetDisc_ok: "store_ok db \<Longrightarrow> ForgetDisc fp db = Inr db' \<Longrightarrow> store_ok db'"
  by (auto simp: ForgetDisc_eq coalesce_def [of "Some _"] max_job_less split: option.splits intro!: update_disc_ok)

lemma MarkTitleRipped_ok: "store_ok db \<Longrightarrow> store_ok (MarkTitleRipped i t n v db)"
proof -
  assume ok: "store_ok db"
  let ?p = "\<lambda>r. x_disc_id r = i \<and> x_title_index r = t"
  let ?f = "\<lambda>t. t\<lparr>x_ripped := True, x_verified := v, x_size_bytes := n\<rparr>"
  have "table_ok x_id title_key (update_where ?p ?f (titles db))"
    by (rule table_ok_update) (use ok in \<open>simp_all add: store_ok_defs\<close>)
  moreover have "x_id ` set (update_where ?p ?f (titles db)) = x_id ` set (titles db)"
    and "x_disc_id ` set (update_where ?p ?f (titles db)) = x_disc_id ` set (titles db)"
    by (rule image_update_where, simp)+
  ultimately show ?thesis using ok unfolding store_ok_defs MarkTitleRipped_def by simp
qed

lemma update_jobs_ok:
  assumes "store_ok db" and "\<And>j. j_id (f j) = j_id j" and "\<And>j. j_disc_id (f j) = j_disc_id j"
    and "\<And>j. j_drive_id (f j) = j_drive_id j"
  shows "store_ok (db\<lparr>jobs := update_where p f (jobs db)\<rparr>)"
proof -
  have "table_ok j_id j_id (update_where p f (jobs db))"
    by (rule table_ok_update) (use assms in \<open>simp_all add: store_ok_defs\<close>)
  moreover have "j_disc_id ` set (update_where p f (jobs db)) = j_disc_id ` set (jobs db)"
    and "j_drive_id ` set (update_where p f (jobs db)) = j_drive_id ` set (jobs db)"
    by (rule image_update_where, rule assms)+
  moreover have "next_id j_id (update_where p f (jobs db)) = next_id j_id (jobs db)"
    by (rule next_id_update_where) (rule assms)
  ultimately show ?thesis using assms(1) unfolding store_ok_defs by simp
qed

lemma SetJobState_ok: "store_ok db \<Longrightarrow> store_ok (SetJobState now i st e db)"
  by (simp add: SetJobState_def update_job_def update_jobs_ok)

lemma SetJobProgress_ok: "store_ok db \<Longrightarrow> store_ok (SetJobProgress i a b db)"
  by (simp add: SetJobProgress_def update_job_def update_jobs_ok)

lemma ReclaimUnfinishedJobs_ok: "store_ok db \<Longrightarrow> store_ok (snd (ReclaimUnfinishedJobs now db))"
  by (simp add: ReclaimUnfinishedJobs_def update_jobs_ok)

lemma CreateJob_ok: "store_ok db \<Longrightarrow> CreateJob now i dr a db = Inr (j, db') \<Longrightarrow> store_ok db'"
proof -
  assume ok: "store_ok db" and cr: "CreateJob now i dr a db = Inr (j, db')"
  then have refs: "i \<in> d_id ` set (discs db)" "dr \<in> dr_id ` set (drives db)"
    by (auto simp: CreateJob_def has_disc_iff has_drive_iff Let_def split: if_splits)
  let ?r = "\<lparr>j_id = next_id j_id (jobs db), j_disc_id = i, j_drive_id = dr, j_state = JobPending,
     j_attempt = a, j_created_at = now, j_started_at = Some now, j_ended_at = None, j_error = None,
     j_titles_total = 0, j_titles_done = 0\<rparr>"
  have db': "db' = db\<lparr>jobs := jobs db @ [?r]\<rparr>"
    using cr by (auto simp: CreateJob_def Let_def split: if_splits)
  have "table_ok j_id j_id (jobs db @ [?r])"
    by (rule table_ok_insert) (use ok next_id_fresh in \<open>simp_all add: store_ok_defs\<close>)
  moreover have "next_id j_id (jobs db @ [?r]) = next_id j_id (jobs db) + 1" by (simp add: next_id_snoc)
  then have "\<forall>d \<in> set (discs db). coalesce (d_forgotten_after_job d) 0 < next_id j_id (jobs db @ [?r])"
    using forgets_okD [OF ok] by fastforce
  ultimately show ?thesis using ok refs unfolding db' store_ok_defs by (simp add: list_all_iff)
qed

lemma LogEvent_ok: "store_ok db \<Longrightarrow> LogEvent now l m j d db = Inr db' \<Longrightarrow> store_ok db'"
proof -
  assume ok: "store_ok db" and lg: "LogEvent now l m j d db = Inr db'"
  let ?r = "\<lparr>e_id = next_id e_id (events db), e_ts = now, e_job_id = j, e_drive_id = d, e_level = l, e_message = m\<rparr>"
  have db': "db' = db\<lparr>events := events db @ [?r]\<rparr>" using lg by (auto simp: LogEvent_def split: if_splits)
  have "table_ok e_id e_id (events db @ [?r])"
    by (rule table_ok_insert) (use ok next_id_fresh in \<open>simp_all add: store_ok_defs\<close>)
  then show ?thesis using ok unfolding db' store_ok_defs by simp
qed

lemma store_ok_version [simp]: "store_ok (db\<lparr>version := v\<rparr>) = store_ok db"
  by (simp add: store_ok_defs)

lemma initVersion_ok: "store_ok db \<Longrightarrow> initVersion db = Inr db' \<Longrightarrow> store_ok db'"
  by (auto simp: initVersion_def split: option.splits if_splits)

section \<open>The attempt ledger\<close>

text \<open>
  What the ripping workers rely on to bound their retries: starting a job on a disc costs one attempt,
  a failure leaves it spent, a cancellation gives it back, and forgetting the disc gives everything
  back. The client is the worker's retry loop: it starts a job only while attempts remain.
\<close>

datatype round_outcome = RoundFailed | RoundCancelled

locale attempt_ledger =
  fixes valid :: "'s \<Rightarrow> bool"
    and known :: "'k \<Rightarrow> 's \<Rightarrow> bool"
    and attempts :: "'k \<Rightarrow> 's \<Rightarrow> nat"
    and start :: "'k \<Rightarrow> 's \<Rightarrow> 'e + 'j \<times> 's"
    and failed :: "'j \<Rightarrow> 's \<Rightarrow> 's"
    and cancelled :: "'j \<Rightarrow> 's \<Rightarrow> 's"
  assumes start_defined: "valid s \<Longrightarrow> known k s \<Longrightarrow> \<exists>j s'. start k s = Inr (j, s')"
    and start_valid: "valid s \<Longrightarrow> start k s = Inr (j, s') \<Longrightarrow> valid s'"
    and start_known: "start k s = Inr (j, s') \<Longrightarrow> known k' s' = known k' s"
    and attempts_start: "valid s \<Longrightarrow> start k s = Inr (j, s') \<Longrightarrow>
          attempts k' s' = attempts k' s + (if k' = k then 1 else 0)"
    and failed_valid: "valid s \<Longrightarrow> valid (failed j s)"
    and failed_known: "known k' (failed j s) = known k' s"
    and attempts_failed: "valid s \<Longrightarrow> start k s = Inr (j, s') \<Longrightarrow> attempts k' (failed j s') = attempts k' s'"
    and cancelled_valid: "valid s \<Longrightarrow> valid (cancelled j s)"
    and cancelled_known: "known k' (cancelled j s) = known k' s"
    and attempts_cancelled: "valid s \<Longrightarrow> start k s = Inr (j, s') \<Longrightarrow> attempts k' (cancelled j s') = attempts k' s"
begin

definition attempt_round :: "nat \<Rightarrow> 'k \<times> round_outcome \<Rightarrow> 's \<Rightarrow> 's" where
  "attempt_round limit r s =
     (if limit \<le> attempts (fst r) s then s
      else case start (fst r) s of
             Inl e \<Rightarrow> s
           | Inr (j, s') \<Rightarrow>
               (case snd r of RoundFailed \<Rightarrow> failed j s' | RoundCancelled \<Rightarrow> cancelled j s'))"

lemma round_valid: "valid s \<Longrightarrow> valid (attempt_round limit r s)"
  by (auto simp: attempt_round_def failed_valid cancelled_valid dest: start_valid
      split: sum.splits round_outcome.splits)

lemma round_known: "known k' (attempt_round limit r s) = known k' s"
  by (auto simp: attempt_round_def failed_known cancelled_known start_known
      split: sum.splits round_outcome.splits)

lemma round_attempts:
  assumes "valid s" and "known (fst r) s"
  shows "attempts k (attempt_round limit r s) =
    attempts k s + (if r = (k, RoundFailed) \<and> attempts k s < limit then 1 else 0)"
proof (cases "limit \<le> attempts (fst r) s")
  case True
  then show ?thesis by (auto simp: attempt_round_def)
next
  case False
  obtain j s' where st: "start (fst r) s = Inr (j, s')" using start_defined [OF assms] by blast
  have "attempts k (failed j s') = attempts k s + (if k = fst r then 1 else 0)"
    using attempts_failed [OF assms(1) st] attempts_start [OF assms(1) st] by simp
  moreover have "attempts k (cancelled j s') = attempts k s" by (rule attempts_cancelled [OF assms(1) st])
  ultimately show ?thesis using False st
    by (cases r) (auto simp: attempt_round_def split: round_outcome.splits)
qed

theorem rounds_attempts:
  assumes "valid s" and "\<forall>r \<in> set rs. known (fst r) s" and "attempts k s \<le> limit"
  shows "attempts k (fold (attempt_round limit) rs s) = min limit (attempts k s + count_list rs (k, RoundFailed))"
  using assms
proof (induction rs arbitrary: s)
  case Nil
  then show ?case by simp
next
  case (Cons r rs)
  let ?s = "attempt_round limit r s"
  have at: "attempts k ?s = attempts k s + (if r = (k, RoundFailed) \<and> attempts k s < limit then 1 else 0)"
    by (rule round_attempts) (use Cons.prems in simp_all)
  have "attempts k (fold (attempt_round limit) rs ?s) = min limit (attempts k ?s + count_list rs (k, RoundFailed))"
    by (rule Cons.IH) (use Cons.prems at in \<open>auto simp: round_valid round_known\<close>)
  with at Cons.prems(3) show ?case by auto
qed

end

section \<open>The store keeps the ledger\<close>

lemma forgotten_after_cong: "discs db' = discs db \<Longrightarrow> forgotten_after i db' = forgotten_after i db"
  by (simp add: forgotten_after_def)

lemma counts_jobs [simp]: "counts_as_attempt d (db\<lparr>jobs := js\<rparr>) = counts_as_attempt d db"
  by (rule ext) (simp add: counts_as_attempt_def forgotten_after_def)

lemma counts_cong: "discs db' = discs db \<Longrightarrow> counts_as_attempt d db' = counts_as_attempt d db"
  by (rule ext) (simp add: counts_as_attempt_def forgotten_after_def)

lemma forgotten_after_less: "store_ok db \<Longrightarrow> forgotten_after i db < next_id j_id (jobs db)"
  unfolding forgotten_after_def
  by (cases "List.find (\<lambda>d. d_id d = i) (discs db)")
    (auto simp: next_id_pos dest: find_Some_D forgets_okD)

lemma CreateJob_attempts:
  assumes "store_ok db" and "CreateJob now d dr a db = Inr (j, db')"
  shows "AttemptsForDisc d' db' = AttemptsForDisc d' db + (if d' = d then 1 else 0)"
proof -
  have "db' = db\<lparr>jobs := jobs db @ [\<lparr>j_id = next_id j_id (jobs db), j_disc_id = d, j_drive_id = dr,
     j_state = JobPending, j_attempt = a, j_created_at = now, j_started_at = Some now, j_ended_at = None,
     j_error = None, j_titles_total = 0, j_titles_done = 0\<rparr>]\<rparr>"
    using assms(2) by (auto simp: CreateJob_def Let_def split: if_splits)
  moreover have "forgotten_after d' db < next_id j_id (jobs db)" by (rule forgotten_after_less [OF assms(1)])
  ultimately show ?thesis
    by (simp add: AttemptsForDisc_def) (auto simp: counts_as_attempt_def)
qed

text \<open>A job state that is not a cancellation leaves the count of a job that was not cancelled alone.\<close>

lemma attempts_update_jobs:
  assumes "\<And>j. j \<in> set (jobs db) \<Longrightarrow> p j \<Longrightarrow> j_id (f j) = j_id j \<and> j_disc_id (f j) = j_disc_id j
      \<and> (j_state (f j) = JobCancelled \<longleftrightarrow> j_state j = JobCancelled)"
  shows "AttemptsForDisc d (db\<lparr>jobs := update_where p f (jobs db)\<rparr>) = AttemptsForDisc d db"
proof -
  have "length (filter P (map g xs)) = length (filter P xs)"
    if "\<And>x. x \<in> set xs \<Longrightarrow> P (g x) = P x" for P :: "job_row \<Rightarrow> bool" and g xs
    using that by (induction xs) auto
  note len = this
  have "length (filter (counts_as_attempt d db) (map (\<lambda>r. if p r then f r else r) (jobs db)))
      = length (filter (counts_as_attempt d db) (jobs db))"
    by (rule len) (use assms in \<open>auto simp: counts_as_attempt_def\<close>)
  then show ?thesis by (simp add: AttemptsForDisc_def update_where_def)
qed

lemma CreateJob_row:
  assumes "store_ok db" and "CreateJob now d dr a db = Inr (i, db')"
  shows "\<exists>js r. jobs db' = js @ [r] \<and> jobs db = js \<and> j_id r = i \<and> j_state r = JobPending
    \<and> j_disc_id r = d \<and> discs db' = discs db \<and> drives db' = drives db \<and> i \<notin> j_id ` set js"
  using assms(2) next_id_fresh [of j_id "jobs db"]
  by (auto simp: CreateJob_def Let_def simp del: image_iff split: if_splits)

lemma SetJobState_jobs:
  "jobs (SetJobState now i st e db) = update_where (\<lambda>j. j_id j = i)
     (\<lambda>j. if job_terminal st then j\<lparr>j_state := st, j_error := nullIfEmpty e, j_ended_at := Some now\<rparr>
          else j\<lparr>j_state := st, j_error := nullIfEmpty e\<rparr>) (jobs db)"
  by (simp add: SetJobState_def update_job_def)

lemma SetJobState_frame [simp]:
  "discs (SetJobState now i st e db) = discs db" "drives (SetJobState now i st e db) = drives db"
  by (simp_all add: SetJobState_def update_job_def)

lemma SetJobState_started_failed:
  assumes "store_ok db" and "CreateJob now d dr a db = Inr (i, db')"
  shows "AttemptsForDisc d' (SetJobState now' i JobFailed e db') = AttemptsForDisc d' db'"
proof -
  obtain js r where r: "jobs db' = js @ [r]" "j_id r = i" "j_state r = JobPending" "i \<notin> j_id ` set js"
    using CreateJob_row [OF assms] by blast
  have "SetJobState now' i JobFailed e db' = db'\<lparr>jobs := update_where (\<lambda>j. j_id j = i)
      (\<lambda>j. j\<lparr>j_state := JobFailed, j_error := nullIfEmpty e, j_ended_at := Some now'\<rparr>) (jobs db')\<rparr>"
    by (simp add: SetJobState_def update_job_def job_terminal_def)
  moreover have "j \<in> set (jobs db') \<Longrightarrow> j_id j = i \<Longrightarrow> j_state j = JobPending" for j using r by auto
  ultimately show ?thesis by (simp add: attempts_update_jobs)
qed

lemma SetJobState_started_cancelled:
  assumes "store_ok db" and "CreateJob now d dr a db = Inr (i, db')"
  shows "AttemptsForDisc d' (SetJobState now' i JobCancelled e db') = AttemptsForDisc d' db"
proof -
  obtain js r where r: "jobs db' = js @ [r]" "jobs db = js" "j_id r = i" "discs db' = discs db"
      "i \<notin> j_id ` set js"
    using CreateJob_row [OF assms] by blast
  have "\<not> list_ex (\<lambda>j. j_id j = i) js" using r(5) by (auto simp: list_ex_iff)
  then have "jobs (SetJobState now' i JobCancelled e db') =
      js @ [r\<lparr>j_state := JobCancelled, j_error := nullIfEmpty e, j_ended_at := Some now'\<rparr>]"
    using r(1,3) update_where_none [of "\<lambda>j. j_id j = i" js]
    by (simp add: SetJobState_jobs job_terminal_def update_where_def)
  moreover have "counts_as_attempt d' (SetJobState now' i JobCancelled e db') = counts_as_attempt d' db"
    by (rule counts_cong) (simp add: r)
  ultimately show ?thesis using r by (simp add: AttemptsForDisc_def) (simp add: counts_as_attempt_def)
qed

interpretation ledger: attempt_ledger store_ok "\<lambda>d db. has_disc db d \<and> has_drive db driveID" AttemptsForDisc
  "\<lambda>d db. CreateJob now d driveID (int (AttemptsForDisc d db) + 1) db"
  "\<lambda>j. SetJobState now j JobFailed err" "\<lambda>j. SetJobState now j JobCancelled err" for now driveID err
proof (unfold_locales, goal_cases)
  case (1 s k)
  then show ?case by (simp add: CreateJob_def Let_def)
next
  case (2 s k j s')
  then show ?case by (rule CreateJob_ok)
next
  case (3 k s j s' k')
  then show ?case by (auto simp: CreateJob_def Let_def has_disc_def has_drive_def split: if_splits)
next
  case (4 s k j s' k')
  then show ?case by (rule CreateJob_attempts)
next
  case (7 s k j s' k')
  then show ?case by (rule SetJobState_started_failed)
next
  case (10 s k j s' k')
  then show ?case by (rule SetJobState_started_cancelled)
qed (simp_all add: SetJobState_ok has_disc_def has_drive_def)

section \<open>Forgetting a disc\<close>

lemma find_disc_id:
  assumes "store_ok db" and "List.find (\<lambda>d. d_fingerprint d = fp) (discs db) = Some r"
  shows "List.find (\<lambda>d. d_id d = d_id r) (discs db) = Some r"
  using assms find_Some_D [OF assms(2)] by (auto simp: store_ok_defs intro: table_ok_ident_find)

lemma forgotten_after_update_disc:
  assumes "\<And>d. d_id (f d) = d_id d"
  shows "forgotten_after i (update_disc k f db) =
    (if i = k then (case List.find (\<lambda>d. d_id d = i) (discs db) of
        None \<Rightarrow> 0 | Some d \<Rightarrow> coalesce (d_forgotten_after_job (f d)) 0)
     else forgotten_after i db)"
proof -
  have "List.find (\<lambda>d. d_id d = i) (update_where (\<lambda>d. d_id d = k) f (discs db)) =
      map_option (\<lambda>r. if d_id r = k then f r else r) (List.find (\<lambda>d. d_id d = i) (discs db))"
    by (rule find_update_where_frame) (simp add: assms)
  then show ?thesis
    by (cases "List.find (\<lambda>d. d_id d = i) (discs db)")
      (auto simp: forgotten_after_def update_disc_def dest: find_Some_D)
qed

lemma jobs_update_disc [simp]: "jobs (update_disc k f db) = jobs db"
  by (simp add: update_disc_def)

lemma FindDisc_update_disc:
  assumes "\<And>d. d_fingerprint (f d) = d_fingerprint d"
    and "List.find (\<lambda>d. d_fingerprint d = fp) (discs db) = Some r"
  shows "FindDisc fp (update_disc (d_id r) f db) = Some (disc_record_of (f r))"
proof -
  have "List.find (\<lambda>d. d_fingerprint d = fp) (update_where (\<lambda>d. d_id d = d_id r) f (discs db)) =
      map_option (\<lambda>x. if d_id x = d_id r then f x else x) (List.find (\<lambda>d. d_fingerprint d = fp) (discs db))"
    by (rule find_update_where_frame) (simp add: assms)
  then show ?thesis using assms(2) by (simp add: FindDisc_def update_disc_def)
qed

lemma ForgetDisc_attempts:
  assumes "store_ok db" and "ForgetDisc fp db = Inr db'" and "List.find (\<lambda>d. d_fingerprint d = fp) (discs db) = Some r"
  shows "AttemptsForDisc k db' = (if k = d_id r then 0 else AttemptsForDisc k db)"
proof -
  let ?f = "\<lambda>d. d\<lparr>d_rip_dir := None, d_forgotten_after_job := Some (coalesce (max_job (d_id r) db) 0)\<rparr>"
  have db': "db' = update_disc (d_id r) ?f db" using assms(2,3) by (simp add: ForgetDisc_eq)
  have fa: "forgotten_after k db' = (if k = d_id r then coalesce (max_job k db) 0 else forgotten_after k db)"
    unfolding db' using find_disc_id [OF assms(1,3)]
    by (subst forgotten_after_update_disc) (auto simp: coalesce_def)
  show ?thesis
  proof (cases "k = d_id r")
    case True
    then have "filter (counts_as_attempt k db') (jobs db) = []"
      using fa max_job_ge by (fastforce simp: filter_empty_conv counts_as_attempt_def)
    then show ?thesis using True by (simp add: AttemptsForDisc_def db')
  next
    case False
    then have "counts_as_attempt k db' = counts_as_attempt k db"
      using fa by (intro ext) (simp add: counts_as_attempt_def)
    then show ?thesis using False by (simp add: AttemptsForDisc_def db')
  qed
qed

lemma ForgetDisc_known:
  assumes "store_ok db" "FindDisc fp db = Some r"
  obtains db' where "ForgetDisc fp db = Inr db'" "store_ok db'" "FindDisc fp db' = Some (r\<lparr>r_RipDir := []\<rparr>)"
    "AttemptsForDisc (r_ID r) db' = 0" "\<forall>k. k \<noteq> r_ID r \<longrightarrow> AttemptsForDisc k db' = AttemptsForDisc k db"
    "db' = db\<lparr>discs := discs db'\<rparr>"
proof -
  obtain d where d: "List.find (\<lambda>d. d_fingerprint d = fp) (discs db) = Some d" "r = disc_record_of d"
    using assms(2) by (auto simp: FindDisc_def)
  let ?f = "\<lambda>x. x\<lparr>d_rip_dir := None, d_forgotten_after_job := Some (coalesce (max_job (d_id d) db) 0)\<rparr>"
  let ?db = "update_disc (d_id d) ?f db"
  have fg: "ForgetDisc fp db = Inr ?db" using d by (simp add: ForgetDisc_eq)
  have "FindDisc fp ?db = Some (disc_record_of (?f d))" by (rule FindDisc_update_disc [OF _ d(1)]) simp
  then have "FindDisc fp ?db = Some (r\<lparr>r_RipDir := []\<rparr>)" by (simp add: d(2) disc_record_of_def coalesce_def)
  moreover have "?db = db\<lparr>discs := discs ?db\<rparr>" by (simp add: update_disc_def)
  moreover have "r_ID r = d_id d" by (simp add: d(2) disc_record_of_def)
  ultimately show ?thesis using that [of ?db] fg ForgetDisc_ok [OF assms(1) fg] ForgetDisc_attempts [OF assms(1) fg d(1)] by simp
qed

lemma ForgetDisc_unknown: "FindDisc fp db = None \<Longrightarrow> ForgetDisc fp db = Inl (ErrNoDisc fp)"
  by (simp add: FindDisc_def ForgetDisc_def)

text \<open>C7. Forgetting a disc the store knows always succeeds and gives the disc back everything: it is
  found as not ripped, under the id it had, with no attempts spent, while no job, title, stream,
  transcode, library link or event is touched and no other disc's attempts change. A fingerprint the
  store does not know is refused.\<close>

theorem ForgetDisc_restores_disc:
  assumes "store_ok db"
  shows "case FindDisc fp db of
      None \<Rightarrow> ForgetDisc fp db = Inl (ErrNoDisc fp)
    | Some r \<Rightarrow> \<exists>db'. ForgetDisc fp db = Inr db' \<and> store_ok db'
        \<and> FindDisc fp db' = Some (r\<lparr>r_RipDir := []\<rparr>) \<and> \<not> Ripped (r\<lparr>r_RipDir := []\<rparr>)
        \<and> AttemptsForDisc (r_ID r) db' = 0
        \<and> (\<forall>k. k \<noteq> r_ID r \<longrightarrow> AttemptsForDisc k db' = AttemptsForDisc k db)
        \<and> db' = db\<lparr>discs := discs db'\<rparr>"
proof (cases "FindDisc fp db")
  case None
  then show ?thesis by (simp add: ForgetDisc_unknown)
next
  case (Some r)
  from Some obtain db' where "ForgetDisc fp db = Inr db'" "store_ok db'" "FindDisc fp db' = Some (r\<lparr>r_RipDir := []\<rparr>)"
    "AttemptsForDisc (r_ID r) db' = 0" "\<forall>k. k \<noteq> r_ID r \<longrightarrow> AttemptsForDisc k db' = AttemptsForDisc k db"
    "db' = db\<lparr>discs := discs db'\<rparr>"
    by (elim ForgetDisc_known [OF assms])
  then show ?thesis by (auto simp: Some Ripped_def)
qed

definition sample_disc :: disc where
  "sample_disc = empty_disc\<lparr>di_VolumeLabel := ''ALIEN'', di_Fingerprint := ''f1'',
     di_Titles := [empty_title\<lparr>ti_Index := 0, ti_DurationSecs := 7020\<rparr>,
                   empty_title\<lparr>ti_Index := 1, ti_DurationSecs := 300\<rparr>]\<rparr>"

definition sample_store :: store where
  "sample_store =
     (case UpsertDrive 100 ''usb-1'' ''/dev/sr0'' ''left'' ''ASUS'' empty_store of
        Inl e \<Rightarrow> empty_store
      | Inr (dr, db1) \<Rightarrow>
          (case SaveDisc 101 sample_disc ''raw'' db1 of
             Inl e \<Rightarrow> db1
           | Inr (d, db2) \<Rightarrow>
               (case CreateJob 102 d dr 1 db2 of
                  Inl e \<Rightarrow> db2
                | Inr (j, db3) \<Rightarrow> SetDiscRipDir d ''/rips/alien'' (SetJobState 103 j JobComplete [] db3))))"

lemma sample_store_ok: "store_ok sample_store"
  by code_simp

theorem ForgetDisc_restores_disc_witness:
  "AttemptsForDisc 1 sample_store = 1
   \<and> (\<exists>db'. ForgetDisc ''f1'' sample_store = Inr db' \<and> AttemptsForDisc 1 db' = 0)"
proof -
  have "FindDisc ''f1'' sample_store = Some \<lparr>r_ID = 1, r_Fingerprint = ''f1'', r_VolumeLabel = ''ALIEN'',
      r_Type = di_Type sample_disc, r_TitleCount = 2, r_TotalBytes = di_TotalBytes sample_disc,
      r_FirstSeen = 101, r_RipDir = ''/rips/alien''\<rparr>"
    by code_simp
  moreover have "AttemptsForDisc 1 sample_store = 1" by code_simp
  ultimately show ?thesis using ForgetDisc_restores_disc [OF sample_store_ok, of "''f1''"] by auto
qed

section \<open>Restarts\<close>

text \<open>After a restart no job is left unfinished, the jobs that had ended are untouched, and a disc's
  attempts are exactly its ended, uncancelled jobs since it was last forgotten: an interruption costs
  nothing.\<close>

theorem Reclaim_makes_interruptions_free:
  "let db' = snd (ReclaimUnfinishedJobs now db)
   in list_all (\<lambda>j. \<not> unfinished (j_state j)) (jobs db')
      \<and> filter (\<lambda>j. j_state j \<noteq> JobCancelled) (jobs db') =
          filter (\<lambda>j. \<not> unfinished (j_state j) \<and> j_state j \<noteq> JobCancelled) (jobs db)
      \<and> map j_id (jobs db') = map j_id (jobs db)
      \<and> AttemptsForDisc d db' =
          length (filter (\<lambda>j. counts_as_attempt d db j \<and> \<not> unfinished (j_state j)) (jobs db))"
proof -
  let ?g = "\<lambda>j. j\<lparr>j_state := JobCancelled, j_ended_at := Some (coalesce (j_ended_at j) now),
       j_error := Some (coalesce (j_error j) ''interrupted by a restart'')\<rparr>"
  have jobs': "jobs (snd (ReclaimUnfinishedJobs now db)) = map (\<lambda>j. if unfinished (j_state j) then ?g j else j) (jobs db)"
    by (simp add: ReclaimUnfinishedJobs_def update_where_def)
  have split: "filter P (map (\<lambda>j. if unfinished (j_state j) then ?g j else j) js) =
      filter (\<lambda>j. P j \<and> \<not> unfinished (j_state j)) js"
    if "\<And>j. j_state j = JobCancelled \<Longrightarrow> \<not> P j" for P :: "job_row \<Rightarrow> bool" and js
    using that by (induction js) auto
  have "list_all (\<lambda>j. \<not> unfinished (j_state j)) (jobs (snd (ReclaimUnfinishedJobs now db)))"
    by (auto simp: jobs' list_all_iff unfinished_def)
  moreover have "map j_id (jobs (snd (ReclaimUnfinishedJobs now db))) = map j_id (jobs db)"
    by (simp add: jobs')
  moreover have "counts_as_attempt d (snd (ReclaimUnfinishedJobs now db)) = counts_as_attempt d db"
    by (rule counts_cong) (simp add: ReclaimUnfinishedJobs_def)
  ultimately show ?thesis
    using split [of "\<lambda>j. j_state j \<noteq> JobCancelled" "jobs db"] split [of "counts_as_attempt d db" "jobs db"]
    by (simp add: jobs' AttemptsForDisc_def counts_as_attempt_def conj_commute)
qed

section \<open>Scanning a disc again\<close>

lemma save_title_lookup_same:
  assumes "save_title i t tabs = Inr (ts, ss)"
  shows "\<exists>r. List.find (\<lambda>r. title_key r = (i, ti_Index t)) ts = Some r \<and> x_duration_secs r = ti_DurationSecs t
    \<and> x_ripped r = (case List.find (\<lambda>r. title_key r = (i, ti_Index t)) (fst tabs) of None \<Rightarrow> False | Some r \<Rightarrow> x_ripped r)"
  using title_table.lookup_put_same [of "(i, ti_Index t)" t "fst tabs"] assms
  by (cases "List.find (\<lambda>r. title_key r = (i, ti_Index t)) (fst tabs)")
    (auto simp: save_title_eq Let_def title_fresh_def title_refresh_def)

lemma save_title_lookup_other:
  assumes "save_title i t tabs = Inr (ts, ss)" and "k \<noteq> (i, ti_Index t)"
  shows "List.find (\<lambda>r. title_key r = k) ts = List.find (\<lambda>r. title_key r = k) (fst tabs)"
  using title_table.lookup_put_other [of "(i, ti_Index t)" k t "fst tabs"] assms
  by (auto simp: save_title_eq Let_def)

lemma save_titles_lookup_other:
  assumes "save_titles i tts tabs = Inr (ts, ss)" and "k \<notin> (\<lambda>t. (i, ti_Index t)) ` set tts"
  shows "List.find (\<lambda>r. title_key r = k) ts = List.find (\<lambda>r. title_key r = k) (fst tabs)"
  using assms
proof (induction i tts tabs rule: save_titles.induct)
  case (2 i t tts tabs)
  then obtain tabs' where st: "save_title i t tabs = Inr tabs'" and rest: "save_titles i tts tabs' = Inr (ts, ss)"
    by (auto split: sum.splits)
  have "List.find (\<lambda>r. title_key r = k) ts = List.find (\<lambda>r. title_key r = k) (fst tabs')"
    by (rule "2.IH" [OF st rest]) (use "2.prems"(2) in auto)
  also have "\<dots> = List.find (\<lambda>r. title_key r = k) (fst tabs)"
    by (rule save_title_lookup_other [of i t tabs "fst tabs'" "snd tabs'"]) (use st "2.prems"(2) in auto)
  finally show ?case .
qed auto

lemma save_titles_lookup_same:
  assumes "save_titles i tts tabs = Inr (ts, ss)" and "distinct (map ti_Index tts)" and "t \<in> set tts"
  shows "\<exists>r. List.find (\<lambda>r. title_key r = (i, ti_Index t)) ts = Some r \<and> x_duration_secs r = ti_DurationSecs t
    \<and> x_ripped r = (case List.find (\<lambda>r. title_key r = (i, ti_Index t)) (fst tabs) of None \<Rightarrow> False | Some r \<Rightarrow> x_ripped r)"
  using assms
proof (induction i tts tabs rule: save_titles.induct)
  case (1 i tabs)
  then show ?case by simp
next
  case (2 i u tts tabs)
  then obtain ts1 ss1 where st: "save_title i u tabs = Inr (ts1, ss1)" and rest: "save_titles i tts (ts1, ss1) = Inr (ts, ss)"
    by (auto split: sum.splits)
  show ?case
  proof (cases "t \<in> set tts")
    case True
    then have "ti_Index t \<noteq> ti_Index u" using "2.prems"(2) by (auto simp: image_iff)
    then have "List.find (\<lambda>r. title_key r = (i, ti_Index t)) ts1 = List.find (\<lambda>r. title_key r = (i, ti_Index t)) (fst tabs)"
      by (intro save_title_lookup_other [OF st]) simp
    with "2.IH" [OF st rest] "2.prems"(2) True show ?thesis by simp
  next
    case False
    then have tu: "t = u" using "2.prems"(3) by simp
    have "List.find (\<lambda>r. title_key r = (i, ti_Index t)) ts = List.find (\<lambda>r. title_key r = (i, ti_Index t)) (fst (ts1, ss1))"
      by (rule save_titles_lookup_other [OF rest]) (use "2.prems"(2) tu in auto)
    with save_title_lookup_same [OF st] tu show ?thesis by simp
  qed
qed

definition title_ripped :: "int \<Rightarrow> int \<Rightarrow> store \<Rightarrow> bool" where
  "title_ripped i n db = (case List.find (\<lambda>r. title_key r = (i, n)) (titles db) of None \<Rightarrow> False | Some r \<Rightarrow> x_ripped r)"

lemma SaveDisc_titles:
  assumes "SaveDisc now d raw db = Inr (i, db')" and "distinct (map ti_Index (di_Titles d))" and "t \<in> set (di_Titles d)"
  shows "\<exists>r. List.find (\<lambda>r. title_key r = (i, ti_Index t)) (titles db') = Some r
    \<and> x_duration_secs r = ti_DurationSecs t \<and> x_ripped r = title_ripped i (ti_Index t) db"
proof -
  obtain ts ss where "save_titles i (di_Titles d) (titles db, streams db) = Inr (ts, ss)" and "titles db' = ts"
    using assms(1) by (auto simp: SaveDisc_eq Let_def split: sum.splits)
  with save_titles_lookup_same [OF _ assms(2,3)] show ?thesis by (fastforce simp: title_ripped_def)
qed

lemma SaveDisc_discs:
  assumes "SaveDisc now d raw db = Inr (i, db')"
  shows "discs db' = upsert_where (\<lambda>r. d_fingerprint r = di_Fingerprint d) (disc_refresh (d, raw, now))
      (disc_fresh (next_id d_id (discs db)) (di_Fingerprint d) (d, raw, now)) (discs db)"
    and "i = (case List.find (\<lambda>r. d_fingerprint r = di_Fingerprint d) (discs db) of
        None \<Rightarrow> next_id d_id (discs db) | Some r \<Rightarrow> d_id r)"
    and "jobs db' = jobs db"
  using assms by (auto simp: SaveDisc_eq Let_def split: sum.splits)

text \<open>C35. Scanning a disc always records it. A disc seen before keeps its row, its id, the day it was
  first seen, its rip directory and what was already ripped of it; only what the scan reports changes,
  every title of the scan is recorded, and no other disc is touched.\<close>

theorem SaveDisc_keeps_what_was_ripped:
  assumes "store_ok db" and "distinct (map ti_Index (di_Titles d))"
  shows "\<exists>i db' r. SaveDisc now d raw db = Inr (i, db') \<and> store_ok db' \<and> jobs db' = jobs db
    \<and> FindDisc (di_Fingerprint d) db' = Some r \<and> r_ID r = i \<and> r_TitleCount r = int (length (di_Titles d))
    \<and> (case FindDisc (di_Fingerprint d) db of
         None \<Rightarrow> r_RipDir r = [] \<and> length (discs db') = length (discs db) + 1
       | Some r0 \<Rightarrow> r_ID r0 = i \<and> r_RipDir r = r_RipDir r0 \<and> r_FirstSeen r = r_FirstSeen r0
                   \<and> length (discs db') = length (discs db))
    \<and> (\<forall>fp. fp \<noteq> di_Fingerprint d \<longrightarrow> FindDisc fp db' = FindDisc fp db)
    \<and> (\<forall>t \<in> set (di_Titles d). \<exists>x. List.find (\<lambda>r. title_key r = (i, ti_Index t)) (titles db') = Some x
         \<and> x_duration_secs x = ti_DurationSecs t \<and> x_ripped x = title_ripped i (ti_Index t) db)"
proof -
  let ?fp = "di_Fingerprint d"
  obtain i db' where sd: "SaveDisc now d raw db = Inr (i, db')" using SaveDisc_total by blast
  note ds = SaveDisc_discs [OF sd]
  have same: "List.find (\<lambda>r. d_fingerprint r = ?fp) (discs db') =
      Some (case List.find (\<lambda>r. d_fingerprint r = ?fp) (discs db) of
              None \<Rightarrow> disc_fresh (next_id d_id (discs db)) ?fp (d, raw, now) | Some r \<Rightarrow> disc_refresh (d, raw, now) r)"
    unfolding ds(1) by (rule disc_table.lookup_put_same)
  have other: "FindDisc fp db' = FindDisc fp db" if "fp \<noteq> ?fp" for fp
    using disc_table.lookup_put_other [of ?fp fp "(d, raw, now)" "discs db"] that
    by (simp add: FindDisc_def ds(1))
  have len: "length (discs db') = length (discs db) + (if List.find (\<lambda>r. d_fingerprint r = ?fp) (discs db) = None then 1 else 0)"
    unfolding ds(1) by (rule disc_table.length_put)
  have "\<exists>r. FindDisc ?fp db' = Some r \<and> r_ID r = i \<and> r_TitleCount r = int (length (di_Titles d))
    \<and> (case FindDisc ?fp db of
         None \<Rightarrow> r_RipDir r = [] \<and> length (discs db') = length (discs db) + 1
       | Some r0 \<Rightarrow> r_ID r0 = i \<and> r_RipDir r = r_RipDir r0 \<and> r_FirstSeen r = r_FirstSeen r0
                   \<and> length (discs db') = length (discs db))"
    using same len ds(2)
    by (cases "List.find (\<lambda>r. d_fingerprint r = ?fp) (discs db)")
      (simp_all add: FindDisc_def disc_record_of_def disc_fresh_def disc_refresh_def coalesce_def)
  then show ?thesis
    using sd SaveDisc_ok [OF assms(1) sd] ds(3) other SaveDisc_titles [OF sd assms(2)] by blast
qed

theorem SaveDisc_keeps_what_was_ripped_witness:
  "store_ok sample_store \<and> (\<exists>i db' r. SaveDisc 200 sample_disc ''again'' sample_store = Inr (i, db')
     \<and> FindDisc ''f1'' db' = Some r \<and> r_RipDir r = ''/rips/alien'')"
proof -
  have "distinct (map ti_Index (di_Titles sample_disc))" and fp: "di_Fingerprint sample_disc = ''f1''"
    and "map_option r_RipDir (FindDisc ''f1'' sample_store) = Some ''/rips/alien''"
    by code_simp+
  then show ?thesis
    using SaveDisc_keeps_what_was_ripped [OF sample_store_ok, of sample_disc 200 "''again''"] sample_store_ok
    by fastforce
qed

end
