(* ===== verification/Transcode_Store.thy ===== *)
theory Transcode_Store
  imports Store
begin

text \<open>
  The transcode queue and the library links of \<^verbatim>\<open>internal/store/transcode.go\<close>: one definition per
  exported operation, over the tables of \<^verbatim>\<open>Store\<close>. A row that ties with another in an
  \<^verbatim>\<open>ORDER BY\<close> comes in rowid order.

  The locale \<^verbatim>\<open>claim_queue\<close> is what the transcode runner relies on: a claim takes one job off the
  queue, settling it keeps it off, putting it back costs nothing, and the queue is empty exactly when
  nothing can be claimed. Its client is the drain loop; the store interprets it.
\<close>

section \<open>Operations\<close>

record transcode_job =
  tj_ID :: int
  tj_DiscID :: int
  tj_TitleIndex :: int
  tj_State :: transcode_state
  tj_Profile :: string
  tj_SourcePath :: string
  tj_Attempt :: int
  tj_VolumeLabel :: string

definition transcode_fresh :: "int \<Rightarrow> int \<times> int \<Rightarrow> string \<times> string \<times> int \<Rightarrow> transcode_row" where
  "transcode_fresh i k v =
     (case v of (profile, sourcePath, now) \<Rightarrow>
        \<lparr>tc_id = i, tc_disc_id = fst k, tc_title_index = snd k, tc_state = TranscodePending,
         tc_profile = profile, tc_source_path = sourcePath, tc_output_path = None, tc_size_bytes = 0,
         tc_attempt = 0, tc_hardware = False, tc_created_at = now, tc_started_at = None,
         tc_ended_at = None, tc_error = None\<rparr>)"

definition transcode_refresh :: "string \<times> string \<times> int \<Rightarrow> transcode_row \<Rightarrow> transcode_row" where
  "transcode_refresh v r =
     (case v of (profile, sourcePath, now) \<Rightarrow>
        r\<lparr>tc_state := TranscodePending, tc_profile := profile, tc_source_path := sourcePath,
          tc_created_at := now, tc_started_at := None, tc_ended_at := None, tc_error := None\<rparr>)"

definition QueueTranscode :: "int \<Rightarrow> int \<Rightarrow> int \<Rightarrow> string \<Rightarrow> string \<Rightarrow> store \<Rightarrow> store_error + store" where
  "QueueTranscode now discID titleIndex profile sourcePath db =
     (if \<not> has_disc db discID then Inl ErrForeignKey
      else let k = (discID, titleIndex); v = (profile, sourcePath, now)
           in Inr (db\<lparr>transcodes := upsert_where (\<lambda>r. tc_key r = k) (transcode_refresh v)
                      (transcode_fresh (next_id tc_id (transcodes db)) k v) (transcodes db)\<rparr>))"

definition recorded_fresh ::
  "int \<Rightarrow> int \<times> int \<Rightarrow> string \<times> string \<times> string \<times> int \<times> bool \<times> int \<Rightarrow> transcode_row" where
  "recorded_fresh i k v =
     (case v of (profile, sourcePath, outputPath, sizeBytes, hardware, now) \<Rightarrow>
        \<lparr>tc_id = i, tc_disc_id = fst k, tc_title_index = snd k, tc_state = TranscodeComplete,
         tc_profile = profile, tc_source_path = sourcePath, tc_output_path = Some outputPath,
         tc_size_bytes = sizeBytes, tc_attempt = 0, tc_hardware = hardware, tc_created_at = now,
         tc_started_at = Some now, tc_ended_at = Some now, tc_error = None\<rparr>)"

definition recorded_refresh ::
  "string \<times> string \<times> string \<times> int \<times> bool \<times> int \<Rightarrow> transcode_row \<Rightarrow> transcode_row" where
  "recorded_refresh v r =
     (case v of (profile, sourcePath, outputPath, sizeBytes, hardware, now) \<Rightarrow>
        r\<lparr>tc_state := TranscodeComplete, tc_profile := profile, tc_source_path := sourcePath,
          tc_output_path := Some outputPath, tc_size_bytes := sizeBytes, tc_hardware := hardware,
          tc_ended_at := Some now, tc_error := None\<rparr>)"

definition RecordTranscode ::
  "int \<Rightarrow> int \<Rightarrow> int \<Rightarrow> string \<Rightarrow> string \<Rightarrow> string \<Rightarrow> int \<Rightarrow> bool \<Rightarrow> store \<Rightarrow> store_error + store" where
  "RecordTranscode now discID titleIndex profile sourcePath outputPath sizeBytes hardware db =
     (if \<not> has_disc db discID then Inl ErrForeignKey
      else let k = (discID, titleIndex); v = (profile, sourcePath, outputPath, sizeBytes, hardware, now)
           in Inr (db\<lparr>transcodes := upsert_where (\<lambda>r. tc_key r = k) (recorded_refresh v)
                      (recorded_fresh (next_id tc_id (transcodes db)) k v) (transcodes db)\<rparr>))"

definition update_transcode :: "int \<Rightarrow> (transcode_row \<Rightarrow> transcode_row) \<Rightarrow> store \<Rightarrow> store" where
  "update_transcode i f db = db\<lparr>transcodes := update_where (\<lambda>r. tc_id r = i) f (transcodes db)\<rparr>"

definition claimable :: "int \<Rightarrow> store \<Rightarrow> transcode_row \<Rightarrow> bool" where
  "claimable maxAttempts db r \<longleftrightarrow>
     tc_state r = TranscodePending \<and> tc_attempt r < maxAttempts \<and> has_disc db (tc_disc_id r)"

definition queue_order :: "transcode_row \<Rightarrow> int \<times> int" where
  "queue_order r = (tc_created_at r, tc_title_index r)"

definition NextTranscode :: "int \<Rightarrow> int \<Rightarrow> store \<Rightarrow> (transcode_job \<times> store) option" where
  "NextTranscode now maxAttempts db =
     (case sort_key queue_order (filter (claimable maxAttempts db) (transcodes db)) of
        [] \<Rightarrow> None
      | r # rs \<Rightarrow>
          Some (\<lparr>tj_ID = tc_id r, tj_DiscID = tc_disc_id r, tj_TitleIndex = tc_title_index r,
                 tj_State = TranscodeRunning, tj_Profile = tc_profile r, tj_SourcePath = tc_source_path r,
                 tj_Attempt = tc_attempt r + 1,
                 tj_VolumeLabel = (case List.find (\<lambda>d. d_id d = tc_disc_id r) (discs db) of
                    None \<Rightarrow> [] | Some d \<Rightarrow> d_volume_label d)\<rparr>,
                update_transcode (tc_id r) (\<lambda>x. x\<lparr>tc_state := TranscodeRunning, tc_attempt := tc_attempt r + 1,
                  tc_started_at := Some now, tc_error := None\<rparr>) db))"

definition FinishTranscode :: "int \<Rightarrow> int \<Rightarrow> string \<Rightarrow> int \<Rightarrow> bool \<Rightarrow> store \<Rightarrow> store" where
  "FinishTranscode now i outputPath sizeBytes hardware =
     update_transcode i (\<lambda>r. r\<lparr>tc_state := TranscodeComplete, tc_output_path := Some outputPath,
       tc_size_bytes := sizeBytes, tc_hardware := hardware, tc_ended_at := Some now, tc_error := None\<rparr>)"

definition FailTranscode :: "int \<Rightarrow> int \<Rightarrow> string \<Rightarrow> store \<Rightarrow> store" where
  "FailTranscode now i reason =
     update_transcode i (\<lambda>r. r\<lparr>tc_state := TranscodeFailed, tc_ended_at := Some now, tc_error := Some reason\<rparr>)"

definition RequeueTranscode :: "int \<Rightarrow> store \<Rightarrow> store" where
  "RequeueTranscode i =
     update_transcode i (\<lambda>r. r\<lparr>tc_state := TranscodePending, tc_started_at := None, tc_ended_at := None,
       tc_attempt := max (tc_attempt r - 1) 0\<rparr>)"

definition TranscodeQueue :: "int \<Rightarrow> store \<Rightarrow> nat \<times> nat" where
  "TranscodeQueue maxAttempts db =
     (length (filter (\<lambda>r. tc_state r = TranscodePending \<and> tc_attempt r < maxAttempts) (transcodes db)),
      length (filter (\<lambda>r. tc_state r = TranscodeFailed \<or>
        (tc_state r = TranscodePending \<and> tc_attempt r \<ge> maxAttempts)) (transcodes db)))"

definition ReclaimRunningTranscodes :: "store \<Rightarrow> nat \<times> store" where
  "ReclaimRunningTranscodes db =
     (length (filter (\<lambda>r. tc_state r = TranscodeRunning) (transcodes db)),
      db\<lparr>transcodes := update_where (\<lambda>r. tc_state r = TranscodeRunning)
           (\<lambda>r. r\<lparr>tc_state := TranscodePending, tc_started_at := None,
                  tc_attempt := max (tc_attempt r - 1) 0\<rparr>) (transcodes db)\<rparr>)"

definition TitleDuration :: "int \<Rightarrow> int \<Rightarrow> store \<Rightarrow> int" where
  "TitleDuration discID titleIndex db =
     (case List.find (\<lambda>t. x_disc_id t = discID \<and> x_title_index t = titleIndex) (titles db) of
        None \<Rightarrow> 0 | Some t \<Rightarrow> x_duration_secs t)"

definition RippedTitles :: "int \<Rightarrow> store \<Rightarrow> int list" where
  "RippedTitles discID db =
     sort (map x_title_index (filter (\<lambda>t. x_disc_id t = discID \<and> x_ripped t) (titles db)))"

definition DiscWithTitles :: "int \<Rightarrow> store \<Rightarrow> store_error + disc" where
  "DiscWithTitles discID db =
     (case List.find (\<lambda>d. d_id d = discID) (discs db) of
        None \<Rightarrow> Inl ErrNoRows
      | Some d \<Rightarrow>
          Inr (empty_disc\<lparr>di_VolumeLabel := d_volume_label d, di_Fingerprint := d_fingerprint d,
            di_Titles := map (\<lambda>t. empty_title\<lparr>ti_Index := x_title_index t,
                ti_DurationSecs := x_duration_secs t, ti_SizeBytes := x_size_bytes t\<rparr>)
              (sort_key x_title_index (filter (\<lambda>t. x_disc_id t = discID \<and> x_ripped t) (titles db)))\<rparr>))"

definition link_fresh :: "int \<Rightarrow> int \<times> int \<Rightarrow> string \<times> int \<Rightarrow> link_row" where
  "link_fresh i k v =
     \<lparr>l_id = i, l_disc_id = fst k, l_title_index = snd k, l_path = fst v, l_created_at = snd v\<rparr>"

definition link_refresh :: "string \<times> int \<Rightarrow> link_row \<Rightarrow> link_row" where
  "link_refresh v r = r\<lparr>l_path := fst v, l_created_at := snd v\<rparr>"

definition RecordLibraryLink :: "int \<Rightarrow> int \<Rightarrow> int \<Rightarrow> string \<Rightarrow> store \<Rightarrow> store_error + store" where
  "RecordLibraryLink now discID titleIndex path db =
     (if \<not> has_disc db discID then Inl ErrForeignKey
      else let k = (discID, titleIndex); v = (path, now)
           in Inr (db\<lparr>links := upsert_where (\<lambda>r. link_key r = k) (link_refresh v)
                      (link_fresh (next_id l_id (links db)) k v) (links db)\<rparr>))"

definition LibraryLink :: "int \<Rightarrow> int \<Rightarrow> store \<Rightarrow> string option" where
  "LibraryLink discID titleIndex db =
     map_option l_path (List.find (\<lambda>r. link_key r = (discID, titleIndex)) (links db))"

record unfiled =
  u_DiscID :: int
  u_TitleIndex :: int
  u_OutputPath :: string

definition is_linked :: "store \<Rightarrow> int \<times> int \<Rightarrow> bool" where
  "is_linked db k \<longleftrightarrow> list_ex (\<lambda>l. link_key l = k) (links db)"

definition UnfiledTranscodes :: "store \<Rightarrow> unfiled list" where
  "UnfiledTranscodes db =
     map (\<lambda>r. \<lparr>u_DiscID = tc_disc_id r, u_TitleIndex = tc_title_index r,
                u_OutputPath = coalesce (tc_output_path r) []\<rparr>)
       (sort_key tc_key (filter (\<lambda>r. tc_state r = TranscodeComplete \<and> tc_output_path r \<noteq> None
          \<and> \<not> is_linked db (tc_key r)) (transcodes db)))"

text \<open>\<^verbatim>\<open>proto.TranscodeJobSummary\<close>.\<close>

record transcode_summary =
  ts_ID :: int
  ts_DiscID :: int
  ts_Disc :: string
  ts_TitleIndex :: int
  ts_State :: transcode_state
  ts_SizeBytes :: int
  ts_Attempt :: int
  ts_Hardware :: bool
  ts_Error :: string
  ts_OutputPath :: string
  ts_Filed :: bool

definition state_rank :: "transcode_state \<Rightarrow> int" where
  "state_rank s = (case s of TranscodeRunning \<Rightarrow> 0 | TranscodePending \<Rightarrow> 1 | TranscodeFailed \<Rightarrow> 2
     | TranscodeComplete \<Rightarrow> 3)"

definition summary_of :: "store \<Rightarrow> transcode_row \<Rightarrow> transcode_summary list" where
  "summary_of db r =
     (case List.find (\<lambda>d. d_id d = tc_disc_id r) (discs db) of
        None \<Rightarrow> []
      | Some d \<Rightarrow>
          [\<lparr>ts_ID = tc_id r, ts_DiscID = tc_disc_id r, ts_Disc = d_volume_label d,
            ts_TitleIndex = tc_title_index r, ts_State = tc_state r, ts_SizeBytes = tc_size_bytes r,
            ts_Attempt = tc_attempt r, ts_Hardware = tc_hardware r, ts_Error = coalesce (tc_error r) [],
            ts_OutputPath = coalesce (tc_output_path r) [], ts_Filed = is_linked db (tc_key r)\<rparr>])"

definition TranscodeJobs :: "int \<Rightarrow> store \<Rightarrow> transcode_summary list" where
  "TranscodeJobs lim db =
     take (limit_or lim 100) (concat (map (summary_of db)
       (sort_key (\<lambda>r. (state_rank (tc_state r), queue_order r)) (transcodes db))))"

definition TranscodeJobByID :: "int \<Rightarrow> store \<Rightarrow> transcode_row option" where
  "TranscodeJobByID i db = List.find (\<lambda>r. tc_id r = i) (transcodes db)"

definition ResetTranscodeAttempts :: "int \<Rightarrow> store \<Rightarrow> store" where
  "ResetTranscodeAttempts i =
     update_transcode i (\<lambda>r. r\<lparr>tc_state := TranscodePending, tc_attempt := 0, tc_started_at := None,
       tc_ended_at := None, tc_error := None\<rparr>)"

section \<open>The keyed tables\<close>

interpretation queue_table: keyed_table tc_id tc_key transcode_fresh transcode_refresh
  by unfold_locales (auto simp: transcode_fresh_def transcode_refresh_def split: prod.splits)

interpretation recorded_table: keyed_table tc_id tc_key recorded_fresh recorded_refresh
  by unfold_locales (auto simp: recorded_fresh_def recorded_refresh_def split: prod.splits)

interpretation link_table: keyed_table l_id link_key link_fresh link_refresh
  by unfold_locales (auto simp: link_fresh_def link_refresh_def)

section \<open>What the operations keep\<close>

lemma transcodes_ok:
  assumes "store_ok db" and "table_ok tc_id tc_key rs" and "tc_disc_id ` set rs \<subseteq> d_id ` set (discs db)"
  shows "store_ok (db\<lparr>transcodes := rs\<rparr>)"
  using assms unfolding store_ok_defs by simp

lemma update_transcode_ok:
  assumes "store_ok db" and "\<And>r. tc_id (f r) = tc_id r" and "\<And>r. tc_key (f r) = tc_key r"
  shows "store_ok (db\<lparr>transcodes := update_where p f (transcodes db)\<rparr>)"
proof (rule transcodes_ok [OF assms(1)])
  show "table_ok tc_id tc_key (update_where p f (transcodes db))"
    by (rule table_ok_update) (use assms in \<open>simp_all add: store_ok_defs\<close>)
  have "tc_disc_id ` set (update_where p f (transcodes db)) = tc_disc_id ` set (transcodes db)"
    by (rule image_update_where) (use assms(3) in simp)
  then show "tc_disc_id ` set (update_where p f (transcodes db)) \<subseteq> d_id ` set (discs db)"
    using assms(1) by (simp add: store_ok_defs)
qed

lemma disc_ids_of_keys: "tc_key ` A = insert (d, t) (tc_key ` B) \<Longrightarrow> tc_disc_id ` A = insert d (tc_disc_id ` B)"
proof -
  assume "tc_key ` A = insert (d, t) (tc_key ` B)"
  then have "fst ` tc_key ` A = fst ` insert (d, t) (tc_key ` B)" by simp
  then show ?thesis by (simp add: image_image)
qed

lemma QueueTranscode_ok: "store_ok db \<Longrightarrow> QueueTranscode now d t p s db = Inr db' \<Longrightarrow> store_ok db'"
proof -
  assume ok: "store_ok db" and q: "QueueTranscode now d t p s db = Inr db'"
  let ?rs = "upsert_where (\<lambda>r. tc_key r = (d, t)) (transcode_refresh (p, s, now))
    (transcode_fresh (next_id tc_id (transcodes db)) (d, t) (p, s, now)) (transcodes db)"
  have d: "d \<in> d_id ` set (discs db)" and db': "db' = db\<lparr>transcodes := ?rs\<rparr>"
    using q by (auto simp: QueueTranscode_def has_disc_iff Let_def split: if_splits)
  have "tc_disc_id ` set ?rs = insert d (tc_disc_id ` set (transcodes db))"
    by (rule disc_ids_of_keys) (rule queue_table.keys_put)
  moreover have "table_ok tc_id tc_key ?rs" by (rule queue_table.put_ok) (use ok in \<open>simp add: store_ok_defs\<close>)
  ultimately show ?thesis unfolding db' using d ok by (intro transcodes_ok) (simp_all add: store_ok_defs)
qed

lemma RecordTranscode_ok: "store_ok db \<Longrightarrow> RecordTranscode now d t p s out n hw db = Inr db' \<Longrightarrow> store_ok db'"
proof -
  assume ok: "store_ok db" and q: "RecordTranscode now d t p s out n hw db = Inr db'"
  let ?v = "(p, s, out, n, hw, now)"
  let ?rs = "upsert_where (\<lambda>r. tc_key r = (d, t)) (recorded_refresh ?v)
    (recorded_fresh (next_id tc_id (transcodes db)) (d, t) ?v) (transcodes db)"
  have d: "d \<in> d_id ` set (discs db)" and db': "db' = db\<lparr>transcodes := ?rs\<rparr>"
    using q by (auto simp: RecordTranscode_def has_disc_iff Let_def split: if_splits)
  have "tc_disc_id ` set ?rs = insert d (tc_disc_id ` set (transcodes db))"
    by (rule disc_ids_of_keys) (rule recorded_table.keys_put)
  moreover have "table_ok tc_id tc_key ?rs" by (rule recorded_table.put_ok) (use ok in \<open>simp add: store_ok_defs\<close>)
  ultimately show ?thesis unfolding db' using d ok by (intro transcodes_ok) (simp_all add: store_ok_defs)
qed

lemma NextTranscode_ok: "store_ok db \<Longrightarrow> NextTranscode now m db = Some (j, db') \<Longrightarrow> store_ok db'"
  by (auto simp: NextTranscode_def update_transcode_def split: list.splits intro!: update_transcode_ok)

lemma settle_ok:
  "store_ok db \<Longrightarrow> store_ok (FinishTranscode now i out n hw db)"
  "store_ok db \<Longrightarrow> store_ok (FailTranscode now i e db)"
  "store_ok db \<Longrightarrow> store_ok (RequeueTranscode i db)"
  "store_ok db \<Longrightarrow> store_ok (ResetTranscodeAttempts i db)"
  "store_ok db \<Longrightarrow> store_ok (snd (ReclaimRunningTranscodes db))"
  by (simp_all add: FinishTranscode_def FailTranscode_def RequeueTranscode_def ResetTranscodeAttempts_def
      ReclaimRunningTranscodes_def update_transcode_def update_transcode_ok)

lemma RecordLibraryLink_ok: "store_ok db \<Longrightarrow> RecordLibraryLink now d t p db = Inr db' \<Longrightarrow> store_ok db'"
proof -
  assume ok: "store_ok db" and q: "RecordLibraryLink now d t p db = Inr db'"
  let ?rs = "upsert_where (\<lambda>r. link_key r = (d, t)) (link_refresh (p, now))
    (link_fresh (next_id l_id (links db)) (d, t) (p, now)) (links db)"
  have d: "d \<in> d_id ` set (discs db)" and db': "db' = db\<lparr>links := ?rs\<rparr>"
    using q by (auto simp: RecordLibraryLink_def has_disc_iff Let_def split: if_splits)
  have "link_key ` set ?rs = insert (d, t) (link_key ` set (links db))" by (rule link_table.keys_put)
  then have "fst ` link_key ` set ?rs = fst ` insert (d, t) (link_key ` set (links db))" by simp
  then have "l_disc_id ` set ?rs = insert d (l_disc_id ` set (links db))" by (simp add: image_image)
  moreover have "table_ok l_id link_key ?rs" by (rule link_table.put_ok) (use ok in \<open>simp add: store_ok_defs\<close>)
  ultimately show ?thesis unfolding db' using d ok unfolding store_ok_defs by simp
qed

section \<open>Every sequence of operations\<close>

text \<open>The operations that change the store, with their arguments. An operation that is refused leaves the
  database as it was.\<close>

datatype store_op =
    OpUpsertDrive int string string string string
  | OpSaveDisc int disc string
  | OpSetDiscRipDir int string
  | OpSetReadPath int string string
  | OpForgetDisc string
  | OpMarkTitleRipped int int int bool
  | OpCreateJob int int int int
  | OpSetJobState int int job_state string
  | OpSetJobProgress int int int
  | OpReclaimUnfinishedJobs int
  | OpLogEvent int string string "int option" "int option"
  | OpQueueTranscode int int int string string
  | OpRecordTranscode int int int string string string int bool
  | OpNextTranscode int int
  | OpFinishTranscode int int string int bool
  | OpFailTranscode int int string
  | OpRequeueTranscode int
  | OpReclaimRunningTranscodes
  | OpResetTranscodeAttempts int
  | OpRecordLibraryLink int int int string

definition or_rollback :: "store \<Rightarrow> store_error + store \<Rightarrow> store" where
  "or_rollback db r = (case r of Inl e \<Rightarrow> db | Inr db' \<Rightarrow> db')"

definition or_rollback2 :: "store \<Rightarrow> store_error + 'a \<times> store \<Rightarrow> store" where
  "or_rollback2 db r = (case r of Inl e \<Rightarrow> db | Inr (a, db') \<Rightarrow> db')"

fun run_op :: "store_op \<Rightarrow> store \<Rightarrow> store" where
  "run_op (OpUpsertDrive now sid dev lab vm) db = or_rollback2 db (UpsertDrive now sid dev lab vm db)"
| "run_op (OpSaveDisc now d raw) db = or_rollback2 db (SaveDisc now d raw db)"
| "run_op (OpSetDiscRipDir i dir) db = SetDiscRipDir i dir db"
| "run_op (OpSetReadPath i p n) db = SetReadPath i p n db"
| "run_op (OpForgetDisc fp) db = or_rollback db (ForgetDisc fp db)"
| "run_op (OpMarkTitleRipped i t n v) db = MarkTitleRipped i t n v db"
| "run_op (OpCreateJob now i dr a) db = or_rollback2 db (CreateJob now i dr a db)"
| "run_op (OpSetJobState now i st e) db = SetJobState now i st e db"
| "run_op (OpSetJobProgress i a b) db = SetJobProgress i a b db"
| "run_op (OpReclaimUnfinishedJobs now) db = snd (ReclaimUnfinishedJobs now db)"
| "run_op (OpLogEvent now l m j d) db = or_rollback db (LogEvent now l m j d db)"
| "run_op (OpQueueTranscode now i t p src) db = or_rollback db (QueueTranscode now i t p src db)"
| "run_op (OpRecordTranscode now i t p src out n hw) db = or_rollback db (RecordTranscode now i t p src out n hw db)"
| "run_op (OpNextTranscode now m) db = (case NextTranscode now m db of None \<Rightarrow> db | Some (j, db') \<Rightarrow> db')"
| "run_op (OpFinishTranscode now i out n hw) db = FinishTranscode now i out n hw db"
| "run_op (OpFailTranscode now i e) db = FailTranscode now i e db"
| "run_op (OpRequeueTranscode i) db = RequeueTranscode i db"
| "run_op OpReclaimRunningTranscodes db = snd (ReclaimRunningTranscodes db)"
| "run_op (OpResetTranscodeAttempts i) db = ResetTranscodeAttempts i db"
| "run_op (OpRecordLibraryLink now i t p) db = or_rollback db (RecordLibraryLink now i t p db)"

lemmas op_ok = UpsertDrive_ok SaveDisc_ok SetDiscRipDir_ok SetReadPath_ok ForgetDisc_ok MarkTitleRipped_ok
  CreateJob_ok SetJobState_ok SetJobProgress_ok ReclaimUnfinishedJobs_ok LogEvent_ok QueueTranscode_ok
  RecordTranscode_ok NextTranscode_ok settle_ok RecordLibraryLink_ok

lemma run_op_ok: "store_ok db \<Longrightarrow> store_ok (run_op c db)"
  by (cases c) (auto simp: or_rollback_def or_rollback2_def split: sum.splits option.splits dest: op_ok)

text \<open>Whatever sequence of operations the daemon runs from an empty database, ids and keys stay
  unique, every job, title, stream, transcode and library link belongs to rows that exist, and no
  forgotten disc is marked with a job that is yet to come.\<close>

theorem store_ok_always: "store_ok (fold run_op ops empty_store)"
proof -
  have "store_ok db \<Longrightarrow> store_ok (fold run_op ops db)" for db
    by (induction ops arbitrary: db) (simp_all add: run_op_ok)
  then show ?thesis using store_ok_empty by blast
qed

section \<open>Claiming\<close>

lemma filter_key_found:
  "table_ok ident key rs \<Longrightarrow> List.find (\<lambda>r. key r = k) rs = Some r \<Longrightarrow> filter (\<lambda>r. key r = k) rs = [r]"
proof -
  have "distinct (map key rs) \<Longrightarrow> List.find (\<lambda>r. key r = k) rs = Some r \<Longrightarrow> filter (\<lambda>r. key r = k) rs = [r]"
    by (induction rs) (auto simp: filter_empty_conv image_iff split: if_splits)
  then show "table_ok ident key rs \<Longrightarrow> List.find (\<lambda>r. key r = k) rs = Some r \<Longrightarrow> filter (\<lambda>r. key r = k) rs = [r]"
    by (simp add: table_ok_def)
qed

lemma sort_key_hd_min:
  assumes "sort_key f xs = r # rs" and "x \<in> set xs"
  shows "f r \<le> f x"
proof -
  have "sorted (map f (r # rs))" using sorted_sort_key [of f xs] by (simp only: assms(1))
  moreover have "x \<in> set (r # rs)" using assms(2) set_sort [of f xs] by (simp only: assms(1))
  ultimately show ?thesis by auto
qed

lemma sort_key_hd_mem: "sort_key f xs = r # rs \<Longrightarrow> r \<in> set xs"
  by (metis list.set_intros(1) set_sort)

lemma NextTranscode_Some:
  assumes "NextTranscode now m db = Some (j, db')"
  shows "\<exists>r. r \<in> set (transcodes db) \<and> claimable m db r
    \<and> (\<forall>x \<in> set (transcodes db). claimable m db x \<longrightarrow> queue_order r \<le> queue_order x)
    \<and> tj_ID j = tc_id r \<and> tj_DiscID j = tc_disc_id r \<and> tj_TitleIndex j = tc_title_index r
    \<and> tj_SourcePath j = tc_source_path r \<and> tj_Attempt j = tc_attempt r + 1
    \<and> db' = update_transcode (tc_id r) (\<lambda>x. x\<lparr>tc_state := TranscodeRunning, tc_attempt := tc_attempt r + 1,
                  tc_started_at := Some now, tc_error := None\<rparr>) db"
proof -
  obtain r rs where s: "sort_key queue_order (filter (claimable m db) (transcodes db)) = r # rs"
    using assms by (auto simp: NextTranscode_def split: list.splits)
  have "r \<in> set (filter (claimable m db) (transcodes db))" by (rule sort_key_hd_mem [OF s])
  moreover have "\<forall>x \<in> set (transcodes db). claimable m db x \<longrightarrow> queue_order r \<le> queue_order x"
    using sort_key_hd_min [OF s] by auto
  ultimately show ?thesis using assms s by (auto simp: NextTranscode_def)
qed

lemma NextTranscode_None: "NextTranscode now m db = None \<longleftrightarrow> filter (claimable m db) (transcodes db) = []"
proof -
  have "sort_key queue_order (filter (claimable m db) (transcodes db)) = [] \<longleftrightarrow>
      filter (claimable m db) (transcodes db) = []"
    by (metis length_0_conv length_sort)
  then show ?thesis by (auto simp: NextTranscode_def split: list.splits)
qed

lemma find_update_transcode:
  assumes "table_ok tc_id tc_key (transcodes db)" and "r \<in> set (transcodes db)" and "\<And>r. tc_id (f r) = tc_id r"
  shows "TranscodeJobByID i (update_transcode (tc_id r) f db) =
    (if i = tc_id r then Some (f r) else TranscodeJobByID i db)"
proof -
  have "List.find (\<lambda>x. tc_id x = i) (update_where (\<lambda>x. tc_id x = tc_id r) f (transcodes db)) =
      map_option (\<lambda>x. if tc_id x = tc_id r then f x else x) (List.find (\<lambda>x. tc_id x = i) (transcodes db))"
    by (rule find_update_where_frame) (simp add: assms(3))
  moreover have "List.find (\<lambda>x. tc_id x = tc_id r) (transcodes db) = Some r"
    by (rule table_ok_ident_find [OF assms(1,2)])
  moreover have "map_option (\<lambda>x. if tc_id x = tc_id r then f x else x) (List.find (\<lambda>x. tc_id x = i) (transcodes db)) =
      List.find (\<lambda>x. tc_id x = i) (transcodes db)" if "i \<noteq> tc_id r"
    using that by (cases "List.find (\<lambda>x. tc_id x = i) (transcodes db)") (auto dest: find_Some_D)
  ultimately show ?thesis by (auto simp: TranscodeJobByID_def update_transcode_def)
qed

text \<open>C5. Claiming a transcode returns nothing exactly when no pending title has attempts left. Otherwise
  it returns the oldest such title, and in the same step that row, and no other, is marked running
  with one more attempt spent, which is still within the budget.\<close>

theorem NextTranscode_claims_oldest:
  assumes "store_ok db"
  shows "case NextTranscode now m db of
      None \<Rightarrow> \<forall>r \<in> set (transcodes db). \<not> claimable m db r
    | Some (j, db') \<Rightarrow> \<exists>r \<in> set (transcodes db). claimable m db r \<and> tj_ID j = tc_id r
        \<and> tj_SourcePath j = tc_source_path r
        \<and> (\<forall>x \<in> set (transcodes db). claimable m db x \<longrightarrow> queue_order r \<le> queue_order x)
        \<and> TranscodeJobByID (tj_ID j) db' = Some (r\<lparr>tc_state := TranscodeRunning,
            tc_attempt := tc_attempt r + 1, tc_started_at := Some now, tc_error := None\<rparr>)
        \<and> tc_attempt r + 1 \<le> m
        \<and> (\<forall>i. i \<noteq> tj_ID j \<longrightarrow> TranscodeJobByID i db' = TranscodeJobByID i db)"
proof (cases "NextTranscode now m db")
  case None
  then have "filter (claimable m db) (transcodes db) = []" by (simp only: NextTranscode_None)
  then show ?thesis unfolding None option.case by (simp add: filter_empty_conv)
next
  case (Some p)
  obtain j db' where p: "p = (j, db')" by (cases p)
  obtain r where r: "r \<in> set (transcodes db)" "claimable m db r"
      "\<forall>x \<in> set (transcodes db). claimable m db x \<longrightarrow> queue_order r \<le> queue_order x"
      "tj_ID j = tc_id r" "tj_SourcePath j = tc_source_path r"
      "db' = update_transcode (tc_id r) (\<lambda>x. x\<lparr>tc_state := TranscodeRunning, tc_attempt := tc_attempt r + 1,
                  tc_started_at := Some now, tc_error := None\<rparr>) db"
    using NextTranscode_Some [OF Some [unfolded p]] by blast
  have "table_ok tc_id tc_key (transcodes db)" using assms by (simp add: store_ok_defs)
  note look = find_update_transcode [OF this r(1)]
  have "tc_attempt r + 1 \<le> m" using r(2) by (simp add: claimable_def)
  then show ?thesis unfolding Some p option.case prod.case
    using r look by (intro bexI [of _ r]) (auto simp: r(6))
qed

definition queued_store :: store where
  "queued_store = fold run_op [OpQueueTranscode 300 1 1 ''default'' ''/rips/alien/title_t01.mkv'',
     OpQueueTranscode 300 1 0 ''default'' ''/rips/alien/title_t00.mkv''] sample_store"

lemma queued_store_ok: "store_ok queued_store"
  by code_simp

theorem NextTranscode_claims_oldest_witness:
  "store_ok queued_store \<and> (\<exists>j db'. NextTranscode 301 2 queued_store = Some (j, db') \<and> tj_TitleIndex j = 0
     \<and> (\<exists>r \<in> set (transcodes queued_store). claimable 2 queued_store r \<and> tj_ID j = tc_id r
          \<and> tc_attempt r + 1 \<le> 2))"
proof -
  have "map_option (\<lambda>p. tj_TitleIndex (fst p)) (NextTranscode 301 2 queued_store) = Some 0" by code_simp
  then obtain j db' where j: "NextTranscode 301 2 queued_store = Some (j, db')" "tj_TitleIndex j = 0" by auto
  show ?thesis
    using NextTranscode_claims_oldest [OF queued_store_ok, of 2 301] j queued_store_ok by auto
qed

text \<open>Queuing a title of a known disc always succeeds and leaves exactly one row for it, pending and
  with the attempts it had already spent: it will be picked up again exactly when those are still
  within the budget.\<close>

theorem QueueTranscode_keeps_one_row:
  assumes "store_ok db" and "has_disc db d"
  shows "\<exists>db' r. QueueTranscode now d t p src db = Inr db' \<and> store_ok db'
    \<and> filter (\<lambda>r. tc_key r = (d, t)) (transcodes db') = [r]
    \<and> tc_state r = TranscodePending \<and> tc_source_path r = src
    \<and> tc_attempt r = (case List.find (\<lambda>r. tc_key r = (d, t)) (transcodes db) of None \<Rightarrow> 0 | Some r0 \<Rightarrow> tc_attempt r0)
    \<and> (claimable m db' r \<longleftrightarrow> tc_attempt r < m)"
proof -
  let ?v = "(p, src, now)"
  let ?rs = "upsert_where (\<lambda>r. tc_key r = (d, t)) (transcode_refresh ?v)
    (transcode_fresh (next_id tc_id (transcodes db)) (d, t) ?v) (transcodes db)"
  let ?r = "case List.find (\<lambda>r. tc_key r = (d, t)) (transcodes db) of
    None \<Rightarrow> transcode_fresh (next_id tc_id (transcodes db)) (d, t) ?v | Some r \<Rightarrow> transcode_refresh ?v r"
  let ?db = "db\<lparr>transcodes := ?rs\<rparr>"
  have q: "QueueTranscode now d t p src db = Inr ?db" using assms(2) by (simp add: QueueTranscode_def Let_def)
  have ok: "store_ok ?db" by (rule QueueTranscode_ok [OF assms(1) q])
  have found: "List.find (\<lambda>r. tc_key r = (d, t)) ?rs = Some ?r" by (rule queue_table.lookup_put_same)
  have "table_ok tc_id tc_key ?rs" using ok by (simp add: store_ok_defs)
  then have "filter (\<lambda>r. tc_key r = (d, t)) ?rs = [?r]" by (rule filter_key_found [OF _ found])
  moreover have "tc_disc_id ?r = d" using find_Some_D [OF found] by simp
  moreover have "tc_state ?r = TranscodePending \<and> tc_source_path ?r = src
      \<and> tc_attempt ?r = (case List.find (\<lambda>r. tc_key r = (d, t)) (transcodes db) of None \<Rightarrow> 0 | Some r0 \<Rightarrow> tc_attempt r0)"
    by (cases "List.find (\<lambda>r. tc_key r = (d, t)) (transcodes db)") (simp_all add: transcode_fresh_def transcode_refresh_def)
  moreover have "has_disc ?db d" using assms(2) by (simp add: has_disc_def)
  ultimately show ?thesis using q ok by (intro exI [of _ ?db] exI [of _ ?r]) (simp add: claimable_def)
qed

theorem QueueTranscode_keeps_one_row_witness:
  "store_ok queued_store \<and> has_disc queued_store 1
   \<and> (\<exists>db' r. QueueTranscode 400 1 0 ''default'' ''/rips/alien/title_t00.mkv'' queued_store = Inr db'
        \<and> filter (\<lambda>r. tc_key r = (1, 0)) (transcodes db') = [r] \<and> claimable 2 db' r)"
proof -
  have d: "has_disc queued_store 1" by code_simp
  have "map_option tc_attempt (List.find (\<lambda>r. tc_key r = (1, 0)) (transcodes queued_store)) = Some 0" by code_simp
  then obtain r0 where r0: "List.find (\<lambda>r. tc_key r = (1, 0)) (transcodes queued_store) = Some r0" "tc_attempt r0 = 0"
    by auto
  from QueueTranscode_keeps_one_row [OF queued_store_ok d, of 400 0 "''default''" "''/rips/alien/title_t00.mkv''" 2]
  have "\<exists>db' r. QueueTranscode 400 1 0 ''default'' ''/rips/alien/title_t00.mkv'' queued_store = Inr db'
        \<and> filter (\<lambda>r. tc_key r = (1, 0)) (transcodes db') = [r] \<and> claimable 2 db' r"
    unfolding r0(1) option.case r0(2) by force
  then show ?thesis using d queued_store_ok by blast
qed

section \<open>The queue as the runner sees it\<close>

locale claim_queue =
  fixes valid :: "'s \<Rightarrow> bool"
    and waiting :: "'s \<Rightarrow> nat"
    and claim :: "'s \<Rightarrow> ('j \<times> 's) option"
    and settle :: "'o \<Rightarrow> 'j \<Rightarrow> 's \<Rightarrow> 's"
    and settles :: "'o \<Rightarrow> bool"
  assumes claim_valid: "valid s \<Longrightarrow> claim s = Some (j, s') \<Longrightarrow> valid s'"
    and claim_None: "valid s \<Longrightarrow> claim s = None \<longleftrightarrow> waiting s = 0"
    and claim_takes: "valid s \<Longrightarrow> claim s = Some (j, s') \<Longrightarrow> waiting s = Suc (waiting s')"
    and settle_valid: "valid s \<Longrightarrow> claim s = Some (j, s') \<Longrightarrow> valid (settle x j s')"
    and settle_waiting: "valid s \<Longrightarrow> claim s = Some (j, s') \<Longrightarrow>
          waiting (settle x j s') = (if settles x then waiting s' else waiting s)"
begin

fun drain :: "(nat \<Rightarrow> 'o) \<Rightarrow> nat \<Rightarrow> nat \<Rightarrow> 's \<Rightarrow> 's option" where
  "drain out k 0 s = None"
| "drain out k (Suc fuel) s =
     (case claim s of
        None \<Rightarrow> Some s
      | Some (j, s') \<Rightarrow> drain out (Suc k) fuel (settle (out k) j s'))"

definition put_back :: "(nat \<Rightarrow> 'o) \<Rightarrow> nat \<Rightarrow> nat set" where
  "put_back out k = {i. k \<le> i \<and> \<not> settles (out i)}"

lemma put_back_step:
  assumes "finite (put_back out k)"
  shows "card (put_back out k) = (if settles (out k) then 0 else 1) + card (put_back out (Suc k))"
proof -
  have "put_back out k = (if settles (out k) then {} else {k}) \<union> put_back out (Suc k)"
    by (auto simp: put_back_def Suc_le_eq le_less)
  moreover have "k \<notin> put_back out (Suc k)" by (simp add: put_back_def)
  ultimately show ?thesis using assms by auto
qed

lemma put_back_finite: "finite (put_back out k) \<Longrightarrow> finite (put_back out (Suc k))"
  by (rule finite_subset) (auto simp: put_back_def)

text \<open>The loop ends: it makes one pass per waiting job and one more per job that was put back.\<close>

theorem drain_returns:
  assumes "valid s" and "finite (put_back out k)" and "waiting s + card (put_back out k) < fuel"
  shows "\<exists>s'. drain out k fuel s = Some s' \<and> valid s' \<and> waiting s' = 0"
  using assms
proof (induction out k fuel s rule: drain.induct)
  case (1 out k s)
  then show ?case by simp
next
  case (2 out k fuel s)
  show ?case
  proof (cases "claim s")
    case None
    then have "waiting s = 0" using claim_None [OF "2.prems"(1)] by simp
    then show ?thesis using None "2.prems"(1) by simp
  next
    case (Some p)
    obtain j s' where p: "p = (j, s')" by (cases p)
    let ?s = "settle (out k) j s'"
    have c: "claim s = Some (j, s')" using Some p by simp
    have "valid ?s" by (rule settle_valid [OF "2.prems"(1) c])
    moreover have "waiting ?s + card (put_back out (Suc k)) < fuel"
      using settle_waiting [OF "2.prems"(1) c] claim_takes [OF "2.prems"(1) c]
        put_back_step [OF "2.prems"(2)] "2.prems"(3)
      by (auto split: if_splits)
    ultimately show ?thesis
      using "2.IH" [OF Some p [symmetric]] put_back_finite [OF "2.prems"(2)] Some p by simp
  qed
qed

end

section \<open>How the store's operations move the queue\<close>

definition waiting :: "int \<Rightarrow> store \<Rightarrow> nat" where
  "waiting m db = length (filter (claimable m db) (transcodes db))"

lemma claimable_cong: "discs db' = discs db \<Longrightarrow> claimable m db' = claimable m db"
  by (rule ext) (simp add: claimable_def has_disc_def)

lemma waiting_cong: "discs db' = discs db \<Longrightarrow> transcodes db' = transcodes db \<Longrightarrow> waiting m db' = waiting m db"
  by (simp add: waiting_def claimable_cong [of db' db m])

lemma waiting_update:
  assumes "store_ok db" and "r \<in> set (transcodes db)"
  shows "waiting m (update_transcode (tc_id r) f db) + (if claimable m db r then 1 else 0)
    = waiting m db + (if claimable m db (f r) then 1 else 0)"
proof -
  have "claimable m (update_transcode (tc_id r) f db) = claimable m db"
    by (rule claimable_cong) (simp add: update_transcode_def)
  moreover have "distinct (map tc_id (transcodes db))" using assms(1) by (simp add: store_ok_defs table_ok_def)
  from count_update_one [OF this assms(2), of "claimable m db" f]
  have "length (filter (claimable m db) (update_where (\<lambda>x. tc_id x = tc_id r) f (transcodes db)))
      + (if claimable m db r then 1 else 0) = waiting m db + (if claimable m db (f r) then 1 else 0)"
    by (simp add: waiting_def)
  ultimately show ?thesis by (simp add: waiting_def update_transcode_def)
qed

lemma waiting_None: "NextTranscode now m db = None \<longleftrightarrow> waiting m db = 0"
  by (simp add: NextTranscode_None waiting_def)

text \<open>A claimed job: its row is running, within the budget, and no longer waiting.\<close>

lemma claimed_row:
  assumes "store_ok db" and "NextTranscode now m db = Some (j, db')"
  obtains r where "r \<in> set (transcodes db')" "tc_id r = tj_ID j" "tc_state r = TranscodeRunning"
    "0 \<le> tc_attempt r - 1 \<longrightarrow> tc_attempt r - 1 < m" "tc_attempt r \<le> m" "has_disc db' (tc_disc_id r)"
    "waiting m db = Suc (waiting m db')"
proof -
  obtain r where r: "r \<in> set (transcodes db)" "claimable m db r" "tj_ID j = tc_id r"
    "db' = update_transcode (tc_id r) (\<lambda>x. x\<lparr>tc_state := TranscodeRunning, tc_attempt := tc_attempt r + 1,
                  tc_started_at := Some now, tc_error := None\<rparr>) db"
    using NextTranscode_Some [OF assms(2)] by blast
  let ?r = "r\<lparr>tc_state := TranscodeRunning, tc_attempt := tc_attempt r + 1, tc_started_at := Some now, tc_error := None\<rparr>"
  have "\<not> claimable m db ?r" by (simp add: claimable_def)
  then have "waiting m db = Suc (waiting m db')"
    using waiting_update [OF assms(1) r(1), of m "\<lambda>x. x\<lparr>tc_state := TranscodeRunning, tc_attempt := tc_attempt r + 1,
                  tc_started_at := Some now, tc_error := None\<rparr>"] r(2,4) by simp
  moreover have "?r \<in> set (transcodes db')" using r(1) by (auto simp: r(4) update_transcode_def update_where_def)
  moreover have "has_disc db' (tc_disc_id ?r)" using r(2) by (simp add: r(4) update_transcode_def claimable_def has_disc_def)
  ultimately show thesis using that [of ?r] r(2,3) by (simp add: claimable_def)
qed

lemma waiting_settled:
  assumes "store_ok db" and "NextTranscode now m db = Some (j, db')" and "0 < m"
  shows "waiting m (FinishTranscode now' (tj_ID j) out n hw db') = waiting m db'"
    and "waiting m (FailTranscode now' (tj_ID j) e db') = waiting m db'"
    and "waiting m (RequeueTranscode (tj_ID j) db') = waiting m db"
proof -
  obtain r where r: "r \<in> set (transcodes db')" "tc_id r = tj_ID j" "tc_state r = TranscodeRunning"
    "0 \<le> tc_attempt r - 1 \<longrightarrow> tc_attempt r - 1 < m" "tc_attempt r \<le> m" "has_disc db' (tc_disc_id r)"
    "waiting m db = Suc (waiting m db')"
    by (rule claimed_row [OF assms(1,2)])
  have ok: "store_ok db'" by (rule NextTranscode_ok [OF assms(1,2)])
  have nc: "\<not> claimable m db' r" using r(3) by (simp add: claimable_def)
  have upd: "waiting m (update_transcode (tj_ID j) f db') = waiting m db' + (if claimable m db' (f r) then 1 else 0)" for f
    using waiting_update [OF ok r(1), of m f] nc by (simp add: r(2))
  show "waiting m (FinishTranscode now' (tj_ID j) out n hw db') = waiting m db'"
    by (simp add: FinishTranscode_def upd) (simp add: claimable_def)
  show "waiting m (FailTranscode now' (tj_ID j) e db') = waiting m db'"
    by (simp add: FailTranscode_def upd) (simp add: claimable_def)
  show "waiting m (RequeueTranscode (tj_ID j) db') = waiting m db"
    using r(4-7) assms(3) by (simp add: RequeueTranscode_def upd) (auto simp: claimable_def)
qed

section \<open>Restarts\<close>

text \<open>A restart in the middle of an encode loses nothing: after it no transcode is left running, a
  title that had been claimed within the budget can be claimed again, with the attempts it had before
  the claim, and every other row is as it was.\<close>

theorem ReclaimRunningTranscodes_gives_back:
  "let db' = snd (ReclaimRunningTranscodes db)
   in list_all (\<lambda>r. tc_state r \<noteq> TranscodeRunning) (transcodes db')
      \<and> list_all2 (\<lambda>r r'. if tc_state r = TranscodeRunning
            then tc_id r' = tc_id r \<and> tc_attempt r' = max (tc_attempt r - 1) 0
                 \<and> (claimable m db' r' \<longleftrightarrow> has_disc db (tc_disc_id r) \<and> 0 < m \<and> tc_attempt r \<le> m)
            else r' = r) (transcodes db) (transcodes db')"
proof -
  have "has_disc (snd (ReclaimRunningTranscodes db)) i = has_disc db i" for i
    by (simp add: ReclaimRunningTranscodes_def has_disc_def)
  then show ?thesis
    by (auto simp: Let_def list_all_iff list_all2_conv_all_nth ReclaimRunningTranscodes_def update_where_def
        claimable_def)
qed

end
