(* ===== verification/Drive_Status.thy ===== *)
theory Drive_Status
  imports Drive Disc
begin

text \<open>
  The state a drive's worker shows the outside: \<^verbatim>\<open>DriveState\<close> and \<^verbatim>\<open>DriveSnapshot\<close> of
  \<^verbatim>\<open>internal/proto/drive.go\<close> and the operations of \<^verbatim>\<open>internal/daemon/state.go\<close> on them. The progress fraction
  and the time estimate, which are floating-point, are left out.
\<close>

datatype drive_state = StateAbsent | StateEmpty | StateTrayOpen | StateLoading | StateIncompatible
  | StateQueued | StateScanning | StateDecrypting | StateRipping | StateVerifying | StateComplete
  | StateDuplicate | StateFailed | StateCancelled | StateEjecting

definition Terminal :: "drive_state \<Rightarrow> bool" where
  "Terminal s \<longleftrightarrow> s \<in> {StateComplete, StateDuplicate, StateFailed, StateIncompatible, StateCancelled}"

definition Busy :: "drive_state \<Rightarrow> bool" where
  "Busy s \<longleftrightarrow> s \<in> {StateQueued, StateScanning, StateDecrypting, StateRipping, StateVerifying, StateEjecting}"

record drive_snapshot =
  sp_State :: drive_state
  sp_DiscLabel :: string
  sp_Fingerprint :: string
  sp_RipDir :: string
  sp_TitleCount :: int
  sp_TitlesDone :: int
  sp_CurrentTitle :: int
  sp_Operation :: string
  sp_Error :: string
  sp_Attempt :: int

record drive_status =
  st_snap :: drive_snapshot
  st_secsDone :: int
  st_secsTotal :: int

definition newDriveStatus :: drive_status where
  "newDriveStatus =
     \<lparr>st_snap = \<lparr>sp_State = StateEmpty, sp_DiscLabel = [], sp_Fingerprint = [], sp_RipDir = [], sp_TitleCount = 0,
        sp_TitlesDone = 0, sp_CurrentTitle = 0, sp_Operation = [], sp_Error = [], sp_Attempt = 0\<rparr>,
      st_secsDone = 0, st_secsTotal = 0\<rparr>"

definition at_rest :: "drive_state \<Rightarrow> bool" where
  "at_rest s \<longleftrightarrow> s = StateEmpty \<or> s = StateTrayOpen \<or> s = StateAbsent"

text \<open>\<^verbatim>\<open>setState\<close>; the first argument of \<^verbatim>\<open>set_state_unless\<close> says whether the drive is in that state already.\<close>

fun set_state_unless :: "bool \<Rightarrow> drive_state \<Rightarrow> drive_status \<Rightarrow> drive_status" where
  "set_state_unless True s d = d"
| "set_state_unless False s d =
     (if at_rest s then
        d\<lparr>st_snap := (st_snap d)\<lparr>sp_State := s, sp_DiscLabel := [], sp_Fingerprint := [], sp_RipDir := [], sp_TitleCount := 0,
            sp_TitlesDone := 0, sp_CurrentTitle := 0, sp_Operation := [], sp_Error := [], sp_Attempt := 0\<rparr>,
          st_secsDone := 0, st_secsTotal := 0\<rparr>
      else d\<lparr>st_snap := (st_snap d)\<lparr>sp_State := s\<rparr>\<rparr>)"

definition setState :: "drive_state \<Rightarrow> drive_status \<Rightarrow> drive_status" where
  "setState s d = set_state_unless (sp_State (st_snap d) = s) s d"

definition update_snap :: "(drive_snapshot \<Rightarrow> drive_snapshot) \<Rightarrow> drive_status \<Rightarrow> drive_status" where
  "update_snap f d = d\<lparr>st_snap := f (st_snap d)\<rparr>"

definition beginRip :: "int \<Rightarrow> drive_status \<Rightarrow> drive_status" where
  "beginRip secsTotal d = d\<lparr>st_secsTotal := secsTotal, st_secsDone := 0\<rparr>"

definition titleDone :: "int \<Rightarrow> drive_status \<Rightarrow> drive_status" where
  "titleDone durationSecs d =
     d\<lparr>st_secsDone := st_secsDone d + durationSecs,
       st_snap := (st_snap d)\<lparr>sp_TitlesDone := sp_TitlesDone (st_snap d) + 1, sp_Operation := []\<rparr>\<rparr>"

definition setProgress :: "int \<Rightarrow> string \<Rightarrow> drive_status \<Rightarrow> drive_status" where
  "setProgress titleIndex operation d =
     d\<lparr>st_snap := (st_snap d)\<lparr>sp_CurrentTitle := titleIndex, sp_Operation := operation\<rparr>\<rparr>"

abbreviation state_of :: "drive_status \<Rightarrow> drive_state" where
  "state_of d \<equiv> sp_State (st_snap d)"

lemma state_setState [simp, status_simps]: "state_of (setState s d) = s"
  by (cases "state_of d = s") (simp_all add: setState_def)

lemma state_update_snap [status_simps]: "(\<And>x. sp_State (f x) = sp_State x) \<Longrightarrow> state_of (update_snap f d) = state_of d"
  by (simp add: update_snap_def)

lemma state_progress [simp, status_simps]:
  "state_of (beginRip n d) = state_of d" "state_of (titleDone n d) = state_of d" "state_of (setProgress i t d) = state_of d"
  by (simp_all add: beginRip_def titleDone_def setProgress_def)

text \<open>A drive at rest shows nothing of the disc it had: in a resting state every per-disc field is clear. It
  holds at the start, every change of state keeps it, and the updates made while a disc is being worked
  on cannot break it, because the drive is not at rest then.\<close>

definition rest_is_clear :: "drive_status \<Rightarrow> bool" where
  "rest_is_clear d \<longleftrightarrow> (at_rest (state_of d) \<longrightarrow>
     sp_DiscLabel (st_snap d) = [] \<and> sp_Fingerprint (st_snap d) = [] \<and> sp_RipDir (st_snap d) = []
     \<and> sp_TitleCount (st_snap d) = 0 \<and> sp_TitlesDone (st_snap d) = 0 \<and> sp_CurrentTitle (st_snap d) = 0
     \<and> sp_Operation (st_snap d) = [] \<and> sp_Error (st_snap d) = [] \<and> sp_Attempt (st_snap d) = 0)"

lemma rest_is_clear_new: "rest_is_clear newDriveStatus"
  by (simp add: rest_is_clear_def newDriveStatus_def)

lemma rest_is_clear_setState: "rest_is_clear d \<Longrightarrow> rest_is_clear (setState s d)"
  by (cases "state_of d = s") (auto simp: rest_is_clear_def setState_def)

lemma rest_is_clear_busy: "\<not> at_rest (state_of d) \<Longrightarrow> rest_is_clear d"
  by (simp add: rest_is_clear_def)

lemma terminal_not_busy: "Terminal s \<Longrightarrow> \<not> Busy s \<and> \<not> at_rest s"
  by (auto simp: Terminal_def Busy_def at_rest_def)

end
