(* ===== verification/Worker.thy ===== *)
theory Worker
  imports Transcode_Store Drive_Status Config
begin

text \<open>
  The drive worker of \<^verbatim>\<open>internal/daemon/worker.go\<close>, from a disc's insertion to an open tray, and its
  Blu-ray pipeline (\<^verbatim>\<open>bluray.go\<close>): the whole of \<^verbatim>\<open>handleEvent\<close>, \<^verbatim>\<open>handleDisc\<close>, \<^verbatim>\<open>scanWithRetry\<close>, \<^verbatim>\<open>rip\<close>,
  \<^verbatim>\<open>ripSource\<close>, \<^verbatim>\<open>makeRipDir\<close>, \<^verbatim>\<open>fail\<close>, \<^verbatim>\<open>ejectNow\<close> and \<^verbatim>\<open>handleBluRay\<close>, over the store, the drive's status
  and the rips directory.

  What the outside does to one disc is an argument, \<^verbatim>\<open>disc_env\<close>: how each scan, each title, the
  decrypt and the eject went, and whether the work had been cancelled by the time each of them
  returned. \<^verbatim>\<open>wk_cancelled\<close> is \<^verbatim>\<open>ctx.Err() != nil\<close>: a statement run under a cancelled context does
  nothing, as in \<^verbatim>\<open>with_ctx\<close>. The log keeps the level of each line.
\<close>

section \<open>State and environment\<close>

datatype work_error = ErrCancelled | ErrDiscGone | ErrText string

fun error_text :: "work_error \<Rightarrow> string" where
  "error_text ErrCancelled = ''cancelled''"
| "error_text ErrDiscGone = ''the disc was removed before it could be read''"
| "error_text (ErrText t) = t"

fun store_error_text :: "store_error \<Rightarrow> string" where
  "store_error_text ErrNoRows = ''sql: no rows in result set''"
| "store_error_text ErrForeignKey = ''FOREIGN KEY constraint failed''"
| "store_error_text ErrCanceled = ''context canceled''"
| "store_error_text (ErrNoDisc f) = ''no disc with fingerprint '' @ f"
| "store_error_text (ErrVersion v) = ''unsupported schema version '' @ int_str v"

record output_file =
  of_size :: int
  of_open_error :: "string option"
  of_header :: "byte list"

record title_try =
  tt_result :: "string + string \<times> int \<times> (string + output_file)"
  tt_cancelled :: bool
  tt_native :: "string option"

record scan_try =
  sc_result :: "string + disc \<times> string"
  sc_cancelled :: bool
  sc_gone :: "bool option"
  sc_wait_cancelled :: bool

datatype slot = SlotFree | SlotWaited | SlotStopped

record bluray_env =
  be_label :: "string option"
  be_probe :: "string + int"
  be_probe_cancelled :: bool
  be_encode :: "string + int \<times> bool"
  be_encode_cancelled :: bool

record disc_env =
  ev_stopped :: bool
  ev_slot :: slot
  ev_kind :: "disc_kind option"
  ev_scans :: "nat \<Rightarrow> scan_try"
  ev_region :: "region option"
  ev_protection :: "protection option"
  ev_dec_missing :: "string option"
  ev_existing :: "(string \<times> int) option"
  ev_mirror :: "string + string \<times> int"
  ev_mirror_cancelled :: bool
  ev_rescan :: "string + disc \<times> string"
  ev_rescan_cancelled :: bool
  ev_mkdir :: "string \<Rightarrow> string option"
  ev_riplog :: "string option"
  ev_json :: "string option"
  ev_scanfile :: "string option"
  ev_titles :: "nat \<Rightarrow> title_try"
  ev_eject_ok :: bool
  ev_bluray :: bluray_env

text \<open>The worker. \<^verbatim>\<open>wk_dirs\<close> is what is under the rips directory: nothing, an empty directory (\<^const>\<open>True\<close>), or
  something that is not one. \<^verbatim>\<open>wk_handed_on\<close> are the calls of \<^verbatim>\<open>onRipped\<close> and \<^verbatim>\<open>wk_bluray_done\<close> those of
  \<^verbatim>\<open>onBluRayDone\<close>.\<close>

record worker =
  wk_device :: string
  wk_driveID :: int
  wk_describe :: string
  wk_status :: drive_status
  wk_db :: store
  wk_dirs :: "string \<Rightarrow> bool option"
  wk_cancelled :: bool
  wk_cancellable :: bool
  wk_tray_opened :: bool
  wk_discarded :: "string list"
  wk_handed_on :: "(int \<times> string \<times> title list) list"
  wk_bluray_done :: "(int \<times> int \<times> string) list"
  wk_published :: "(string \<times> disc \<times> string) list"
  wk_log :: "string list"

definition logf :: "string \<Rightarrow> worker \<Rightarrow> worker" where
  "logf level w = w\<lparr>wk_log := wk_log w @ [level]\<rparr>"

definition with_status :: "(drive_status \<Rightarrow> drive_status) \<Rightarrow> worker \<Rightarrow> worker" where
  "with_status f w = w\<lparr>wk_status := f (wk_status w)\<rparr>"

text \<open>A statement whose error is ignored, run under the worker's context.\<close>

definition exec :: "(store \<Rightarrow> store) \<Rightarrow> worker \<Rightarrow> worker" where
  "exec f w = (if wk_cancelled w then w else w\<lparr>wk_db := f (wk_db w)\<rparr>)"

text \<open>Bookkeeping that follows a cancellation has a context of its own (\<^verbatim>\<open>afterCancel\<close>).\<close>

definition exec_after_cancel :: "(store \<Rightarrow> store) \<Rightarrow> worker \<Rightarrow> worker" where
  "exec_after_cancel f w = w\<lparr>wk_db := f (wk_db w)\<rparr>"

definition note_cancel :: "bool \<Rightarrow> worker \<Rightarrow> worker" where
  "note_cancel c w = w\<lparr>wk_cancelled := wk_cancelled w \<or> c\<rparr>"

section \<open>Messages\<close>

text \<open>\<^verbatim>\<open>humanBytes\<close>: one decimal, rounded half to even; a byte count below \<^verbatim>\<open>2^53\<close> is exact as a \<^verbatim>\<open>float64\<close>.\<close>

definition round_even :: "int \<Rightarrow> int \<Rightarrow> int" where
  "round_even a b = (let q = a div b; r = a mod b
     in if 2 * r > b \<or> (2 * r = b \<and> odd q) then q + 1 else q)"

fun human_scale :: "nat \<Rightarrow> int \<Rightarrow> int \<Rightarrow> nat \<Rightarrow> int \<times> nat" where
  "human_scale 0 v dv e = (dv, e)"
| "human_scale (Suc fuel) v dv e = (if v \<ge> 1024 then human_scale fuel (v div 1024) (dv * 1024) (Suc e) else (dv, e))"

definition humanBytes :: "int \<Rightarrow> string" where
  "humanBytes n =
     (if n < 1024 then int_str n @ '' B''
      else case human_scale 6 (n div 1024) 1024 0 of (dv, e) \<Rightarrow>
        (let t = round_even (10 * n) dv
         in int_str (t div 10) @ ''.'' @ int_str (t mod 10) @ '' '' @ [''KMGTP'' ! e] @ ''B''))"

text \<open>\<^verbatim>\<open>time.Duration.String\<close> on whole seconds.\<close>

definition durationOf :: "int \<Rightarrow> string" where
  "durationOf secs =
     (let a = \<bar>secs\<bar>; sign = (if secs < 0 then ''-'' else []);
          h = a div 3600; m = (a div 60) mod 60; s = a mod 60
      in sign @ (if h > 0 then int_str h @ ''h'' @ int_str m @ ''m'' @ int_str s @ ''s''
                 else if m > 0 then int_str m @ ''m'' @ int_str s @ ''s'' else int_str s @ ''s''))"

section \<open>Ending\<close>

definition ejectNow :: "config \<Rightarrow> disc_env \<Rightarrow> worker \<Rightarrow> worker" where
  "ejectNow cfg env w =
     (if \<not> EjectOnSuccess cfg then w
      else let w1 = with_status (setState StateEjecting) w
           in if ev_eject_ok env then with_status (setState StateTrayOpen) (w1\<lparr>wk_tray_opened := True\<rparr>)
              else logf ''warn'' w1)"

definition fail :: "config \<Rightarrow> disc_env \<Rightarrow> string \<Rightarrow> worker \<Rightarrow> worker" where
  "fail cfg env msg w =
     (let w1 = logf ''error'' (with_status (\<lambda>s. setState StateFailed (update_snap (\<lambda>x. x\<lparr>sp_Error := msg\<rparr>) s)) w)
      in if EjectOnFailure cfg then ejectNow cfg env w1 else logf ''warn'' w1)"

section \<open>Rip directories\<close>

function rip_dir_from :: "(string \<Rightarrow> string option) \<Rightarrow> string \<Rightarrow> string \<Rightarrow> nat \<Rightarrow> (string \<Rightarrow> bool option)
    \<Rightarrow> (string + string) \<times> (string \<Rightarrow> bool option)" where
  "rip_dir_from mkerr base candidate i dirs =
     (case dirs candidate of
        None \<Rightarrow>
          (case mkerr candidate of
             Some e \<Rightarrow> (Inl (''create rip directory '' @ candidate @ '': '' @ e), dirs)
           | None \<Rightarrow> (Inr candidate, dirs(candidate \<mapsto> True)))
      | Some True \<Rightarrow> (Inr candidate, dirs)
      | Some False \<Rightarrow>
          if i > 50 then (Inl (''too many existing rip directories for '' @ base), dirs)
          else rip_dir_from mkerr base (base @ ''-'' @ nat_str i) (Suc i) dirs)"
  by pat_completeness auto
termination
  by (relation "measure (\<lambda>(mkerr, base, candidate, i, dirs). 51 - i)") auto

declare rip_dir_from.simps [simp del]

definition makeRipDir :: "config \<Rightarrow> disc_env \<Rightarrow> date \<Rightarrow> disc \<Rightarrow> worker \<Rightarrow> (string + string) \<times> worker" where
  "makeRipDir cfg env today d w =
     (let base = Join [RipsDir cfg, DirName today d]
      in case rip_dir_from (ev_mkdir env) base base 2 (wk_dirs w) of (r, dirs) \<Rightarrow> (r, w\<lparr>wk_dirs := dirs\<rparr>))"

section \<open>Checking what was written\<close>

definition ebmlMagic :: "byte list" where
  "ebmlMagic = [0x1A, 0x45, 0xDF, 0xA3]"

definition verifyOutput :: "string + output_file \<Rightarrow> int \<Rightarrow> string option" where
  "verifyOutput out minBytes =
     (case out of
        Inl e \<Rightarrow> Some (''output missing: '' @ e)
      | Inr f \<Rightarrow>
          if of_size f < minBytes then
            Some (''output is '' @ humanBytes (of_size f) @ '', below the '' @ humanBytes minBytes @ '' floor for a real title'')
          else case of_open_error f of
            Some e \<Rightarrow> Some (''open output: '' @ e)
          | None \<Rightarrow>
              if of_header f = [] then Some ''read output header: EOF''
              else if take 4 (of_header f @ replicate 4 0) \<noteq> ebmlMagic
                then Some ''output is not a Matroska file (bad EBML header)''
              else None)"

section \<open>Where titles are read from\<close>

datatype source = DeviceSource string | FolderSource string

definition IsFolder :: "source \<Rightarrow> bool" where
  "IsFolder s = (case s of DeviceSource p \<Rightarrow> False | FolderSource p \<Rightarrow> True)"

definition decryptNeeded :: "disc_env \<Rightarrow> worker \<Rightarrow> string option \<times> worker" where
  "decryptNeeded env w =
     (case ev_region env of
        None \<Rightarrow> (None, logf ''warn'' w)
      | Some region \<Rightarrow>
          (case ev_protection env of
             None \<Rightarrow> (None, logf ''warn'' w)
           | Some prot \<Rightarrow>
               if PlayableIn prot region then (None, w)
               else (Some (''this disc is '' @ Protection_String prot @ '' and the drive is '' @ Region_String region), w)))"

text \<open>The result carries the decrypted copy's folder when there is one, which is what \<^verbatim>\<open>discard\<close> removes.\<close>

definition ripSource :: "config \<Rightarrow> disc_env \<Rightarrow> worker \<Rightarrow> (work_error + source \<times> string option) \<times> worker" where
  "ripSource cfg env w =
     (let fromDrive = DeviceSource (wk_device w)
      in case decryptNeeded env w of (reason, w1) \<Rightarrow>
        if NativeDVD cfg then
          (Inr (fromDrive, None), case reason of None \<Rightarrow> w1 | Some r \<Rightarrow> logf ''info'' w1)
        else case reason of
          None \<Rightarrow> (Inr (fromDrive, None), w1)
        | Some r \<Rightarrow>
            if \<not> DecryptFallback cfg then (Inl (ErrText (r @ '', and decrypt_fallback is off'')), w1)
            else case ev_dec_missing env of
              Some e \<Rightarrow> (Inl (ErrText (r @ '', and the disc cannot be decrypted to disk either: '' @ e)), w1)
            | None \<Rightarrow>
                (case ev_existing env of
                   Some (folder, n) \<Rightarrow> (Inr (FolderSource folder, Some folder), logf ''info'' w1)
                 | None \<Rightarrow>
                     (let w2 = note_cancel (ev_mirror_cancelled env)
                                 (with_status (\<lambda>s. setProgress 0 ''decrypting'' (setState StateDecrypting s)) (logf ''info'' w1))
                      in case ev_mirror env of
                           Inl e \<Rightarrow> if wk_cancelled w2 then (Inl ErrCancelled, w2)
                                    else (Inl (ErrText (''decrypting the disc to disk: '' @ e)), w2)
                         | Inr (folder, n) \<Rightarrow> (Inr (FolderSource folder, Some folder), logf ''info'' w2))))"

section \<open>Ripping\<close>

definition totalSecs :: "title list \<Rightarrow> int" where
  "totalSecs ts = sum_list (map ti_DurationSecs ts)"

fun deduped :: "int list \<Rightarrow> int list \<Rightarrow> int" where
  "deduped seen [] = 0"
| "deduped seen (d # ds) = (if d \<in> set seen then deduped seen ds else d + deduped (d # seen) ds)"

definition dedupedSecs :: "title list \<Rightarrow> int" where
  "dedupedSecs ts = deduped [] (map ti_DurationSecs ts)"

definition minKeptPercent :: int where
  "minKeptPercent = 60"

definition rescanCopy :: "disc_env \<Rightarrow> disc \<Rightarrow> string + disc \<times> string" where
  "rescanCopy env d =
     (case ev_rescan env of
        Inl e \<Rightarrow> Inl e
      | Inr (res, raw) \<Rightarrow>
          if di_Titles res = [] then Inl ''the decrypted copy reported no titles''
          else Inr (d\<lparr>di_Titles := di_Titles res, di_TotalBytes := di_TotalBytes res\<rparr>, raw))"

text \<open>The rescan of a decrypted copy inside \<^verbatim>\<open>rip\<close>: what the copy says wins, unless it holds too little.\<close>

definition use_copy :: "disc_env \<Rightarrow> int \<Rightarrow> source \<Rightarrow> disc \<Rightarrow> string \<Rightarrow> worker \<Rightarrow> (string + disc \<times> string) \<times> worker" where
  "use_copy env now src d rawInfo w =
     (if \<not> IsFolder src then (Inr (d, rawInfo), w)
      else let w1 = note_cancel (ev_rescan_cancelled env) w
           in case rescanCopy env d of
                Inl e \<Rightarrow> (Inr (d, rawInfo), logf ''warn'' w1)
              | Inr (rescanned, raw) \<Rightarrow>
                  (let ts = di_Titles rescanned; kept = totalSecs ts; want = dedupedSecs (di_Titles d)
                   in if want > 0 \<and> kept * 100 < want * minKeptPercent then
                        (Inl (''the decrypted copy holds '' @ durationOf kept @ '' of the '' @ durationOf want
                              @ '' the drive described ('' @ int_str (go_div (kept * 100) want)
                              @ ''%); refusing to rip a partial disc''), w1)
                      else
                        let w2 = (if length ts \<noteq> length (di_Titles d) then logf ''warn'' w1 else w1);
                            d' = d\<lparr>di_Titles := ts\<rparr>;
                            w3 = with_status (update_snap (\<lambda>x. x\<lparr>sp_TitleCount := int (length ts)\<rparr>)) w2
                        in (Inr (d', raw),
                            if wk_cancelled w3 then logf ''warn'' w3
                            else w3\<lparr>wk_db := or_rollback2 (wk_db w3) (SaveDisc now d' raw (wk_db w3))\<rparr>)))"

fun rip_titles :: "config \<Rightarrow> disc_env \<Rightarrow> int \<Rightarrow> int \<Rightarrow> int \<Rightarrow> nat \<Rightarrow> nat \<Rightarrow> title list \<Rightarrow> worker
    \<Rightarrow> work_error option \<times> worker" where
  "rip_titles cfg env now jobID discID n i [] w = (None, w)"
| "rip_titles cfg env now jobID discID n i (t # ts) w =
     (let try = ev_titles env i;
          op = ''title '' @ nat_str (i + 1) @ '' of '' @ nat_str n;
          w1 = note_cancel (tt_cancelled try) (with_status (setProgress (ti_Index t) op) w)
      in case tt_result try of
           Inl e \<Rightarrow>
             if wk_cancelled w1 then
               (Some (ErrText (''cancelled during title '' @ int_str (ti_Index t))),
                exec_after_cancel (SetJobState now jobID JobCancelled ''cancelled'') w1)
             else (Some (ErrText (''title '' @ int_str (ti_Index t) @ '': '' @ e)), w1)
         | Inr (path, sizeBytes, out) \<Rightarrow>
             (let w2 = with_status (setState StateVerifying) w1;
                  failed = (\<lambda>e. (Some (ErrText (''title '' @ int_str (ti_Index t) @ '' failed verification: '' @ e)), w2))
              in case verifyOutput out (MinOutputBytes cfg) of
                   Some e \<Rightarrow> failed e
                 | None \<Rightarrow>
                     (case (if NativeDVD cfg then tt_native try else None) of
                        Some e \<Rightarrow> failed e
                      | None \<Rightarrow>
                          (let w3 = with_status (setState StateRipping) w2
                           in if wk_cancelled w3 then
                                (Some (ErrText (''record title '' @ int_str (ti_Index t) @ '': context canceled'')), w3)
                              else
                                let w4 = w3\<lparr>wk_db := MarkTitleRipped discID (ti_Index t) sizeBytes True (wk_db w3)\<rparr>;
                                    w5 = exec (SetJobProgress jobID (int i + 1) (int n)) (with_status (titleDone (ti_DurationSecs t)) w4)
                                in rip_titles cfg env now jobID discID n (i + 1) ts (logf ''info'' w5)))))"

definition rip :: "config \<Rightarrow> disc_env \<Rightarrow> int \<Rightarrow> date \<Rightarrow> int \<Rightarrow> int \<Rightarrow> disc \<Rightarrow> string \<Rightarrow> worker
    \<Rightarrow> (work_error + disc) \<times> worker" where
  "rip cfg env now today jobID discID d rawInfo w =
     (case makeRipDir cfg env today d w of
        (Inl e, w1) \<Rightarrow> (Inl (ErrText e), w1)
      | (Inr ripDir, w1) \<Rightarrow>
          (let w2 = with_status (update_snap (\<lambda>x. x\<lparr>sp_RipDir := ripDir\<rparr>)) w1
           in case ev_riplog env of
                Some e \<Rightarrow> (Inl (ErrText (''create rip.log: '' @ e)), w2)
              | None \<Rightarrow>
                  (case ripSource cfg env (w2\<lparr>wk_dirs := (wk_dirs w2)(ripDir \<mapsto> False)\<rparr>) of
                     (Inl e, w3) \<Rightarrow> (Inl e, w3)
                   | (Inr (src, copy), w3) \<Rightarrow>
                       (case use_copy env now src d rawInfo w3 of
                          (Inl e, w4) \<Rightarrow> (Inl (ErrText e), w4)
                        | (Inr (d', raw), w4) \<Rightarrow>
                            (case ev_json env of
                               Some e \<Rightarrow> (Inl (ErrText e), w4)
                             | None \<Rightarrow>
                                 (case ev_scanfile env of
                                    Some e \<Rightarrow> (Inl (ErrText (''write makemkv-info.txt: '' @ e)), w4)
                                  | None \<Rightarrow>
                                      (case rip_titles cfg env now jobID discID (length (di_Titles d')) 0 (di_Titles d')
                                         (exec (SetJobState now jobID JobRipping [])
                                           (exec (SetJobProgress jobID 0 (int (length (di_Titles d'))))
                                             (with_status (\<lambda>s. beginRip (totalSecs (di_Titles d')) (setState StateRipping s)) w4))) of
                                         (Some e, w7) \<Rightarrow> (Inl e, w7)
                                       | (None, w7) \<Rightarrow>
                                           if wk_cancelled w7 then (Inl (ErrText ''record rip directory: context canceled''), w7)
                                           else
                                             let w8 = w7\<lparr>wk_db := SetDiscRipDir discID ripDir (wk_db w7)\<rparr>
                                             in (Inr d', case copy of None \<Rightarrow> w8
                                                  | Some folder \<Rightarrow> w8\<lparr>wk_discarded := wk_discarded w8 @ [folder]\<rparr>))))))))"

section \<open>Scanning\<close>

text \<open>\<^verbatim>\<open>scanWithRetry\<close> with \<^verbatim>\<open>left\<close> attempts to go, the next one being the \<^verbatim>\<open>k\<close>-th.\<close>

fun scan_attempts :: "config \<Rightarrow> disc_env \<Rightarrow> nat \<Rightarrow> nat \<Rightarrow> worker \<Rightarrow> (work_error + disc \<times> string) \<times> worker" where
  "scan_attempts cfg env 0 k w = (Inl (ErrText []), w)"
| "scan_attempts cfg env (Suc left) k w =
     (let try = ev_scans env k;
          w1 = note_cancel (sc_cancelled try) w
      in case sc_result try of
           Inr r \<Rightarrow> (Inr r, if k > 0 then logf ''info'' w1 else w1)
         | Inl e \<Rightarrow>
             if wk_cancelled w1 then (Inl ErrCancelled, w1)
             else if sc_gone try = Some True then (Inl ErrDiscGone, w1)
             else
               let w2 = (if sc_gone try = None then logf ''warn'' w1 else w1)
               in if left = 0 then
                    (Inl (ErrText (if ScanAttempts cfg > 1 then e @ '' ('' @ int_str (ScanAttempts cfg) @ '' attempts)'' else e)), w2)
                  else
                    let w3 = note_cancel (sc_wait_cancelled try) (logf ''warn'' w2)
                    in if wk_cancelled w3 then (Inl (ErrText e), w3)
                       else scan_attempts cfg env left (k + 1) w3)"

definition scanWithRetry :: "config \<Rightarrow> disc_env \<Rightarrow> worker \<Rightarrow> (work_error + disc \<times> string) \<times> worker" where
  "scanWithRetry cfg env = scan_attempts cfg env (nat (ScanAttempts cfg)) 0"

section \<open>From a scan to a job\<close>

text \<open>The stretch that \<^verbatim>\<open>handleDisc\<close> and \<^verbatim>\<open>handleBluRay\<close> have in common. \<^verbatim>\<open>start_job\<close> records the disc, refuses it
  when its attempts are used up and opens a job; \<^verbatim>\<open>open_job\<close> first recognises a disc that is done. The
  result is the disc's and the job's id when there is work to do.\<close>

definition start_job :: "config \<Rightarrow> disc_env \<Rightarrow> int \<Rightarrow> disc \<Rightarrow> string \<Rightarrow> worker \<Rightarrow> (int \<times> int) option \<times> worker" where
  "start_job cfg env now d raw w =
     (case SaveDisc now d raw (wk_db w) of
        Inl e \<Rightarrow> (None, fail cfg env (''could not record disc: '' @ store_error_text e) w)
      | Inr (discID, db1) \<Rightarrow>
          (let w1 = w\<lparr>wk_db := db1\<rparr>; attempts = int (AttemptsForDisc discID db1)
           in if attempts \<ge> MaxRipAttempts cfg then
                (None, fail cfg env (''already failed '' @ int_str attempts @ '' times; not retrying automatically'')
                         (with_status (update_snap (\<lambda>x. x\<lparr>sp_Attempt := attempts\<rparr>)) w1))
              else case CreateJob now discID (wk_driveID w) (attempts + 1) db1 of
                Inl e \<Rightarrow> (None, fail cfg env (''could not open a job: create job: '' @ store_error_text e) w1)
              | Inr (jobID, db2) \<Rightarrow>
                  (Some (discID, jobID),
                   with_status (update_snap (\<lambda>x. x\<lparr>sp_Attempt := attempts + 1\<rparr>)) (w1\<lparr>wk_db := db2\<rparr>))))"

definition open_job :: "config \<Rightarrow> disc_env \<Rightarrow> int \<Rightarrow> disc \<Rightarrow> string \<Rightarrow> worker \<Rightarrow> (int \<times> int) option \<times> worker" where
  "open_job cfg env now d raw w =
     (if wk_cancelled w then
        (None, fail cfg env (''could not check for a previous rip: find disc '' @ di_Fingerprint d @ '': ''
                              @ store_error_text ErrCanceled) w)
      else case FindDisc (di_Fingerprint d) (wk_db w) of
        None \<Rightarrow> start_job cfg env now d raw w
      | Some r \<Rightarrow>
          if Ripped r then
            (None, ejectNow cfg env (logf ''info''
               (with_status (\<lambda>s. setState StateDuplicate (update_snap (\<lambda>x. x\<lparr>sp_RipDir := r_RipDir r\<rparr>) s)) w)))
          else start_job cfg env now d raw w)"

section \<open>A DVD\<close>

definition takeDiscSlot :: "disc_env \<Rightarrow> worker \<Rightarrow> bool \<times> worker" where
  "takeDiscSlot env w =
     (case ev_slot env of
        SlotFree \<Rightarrow> (True, w)
      | SlotWaited \<Rightarrow> (True, logf ''info'' (with_status (setState StateQueued) w))
      | SlotStopped \<Rightarrow> (False, logf ''info'' (with_status (setState StateQueued) w)))"

definition publishDisc :: "string \<Rightarrow> disc \<Rightarrow> string \<Rightarrow> worker \<Rightarrow> worker" where
  "publishDisc stage d ripDir w = w\<lparr>wk_published := wk_published w @ [(stage, d, ripDir)]\<rparr>"

text \<open>\<^verbatim>\<open>handleDisc\<close> once a job is open.\<close>

definition work_disc :: "config \<Rightarrow> disc_env \<Rightarrow> int \<Rightarrow> date \<Rightarrow> int \<Rightarrow> int \<Rightarrow> disc \<Rightarrow> string \<Rightarrow> worker \<Rightarrow> worker" where
  "work_disc cfg env now today jobID discID d raw w =
     (case rip cfg env now today jobID discID d raw w of
        (Inl e, w1) \<Rightarrow>
          if e = ErrCancelled then
            logf ''info'' (with_status (setState StateCancelled)
              (exec_after_cancel (SetJobState now jobID JobCancelled ''cancelled'') w1))
          else fail cfg env (error_text e) (exec (SetJobState now jobID JobFailed (error_text e)) w1)
      | (Inr ripped, w1) \<Rightarrow>
          (let w2 = logf ''info'' (with_status (setState StateComplete) (exec (SetJobState now jobID JobComplete []) w1));
               ripDir = sp_RipDir (st_snap (wk_status w2));
               w3 = publishDisc ''ripped'' d ripDir w2
           in ejectNow cfg env (w3\<lparr>wk_handed_on := wk_handed_on w3 @ [(discID, ripDir, di_Titles ripped)]\<rparr>)))"

text \<open>\<^verbatim>\<open>handleDisc\<close> once the disc has been scanned.\<close>

definition scanned_disc :: "config \<Rightarrow> disc_env \<Rightarrow> int \<Rightarrow> date \<Rightarrow> disc \<Rightarrow> string \<Rightarrow> worker \<Rightarrow> worker" where
  "scanned_disc cfg env now today d raw w =
     (let w1 = publishDisc ''enumerated'' d [] (logf ''info'' (with_status (update_snap (\<lambda>x. x\<lparr>
                 sp_DiscLabel := di_VolumeLabel d, sp_Fingerprint := di_Fingerprint d,
                 sp_TitleCount := int (length (di_Titles d))\<rparr>)) w))
      in case open_job cfg env now d raw w1 of
           (None, w2) \<Rightarrow> w2
         | (Some (discID, jobID), w2) \<Rightarrow> work_disc cfg env now today jobID discID d raw w2)"

definition handleDVD :: "config \<Rightarrow> disc_env \<Rightarrow> int \<Rightarrow> date \<Rightarrow> worker \<Rightarrow> worker" where
  "handleDVD cfg env now today w =
     (case scanWithRetry cfg env w of
        (Inl e, w1) \<Rightarrow>
          if e = ErrDiscGone then logf ''info'' w1
          else if e = ErrCancelled \<or> wk_cancelled w1 then logf ''info'' (with_status (setState StateCancelled) w1)
          else fail cfg env (''scan failed: '' @ error_text e) w1
      | (Inr (d, raw), w1) \<Rightarrow> scanned_disc cfg env now today d raw w1)"

section \<open>A Blu-ray\<close>

definition bluray_disc :: "(string \<Rightarrow> string) \<Rightarrow> date \<Rightarrow> string \<Rightarrow> string \<Rightarrow> int \<Rightarrow> disc" where
  "bluray_disc sha today model label secs =
     (let ts = [empty_title\<lparr>ti_Index := 0, ti_DurationSecs := secs, ti_OutputFile := TitleFileName 0\<rparr>]
      in empty_disc\<lparr>di_VolumeLabel := label, di_ScannedAt := Some today, di_DriveModel := model,
           di_Type := TypeBluRay, di_Titles := ts, di_Fingerprint := ComputeFingerprint sha label ts\<rparr>)"

definition encodeBluRay :: "disc_env \<Rightarrow> int \<Rightarrow> worker \<Rightarrow> (work_error + int \<times> bool) \<times> worker" where
  "encodeBluRay env secs w =
     (let w1 = note_cancel (be_encode_cancelled (ev_bluray env))
                 (with_status (\<lambda>s. beginRip secs (setState StateRipping s)) w)
      in case be_encode (ev_bluray env) of
           Inl e \<Rightarrow> (Inl (if wk_cancelled w1 then ErrCancelled else ErrText e), w1)
         | Inr r \<Rightarrow> (Inr r, logf ''info'' w1))"

text \<open>A statement whose error is only logged.\<close>

definition exec_or_warn :: "(store \<Rightarrow> store_error + store) \<Rightarrow> worker \<Rightarrow> worker" where
  "exec_or_warn f w =
     (if wk_cancelled w then logf ''warn'' w
      else case f (wk_db w) of Inl e \<Rightarrow> logf ''warn'' w | Inr db \<Rightarrow> w\<lparr>wk_db := db\<rparr>)"

definition work_bluray :: "config \<Rightarrow> disc_env \<Rightarrow> int \<Rightarrow> date \<Rightarrow> string \<Rightarrow> int \<Rightarrow> int \<Rightarrow> disc \<Rightarrow> int \<Rightarrow> worker \<Rightarrow> worker" where
  "work_bluray cfg env now today src jobID discID d secs w =
     (let out = Join [TranscodedDir cfg, DirName today d, TitleFileName 0]
      in case encodeBluRay env secs w of
           (Inl e, w1) \<Rightarrow>
             if e = ErrCancelled then
               logf ''info'' (with_status (setState StateCancelled)
                 (exec_after_cancel (SetJobState now jobID JobCancelled ''cancelled'') w1))
             else fail cfg env (error_text e) (exec (SetJobState now jobID JobFailed (error_text e)) w1)
         | (Inr (sizeBytes, hardware), w1) \<Rightarrow>
             (let w2 = exec_or_warn (\<lambda>db. Inr (MarkTitleRipped discID 0 0 True db)) w1;
                  w3 = exec_or_warn (\<lambda>db. Inr (SetDiscRipDir discID (Dir out) db)) w2;
                  w4 = exec (SetJobState now jobID JobComplete []) w3;
                  w5 = exec_or_warn (RecordTranscode now discID 0 ''default'' src out sizeBytes hardware) w4;
                  w6 = logf ''info'' (with_status (setState StateComplete) w5)
              in ejectNow cfg env (w6\<lparr>wk_bluray_done := wk_bluray_done w6 @ [(discID, 0, out)]\<rparr>)))"

definition handleBluRay :: "(string \<Rightarrow> string) \<Rightarrow> config \<Rightarrow> disc_env \<Rightarrow> int \<Rightarrow> date \<Rightarrow> worker \<Rightarrow> worker" where
  "handleBluRay sha cfg env now today w =
     (let b = ev_bluray env;
          label = (case be_label b of None \<Rightarrow> [] | Some l \<Rightarrow> l);
          w0 = (if be_label b = None then logf ''warn'' w else w);
          src = ''bluray:'' @ wk_device w;
          w1 = note_cancel (be_probe_cancelled b) (with_status (setState StateScanning) w0)
      in case be_probe b of
           Inl e \<Rightarrow> if wk_cancelled w1 then w1 else fail cfg env (''could not read the Blu-ray: '' @ e) w1
         | Inr duration \<Rightarrow>
             if duration \<le> 0 then
               fail cfg env ''the Blu-ray reported no playable title; it may not be in the AACS key database'' w1
             else
               let secs = duration div 1000000000;
                   d = bluray_disc sha today (wk_describe w) label secs;
                   w2 = logf ''info'' (with_status (update_snap (\<lambda>x. x\<lparr>sp_DiscLabel := di_VolumeLabel d,
                          sp_Fingerprint := di_Fingerprint d, sp_TitleCount := 1\<rparr>)) w1)
               in case open_job cfg env now d [] w2 of
                    (None, w3) \<Rightarrow> w3
                  | (Some (discID, jobID), w3) \<Rightarrow> work_bluray cfg env now today src jobID discID d secs w3)"

section \<open>Events and requests\<close>

text \<open>\<^verbatim>\<open>handleDisc\<close>. The work can be cancelled only once the pipeline is known and it is the DVD's; the handle
  is dropped when the function returns.\<close>

definition handleDisc :: "(string \<Rightarrow> string) \<Rightarrow> config \<Rightarrow> disc_env \<Rightarrow> int \<Rightarrow> date \<Rightarrow> worker \<Rightarrow> worker" where
  "handleDisc sha cfg env now today w =
     (case takeDiscSlot env (logf ''info'' (w\<lparr>wk_cancelled := ev_stopped env\<rparr>)) of
        (False, w1) \<Rightarrow> w1
      | (True, w1) \<Rightarrow>
          if ev_kind env = Some DiscBluRay then handleBluRay sha cfg env now today (logf ''info'' w1)
          else
            let w2 = (if ev_kind env = None then logf ''warn'' w1 else w1);
                w3 = (with_status (setState StateScanning) w2)\<lparr>wk_cancellable := True\<rparr>
            in (handleDVD cfg env now today w3)\<lparr>wk_cancellable := False\<rparr>)"

definition handleIncompatible :: "worker \<Rightarrow> worker" where
  "handleIncompatible w =
     logf ''warn'' (with_status (\<lambda>s. setState StateIncompatible (update_snap (\<lambda>x. x\<lparr>sp_Error :=
       ''a disc is loaded that this drive cannot read; a Blu-ray in a DVD drive is the usual cause''\<rparr>) s)) w)"

definition handleEvent :: "(string \<Rightarrow> string) \<Rightarrow> config \<Rightarrow> disc_env \<Rightarrow> int \<Rightarrow> date \<Rightarrow> drive_event \<Rightarrow> worker \<Rightarrow> worker" where
  "handleEvent sha cfg env now today ev w =
     (if de_Err ev then
        with_status (setState StateAbsent) (if state_of (wk_status w) \<noteq> StateAbsent then logf ''warn'' w else w)
      else case de_To ev of
        StatusTrayOpen \<Rightarrow> with_status (setState StateTrayOpen) w
      | StatusNoDisc \<Rightarrow> with_status (setState StateEmpty) w
      | StatusNotReady \<Rightarrow> with_status (setState StateLoading) w
      | StatusIncompatible \<Rightarrow> handleIncompatible w
      | StatusDiscOK \<Rightarrow> handleDisc sha cfg env now today w
      | StatusUnknown \<Rightarrow> w)"

datatype request_error = IsBusy | NothingToCancel | EjectFailed

definition Eject :: "bool \<Rightarrow> worker \<Rightarrow> request_error option \<times> worker" where
  "Eject ejects w =
     (if Busy (state_of (wk_status w)) then (Some IsBusy, w)
      else if ejects then (None, w\<lparr>wk_tray_opened := True\<rparr>) else (Some EjectFailed, w))"

definition Cancel :: "worker \<Rightarrow> request_error option \<times> worker" where
  "Cancel w = (if \<not> wk_cancellable w then (Some NothingToCancel, w) else (None, w\<lparr>wk_cancelled := True\<rparr>))"

end
