(* ===== verification/Worker_Rip.thy ===== *)
theory Worker_Rip
  imports Worker
begin

text \<open>
  The worker's pipeline for a DVD, taken apart: \<^verbatim>\<open>job_step\<close> is the relation of what a worker writes to the
  store between opening a job and closing it, with the invariants of its steps; each stage of \<^verbatim>\<open>rip\<close>,
  \<^verbatim>\<open>work_disc\<close> and \<^verbatim>\<open>handleDVD\<close> has an elimination rule that says which of its endings was reached and what
  was written by then. It also holds the property of the rip directories. The properties of a whole disc
  are in \<^verbatim>\<open>Worker_Safety\<close>.
\<close>

section \<open>Steps under a job\<close>

inductive job_step :: "int \<Rightarrow> int \<Rightarrow> store \<Rightarrow> store \<Rightarrow> bool" for jobID discID where
  set_state: "job_step jobID discID db (SetJobState now jobID st e db)"
| set_progress: "job_step jobID discID db (SetJobProgress jobID n t db)"
| mark_title: "job_step jobID discID db (MarkTitleRipped discID i sz v db)"
| save_disc: "SaveDisc now d raw db = Inr (i, db') \<Longrightarrow> job_step jobID discID db db'"

abbreviation job_work :: "int \<Rightarrow> int \<Rightarrow> store \<Rightarrow> store \<Rightarrow> bool" where
  "job_work jobID discID \<equiv> (job_step jobID discID)\<^sup>*\<^sup>*"

lemmas job_work_snoc = rtranclp.rtrancl_into_rtrancl [where r = "job_step jobID discID" for jobID discID]

lemma job_work_one [simp, intro]: "job_work jobID discID db (SetJobState now jobID st e db)"
  by (rule r_into_rtranclp) (rule job_step.set_state)

lemma job_work_then: "job_work jobID discID db db1 \<Longrightarrow> job_work jobID discID db (SetJobState now jobID st e db1)"
  by (erule rtranclp_trans) (rule job_work_one)

lemma job_step_ok: "job_step jobID discID db db' \<Longrightarrow> store_ok db \<Longrightarrow> store_ok db'"
  by (induction rule: job_step.induct) (auto intro: SetJobState_ok SetJobProgress_ok MarkTitleRipped_ok SaveDisc_ok)

lemma job_work_ok: "job_work jobID discID db db' \<Longrightarrow> store_ok db \<Longrightarrow> store_ok db'"
  by (induction rule: rtranclp_induct) (auto intro: job_step_ok)

definition rip_dir_of :: "string \<Rightarrow> store \<Rightarrow> string" where
  "rip_dir_of fp db = (case FindDisc fp db of None \<Rightarrow> [] | Some r \<Rightarrow> r_RipDir r)"

definition is_ripped :: "string \<Rightarrow> store \<Rightarrow> bool" where
  "is_ripped fp db \<longleftrightarrow> rip_dir_of fp db \<noteq> []"

definition disc_id_of :: "string \<Rightarrow> store \<Rightarrow> int option" where
  "disc_id_of fp db = map_option d_id (List.find (\<lambda>d. d_fingerprint d = fp) (discs db))"

lemma SaveDisc_rip_dir:
  assumes "SaveDisc now d raw db = Inr (i, db')"
  shows "rip_dir_of fp db' = rip_dir_of fp db"
proof (cases "fp = di_Fingerprint d")
  case True
  have "List.find (\<lambda>r. d_fingerprint r = fp) (discs db') =
      Some (case List.find (\<lambda>r. d_fingerprint r = fp) (discs db) of
              None \<Rightarrow> disc_fresh (next_id d_id (discs db)) fp (d, raw, now) | Some r \<Rightarrow> disc_refresh (d, raw, now) r)"
    unfolding SaveDisc_discs(1) [OF assms] True by (rule disc_table.lookup_put_same)
  then show ?thesis
    by (simp add: rip_dir_of_def FindDisc_def disc_record_of_def disc_fresh_def disc_refresh_def coalesce_def
        split: option.split)
next
  case False
  then show ?thesis
    using disc_table.lookup_put_other [of "di_Fingerprint d" fp "(d, raw, now)" "discs db"]
    by (simp add: rip_dir_of_def FindDisc_def SaveDisc_discs(1) [OF assms])
qed

lemma SaveDisc_disc_id:
  assumes "SaveDisc now d raw db = Inr (i, db')"
  shows "disc_id_of (di_Fingerprint d) db' = Some i"
    and "disc_id_of fp db = Some k \<Longrightarrow> disc_id_of fp db' = Some k"
proof -
  have *: "List.find (\<lambda>r. d_fingerprint r = di_Fingerprint d) (discs db') =
      Some (case List.find (\<lambda>r. d_fingerprint r = di_Fingerprint d) (discs db) of
              None \<Rightarrow> disc_fresh (next_id d_id (discs db)) (di_Fingerprint d) (d, raw, now)
            | Some r \<Rightarrow> disc_refresh (d, raw, now) r)"
    unfolding SaveDisc_discs(1) [OF assms] by (rule disc_table.lookup_put_same)
  then show "disc_id_of (di_Fingerprint d) db' = Some i"
    by (simp add: disc_id_of_def SaveDisc_discs(2) [OF assms] disc_fresh_def disc_refresh_def split: option.split)
  show "disc_id_of fp db' = Some k" if "disc_id_of fp db = Some k"
  proof (cases "fp = di_Fingerprint d")
    case True
    with * that show ?thesis by (auto simp: disc_id_of_def disc_refresh_def)
  next
    case False
    with that show ?thesis
      using disc_table.lookup_put_other [of "di_Fingerprint d" fp "(d, raw, now)" "discs db"]
      by (simp add: disc_id_of_def SaveDisc_discs(1) [OF assms])
  qed
qed

lemma discs_frame [db_frame]:
  "discs (SetJobState now i st e db) = discs db" "discs (SetJobProgress i n t db) = discs db"
  "discs (MarkTitleRipped d i s v db) = discs db"
  by (simp_all add: SetJobState_def SetJobProgress_def MarkTitleRipped_def update_job_def)

lemma by_discs:
  assumes "discs db' = discs db"
  shows "rip_dir_of fp db' = rip_dir_of fp db" and "disc_id_of fp db' = disc_id_of fp db"
  using assms by (simp_all add: rip_dir_of_def disc_id_of_def FindDisc_def)

lemmas disc_frame = by_discs(1) [OF discs_frame(1)] by_discs(1) [OF discs_frame(2)] by_discs(1) [OF discs_frame(3)]
  by_discs(2) [OF discs_frame(1)] by_discs(2) [OF discs_frame(2)] by_discs(2) [OF discs_frame(3)]

lemma job_step_rip_dir: "job_step jobID discID db db' \<Longrightarrow> rip_dir_of fp db' = rip_dir_of fp db"
  by (induction rule: job_step.induct) (simp_all only: SaveDisc_rip_dir disc_frame)

lemma job_work_rip_dir: "job_work jobID discID db db' \<Longrightarrow> rip_dir_of fp db' = rip_dir_of fp db"
  by (induction rule: rtranclp_induct) (auto simp: job_step_rip_dir)

lemma job_step_disc_id: "job_step jobID discID db db' \<Longrightarrow> disc_id_of fp db = Some k \<Longrightarrow> disc_id_of fp db' = Some k"
  by (induction rule: job_step.induct) (simp_all only: SaveDisc_disc_id(2) disc_frame)

lemma job_work_disc_id: "job_work jobID discID db db' \<Longrightarrow> disc_id_of fp db = Some k \<Longrightarrow> disc_id_of fp db' = Some k"
  by (induction rule: rtranclp_induct) (auto intro: job_step_disc_id)

section \<open>Attempts under a job\<close>

text \<open>What the steps of a job leave alone: every other job's state, and which job belongs to which disc.\<close>

definition other_jobs :: "int \<Rightarrow> store \<Rightarrow> (int \<times> int \<times> job_state option) list" where
  "other_jobs i db = map (\<lambda>j. (j_id j, j_disc_id j, if j_id j = i then None else Some (j_state j))) (jobs db)"

lemma SaveDisc_forgotten:
  assumes "store_ok db" and "SaveDisc now d raw db = Inr (i, db')"
  shows "forgotten_after k db' = forgotten_after k db"
proof (cases "List.find (\<lambda>r. d_fingerprint r = di_Fingerprint d) (discs db)")
  case None
  then have "discs db' = discs db @ [disc_fresh (next_id d_id (discs db)) (di_Fingerprint d) (d, raw, now)]"
    unfolding SaveDisc_discs(1) [OF assms(2)] by (auto simp: upsert_where_def find_None_list_ex)
  then show ?thesis by (simp add: forgotten_after_def find_append disc_fresh_def coalesce_def split: option.split)
next
  case (Some r)
  then have "discs db' = update_where (\<lambda>r. d_fingerprint r = di_Fingerprint d) (disc_refresh (d, raw, now)) (discs db)"
    unfolding SaveDisc_discs(1) [OF assms(2)] using find_None_list_ex [of "\<lambda>r. d_fingerprint r = di_Fingerprint d" "discs db"]
    by (auto simp: upsert_where_def)
  moreover have "List.find (\<lambda>d. d_id d = k) (update_where (\<lambda>r. d_fingerprint r = di_Fingerprint d) (disc_refresh (d, raw, now)) (discs db))
      = map_option (\<lambda>r. if d_fingerprint r = di_Fingerprint d then disc_refresh (d, raw, now) r else r)
          (List.find (\<lambda>d. d_id d = k) (discs db))"
    by (rule find_update_where_frame) (simp add: disc_refresh_def)
  ultimately show ?thesis
    by (cases "List.find (\<lambda>d. d_id d = k) (discs db)") (auto simp: forgotten_after_def disc_refresh_def)
qed

lemma job_step_attempt_frame:
  "job_step jobID discID db db' \<Longrightarrow> store_ok db \<Longrightarrow>
     other_jobs jobID db' = other_jobs jobID db \<and> forgotten_after k db' = forgotten_after k db"
proof (induction rule: job_step.induct)
  case (save_disc now d raw db i db')
  then show ?case by (simp add: SaveDisc_forgotten SaveDisc_discs(3) other_jobs_def)
qed (auto simp: other_jobs_def SetJobState_def SetJobProgress_def MarkTitleRipped_def update_job_def update_where_def
      intro: forgotten_after_cong)

definition keeps_attempts :: "int \<Rightarrow> store \<Rightarrow> store \<Rightarrow> bool" where
  "keeps_attempts i db db' \<longleftrightarrow> (store_ok db \<longrightarrow> store_ok db' \<and> other_jobs i db' = other_jobs i db
     \<and> (\<forall>k. forgotten_after k db' = forgotten_after k db))"

lemma keeps_attempts_refl [simp]: "keeps_attempts i db db"
  by (simp add: keeps_attempts_def)

lemma keeps_attempts_trans [trans]: "keeps_attempts i db db1 \<Longrightarrow> keeps_attempts i db1 db2 \<Longrightarrow> keeps_attempts i db db2"
  by (auto simp: keeps_attempts_def)

lemma job_work_keeps_attempts: "job_work jobID discID db db' \<Longrightarrow> keeps_attempts jobID db db'"
proof (induction rule: rtranclp_induct)
  case (step db1 db2)
  then have "keeps_attempts jobID db1 db2"
    using job_step_attempt_frame job_step_ok by (simp add: keeps_attempts_def)
  with step.IH show ?case by (rule keeps_attempts_trans)
qed simp

lemma SetDiscRipDir_keeps_attempts: "keeps_attempts i db (SetDiscRipDir discID dir db)"
proof -
  have "forgotten_after k (SetDiscRipDir discID dir db) = forgotten_after k db" for k
    unfolding SetDiscRipDir_def by (subst forgotten_after_update_disc) (auto simp: forgotten_after_def split: option.split)
  then show ?thesis
    by (simp add: keeps_attempts_def SetDiscRipDir_ok) (simp add: other_jobs_def SetDiscRipDir_def)
qed

lemma same_jobs_keeps_attempts:
  "jobs db' = jobs db \<Longrightarrow> discs db' = discs db \<Longrightarrow> (store_ok db \<Longrightarrow> store_ok db') \<Longrightarrow> keeps_attempts i db db'"
  by (simp add: keeps_attempts_def other_jobs_def forgotten_after_def)

definition settled_attempts :: "int \<Rightarrow> int \<Rightarrow> store \<Rightarrow> nat" where
  "settled_attempts i k db = length (filter (\<lambda>j. counts_as_attempt k db j \<and> j_id j \<noteq> i) (jobs db))"

lemma settled_attempts_eq:
  "settled_attempts i k db = length (filter (\<lambda>x. fst x \<noteq> i \<and> fst (snd x) = k \<and> snd (snd x) \<noteq> Some JobCancelled
     \<and> forgotten_after k db < fst x) (other_jobs i db))"
  by (auto simp: settled_attempts_def other_jobs_def filter_map comp_def counts_as_attempt_def
      intro!: arg_cong [where f = length] filter_cong)

lemma settled_attempts_cong:
  "other_jobs i db' = other_jobs i db \<Longrightarrow> forgotten_after k db' = forgotten_after k db \<Longrightarrow>
     settled_attempts i k db' = settled_attempts i k db"
  by (simp add: settled_attempts_eq)

lemma count_but_one:
  "distinct (map f xs) \<Longrightarrow> length (filter p xs) \<le> length (filter (\<lambda>x. p x \<and> f x \<noteq> i) xs)
     + (if \<exists>x \<in> set xs. f x = i \<and> p x then 1 else 0)"
proof (induction xs)
  case (Cons x xs)
  show ?case
  proof (cases "f x = i")
    case True
    then have "filter (\<lambda>x. p x \<and> f x \<noteq> i) xs = filter p xs"
      using Cons.prems by (intro filter_cong) (auto simp: image_iff)
    then show ?thesis using True by simp
  qed (use Cons in \<open>auto split: if_splits\<close>)
qed simp

definition job_discs :: "int \<Rightarrow> store \<Rightarrow> (int \<times> int) set" where
  "job_discs i db = (\<lambda>x. (fst x, fst (snd x))) ` set (other_jobs i db)"

lemma job_discs_eq: "job_discs i db = (\<lambda>j. (j_id j, j_disc_id j)) ` set (jobs db)"
  by (simp add: job_discs_def other_jobs_def image_image)

lemma attempts_split:
  assumes "store_ok db"
  shows "AttemptsForDisc k db \<le> settled_attempts i k db + (if (i, k) \<in> job_discs i db then 1 else 0)"
proof -
  have "distinct (map j_id (jobs db))" using assms by (simp add: store_ok_defs table_ok_def)
  from count_but_one [OF this, of "counts_as_attempt k db" i]
  have "AttemptsForDisc k db \<le> settled_attempts i k db
      + (if \<exists>j \<in> set (jobs db). j_id j = i \<and> counts_as_attempt k db j then 1 else 0)"
    by (simp add: AttemptsForDisc_def settled_attempts_def)
  moreover have "\<exists>j \<in> set (jobs db). j_id j = i \<and> counts_as_attempt k db j \<Longrightarrow> (i, k) \<in> job_discs i db"
    by (auto simp: job_discs_eq counts_as_attempt_def image_iff)
  ultimately show ?thesis by (simp split: if_splits)
qed

lemma kept_attempts:
  assumes ok: "store_ok db" and new: "CreateJob now discID dr a db = Inr (jobID, db1)" and work: "keeps_attempts jobID db1 db2"
  shows "AttemptsForDisc k db2 \<le> AttemptsForDisc k db + (if k = discID then 1 else 0)"
proof -
  have frame: "store_ok db2" "other_jobs jobID db2 = other_jobs jobID db1" "forgotten_after k db2 = forgotten_after k db1"
    using work CreateJob_ok [OF ok new] by (simp_all add: keeps_attempts_def)
  obtain js r where r: "jobs db1 = js @ [r]" "jobs db = js" "j_id r = jobID" "j_disc_id r = discID"
      "discs db1 = discs db" "jobID \<notin> j_id ` set js"
    using CreateJob_row [OF ok new] by blast
  have "filter (\<lambda>j. counts_as_attempt k db j \<and> j_id j \<noteq> jobID) js = filter (counts_as_attempt k db) js"
    using r(6) by (intro filter_cong) (auto simp: image_iff)
  then have "settled_attempts jobID k db1 = AttemptsForDisc k db"
    using r(1-3) counts_cong [OF r(5)] by (simp add: settled_attempts_def AttemptsForDisc_def)
  then have settled: "settled_attempts jobID k db2 = AttemptsForDisc k db"
    using settled_attempts_cong [OF frame(2,3)] by simp
  have "job_discs jobID db2 = job_discs jobID db1" using frame by (simp add: job_discs_def)
  moreover have "(jobID, k) \<in> job_discs jobID db1 \<Longrightarrow> k = discID"
    using r by (auto simp: job_discs_eq image_iff)
  ultimately show ?thesis using attempts_split [OF frame(1), of k jobID] settled by (auto split: if_splits)
qed

section \<open>What a rip does\<close>

lemmas wk_defs = logf_def with_status_def note_cancel_def exec_after_cancel_def publishDisc_def

text \<open>Everything of a worker but the status, the store, the log, the rip directories, the discarded copies
  and whether the work was cancelled.\<close>

definition outcome_of :: "worker \<Rightarrow> bool \<times> (int \<times> string \<times> title list) list \<times> (int \<times> int \<times> string) list \<times> (string \<times> disc \<times> string) list" where
  "outcome_of w = (wk_tray_opened w, wk_handed_on w, wk_bluray_done w, wk_published w)"

lemma outcome_of_update [simp]:
  "outcome_of (logf l w) = outcome_of w" "outcome_of (with_status f w) = outcome_of w" "outcome_of (note_cancel c w) = outcome_of w"
  "outcome_of (exec g w) = outcome_of w" "outcome_of (exec_after_cancel g w) = outcome_of w"
  "outcome_of (w\<lparr>wk_db := db\<rparr>) = outcome_of w" "outcome_of (w\<lparr>wk_dirs := ds\<rparr>) = outcome_of w"
  "outcome_of (w\<lparr>wk_discarded := fs\<rparr>) = outcome_of w"
  by (simp_all add: outcome_of_def wk_defs exec_def)

lemma db_of_update [simp]:
  "wk_db (logf l w) = wk_db w" "wk_db (with_status f w) = wk_db w" "wk_db (note_cancel c w) = wk_db w"
  "wk_db (exec g w) = (if wk_cancelled w then wk_db w else g (wk_db w))" "wk_db (exec_after_cancel g w) = g (wk_db w)"
  by (simp_all add: wk_defs exec_def)

lemma of_publish [simp]:
  "wk_db (publishDisc st d dir w) = wk_db w" "wk_handed_on (publishDisc st d dir w) = wk_handed_on w"
  "wk_tray_opened (publishDisc st d dir w) = wk_tray_opened w" "wk_cancelled (publishDisc st d dir w) = wk_cancelled w"
  "wk_status (publishDisc st d dir w) = wk_status w"
  by (simp_all add: publishDisc_def)

lemma cancelled_of_update [simp]:
  "wk_cancelled (logf l w) = wk_cancelled w" "wk_cancelled (with_status f w) = wk_cancelled w"
  "wk_cancelled (note_cancel c w) \<longleftrightarrow> wk_cancelled w \<or> c" "wk_cancelled (exec g w) = wk_cancelled w"
  "wk_cancelled (exec_after_cancel g w) = wk_cancelled w"
  by (simp_all add: wk_defs exec_def)

lemma status_of_update [simp]:
  "wk_status (logf l w) = wk_status w" "wk_status (with_status f w) = f (wk_status w)" "wk_status (note_cancel c w) = wk_status w"
  "wk_status (exec g w) = wk_status w" "wk_status (exec_after_cancel g w) = wk_status w"
  by (simp_all add: wk_defs exec_def)

text \<open>A title that was written, checked and, on the native path, measured.\<close>

definition title_good :: "config \<Rightarrow> title_try \<Rightarrow> bool" where
  "title_good cfg t \<longleftrightarrow> (case tt_result t of Inl e \<Rightarrow> False
     | Inr (path, sz, out) \<Rightarrow> verifyOutput out (MinOutputBytes cfg) = None \<and> (NativeDVD cfg \<longrightarrow> tt_native t = None))"

lemma rip_titles_work:
  "rip_titles cfg env now jobID discID n i ts w = (r, w') \<Longrightarrow>
     job_work jobID discID (wk_db w) (wk_db w') \<and> outcome_of w' = outcome_of w"
proof (induction ts arbitrary: i w)
  case (Cons t ts)
  let ?att = "ev_titles env i" and ?op = "''title '' @ nat_str (i + 1) @ '' of '' @ nat_str n"
  let ?w1 = "note_cancel (tt_cancelled ?att) (with_status (setProgress (ti_Index t) ?op) w)"
  let ?w3 = "with_status (setState StateRipping) (with_status (setState StateVerifying) ?w1)"
  show ?case
  proof (cases "tt_result ?att")
    case (Inl e)
    then show ?thesis using Cons.prems
      by (auto simp: Let_def split: if_splits)
  next
    case (Inr res)
    obtain path sz out where res: "res = (path, sz, out)" by (cases res) auto
    let ?w4 = "?w3\<lparr>wk_db := MarkTitleRipped discID (ti_Index t) sz True (wk_db ?w3)\<rparr>"
    let ?w5 = "exec (SetJobProgress jobID (int i + 1) (int n)) (with_status (titleDone (ti_DurationSecs t)) ?w4)"
    show ?thesis
    proof (cases "verifyOutput out (MinOutputBytes cfg) = None \<and> (if NativeDVD cfg then tt_native ?att else None) = None \<and> \<not> wk_cancelled ?w3")
      case True
      then have rec: "rip_titles cfg env now jobID discID n (i + 1) ts (logf ''info'' ?w5) = (r, w')"
        using Cons.prems Inr res by (simp add: Let_def)
      have "job_work jobID discID (wk_db w) (wk_db (logf ''info'' ?w5))"
        using True by (auto intro: job_work_snoc job_step.mark_title job_step.set_progress)
      moreover have "job_work jobID discID (wk_db (logf ''info'' ?w5)) (wk_db w') \<and> outcome_of w' = outcome_of (logf ''info'' ?w5)"
        using rec by (rule Cons.IH)
      ultimately show ?thesis by (auto intro: rtranclp_trans)
    next
      case False
      then show ?thesis using Cons.prems Inr res by (auto simp: Let_def split: option.splits if_splits)
    qed
  qed
qed simp

lemma rip_titles_step:
  assumes "rip_titles cfg env now jobID discID n i (t # ts) w = (None, w')"
  shows "\<exists>w2 sz. rip_titles cfg env now jobID discID n (i + 1) ts w2 = (None, w')
    \<and> title_good cfg (ev_titles env i) \<and> titles (wk_db w2) = titles (MarkTitleRipped discID (ti_Index t) sz True (wk_db w))"
proof -
  let ?att = "ev_titles env i" and ?op = "''title '' @ nat_str (i + 1) @ '' of '' @ nat_str n"
  let ?w1 = "note_cancel (tt_cancelled ?att) (with_status (setProgress (ti_Index t) ?op) w)"
  let ?w3 = "with_status (setState StateRipping) (with_status (setState StateVerifying) ?w1)"
  obtain path sz out where res: "tt_result ?att = Inr (path, sz, out)"
    using assms by (auto simp: Let_def split: sum.splits if_splits)
  have ok: "verifyOutput out (MinOutputBytes cfg) = None" "(if NativeDVD cfg then tt_native ?att else None) = None" "\<not> wk_cancelled ?w3"
    using assms res by (auto simp: Let_def split: option.splits if_splits)
  let ?w5 = "exec (SetJobProgress jobID (int i + 1) (int n)) (with_status (titleDone (ti_DurationSecs t))
    (?w3\<lparr>wk_db := MarkTitleRipped discID (ti_Index t) sz True (wk_db ?w3)\<rparr>))"
  have "rip_titles cfg env now jobID discID n (i + 1) ts (logf ''info'' ?w5) = (None, w')"
    using assms res ok by (simp add: Let_def)
  moreover have "titles (wk_db (logf ''info'' ?w5)) = titles (MarkTitleRipped discID (ti_Index t) sz True (wk_db w))"
    by (simp add: SetJobProgress_def update_job_def)
  moreover have "title_good cfg ?att" using res ok by (simp add: title_good_def split: if_splits)
  ultimately show ?thesis by blast
qed

lemma rip_titles_good:
  "rip_titles cfg env now jobID discID n i ts w = (None, w') \<Longrightarrow> k < length ts \<Longrightarrow> title_good cfg (ev_titles env (i + k))"
proof (induction ts arbitrary: i k w)
  case (Cons t ts)
  then show ?case using rip_titles_step [OF Cons.prems(1)] by (cases k) fastforce+
qed simp

text \<open>The rows of a disc's titles: those in \<^verbatim>\<open>is\<close> are recorded as ripped and verified.\<close>

definition titles_done :: "int \<Rightarrow> int set \<Rightarrow> store \<Rightarrow> bool" where
  "titles_done discID is db \<longleftrightarrow>
     (\<forall>x \<in> set (titles db). x_disc_id x = discID \<and> x_title_index x \<in> is \<longrightarrow> x_ripped x \<and> x_verified x)"

lemma titles_done_mark:
  "titles_done discID is db \<Longrightarrow> titles_done discID (insert i is) (MarkTitleRipped discID i sz True db)"
  unfolding titles_done_def MarkTitleRipped_def
proof (intro ballI impI)
  fix x
  assume prev: "\<forall>x \<in> set (titles db). x_disc_id x = discID \<and> x_title_index x \<in> is \<longrightarrow> x_ripped x \<and> x_verified x"
    and x: "x \<in> set (titles (db\<lparr>titles := update_where (\<lambda>t. x_disc_id t = discID \<and> x_title_index t = i)
      (\<lambda>t. t\<lparr>x_ripped := True, x_verified := True, x_size_bytes := sz\<rparr>) (titles db)\<rparr>))"
    and k: "x_disc_id x = discID \<and> x_title_index x \<in> insert i is"
  obtain x0 where x0: "x0 \<in> set (titles db)" "x = (if x_disc_id x0 = discID \<and> x_title_index x0 = i
      then x0\<lparr>x_ripped := True, x_verified := True, x_size_bytes := sz\<rparr> else x0)"
    using set_update_where x by force
  then show "x_ripped x \<and> x_verified x" using prev k by (auto split: if_splits)
qed

lemma titles_done_cong: "titles db' = titles db \<Longrightarrow> titles_done discID is db' = titles_done discID is db"
  by (simp add: titles_done_def)

lemma rip_titles_done:
  "rip_titles cfg env now jobID discID n i ts w = (None, w') \<Longrightarrow> titles_done discID is (wk_db w) \<Longrightarrow>
     titles_done discID (is \<union> ti_Index ` set ts) (wk_db w')"
proof (induction ts arbitrary: i "is" w)
  case (Cons t ts)
  obtain w2 sz where w2: "rip_titles cfg env now jobID discID n (i + 1) ts w2 = (None, w')"
      "titles (wk_db w2) = titles (MarkTitleRipped discID (ti_Index t) sz True (wk_db w))"
    using rip_titles_step [OF Cons.prems(1)] by blast
  have "titles_done discID (insert (ti_Index t) is) (wk_db w2)"
    unfolding titles_done_cong [OF w2(2)] by (rule titles_done_mark [OF Cons.prems(2)])
  from Cons.IH [OF w2(1) this] show ?case by simp
qed simp

lemma makeRipDir_frame: "makeRipDir cfg env today d w = (r, w1) \<Longrightarrow> \<exists>ds. w1 = w\<lparr>wk_dirs := ds\<rparr>"
  by (auto simp: makeRipDir_def Let_def split: prod.splits)

lemma ripSource_frame:
  "ripSource cfg env w = (r, w') \<Longrightarrow> wk_db w' = wk_db w \<and> outcome_of w' = outcome_of w \<and> wk_dirs w' = wk_dirs w"
  by (auto simp: ripSource_def decryptNeeded_def Let_def wk_defs outcome_of_def
      split: option.splits if_splits sum.splits)

lemma use_copy_frame:
  assumes "use_copy env now src d raw w = (r, w')"
  shows "job_work jobID discID (wk_db w) (wk_db w') \<and> outcome_of w' = outcome_of w"
proof -
  have "wk_db w' = wk_db w \<or> (\<exists>d' raw' i. SaveDisc now d' raw' (wk_db w) = Inr (i, wk_db w'))"
    using assms by (auto simp: use_copy_def Let_def or_rollback2_def split: if_splits sum.splits)
  then have "job_work jobID discID (wk_db w) (wk_db w')" by (auto intro: r_into_rtranclp job_step.save_disc)
  moreover have "outcome_of w' = outcome_of w"
    using assms by (auto simp: use_copy_def Let_def split: if_splits sum.splits)
  ultimately show ?thesis ..
qed

section \<open>Rip directories\<close>

definition candidates :: "string \<Rightarrow> string list" where
  "candidates base = base # map (\<lambda>n. base @ ''-'' @ nat_str n) [2..<51]"

lemma rip_dir_from_first:
  "rip_dir_from mk base c i dirs = (r, dirs') \<Longrightarrow> i \<le> 51 \<Longrightarrow>
   (let first = List.find (\<lambda>q. dirs q \<noteq> Some False) (c # map (\<lambda>n. base @ ''-'' @ nat_str n) [i..<51])
    in case r of
      Inr p \<Rightarrow> first = Some p \<and> dirs' = dirs(p \<mapsto> True)
    | Inl e \<Rightarrow> dirs' = dirs \<and> (case first of None \<Rightarrow> True | Some p \<Rightarrow> dirs p = None \<and> mk p \<noteq> None))"
proof (induction mk base c i dirs rule: rip_dir_from.induct)
  case (1 mk base c i dirs)
  show ?case
  proof (cases "dirs c")
    case None
    then show ?thesis using "1.prems"(1)
      by (auto simp: rip_dir_from.simps [of mk base c i dirs] split: option.splits)
  next
    case (Some b)
    show ?thesis
    proof (cases b)
      case True
      with Some "1.prems"(1) show ?thesis
        by (auto simp: rip_dir_from.simps [of mk base c i dirs] fun_upd_idem)
    next
      case False
      show ?thesis
      proof (cases "i > 50")
        case True
        with Some False "1.prems" show ?thesis
          by (auto simp: rip_dir_from.simps [of mk base c i dirs])
      next
        case le: False
        then have "rip_dir_from mk base (base @ ''-'' @ nat_str i) (Suc i) dirs = (r, dirs')"
          using Some False "1.prems"(1) by (simp add: rip_dir_from.simps [of mk base c i dirs])
        moreover have "[i..<51] = i # [Suc i..<51]" using le by (simp add: upt_conv_Cons)
        ultimately show ?thesis using "1.IH" [OF Some _ le] le Some False by simp
      qed
    qed
  qed
qed

lemma Join_DirName_neq_Nil: "Join [a, DirName today d] \<noteq> []"
  by (auto simp: Join_def DirName_def Clean_def Let_def split: list.splits)

lemma makeRipDir_Inr:
  assumes "makeRipDir cfg env today d w = (Inr p, w')"
  shows "p \<noteq> []" and "wk_dirs w p \<noteq> Some False"
proof -
  let ?base = "Join [RipsDir cfg, DirName today d]"
  obtain dirs' where "rip_dir_from (ev_mkdir env) ?base ?base 2 (wk_dirs w) = (Inr p, dirs')"
    using assms by (auto simp: makeRipDir_def Let_def split: prod.splits)
  from rip_dir_from_first [OF this]
  have "List.find (\<lambda>q. wk_dirs w q \<noteq> Some False) (candidates ?base) = Some p" by (simp add: candidates_def)
  from find_Some_D [OF this] show "p \<noteq> []" "wk_dirs w p \<noteq> Some False"
    using Join_DirName_neq_Nil [of "RipsDir cfg" today d] by (auto simp: candidates_def)
qed

text \<open>A rip is given the first of its fifty names that is not taken by something with files in it: the
  directory it gets did not exist or was empty, so no rip ever writes over another. It is refused one only
  when all fifty names are taken or the directory could not be made, and then nothing has changed.\<close>

theorem makeRipDir_never_overwrites:
  "case makeRipDir cfg env today d w of
     (Inr p, w') \<Rightarrow> wk_dirs w p \<noteq> Some False
       \<and> List.find (\<lambda>q. wk_dirs w q \<noteq> Some False) (candidates (Join [RipsDir cfg, DirName today d])) = Some p
       \<and> w' = w\<lparr>wk_dirs := (wk_dirs w)(p \<mapsto> True)\<rparr>
   | (Inl e, w') \<Rightarrow> w' = w
       \<and> (case List.find (\<lambda>q. wk_dirs w q \<noteq> Some False) (candidates (Join [RipsDir cfg, DirName today d])) of
            None \<Rightarrow> True | Some p \<Rightarrow> wk_dirs w p = None \<and> ev_mkdir env p \<noteq> None)"
proof -
  let ?base = "Join [RipsDir cfg, DirName today d]"
  obtain r dirs' where r: "rip_dir_from (ev_mkdir env) ?base ?base 2 (wk_dirs w) = (r, dirs')"
    by (cases "rip_dir_from (ev_mkdir env) ?base ?base 2 (wk_dirs w)")
  have m: "makeRipDir cfg env today d w = (r, w\<lparr>wk_dirs := dirs'\<rparr>)" by (simp add: makeRipDir_def r)
  show ?thesis
    using rip_dir_from_first [OF r] makeRipDir_Inr(2) [of cfg env today d w]
    by (cases r) (simp_all add: m candidates_def)
qed

section \<open>A rip, whole\<close>

text \<open>The worker at the two points \<^verbatim>\<open>rip\<close> goes through: with its directory, and about to write titles.\<close>

abbreviation rip_begun :: "string \<Rightarrow> worker \<Rightarrow> worker" where
  "rip_begun ripDir w1 \<equiv> (with_status (update_snap (\<lambda>x. x\<lparr>sp_RipDir := ripDir\<rparr>)) w1)\<lparr>wk_dirs := (wk_dirs w1)(ripDir \<mapsto> False)\<rparr>"

abbreviation rip_writing :: "int \<Rightarrow> int \<Rightarrow> disc \<Rightarrow> worker \<Rightarrow> worker" where
  "rip_writing now jobID d w4 \<equiv> exec (SetJobState now jobID JobRipping []) (exec (SetJobProgress jobID 0 (int (length (di_Titles d))))
     (with_status (\<lambda>s. beginRip (totalSecs (di_Titles d)) (setState StateRipping s)) w4))"

lemma rip_writing_work:
  "job_work jobID discID (wk_db w4) (wk_db (rip_writing now jobID d w4)) \<and> outcome_of (rip_writing now jobID d w4) = outcome_of w4"
  by (auto intro: job_work_snoc job_step.set_progress job_step.set_state)

lemma rip_elim:
  assumes "rip cfg env now today jobID discID d raw w = (r, w')"
  obtains (nowhere) w1 e where "makeRipDir cfg env today d w = (Inl e, w1)" "r = Inl (ErrText e)" "w' = w1"
  | (no_log) ripDir w1 e where "makeRipDir cfg env today d w = (Inr ripDir, w1)" "r = Inl (ErrText e)"
      "w' = with_status (update_snap (\<lambda>x. x\<lparr>sp_RipDir := ripDir\<rparr>)) w1"
  | (no_source) ripDir w1 e where "makeRipDir cfg env today d w = (Inr ripDir, w1)"
      "ripSource cfg env (rip_begun ripDir w1) = (Inl e, w')" "r = Inl e"
  | (unwritten) ripDir w1 src copy w3 res e where "makeRipDir cfg env today d w = (Inr ripDir, w1)"
      "ripSource cfg env (rip_begun ripDir w1) = (Inr (src, copy), w3)" "use_copy env now src d raw w3 = (res, w')" "r = Inl (ErrText e)"
  | (written) ripDir w1 src copy w3 d' raw' w4 w7 e where "makeRipDir cfg env today d w = (Inr ripDir, w1)"
      "ripSource cfg env (rip_begun ripDir w1) = (Inr (src, copy), w3)" "use_copy env now src d raw w3 = (Inr (d', raw'), w4)"
      "rip_titles cfg env now jobID discID (length (di_Titles d')) 0 (di_Titles d') (rip_writing now jobID d' w4) = (e, w7)"
      "if e = None \<and> \<not> wk_cancelled w7
       then r = Inr d' \<and> w' = w7\<lparr>wk_db := SetDiscRipDir discID ripDir (wk_db w7), wk_discarded := wk_discarded w7 @ (case copy of None \<Rightarrow> [] | Some f \<Rightarrow> [f])\<rparr>
       else (\<exists>e'. r = Inl e') \<and> w' = w7"
proof -
  obtain m w1 where m: "makeRipDir cfg env today d w = (m, w1)" by (cases "makeRipDir cfg env today d w")
  show thesis
  proof (cases m)
    case (Inl e)
    then show thesis using assms m nowhere by (auto simp: rip_def)
  next
    case mr: (Inr ripDir)
    let ?w2 = "with_status (update_snap (\<lambda>x. x\<lparr>sp_RipDir := ripDir\<rparr>)) w1"
    have dirs: "wk_dirs ?w2 = wk_dirs w1" by (simp add: with_status_def)
    show thesis
    proof (cases "ev_riplog env")
      case (Some e)
      then show thesis using assms m mr no_log by (auto simp: rip_def)
    next
      case log: None
      obtain s w3 where s: "ripSource cfg env (rip_begun ripDir w1) = (s, w3)" by (cases "ripSource cfg env (rip_begun ripDir w1)")
      show thesis
      proof (cases s)
        case (Inl e)
        then show thesis using assms m mr log s no_source by (auto simp: rip_def dirs)
      next
        case (Inr sc)
        obtain src copy where sc: "sc = (src, copy)" by (cases sc)
        obtain u w4 where u: "use_copy env now src d raw w3 = (u, w4)" by (cases "use_copy env now src d raw w3")
        show thesis
        proof (cases "(\<exists>e. u = Inl e) \<or> ev_json env \<noteq> None \<or> ev_scanfile env \<noteq> None")
          case True
          then have "\<exists>e. r = Inl (ErrText e) \<and> w' = w4"
            using assms m mr log s Inr sc u by (auto simp: rip_def dirs split: sum.splits option.splits)
          then show thesis using unwritten m mr s Inr sc u by blast
        next
          case False
          then obtain d' raw' where ok: "u = Inr (d', raw')" "ev_json env = None" "ev_scanfile env = None"
            by (cases u) auto
          obtain e w7 where t: "rip_titles cfg env now jobID discID (length (di_Titles d')) 0 (di_Titles d') (rip_writing now jobID d' w4) = (e, w7)"
            by (cases "rip_titles cfg env now jobID discID (length (di_Titles d')) 0 (di_Titles d') (rip_writing now jobID d' w4)")
          have "if e = None \<and> \<not> wk_cancelled w7
            then r = Inr d' \<and> w' = w7\<lparr>wk_db := SetDiscRipDir discID ripDir (wk_db w7), wk_discarded := wk_discarded w7 @ (case copy of None \<Rightarrow> [] | Some f \<Rightarrow> [f])\<rparr>
            else (\<exists>e'. r = Inl e') \<and> w' = w7"
            using assms m mr log s Inr sc u ok t
            by (auto simp: rip_def dirs Let_def split: sum.splits option.splits if_splits)
          with written m mr s Inr sc u ok(1) t show thesis by blast
        qed
      qed
    qed
  qed
qed

lemma rip_begun_frame: "makeRipDir cfg env today d w = (r, w1) \<Longrightarrow> wk_db w1 = wk_db w \<and> outcome_of w1 = outcome_of w"
  by (auto dest: makeRipDir_frame)

lemma rip_work:
  assumes "rip cfg env now today jobID discID d raw w = (r, w')"
  shows "outcome_of w' = outcome_of w" (is ?same)
    and "r = Inl e \<Longrightarrow> job_work jobID discID (wk_db w) (wk_db w')" (is "_ \<Longrightarrow> ?failed")
    and "r = Inr d' \<Longrightarrow> \<exists>dir db1. dir \<noteq> [] \<and> job_work jobID discID (wk_db w) db1 \<and> wk_db w' = SetDiscRipDir discID dir db1
      \<and> titles_done discID (ti_Index ` set (di_Titles d')) db1
      \<and> (\<forall>k < length (di_Titles d'). title_good cfg (ev_titles env k))" (is "_ \<Longrightarrow> ?done")
proof -
  have "?same \<and> (r = Inl e \<longrightarrow> ?failed) \<and> (r = Inr d' \<longrightarrow> ?done)"
    using assms
  proof (cases rule: rip_elim)
    case (nowhere w1 e)
    then show ?thesis using rip_begun_frame by fastforce
  next
    case (no_log ripDir w1 e)
    then show ?thesis using rip_begun_frame [OF no_log(1)] by simp
  next
    case (no_source ripDir w1 e)
    then show ?thesis using rip_begun_frame [OF no_source(1)] ripSource_frame [OF no_source(2)] by simp
  next
    case (unwritten ripDir w1 src copy w3 res e)
    then show ?thesis
      using rip_begun_frame [OF unwritten(1)] ripSource_frame [OF unwritten(2)] use_copy_frame [OF unwritten(3)] by simp
  next
    case (written ripDir w1 src copy w3 d'' raw' w4 w7 err)
    have "job_work jobID discID (wk_db w) (wk_db w4)" and out4: "outcome_of w4 = outcome_of w"
      using rip_begun_frame [OF written(1)] ripSource_frame [OF written(2)] use_copy_frame [OF written(3)] by simp_all
    moreover note rip_writing_work [of jobID discID w4 now d'']
    moreover note t = rip_titles_work [OF written(4)]
    ultimately have work: "job_work jobID discID (wk_db w) (wk_db w7)" and out: "outcome_of w7 = outcome_of w"
      by (blast intro: rtranclp_trans, simp)
    show ?thesis
    proof (cases "err = None \<and> \<not> wk_cancelled w7")
      case True
      then have r: "r = Inr d''" "wk_db w' = SetDiscRipDir discID ripDir (wk_db w7)" "outcome_of w' = outcome_of w7"
        using written(5) by (auto simp: outcome_of_def)
      have t: "rip_titles cfg env now jobID discID (length (di_Titles d'')) 0 (di_Titles d'') (rip_writing now jobID d'' w4) = (None, w7)"
        using written(4) True by simp
      have "titles_done discID ({} \<union> ti_Index ` set (di_Titles d'')) (wk_db w7)"
        by (rule rip_titles_done [OF t]) (simp add: titles_done_def)
      moreover have "\<forall>k < length (di_Titles d''). title_good cfg (ev_titles env k)"
        using rip_titles_good [OF t] by simp
      ultimately show ?thesis using work out r makeRipDir_Inr(1) [OF written(1)] by auto
    next
      case False
      then show ?thesis using written(5) work out by auto
    qed
  qed
  then show ?same "r = Inl e \<Longrightarrow> ?failed" "r = Inr d' \<Longrightarrow> ?done" by blast+
qed

section \<open>Ending, and opening a job\<close>

lemma ejectNow_frame [simp]:
  "wk_db (ejectNow cfg env w) = wk_db w" "wk_cancelled (ejectNow cfg env w) = wk_cancelled w"
  "wk_handed_on (ejectNow cfg env w) = wk_handed_on w"
  by (simp_all add: ejectNow_def Let_def wk_defs)

lemma fail_frame [simp]:
  "wk_db (fail cfg env m w) = wk_db w" "wk_cancelled (fail cfg env m w) = wk_cancelled w"
  "wk_handed_on (fail cfg env m w) = wk_handed_on w"
  "\<not> EjectOnFailure cfg \<Longrightarrow> outcome_of (fail cfg env m w) = outcome_of w"
  by (simp_all add: fail_def Let_def) (simp_all add: wk_defs outcome_of_def)

lemma fail_keeps_tray: "\<not> EjectOnFailure cfg \<Longrightarrow> wk_tray_opened (fail cfg env m w) = wk_tray_opened w"
  using fail_frame(4) [of cfg env m w] by (simp add: outcome_of_def)

lemma open_job_Some:
  assumes "open_job cfg env now d raw w = (Some (discID, jobID), w')"
  shows "\<exists>db1. SaveDisc now d raw (wk_db w) = Inr (discID, db1) \<and> int (AttemptsForDisc discID db1) < MaxRipAttempts cfg
    \<and> CreateJob now discID (wk_driveID w) (int (AttemptsForDisc discID db1) + 1) db1 = Inr (jobID, wk_db w')
    \<and> outcome_of w' = outcome_of w \<and> \<not> is_ripped (di_Fingerprint d) (wk_db w)"
  using assms
  by (auto simp: open_job_def start_job_def is_ripped_def rip_dir_of_def Ripped_def Let_def
      split: if_splits option.splits sum.splits)

lemma handed_on_of_update [simp]:
  "wk_handed_on (logf l w) = wk_handed_on w" "wk_handed_on (with_status f w) = wk_handed_on w"
  "wk_handed_on (exec g w) = wk_handed_on w" "wk_handed_on (exec_after_cancel g w) = wk_handed_on w"
  by (simp_all add: wk_defs exec_def)

lemma tray_of_update [simp]:
  "wk_tray_opened (logf l w) = wk_tray_opened w" "wk_tray_opened (with_status f w) = wk_tray_opened w"
  "wk_tray_opened (exec g w) = wk_tray_opened w" "wk_tray_opened (exec_after_cancel g w) = wk_tray_opened w"
  by (simp_all add: wk_defs exec_def)

lemma open_job_None:
  assumes "open_job cfg env now d raw w = (None, w')"
  shows "wk_db w' = wk_db w \<or> (\<exists>i. SaveDisc now d raw (wk_db w) = Inr (i, wk_db w'))" (is ?db)
    and "is_ripped (di_Fingerprint d) (wk_db w) \<or> EjectOnFailure cfg \<or> outcome_of w' = outcome_of w" (is ?out)
    and "wk_handed_on w' = wk_handed_on w" (is ?on)
proof -
  note defs = open_job_def start_job_def Let_def
  show ?db using assms by (auto simp: defs split: if_splits option.splits sum.splits)
  show ?on using assms by (auto simp: defs split: if_splits option.splits sum.splits)
  show ?out
  proof (cases "EjectOnFailure cfg \<or> is_ripped (di_Fingerprint d) (wk_db w)")
    case False
    then show ?thesis using assms
      by (auto simp: defs is_ripped_def rip_dir_of_def Ripped_def split: if_splits option.splits sum.splits)
  qed auto
qed

section \<open>A DVD, whole\<close>

lemma scan_attempts_frame:
  "scan_attempts cfg env n k w = (r, w') \<Longrightarrow> wk_db w' = wk_db w \<and> outcome_of w' = outcome_of w
     \<and> (\<forall>d raw. r = Inr (d, raw) \<longrightarrow> (\<exists>i. sc_result (ev_scans env i) = Inr (d, raw)))"
proof (induction n arbitrary: k w)
  case (Suc n)
  let ?w1 = "note_cancel (sc_cancelled (ev_scans env k)) w"
  show ?case
  proof (cases "sc_result (ev_scans env k)")
    case (Inl e)
    let ?w2 = "if sc_gone (ev_scans env k) = None then logf ''warn'' ?w1 else ?w1"
    let ?w3 = "note_cancel (sc_wait_cancelled (ev_scans env k)) (logf ''warn'' ?w2)"
    show ?thesis
    proof (cases "wk_cancelled ?w1 \<or> sc_gone (ev_scans env k) = Some True \<or> n = 0 \<or> wk_cancelled ?w3")
      case True
      then show ?thesis using Suc.prems Inl by (auto simp: Let_def split: if_splits)
    next
      case False
      then have "scan_attempts cfg env n (k + 1) ?w3 = (r, w')"
        using Suc.prems Inl by (auto simp: Let_def split: if_splits)
      from Suc.IH [OF this] show ?thesis by (simp split: if_splits)
    qed
  next
    case (Inr res)
    then show ?thesis using Suc.prems by (auto simp: Let_def split: if_splits)
  qed
qed auto

lemma handleDVD_elim:
  assumes "handleDVD cfg env now today w = w'"
  obtains (unread) "wk_db w' = wk_db w" "wk_handed_on w' = wk_handed_on w" "\<not> EjectOnFailure cfg \<longrightarrow> wk_tray_opened w' = wk_tray_opened w"
  | (refused) i d raw w1 where "sc_result (ev_scans env i) = Inr (d, raw)" "wk_db w1 = wk_db w" "wk_handed_on w1 = wk_handed_on w"
      "wk_tray_opened w1 = wk_tray_opened w" "open_job cfg env now d raw w1 = (None, w')"
  | (worked) i d raw w1 w2 discID jobID where "sc_result (ev_scans env i) = Inr (d, raw)" "wk_db w1 = wk_db w"
      "wk_handed_on w1 = wk_handed_on w" "wk_tray_opened w1 = wk_tray_opened w"
      "open_job cfg env now d raw w1 = (Some (discID, jobID), w2)" "w' = work_disc cfg env now today jobID discID d raw w2"
proof -
  obtain r w1 where sc: "scanWithRetry cfg env w = (r, w1)" by (cases "scanWithRetry cfg env w")
  note fr = scan_attempts_frame [OF sc [unfolded scanWithRetry_def]]
  show thesis
  proof (cases r)
    case (Inl e)
    then have "wk_db w' = wk_db w \<and> wk_handed_on w' = wk_handed_on w \<and> (\<not> EjectOnFailure cfg \<longrightarrow> wk_tray_opened w' = wk_tray_opened w)"
      using assms sc fr by (auto simp: handleDVD_def outcome_of_def fail_keeps_tray split: if_splits)
    then show thesis using unread by blast
  next
    case (Inr x)
    obtain d raw where x: "x = (d, raw)" by (cases x)
    then obtain i where i: "sc_result (ev_scans env i) = Inr (d, raw)" using fr Inr by blast
    define w2 where "w2 = publishDisc ''enumerated'' d [] (logf ''info'' (with_status (update_snap (\<lambda>x. x\<lparr>
                 sp_DiscLabel := di_VolumeLabel d, sp_Fingerprint := di_Fingerprint d,
                 sp_TitleCount := int (length (di_Titles d))\<rparr>)) w1))"
    have w2: "wk_db w2 = wk_db w" "wk_handed_on w2 = wk_handed_on w" "wk_tray_opened w2 = wk_tray_opened w"
      using fr by (simp_all add: w2_def wk_defs outcome_of_def)
    obtain o' w3 where o: "open_job cfg env now d raw w2 = (o', w3)" by (cases "open_job cfg env now d raw w2")
    have w': "w' = (case o' of None \<Rightarrow> w3 | Some (discID, jobID) \<Rightarrow> work_disc cfg env now today jobID discID d raw w3)"
      using assms sc Inr x o by (simp add: handleDVD_def scanned_disc_def Let_def w2_def [symmetric] split: option.split)
    show thesis
    proof (cases o')
      case None
      with refused [OF i w2] o w' show thesis by simp
    next
      case (Some p)
      then obtain discID jobID where "o' = Some (discID, jobID)" by (cases p) auto
      with worked [OF i w2] o w' show thesis by simp
    qed
  qed
qed

lemma work_disc_elim:
  assumes "work_disc cfg env now today jobID discID d raw w = w'"
  obtains (failed) "job_work jobID discID (wk_db w) (wk_db w')" "wk_handed_on w' = wk_handed_on w"
      "\<not> EjectOnFailure cfg \<longrightarrow> wk_tray_opened w' = wk_tray_opened w"
  | (complete) dir db1 rd and d' :: disc where "dir \<noteq> []" "job_work jobID discID (wk_db w) db1"
      "wk_db w' = SetDiscRipDir discID dir db1 \<or> wk_db w' = SetJobState now jobID JobComplete [] (SetDiscRipDir discID dir db1)"
      "titles_done discID (ti_Index ` set (di_Titles d')) (wk_db w')"
      "\<forall>k < length (di_Titles d'). title_good cfg (ev_titles env k)"
      "wk_handed_on w' = wk_handed_on w @ [(discID, rd, di_Titles d')]"
proof -
  obtain r w1 where r: "rip cfg env now today jobID discID d raw w = (r, w1)"
    by (cases "rip cfg env now today jobID discID d raw w")
  show thesis
  proof (cases r)
    case (Inl e)
    have "wk_db w' \<in> {wk_db w1, SetJobState now jobID JobCancelled ''cancelled'' (wk_db w1),
        SetJobState now jobID JobFailed (error_text e) (wk_db w1)}"
      using assms r Inl by (auto simp: work_disc_def split: if_splits)
    then have "job_work jobID discID (wk_db w) (wk_db w')"
      using rip_work(2) [OF r Inl] job_work_then [OF rip_work(2) [OF r Inl]] by auto
    moreover have "wk_handed_on w' = wk_handed_on w" "\<not> EjectOnFailure cfg \<longrightarrow> wk_tray_opened w' = wk_tray_opened w"
      using assms r Inl rip_work(1) [OF r]
      by (auto simp: work_disc_def outcome_of_def fail_keeps_tray split: if_splits)
    ultimately show thesis by (rule failed)
  next
    case (Inr d')
    obtain dir db1 where c: "dir \<noteq> []" "job_work jobID discID (wk_db w) db1" "wk_db w1 = SetDiscRipDir discID dir db1"
        "titles_done discID (ti_Index ` set (di_Titles d')) db1" "\<forall>k < length (di_Titles d'). title_good cfg (ev_titles env k)"
      using rip_work(3) [OF r Inr] by blast
    have db': "wk_db w' = SetDiscRipDir discID dir db1 \<or> wk_db w' = SetJobState now jobID JobComplete [] (SetDiscRipDir discID dir db1)"
      using assms r Inr c(3) by (auto simp: work_disc_def Let_def)
    have "titles (wk_db w') = titles db1"
      using db' by (auto simp: SetJobState_def SetDiscRipDir_def update_job_def update_disc_def)
    then have td: "titles_done discID (ti_Index ` set (di_Titles d')) (wk_db w')"
      using c(4) titles_done_cong by blast
    have "\<exists>rd. wk_handed_on w' = wk_handed_on w @ [(discID, rd, di_Titles d')]"
      using assms r Inr rip_work(1) [OF r] by (auto simp: work_disc_def Let_def outcome_of_def)
    then obtain rd where on: "wk_handed_on w' = wk_handed_on w @ [(discID, rd, di_Titles d')]" by blast
    show thesis by (rule complete [OF c(1,2) db' td c(5) on])
  qed
qed

end
