(* ===== verification/Worker_Live.thy ===== *)
theory Worker_Live
  imports Worker_Rip
begin

text \<open>
  A disc that gives no trouble is ripped: for each stage of the DVD pipeline, the conditions on the outside
  under which it goes through. \<^verbatim>\<open>smooth\<close> collects them for a whole disc.
\<close>

definition scan_fails_softly :: "scan_try \<Rightarrow> bool" where
  "scan_fails_softly t \<longleftrightarrow> isl (sc_result t) \<and> \<not> sc_cancelled t \<and> sc_gone t \<noteq> Some True \<and> \<not> sc_wait_cancelled t"

lemma scan_attempts_succeeds:
  assumes "m < n" and "\<forall>i < m. scan_fails_softly (ev_scans env (k + i))" and "sc_result (ev_scans env (k + m)) = Inr r"
    and "\<not> sc_cancelled (ev_scans env (k + m))" and "\<not> wk_cancelled w"
  shows "\<exists>w'. scan_attempts cfg env n k w = (Inr r, w') \<and> \<not> wk_cancelled w' \<and> wk_dirs w' = wk_dirs w \<and> wk_driveID w' = wk_driveID w"
  using assms
proof (induction m arbitrary: n k w)
  case 0
  then show ?case by (cases n) (auto simp: Let_def wk_defs)
next
  case (Suc m)
  obtain n' where n: "n = Suc n'" "m < n'" using Suc.prems(1) by (cases n) auto
  have first: "scan_fails_softly (ev_scans env k)" using Suc.prems(2) by (metis add.right_neutral zero_less_Suc)
  then obtain e where e: "sc_result (ev_scans env k) = Inl e" by (auto simp: scan_fails_softly_def isl_def)
  let ?w1 = "note_cancel (sc_cancelled (ev_scans env k)) w"
  let ?w2 = "if sc_gone (ev_scans env k) = None then logf ''warn'' ?w1 else ?w1"
  let ?w3 = "note_cancel (sc_wait_cancelled (ev_scans env k)) (logf ''warn'' ?w2)"
  have w3: "\<not> wk_cancelled ?w3" using first Suc.prems(5) by (auto simp: scan_fails_softly_def)
  have "\<forall>i < m. scan_fails_softly (ev_scans env (k + 1 + i))"
    using Suc.prems(2) by (metis Suc_less_eq add.assoc plus_1_eq_Suc)
  then have "\<exists>w'. scan_attempts cfg env n' (k + 1) ?w3 = (Inr r, w') \<and> \<not> wk_cancelled w' \<and> wk_dirs w' = wk_dirs ?w3
      \<and> wk_driveID w' = wk_driveID ?w3"
    using Suc.IH [OF n(2), of "k + 1" ?w3] Suc.prems(3,4) w3 by (simp add: add.assoc)
  moreover have "scan_attempts cfg env n k w = scan_attempts cfg env n' (k + 1) ?w3"
    using n first e Suc.prems(5) w3 by (simp add: Let_def scan_fails_softly_def)
  moreover have "wk_dirs ?w3 = wk_dirs w \<and> wk_driveID ?w3 = wk_driveID w" by (simp add: wk_defs)
  ultimately show ?case by simp
qed

lemma open_job_succeeds:
  assumes ok: "store_ok (wk_db w)" and nc: "\<not> wk_cancelled w" and nr: "\<not> is_ripped (di_Fingerprint d) (wk_db w)"
    and dr: "has_drive (wk_db w) (wk_driveID w)" and lim: "0 < MaxRipAttempts cfg"
    and att: "\<forall>k. disc_id_of (di_Fingerprint d) (wk_db w) = Some k \<longrightarrow> int (AttemptsForDisc k (wk_db w)) < MaxRipAttempts cfg"
  shows "\<exists>discID jobID w'. open_job cfg env now d raw w = (Some (discID, jobID), w') \<and> \<not> wk_cancelled w' \<and> wk_dirs w' = wk_dirs w"
proof -
  obtain i db1 where s: "SaveDisc now d raw (wk_db w) = Inr (i, db1)" using SaveDisc_total by blast
  have same: "AttemptsForDisc i db1 = AttemptsForDisc i (wk_db w)"
    using SaveDisc_forgotten [OF ok s] SaveDisc_discs(3) [OF s]
    by (simp add: AttemptsForDisc_def counts_as_attempt_def [abs_def])
  have few: "int (AttemptsForDisc i db1) < MaxRipAttempts cfg"
  proof (cases "disc_id_of (di_Fingerprint d) (wk_db w)")
    case None
    then have "i = next_id d_id (discs (wk_db w))"
      using SaveDisc_discs(2) [OF s] by (simp add: disc_id_of_def)
    then have "i \<notin> j_disc_id ` set (jobs (wk_db w))"
      using next_id_fresh [of d_id "discs (wk_db w)"] ok by (auto simp: store_ok_defs)
    then have "AttemptsForDisc i (wk_db w) = 0" by (auto simp: AttemptsForDisc_def filter_empty_conv counts_as_attempt_def)
    then show ?thesis using lim same by simp
  next
    case (Some k)
    then have "k = i" using SaveDisc_disc_id [OF s] by (metis option.inject)
    then show ?thesis using att Some same by simp
  qed
  have "has_disc db1 i" using SaveDisc_disc_id(1) [OF s] by (auto simp: disc_id_of_def has_disc_iff dest: find_Some_D)
  moreover have "has_drive db1 (wk_driveID w)"
    using dr s by (auto simp: has_drive_def SaveDisc_eq Let_def split: sum.splits)
  ultimately have "\<exists>j db2. CreateJob now i (wk_driveID w) (int (AttemptsForDisc i db1) + 1) db1 = Inr (j, db2)"
    by (simp add: CreateJob_def Let_def)
  then obtain j db2 where c: "CreateJob now i (wk_driveID w) (int (AttemptsForDisc i db1) + 1) db1 = Inr (j, db2)" by blast
  have "open_job cfg env now d raw w = start_job cfg env now d raw w"
    using nc nr by (auto simp: open_job_def is_ripped_def rip_dir_of_def Ripped_def split: option.split)
  then show ?thesis using s c few nc by (simp add: start_job_def Let_def) (simp add: wk_defs)
qed

lemma makeRipDir_succeeds:
  assumes "List.find (\<lambda>q. wk_dirs w q \<noteq> Some False) (candidates (Join [RipsDir cfg, DirName today d])) = Some p"
    and "ev_mkdir env p = None"
  shows "\<exists>w'. makeRipDir cfg env today d w = (Inr p, w') \<and> wk_cancelled w' = wk_cancelled w"
proof -
  let ?base = "Join [RipsDir cfg, DirName today d]"
  obtain r ds where r: "rip_dir_from (ev_mkdir env) ?base ?base 2 (wk_dirs w) = (r, ds)"
    by (cases "rip_dir_from (ev_mkdir env) ?base ?base 2 (wk_dirs w)")
  have "r = Inr p" using rip_dir_from_first [OF r] assms by (auto simp: candidates_def Let_def split: sum.splits)
  then show ?thesis using r by (simp add: makeRipDir_def)
qed

lemma ripSource_in_place:
  assumes "NativeDVD cfg"
  shows "\<exists>w'. ripSource cfg env w = (Inr (DeviceSource (wk_device w), None), w') \<and> wk_cancelled w' = wk_cancelled w"
  using assms by (auto simp: ripSource_def decryptNeeded_def Let_def split: option.split)

lemma rip_titles_succeeds:
  assumes "\<forall>k < length ts. title_good cfg (ev_titles env (i + k)) \<and> \<not> tt_cancelled (ev_titles env (i + k))" and "\<not> wk_cancelled w"
  shows "\<exists>w'. rip_titles cfg env now jobID discID n i ts w = (None, w') \<and> \<not> wk_cancelled w'"
  using assms
proof (induction ts arbitrary: i w)
  case (Cons t ts)
  let ?att = "ev_titles env i" and ?op = "''title '' @ nat_str (i + 1) @ '' of '' @ nat_str n"
  let ?w1 = "note_cancel (tt_cancelled ?att) (with_status (setProgress (ti_Index t) ?op) w)"
  let ?w3 = "with_status (setState StateRipping) (with_status (setState StateVerifying) ?w1)"
  have good: "title_good cfg ?att" "\<not> tt_cancelled ?att" using Cons.prems(1) [rule_format, of 0] by simp_all
  then obtain path sz out where res: "tt_result ?att = Inr (path, sz, out)"
    by (auto simp: title_good_def split: sum.splits)
  have ok: "verifyOutput out (MinOutputBytes cfg) = None" "(if NativeDVD cfg then tt_native ?att else None) = None" "\<not> wk_cancelled ?w3"
    using good res Cons.prems(2) by (auto simp: title_good_def)
  let ?w5 = "exec (SetJobProgress jobID (int i + 1) (int n)) (with_status (titleDone (ti_DurationSecs t))
    (?w3\<lparr>wk_db := MarkTitleRipped discID (ti_Index t) sz True (wk_db ?w3)\<rparr>))"
  have "rip_titles cfg env now jobID discID n i (t # ts) w = rip_titles cfg env now jobID discID n (i + 1) ts (logf ''info'' ?w5)"
    using res ok by (simp add: Let_def)
  moreover have "\<forall>k < length ts. title_good cfg (ev_titles env (i + 1 + k)) \<and> \<not> tt_cancelled (ev_titles env (i + 1 + k))"
    using Cons.prems(1) by (auto dest: spec [of _ "Suc k" for k])
  moreover have "\<not> wk_cancelled (logf ''info'' ?w5)" using ok(3) by simp
  ultimately show ?case using Cons.IH by simp
qed simp

lemma rip_succeeds:
  assumes "List.find (\<lambda>q. wk_dirs w q \<noteq> Some False) (candidates (Join [RipsDir cfg, DirName today d])) = Some p"
    and "ev_mkdir env p = None" "ev_riplog env = None" "ev_json env = None" "ev_scanfile env = None" "NativeDVD cfg" "\<not> wk_cancelled w"
    and "\<forall>k < length (di_Titles d). title_good cfg (ev_titles env k) \<and> \<not> tt_cancelled (ev_titles env k)"
  shows "\<exists>w'. rip cfg env now today jobID discID d raw w = (Inr d, w')"
proof -
  obtain w1 where w1: "makeRipDir cfg env today d w = (Inr p, w1)" "\<not> wk_cancelled w1"
    using makeRipDir_succeeds [OF assms(1,2)] assms(7) by blast
  define w2 where "w2 = rip_begun p w1"
  obtain w3 where w3: "ripSource cfg env w2 = (Inr (DeviceSource (wk_device w2), None), w3)" "\<not> wk_cancelled w3"
    using ripSource_in_place [OF assms(6), of env w2] w1(2) by (auto simp: w2_def)
  have "\<not> wk_cancelled (rip_writing now jobID d w3)" using w3(2) by simp
  moreover have "\<forall>k < length (di_Titles d). title_good cfg (ev_titles env (0 + k)) \<and> \<not> tt_cancelled (ev_titles env (0 + k))"
    using assms(8) by simp
  ultimately obtain w7 where
    w7: "rip_titles cfg env now jobID discID (length (di_Titles d)) 0 (di_Titles d) (rip_writing now jobID d w3) = (None, w7)"
      "\<not> wk_cancelled w7" using rip_titles_succeeds by blast
  have dirs: "wk_dirs (with_status (update_snap (\<lambda>x. x\<lparr>sp_RipDir := p\<rparr>)) w1) = wk_dirs w1" by (simp add: with_status_def)
  show ?thesis
    using w1(1) w3(1) w7 assms(3-5)
    by (simp add: rip_def dirs w2_def [symmetric] use_copy_def IsFolder_def Let_def)
qed

section \<open>A whole disc\<close>

text \<open>Nothing outside stands in the way: there is a slot, the disc is not a Blu-ray, the first \<^verbatim>\<open>m\<close> scans fail
  softly and the next one succeeds, the native reader is used, one of the directory's names is free and can
  be made, the files beside the titles can be written, and every title is written whole.\<close>

definition smooth :: "config \<Rightarrow> disc_env \<Rightarrow> date \<Rightarrow> (string \<Rightarrow> bool option) \<Rightarrow> nat \<Rightarrow> disc \<Rightarrow> bool" where
  "smooth cfg env today dirs m d \<longleftrightarrow>
     \<not> ev_stopped env \<and> ev_slot env \<noteq> SlotStopped \<and> ev_kind env \<noteq> Some DiscBluRay
     \<and> int m < ScanAttempts cfg \<and> list_all (\<lambda>i. scan_fails_softly (ev_scans env i)) [0..<m] \<and> \<not> sc_cancelled (ev_scans env m)
     \<and> NativeDVD cfg \<and> ev_riplog env = None \<and> ev_json env = None \<and> ev_scanfile env = None
     \<and> (case List.find (\<lambda>q. dirs q \<noteq> Some False) (candidates (Join [RipsDir cfg, DirName today d])) of
          None \<Rightarrow> False | Some p \<Rightarrow> ev_mkdir env p = None)
     \<and> list_all (\<lambda>k. title_good cfg (ev_titles env k) \<and> \<not> tt_cancelled (ev_titles env k)) [0..<length (di_Titles d)]"

lemma smooth_rip:
  assumes "smooth cfg env today (wk_dirs w) m d" and "\<not> wk_cancelled w"
  shows "\<exists>w'. rip cfg env now today jobID discID d raw w = (Inr d, w')"
  using assms by (auto simp: smooth_def list_all_iff split: option.splits intro!: rip_succeeds)

lemma smooth_scan:
  assumes "smooth cfg env today dirs m d" and "sc_result (ev_scans env m) = Inr (d, raw)" and "\<not> wk_cancelled w"
  shows "\<exists>w'. scanWithRetry cfg env w = (Inr (d, raw), w') \<and> \<not> wk_cancelled w' \<and> wk_dirs w' = wk_dirs w \<and> wk_driveID w' = wk_driveID w"
  unfolding scanWithRetry_def
  by (rule scan_attempts_succeeds [where m = m]) (use assms in \<open>auto simp: smooth_def list_all_iff\<close>)

lemma handleDisc_dvd_eq:
  assumes "ev_kind env \<noteq> Some DiscBluRay" and "ev_slot env \<noteq> SlotStopped"
  obtains w3 where "handleDisc sha cfg env now today w = (handleDVD cfg env now today w3)\<lparr>wk_cancellable := False\<rparr>"
    "wk_db w3 = wk_db w" "wk_dirs w3 = wk_dirs w" "wk_driveID w3 = wk_driveID w" "wk_cancelled w3 = ev_stopped env"
    "wk_handed_on w3 = wk_handed_on w"
proof -
  obtain w1 where "takeDiscSlot env (logf ''info'' (w\<lparr>wk_cancelled := ev_stopped env\<rparr>)) = (True, w1)"
      "wk_db w1 = wk_db w" "wk_dirs w1 = wk_dirs w" "wk_driveID w1 = wk_driveID w" "wk_cancelled w1 = ev_stopped env"
      "wk_handed_on w1 = wk_handed_on w"
    using assms(2) by (cases "ev_slot env") (auto simp: takeDiscSlot_def wk_defs)
  then show thesis using assms(1)
    by (intro that [of "(with_status (setState StateScanning) (if ev_kind env = None then logf ''warn'' w1 else w1))\<lparr>wk_cancellable := True\<rparr>"])
      (simp_all add: handleDisc_def Let_def, simp_all add: wk_defs)
qed

end
