(* ===== verification/Worker_Safety.thy ===== *)
theory Worker_Safety
  imports Worker_Live
begin

text \<open>
  What the drive worker guarantees, whatever the drive, MakeMKV, the encoder, the disc and the person do:
  what it takes for a disc to be recorded as ripped, when the tray opens, how many attempts a disc can
  cost, how much of a disc a decrypted copy has to hold, and in which state a drive is left.
\<close>

section \<open>Reaching a DVD\<close>

definition same_ledger :: "worker \<Rightarrow> worker \<Rightarrow> bool" where
  "same_ledger w w' \<longleftrightarrow> wk_db w' = wk_db w \<and> wk_handed_on w' = wk_handed_on w \<and> wk_tray_opened w' = wk_tray_opened w
     \<and> wk_driveID w' = wk_driveID w"

lemma takeDiscSlot_ledger: "takeDiscSlot env w = (b, w') \<Longrightarrow> same_ledger w w'"
  by (auto simp: takeDiscSlot_def same_ledger_def wk_defs split: slot.splits)

lemma handleDisc_elim:
  assumes "handleDisc sha cfg env now today w = w'"
  obtains (stopped) "ev_slot env = SlotStopped" "same_ledger w w'" "state_of (wk_status w') = StateQueued"
  | (bluray) w1 where "ev_kind env = Some DiscBluRay" "same_ledger w w1" "w' = handleBluRay sha cfg env now today w1"
  | (dvd) w3 where "ev_kind env \<noteq> Some DiscBluRay" "same_ledger w w3" "state_of (wk_status w3) = StateScanning"
      "w' = (handleDVD cfg env now today w3)\<lparr>wk_cancellable := False\<rparr>"
proof -
  let ?w0 = "logf ''info'' (w\<lparr>wk_cancelled := ev_stopped env\<rparr>)"
  have w0: "same_ledger w ?w0" by (simp add: same_ledger_def wk_defs)
  obtain b w1 where t: "takeDiscSlot env ?w0 = (b, w1)" by (cases "takeDiscSlot env ?w0")
  have w1: "same_ledger w w1" using takeDiscSlot_ledger [OF t] w0 by (simp add: same_ledger_def)
  show thesis
  proof (cases b)
    case False
    then have "ev_slot env = SlotStopped" "state_of (wk_status w1) = StateQueued"
      using t by (auto simp: takeDiscSlot_def split: slot.splits)
    then show thesis using stopped w1 False assms t by (simp add: handleDisc_def)
  next
    case True
    show thesis
    proof (cases "ev_kind env = Some DiscBluRay")
      case br: True
      have "same_ledger w (logf ''info'' w1)" using w1 by (simp add: same_ledger_def wk_defs)
      with bluray br True assms t show thesis by (simp add: handleDisc_def)
    next
      case False
      let ?w2 = "if ev_kind env = None then logf ''warn'' w1 else w1"
      let ?w3 = "(with_status (setState StateScanning) ?w2)\<lparr>wk_cancellable := True\<rparr>"
      have "same_ledger w ?w3" using w1 by (simp add: same_ledger_def wk_defs)
      moreover have "state_of (wk_status ?w3) = StateScanning" by simp
      ultimately show thesis using dvd [of ?w3] False True assms t by (simp add: handleDisc_def Let_def)
    qed
  qed
qed

section \<open>What a record stands for\<close>

lemma disc_id_find:
  assumes "disc_id_of fp db = Some k"
  obtains r where "List.find (\<lambda>d. d_fingerprint d = fp) (discs db) = Some r" "d_id r = k"
  using assms by (auto simp: disc_id_of_def)

lemma SetDiscRipDir_rip_dir:
  assumes "store_ok db"
  shows "rip_dir_of fp (SetDiscRipDir k dir db) = (if disc_id_of fp db = Some k then dir else rip_dir_of fp db)"
    and "disc_id_of fp (SetDiscRipDir k dir db) = disc_id_of fp db"
proof -
  have "List.find (\<lambda>d. d_fingerprint d = fp) (update_where (\<lambda>d. d_id d = k) (\<lambda>d. d\<lparr>d_rip_dir := Some dir\<rparr>) (discs db)) =
      map_option (\<lambda>r. if d_id r = k then r\<lparr>d_rip_dir := Some dir\<rparr> else r) (List.find (\<lambda>d. d_fingerprint d = fp) (discs db))"
    by (rule find_update_where_frame) simp
  then show "rip_dir_of fp (SetDiscRipDir k dir db) = (if disc_id_of fp db = Some k then dir else rip_dir_of fp db)"
      "disc_id_of fp (SetDiscRipDir k dir db) = disc_id_of fp db"
    by (cases "List.find (\<lambda>d. d_fingerprint d = fp) (discs db)";
        simp add: rip_dir_of_def disc_id_of_def FindDisc_def SetDiscRipDir_def update_disc_def disc_record_of_def coalesce_def)+
qed

text \<open>The store before and after a disc that was worked on.\<close>

lemma opened_job:
  assumes ok: "store_ok (wk_db w)" and op: "open_job cfg env now d raw w = (Some (discID, jobID), w2)"
  shows "store_ok (wk_db w2)" and "disc_id_of (di_Fingerprint d) (wk_db w2) = Some discID"
    and "rip_dir_of fp (wk_db w2) = rip_dir_of fp (wk_db w)"
proof -
  obtain db1 where s: "SaveDisc now d raw (wk_db w) = Inr (discID, db1)"
      and c: "CreateJob now discID (wk_driveID w) (int (AttemptsForDisc discID db1) + 1) db1 = Inr (jobID, wk_db w2)"
    using open_job_Some [OF op] by blast
  have ok1: "store_ok db1" by (rule SaveDisc_ok [OF ok s])
  then show "store_ok (wk_db w2)" using c by (rule CreateJob_ok)
  have "discs (wk_db w2) = discs db1" using CreateJob_row [OF ok1 c] by blast
  then show "disc_id_of (di_Fingerprint d) (wk_db w2) = Some discID" "rip_dir_of fp (wk_db w2) = rip_dir_of fp (wk_db w)"
    using SaveDisc_disc_id(1) [OF s] SaveDisc_rip_dir [OF s] by (simp_all add: by_discs [of "wk_db w2" db1])
qed

lemma complete_rip_dir:
  assumes ok: "store_ok db" and id: "disc_id_of fp0 db = Some discID" and work: "job_work jobID discID db db1" and dir: "dir \<noteq> []"
    and db': "db' = SetDiscRipDir discID dir db1 \<or> db' = SetJobState now jobID JobComplete [] (SetDiscRipDir discID dir db1)"
  shows "is_ripped fp0 db'" and "is_ripped fp db' \<Longrightarrow> \<not> is_ripped fp db \<Longrightarrow> disc_id_of fp db' = Some discID"
proof -
  let ?db2 = "SetDiscRipDir discID dir db1"
  have ok1: "store_ok db1" by (rule job_work_ok [OF work ok])
  have same: "rip_dir_of f db' = rip_dir_of f ?db2 \<and> disc_id_of f db' = disc_id_of f ?db2" for f
    using db' by (elim disjE) (simp_all add: disc_frame)
  have "disc_id_of fp0 db1 = Some discID" by (rule job_work_disc_id [OF work id])
  then show "is_ripped fp0 db'" using dir by (simp add: is_ripped_def same SetDiscRipDir_rip_dir [OF ok1])
  show "disc_id_of fp db' = Some discID" if "is_ripped fp db'" "\<not> is_ripped fp db"
    using that job_work_rip_dir [OF work, of fp]
    by (auto simp: is_ripped_def same SetDiscRipDir_rip_dir [OF ok1] split: if_splits)
qed

text \<open>The two ways a DVD can end, as far as its record is concerned.\<close>

lemma dvd_outcome:
  assumes ok: "store_ok (wk_db w)" and dvd: "ev_kind env \<noteq> Some DiscBluRay" and w': "handleDisc sha cfg env now today w = w'"
  obtains (kept) "\<And>fp. rip_dir_of fp (wk_db w') = rip_dir_of fp (wk_db w)"
      "EjectOnFailure cfg \<or> wk_tray_opened w' = wk_tray_opened w
        \<or> (\<exists>i d raw. sc_result (ev_scans env i) = Inr (d, raw) \<and> is_ripped (di_Fingerprint d) (wk_db w'))"
  | (complete) i d raw discID dir ts where "sc_result (ev_scans env i) = Inr (d, raw)" "is_ripped (di_Fingerprint d) (wk_db w')"
      "\<And>fp. is_ripped fp (wk_db w') \<Longrightarrow> \<not> is_ripped fp (wk_db w) \<Longrightarrow> disc_id_of fp (wk_db w') = Some discID"
      "wk_handed_on w' = wk_handed_on w @ [(discID, dir, ts)]" "\<forall>k < length ts. title_good cfg (ev_titles env k)"
      "titles_done discID (ti_Index ` set ts) (wk_db w')"
  using w'
proof (cases rule: handleDisc_elim)
  case stopped
  then show ?thesis using kept by (simp add: same_ledger_def)
next
  case (dvd w3)
  define w4 where "w4 = handleDVD cfg env now today w3"
  have w4: "wk_db w' = wk_db w4" "wk_handed_on w' = wk_handed_on w4" "wk_tray_opened w' = wk_tray_opened w4"
    using dvd(4) by (simp_all add: w4_def)
  have w3: "wk_db w3 = wk_db w" "wk_handed_on w3 = wk_handed_on w" "wk_tray_opened w3 = wk_tray_opened w"
    using dvd(2) by (simp_all add: same_ledger_def)
  from w4_def [symmetric] show ?thesis
  proof (cases rule: handleDVD_elim)
    case unread
    then show ?thesis using kept w3 w4 by auto
  next
    case (refused i d raw w1)
    have same: "rip_dir_of fp (wk_db w4) = rip_dir_of fp (wk_db w)" for fp
      using open_job_None(1) [OF refused(5)] refused(2) w3 by (auto simp: SaveDisc_rip_dir)
    moreover have "EjectOnFailure cfg \<or> wk_tray_opened w4 = wk_tray_opened w \<or> is_ripped (di_Fingerprint d) (wk_db w4)"
      using open_job_None(2) [OF refused(5)] refused(2,4) w3 by (auto simp: outcome_of_def is_ripped_def same)
    ultimately show ?thesis using kept refused(1) w4 by metis
  next
    case (worked i d raw w1 w2 discID jobID)
    have "store_ok (wk_db w1)" using ok worked(2) w3 by simp
    note job = opened_job [OF this worked(5)]
    have w2: "wk_handed_on w2 = wk_handed_on w" "wk_tray_opened w2 = wk_tray_opened w"
      using open_job_Some [OF worked(5)] worked(3,4) w3 by (auto simp: outcome_of_def)
    have dirs: "rip_dir_of fp (wk_db w2) = rip_dir_of fp (wk_db w)" for fp using job(3) worked(2) w3 by simp
    from worked(6) [symmetric] show ?thesis
    proof (cases rule: work_disc_elim)
      case failed
      then show ?thesis using kept job_work_rip_dir [OF failed(1)] dirs w2 w4 by auto
    next
      case (complete dir db1 rd d')
      note fin = complete_rip_dir [OF job(1,2) complete(2,1,3)]
      show ?thesis
        using that(2) [OF worked(1), of discID rd "di_Titles d'"] fin complete(4-6) w2 w4 dirs by (simp add: is_ripped_def)
    qed
  qed
qed (use dvd in simp)

section \<open>A disc that gives no trouble\<close>

lemma smooth_disc:
  assumes ok: "store_ok (wk_db w)" and nr: "\<not> is_ripped (di_Fingerprint d) (wk_db w)"
    and dr: "has_drive (wk_db w) (wk_driveID w)" and lim: "0 < MaxRipAttempts cfg"
    and att: "\<forall>k. disc_id_of (di_Fingerprint d) (wk_db w) = Some k \<longrightarrow> int (AttemptsForDisc k (wk_db w)) < MaxRipAttempts cfg"
    and smooth: "smooth cfg env today (wk_dirs w) m d" and scan: "sc_result (ev_scans env m) = Inr (d, raw)"
  shows "is_ripped (di_Fingerprint d) (wk_db (handleDisc sha cfg env now today w))
    \<and> (\<exists>discID dir. wk_handed_on (handleDisc sha cfg env now today w) = wk_handed_on w @ [(discID, dir, di_Titles d)])
    \<and> (EjectOnSuccess cfg \<and> ev_eject_ok env \<longrightarrow> wk_tray_opened (handleDisc sha cfg env now today w))"
proof -
  have env: "ev_kind env \<noteq> Some DiscBluRay" "ev_slot env \<noteq> SlotStopped" "\<not> ev_stopped env" using smooth by (simp_all add: smooth_def)
  obtain w3 where w3: "handleDisc sha cfg env now today w = (handleDVD cfg env now today w3)\<lparr>wk_cancellable := False\<rparr>"
      "wk_db w3 = wk_db w" "wk_dirs w3 = wk_dirs w" "wk_driveID w3 = wk_driveID w" "wk_cancelled w3 = ev_stopped env"
      "wk_handed_on w3 = wk_handed_on w"
    using handleDisc_dvd_eq [OF env(1,2)] by blast
  obtain w4 where w4: "scanWithRetry cfg env w3 = (Inr (d, raw), w4)" "\<not> wk_cancelled w4" "wk_dirs w4 = wk_dirs w" "wk_driveID w4 = wk_driveID w"
    using smooth_scan [OF smooth scan, of w3] w3 env(3) by auto
  have fr: "wk_db w4 = wk_db w" "wk_handed_on w4 = wk_handed_on w"
    using scan_attempts_frame [OF w4(1) [unfolded scanWithRetry_def]] w3 by (auto simp: outcome_of_def)
  define w5 where "w5 = publishDisc ''enumerated'' d [] (logf ''info'' (with_status (update_snap (\<lambda>x. x\<lparr>
                 sp_DiscLabel := di_VolumeLabel d, sp_Fingerprint := di_Fingerprint d,
                 sp_TitleCount := int (length (di_Titles d))\<rparr>)) w4))"
  have w5: "wk_db w5 = wk_db w" "\<not> wk_cancelled w5" "wk_dirs w5 = wk_dirs w" "wk_driveID w5 = wk_driveID w" "wk_handed_on w5 = wk_handed_on w"
    using w4 fr by (simp_all add: w5_def) (simp_all add: wk_defs)
  obtain discID jobID w6 where w6: "open_job cfg env now d raw w5 = (Some (discID, jobID), w6)" "\<not> wk_cancelled w6" "wk_dirs w6 = wk_dirs w"
    using open_job_succeeds [of w5 d cfg env now raw] ok nr dr lim att w5 by auto
  have run: "handleDisc sha cfg env now today w = (work_disc cfg env now today jobID discID d raw w6)\<lparr>wk_cancellable := False\<rparr>"
    using w3(1) w4(1) w6(1) by (simp add: handleDVD_def scanned_disc_def Let_def w5_def [symmetric])
  have on: "wk_handed_on w6 = wk_handed_on w" using open_job_Some [OF w6(1)] w5(5) by (auto simp: outcome_of_def)
  have "smooth cfg env today (wk_dirs w6) m d" using smooth w6(3) by simp
  from smooth_rip [OF this w6(2)] obtain w7 where w7: "rip cfg env now today jobID discID d raw w6 = (Inr d, w7)" by blast
  note job = opened_job [OF _ w6(1)]
  have "wk_handed_on w7 = wk_handed_on w" using rip_work(1) [OF w7] on by (simp add: outcome_of_def)
  then have "\<exists>dir. wk_handed_on (handleDisc sha cfg env now today w) = wk_handed_on w @ [(discID, dir, di_Titles d)]"
    using w7 by (simp add: run work_disc_def Let_def)
  moreover have "is_ripped (di_Fingerprint d) (wk_db (handleDisc sha cfg env now today w))"
    using refl
  proof (cases rule: work_disc_elim [where cfg = cfg and env = env and now = now and today = today and jobID = jobID
        and discID = discID and d = d and raw = raw and w = w6])
    case failed
    then show ?thesis using calculation on by (auto simp: run)
  next
    case (complete dir db1 rd d')
    have ok5: "store_ok (wk_db w5)" using ok w5(1) by simp
    show ?thesis using complete_rip_dir(1) [OF job(1,2) [OF ok5] complete(2,1,3)] by (simp add: run)
  qed
  moreover have "EjectOnSuccess cfg \<and> ev_eject_ok env \<longrightarrow> wk_tray_opened (handleDisc sha cfg env now today w)"
    using w7 by (simp add: run work_disc_def ejectNow_def Let_def)
  ultimately show ?thesis by blast
qed


section \<open>A sample run\<close>

text \<open>A disc that scans on the second attempt, and whose two titles are written and verified.\<close>

definition good_title :: title_try where
  "good_title = \<lparr>tt_result = Inr (''title'', 2 ^ 30, Inr \<lparr>of_size = 2 ^ 30, of_open_error = None, of_header = ebmlMagic @ [0, 0]\<rparr>),
     tt_cancelled = False, tt_native = None\<rparr>"

definition sample_env :: disc_env where
  "sample_env =
     \<lparr>ev_stopped = False, ev_slot = SlotWaited, ev_kind = Some DiscDVD,
      ev_scans = (\<lambda>i. \<lparr>sc_result = (if i = 0 then Inl ''not ready'' else Inr (sample_disc\<lparr>di_Fingerprint := ''f2''\<rparr>, ''raw'')),
        sc_cancelled = False, sc_gone = Some False, sc_wait_cancelled = False\<rparr>),
      ev_region = None, ev_protection = None, ev_dec_missing = None, ev_existing = None, ev_mirror = Inl ''unused'',
      ev_mirror_cancelled = False, ev_rescan = Inl ''unused'', ev_rescan_cancelled = False, ev_mkdir = (\<lambda>p. None),
      ev_riplog = None, ev_json = None, ev_scanfile = None, ev_titles = (\<lambda>i. good_title), ev_eject_ok = True,
      ev_bluray = \<lparr>be_label = Some ''ALIEN'', be_probe = Inr (7020 * 1000000000), be_probe_cancelled = False,
        be_encode = Inr (2 ^ 31, True), be_encode_cancelled = False\<rparr>\<rparr>"

definition sample_worker :: worker where
  "sample_worker =
     \<lparr>wk_device = ''/dev/sr0'', wk_driveID = 1, wk_describe = ''ASUS (/dev/sr0)'', wk_status = newDriveStatus, wk_db = sample_store,
      wk_dirs = (\<lambda>p. None), wk_cancelled = False, wk_cancellable = False, wk_tray_opened = False, wk_discarded = [],
      wk_handed_on = [], wk_bluray_done = [], wk_published = [], wk_log = []\<rparr>"

abbreviation sample_run :: "disc_env \<Rightarrow> worker" where
  "sample_run env \<equiv> handleDisc id Default env 200 (2026, 8, 9) sample_worker"

lemma sample_worker_ok: "store_ok (wk_db sample_worker)"
  using sample_store_ok by (simp add: sample_worker_def)

abbreviation sample_disc2 :: disc where
  "sample_disc2 \<equiv> sample_disc\<lparr>di_Fingerprint := ''f2''\<rparr>"

lemma sample_smooth:
  "\<not> is_ripped (di_Fingerprint sample_disc2) (wk_db sample_worker)" "has_drive (wk_db sample_worker) (wk_driveID sample_worker)"
  "0 < MaxRipAttempts Default"
  "\<forall>k. disc_id_of (di_Fingerprint sample_disc2) (wk_db sample_worker) = Some k \<longrightarrow> int (AttemptsForDisc k (wk_db sample_worker)) < MaxRipAttempts Default"
  "smooth Default sample_env (2026, 8, 9) (wk_dirs sample_worker) 1 sample_disc2"
  "sc_result (ev_scans sample_env 1) = Inr (sample_disc2, ''raw'')"
proof -
  have "disc_id_of (di_Fingerprint sample_disc2) (wk_db sample_worker) = None" by code_simp
  then show "\<forall>k. disc_id_of (di_Fingerprint sample_disc2) (wk_db sample_worker) = Some k \<longrightarrow> int (AttemptsForDisc k (wk_db sample_worker)) < MaxRipAttempts Default"
    by simp
  show "sc_result (ev_scans sample_env 1) = Inr (sample_disc2, ''raw'')" by (simp add: sample_env_def)
  have "title_good Default good_title" "\<not> tt_cancelled good_title" by code_simp+
  then show "smooth Default sample_env (2026, 8, 9) (wk_dirs sample_worker) 1 sample_disc2"
    by (simp add: smooth_def sample_env_def sample_worker_def candidates_def scan_fails_softly_def list_all_iff)
      (simp add: Default_def)
qed code_simp+

lemmas sample_run_ripped = smooth_disc [OF sample_worker_ok sample_smooth]




text \<open>C2. An open tray means a disc that is done: where discs are not ejected on failure, a DVD's tray opens
  only for a disc that was read in this run and that the store has down as ripped by then.\<close>

theorem open_tray_means_done:
  assumes "store_ok (wk_db w)" and "ev_kind env \<noteq> Some DiscBluRay" and "\<not> EjectOnFailure cfg"
    and "\<not> wk_tray_opened w" and "wk_tray_opened (handleDisc sha cfg env now today w)"
  shows "\<exists>i d raw. sc_result (ev_scans env i) = Inr (d, raw)
    \<and> is_ripped (di_Fingerprint d) (wk_db (handleDisc sha cfg env now today w))"
  using assms(1,2) refl
proof (cases rule: dvd_outcome [where sha = sha and cfg = cfg and now = now and today = today])
  case kept
  then show ?thesis using assms(3-5) by simp
next
  case (complete i d raw discID dir ts)
  then show ?thesis by blast
qed

theorem open_tray_means_done_witness:
  "\<exists>i d raw. sc_result (ev_scans sample_env i) = Inr (d, raw) \<and> is_ripped (di_Fingerprint d) (wk_db (sample_run sample_env))"
proof (rule open_tray_means_done [OF sample_worker_ok])
  show "wk_tray_opened (sample_run sample_env)"
    using sample_run_ripped [of id 200] by (simp add: Default_def sample_env_def)
qed (simp_all add: sample_env_def Default_def sample_worker_def)

section \<open>Attempts\<close>

definition within :: "config \<Rightarrow> store \<Rightarrow> store \<Rightarrow> bool" where
  "within cfg db db' \<longleftrightarrow> (store_ok db \<longrightarrow> store_ok db'
     \<and> (\<forall>k. AttemptsForDisc k db' \<le> max (AttemptsForDisc k db) (nat (MaxRipAttempts cfg))))"

lemma within_refl [simp]: "within cfg db db"
  by (simp add: within_def)

lemma SaveDisc_attempts:
  assumes "store_ok db" and "SaveDisc now d raw db = Inr (i, db')"
  shows "AttemptsForDisc k db' = AttemptsForDisc k db"
  using SaveDisc_forgotten [OF assms] SaveDisc_discs(3) [OF assms(2)]
  by (simp add: AttemptsForDisc_def counts_as_attempt_def [abs_def])

lemma open_job_within:
  assumes "open_job cfg env now d raw w = (None, w')"
  shows "within cfg (wk_db w) (wk_db w')"
  using open_job_None(1) [OF assms] by (auto simp: within_def SaveDisc_attempts SaveDisc_ok)

lemma job_within:
  assumes op: "open_job cfg env now d raw w = (Some (discID, jobID), w1)" and work: "keeps_attempts jobID (wk_db w1) db'"
  shows "within cfg (wk_db w) db'"
  unfolding within_def
proof (intro impI conjI allI)
  assume ok: "store_ok (wk_db w)"
  obtain db1 where s: "SaveDisc now d raw (wk_db w) = Inr (discID, db1)" "int (AttemptsForDisc discID db1) < MaxRipAttempts cfg"
      and c: "CreateJob now discID (wk_driveID w) (int (AttemptsForDisc discID db1) + 1) db1 = Inr (jobID, wk_db w1)"
    using open_job_Some [OF op] by blast
  have ok1: "store_ok db1" by (rule SaveDisc_ok [OF ok s(1)])
  show "store_ok db'" using work opened_job(1) [OF ok op] by (simp add: keeps_attempts_def)
  show "AttemptsForDisc k db' \<le> max (AttemptsForDisc k (wk_db w)) (nat (MaxRipAttempts cfg))" for k
    using kept_attempts [OF ok1 c work, of k] SaveDisc_attempts [OF ok s(1), of k] s(2) by (auto split: if_splits)
qed

lemma work_disc_keeps_attempts: "keeps_attempts jobID (wk_db w) (wk_db (work_disc cfg env now today jobID discID d raw w))"
  using refl
proof (cases rule: work_disc_elim [where cfg = cfg and env = env and now = now and today = today and jobID = jobID
      and discID = discID and d = d and raw = raw and w = w])
  case failed
  then show ?thesis by (intro job_work_keeps_attempts)
next
  case (complete dir db1 rd d')
  have "keeps_attempts jobID (wk_db w) (SetDiscRipDir discID dir db1)"
    using job_work_keeps_attempts [OF complete(2)] SetDiscRipDir_keeps_attempts by (rule keeps_attempts_trans)
  moreover have "keeps_attempts jobID db (SetJobState now jobID JobComplete [] db)" for db
    by (rule job_work_keeps_attempts [where discID = discID]) (rule job_work_one)
  ultimately show ?thesis using complete(3) keeps_attempts_trans by metis
qed

lemma exec_keeps_attempts:
  "keeps_attempts i (wk_db w) (wk_db (exec (SetJobState now i st e) w))"
  "keeps_attempts i (wk_db w) (wk_db (exec_after_cancel (SetJobState now i st e) w))"
  using job_work_keeps_attempts [OF job_work_one] by simp_all

lemma exec_or_warn_keeps_attempts:
  assumes "\<And>db db'. f db = Inr db' \<Longrightarrow> keeps_attempts i db db'"
  shows "keeps_attempts i (wk_db w) (wk_db (exec_or_warn f w))"
  using assms by (auto simp: exec_or_warn_def split: sum.split)

lemma RecordTranscode_keeps_attempts: "RecordTranscode now k t p src out n hw db = Inr db' \<Longrightarrow> keeps_attempts i db db'"
  using RecordTranscode_ok [of db now k t p src out n hw db']
  by (intro same_jobs_keeps_attempts) (auto simp: RecordTranscode_def Let_def split: if_splits)

lemma MarkTitleRipped_keeps_attempts: "keeps_attempts i db (MarkTitleRipped k t n v db)"
  by (intro same_jobs_keeps_attempts MarkTitleRipped_ok) (simp_all add: MarkTitleRipped_def)

lemma work_bluray_keeps_attempts: "keeps_attempts jobID (wk_db w) (wk_db (work_bluray cfg env now today src jobID discID d secs w))"
proof -
  obtain r w1 where e: "encodeBluRay env secs w = (r, w1)" by (cases "encodeBluRay env secs w")
  have w1: "wk_db w1 = wk_db w" using e by (auto simp: encodeBluRay_def Let_def split: sum.splits)
  show ?thesis
  proof (cases r)
    case (Inl err)
    then show ?thesis using e w1 exec_keeps_attempts [of jobID w1] by (auto simp: work_bluray_def)
  next
    case (Inr res)
    obtain n hw where res: "res = (n, hw)" by (cases res)
    define out where "out = Join [TranscodedDir cfg, DirName today d, TitleFileName 0]"
    define w2 where "w2 = exec_or_warn (\<lambda>db. Inr (MarkTitleRipped discID 0 0 True db)) w1"
    define w3 where "w3 = exec_or_warn (\<lambda>db. Inr (SetDiscRipDir discID (Dir out) db)) w2"
    define w4 where "w4 = exec (SetJobState now jobID JobComplete []) w3"
    define w5 where "w5 = exec_or_warn (RecordTranscode now discID 0 ''default'' src out n hw) w4"
    have "keeps_attempts jobID (wk_db w) (wk_db w2)"
      unfolding w2_def w1 [symmetric] by (rule exec_or_warn_keeps_attempts) (auto simp: MarkTitleRipped_keeps_attempts)
    also have "keeps_attempts jobID (wk_db w2) (wk_db w3)"
      unfolding w3_def by (rule exec_or_warn_keeps_attempts) (auto simp: SetDiscRipDir_keeps_attempts)
    also have "keeps_attempts jobID (wk_db w3) (wk_db w4)" unfolding w4_def by (rule exec_keeps_attempts)
    also have "keeps_attempts jobID (wk_db w4) (wk_db w5)"
      unfolding w5_def by (rule exec_or_warn_keeps_attempts) (rule RecordTranscode_keeps_attempts)
    finally show ?thesis
      by (simp add: work_bluray_def Let_def e Inr res out_def [symmetric] w2_def [symmetric] w3_def [symmetric]
          w4_def [symmetric] w5_def [symmetric])
  qed
qed

lemma handleBluRay_within: "within cfg (wk_db w) (wk_db (handleBluRay sha cfg env now today w))"
proof -
  define w1 where "w1 = note_cancel (be_probe_cancelled (ev_bluray env)) (with_status (setState StateScanning)
    (if be_label (ev_bluray env) = None then logf ''warn'' w else w))"
  have w1: "wk_db w1 = wk_db w" by (simp add: w1_def)
  show ?thesis
  proof (cases "be_probe (ev_bluray env)")
    case (Inl e)
    then show ?thesis using w1 by (simp add: handleBluRay_def Let_def w1_def [symmetric])
  next
    case (Inr dur)
    define d where "d = bluray_disc sha today (wk_describe w) (case be_label (ev_bluray env) of None \<Rightarrow> [] | Some l \<Rightarrow> l) (dur div 1000000000)"
    define w2 where "w2 = logf ''info'' (with_status (update_snap (\<lambda>x. x\<lparr>sp_DiscLabel := di_VolumeLabel d,
      sp_Fingerprint := di_Fingerprint d, sp_TitleCount := 1\<rparr>)) w1)"
    have w2: "wk_db w2 = wk_db w" by (simp add: w2_def w1)
    obtain r w3 where o: "open_job cfg env now d [] w2 = (r, w3)" by (cases "open_job cfg env now d [] w2")
    have "within cfg (wk_db w2) (wk_db (case r of None \<Rightarrow> w3 | Some (discID, jobID) \<Rightarrow>
        work_bluray cfg env now today (''bluray:'' @ wk_device w) jobID discID d (dur div 1000000000) w3))"
      using o by (auto split: option.split intro: open_job_within job_within [OF _ work_bluray_keeps_attempts])
    then show ?thesis
      using Inr w1 w2 o by (auto simp: handleBluRay_def Let_def w1_def [symmetric] d_def [symmetric] w2_def [symmetric] split: option.splits)
  qed
qed

lemma handleDisc_within: "within cfg (wk_db w) (wk_db (handleDisc sha cfg env now today w))"
  using refl
proof (cases rule: handleDisc_elim [where sha = sha and cfg = cfg and env = env and now = now and today = today and w = w])
  case (bluray w1)
  then show ?thesis using handleBluRay_within [of cfg w1] by (simp add: same_ledger_def)
next
  case (dvd w3)
  have "within cfg (wk_db w3) (wk_db (handleDVD cfg env now today w3))"
    using refl
  proof (cases rule: handleDVD_elim [where cfg = cfg and env = env and now = now and today = today and w = w3])
    case (refused i d raw w1)
    then show ?thesis using open_job_within [OF refused(5)] by simp
  next
    case (worked i d raw w1 w2 discID jobID)
    then show ?thesis using job_within [OF worked(5) work_disc_keeps_attempts] by simp
  qed simp
  then show ?thesis using dvd by (simp add: same_ledger_def)
qed (simp add: same_ledger_def)



text \<open>The worker keeps the store well formed: an event of the drive, with everything that is done about
  it, takes a store whose ids and keys are unique and whose references are met to another such store.\<close>

theorem handleEvent_keeps_store_ok:
  assumes "store_ok (wk_db w)"
  shows "store_ok (wk_db (handleEvent sha cfg env now today ev w))"
  using handleDisc_within [of cfg w] assms
  by (simp add: within_def handleEvent_def handleIncompatible_def split: status.split)

theorem handleEvent_keeps_store_ok_witness:
  "store_ok (wk_db (handleEvent id Default sample_env 200 (2026, 8, 9) \<lparr>de_From = StatusNoDisc, de_To = StatusDiscOK, de_Err = False\<rparr> sample_worker))"
  by (rule handleEvent_keeps_store_ok [OF sample_worker_ok])

section \<open>The state a drive is left in\<close>

definition left_alone :: "config \<Rightarrow> disc_env \<Rightarrow> worker \<Rightarrow> bool" where
  "left_alone cfg env w \<longleftrightarrow> (Busy (state_of (wk_status w)) \<longrightarrow> EjectOnSuccess cfg \<and> \<not> ev_eject_ok env)"

lemma ejectNow_left_alone: "\<not> Busy (state_of (wk_status w)) \<Longrightarrow> left_alone cfg env (ejectNow cfg env w)"
  by (simp add: left_alone_def ejectNow_def Let_def) (simp add: Busy_def wk_defs)

lemma fail_left_alone: "left_alone cfg env (fail cfg env m w)"
proof -
  let ?w1 = "logf ''error'' (with_status (\<lambda>s. setState StateFailed (update_snap (\<lambda>x. x\<lparr>sp_Error := m\<rparr>) s)) w)"
  have "\<not> Busy (state_of (wk_status ?w1))" by (simp add: Busy_def)
  then show ?thesis
    by (cases "EjectOnFailure cfg") (simp_all add: fail_def Let_def ejectNow_left_alone, simp add: left_alone_def)
qed

lemma open_job_left_alone: "open_job cfg env now d raw w = (None, w') \<Longrightarrow> left_alone cfg env w'"
  by (auto simp: open_job_def start_job_def Let_def fail_left_alone Busy_def
      intro!: ejectNow_left_alone split: if_splits option.splits sum.splits)

lemma work_disc_left_alone: "left_alone cfg env (work_disc cfg env now today jobID discID d raw w)"
proof -
  obtain r w1 where r: "rip cfg env now today jobID discID d raw w = (r, w1)"
    by (cases "rip cfg env now today jobID discID d raw w")
  show ?thesis
    by (cases r) (auto simp: work_disc_def Let_def r fail_left_alone intro!: ejectNow_left_alone,
        auto simp: left_alone_def Busy_def)
qed

lemma work_bluray_left_alone: "left_alone cfg env (work_bluray cfg env now today src jobID discID d secs w)"
proof -
  obtain r w1 where r: "encodeBluRay env secs w = (r, w1)" by (cases "encodeBluRay env secs w")
  show ?thesis
    by (cases r) (auto simp: work_bluray_def Let_def r fail_left_alone intro!: ejectNow_left_alone,
        auto simp: left_alone_def Busy_def)
qed

lemma scan_gone:
  "scan_attempts cfg env n k w = (Inl ErrDiscGone, w') \<Longrightarrow> \<exists>i. sc_gone (ev_scans env i) = Some True"
  by (induction n arbitrary: k w) (auto simp: Let_def split: sum.splits if_splits)

lemma handleDVD_left_alone:
  "left_alone cfg env (handleDVD cfg env now today w) \<or> (\<exists>i. sc_gone (ev_scans env i) = Some True)"
proof -
  obtain r w1 where r: "scanWithRetry cfg env w = (r, w1)" by (cases "scanWithRetry cfg env w")
  show ?thesis
  proof (cases r)
    case (Inl e)
    then show ?thesis using r scan_gone [of cfg env _ _ w w1]
      by (auto simp: handleDVD_def fail_left_alone scanWithRetry_def) (auto simp: left_alone_def Busy_def)
  next
    case (Inr x)
    then show ?thesis using r
      by (cases x) (auto simp: handleDVD_def scanned_disc_def Let_def work_disc_left_alone
          dest: open_job_left_alone split: option.split prod.split)
  qed
qed

lemma handleBluRay_left_alone:
  "left_alone cfg env (handleBluRay sha cfg env now today w)
    \<or> (\<exists>e. be_probe (ev_bluray env) = Inl e) \<and> wk_cancelled (handleBluRay sha cfg env now today w)"
  by (cases "be_probe (ev_bluray env)")
    (auto simp: handleBluRay_def Let_def fail_left_alone work_bluray_left_alone
      dest: open_job_left_alone split: option.split prod.split)



section \<open>Partial copies\<close>

lemma deduped_le: "list_all (\<lambda>d. 0 \<le> d) ds \<Longrightarrow> deduped seen ds \<le> sum_list ds"
  by (induction seen ds rule: deduped.induct) auto

lemma use_copy_enough:
  assumes "use_copy env now src d raw w = (Inr (d', raw'), w')"
    and "list_all (\<lambda>t. 0 \<le> ti_DurationSecs t) (di_Titles d)" and "list_all (\<lambda>t. 0 \<le> ti_DurationSecs t) (di_Titles d')"
  shows "dedupedSecs (di_Titles d) * minKeptPercent \<le> totalSecs (di_Titles d') * 100"
proof -
  have nonneg: "0 \<le> totalSecs ts" if "list_all (\<lambda>t. 0 \<le> ti_DurationSecs t) ts" for ts
    using that by (induction ts) (auto simp: totalSecs_def)
  have "list_all (\<lambda>d. 0 \<le> d) (map ti_DurationSecs (di_Titles d))" using assms(2) by (simp add: list_all_iff)
  then have "dedupedSecs (di_Titles d) \<le> totalSecs (di_Titles d)"
    unfolding dedupedSecs_def totalSecs_def by (rule deduped_le)
  then have "dedupedSecs (di_Titles d) * 60 \<le> totalSecs (di_Titles d) * 100"
    using nonneg [OF assms(2)] by linarith
  then show ?thesis
    using assms(1) nonneg [OF assms(3)]
    by (auto simp: use_copy_def Let_def minKeptPercent_def split: if_splits sum.splits)
qed

text \<open>A rip that succeeds holds the disc: the titles it wrote run for at least sixty percent of what the
  drive described, each duration counted once, whether they were read from the drive or from a decrypted
  copy that turned out to hold other titles.\<close>

theorem rip_refuses_partial_copy:
  assumes "rip cfg env now today jobID discID d raw w = (Inr d', w')"
    and "list_all (\<lambda>t. 0 \<le> ti_DurationSecs t) (di_Titles d)" and "list_all (\<lambda>t. 0 \<le> ti_DurationSecs t) (di_Titles d')"
  shows "dedupedSecs (di_Titles d) * minKeptPercent \<le> totalSecs (di_Titles d') * 100"
  using assms(1)
proof (cases rule: rip_elim)
  case (written ripDir w1 src copy w3 d'' raw' w4 w7 e)
  then have "d'' = d'" by (auto split: if_splits)
  then show ?thesis using use_copy_enough [OF written(3)] assms(2,3) by simp
qed simp_all

theorem rip_refuses_partial_copy_witness:
  "dedupedSecs (di_Titles sample_disc2) * minKeptPercent \<le> totalSecs (di_Titles sample_disc2) * 100"
proof -
  have nc: "\<not> wk_cancelled sample_worker" by (simp add: sample_worker_def)
  obtain w' where "rip Default sample_env 200 (2026, 8, 9) 1 1 sample_disc2 ''raw'' sample_worker = (Inr sample_disc2, w')"
    using smooth_rip [OF sample_smooth(5) nc] by blast
  moreover have "list_all (\<lambda>t. 0 \<le> ti_DurationSecs t) (di_Titles sample_disc2)" by code_simp
  ultimately show ?thesis using rip_refuses_partial_copy by blast
qed

end
