(* ===== verification/Worker_Run.thy ===== *)
theory Worker_Run
  imports Worker_Safety
begin

text \<open>
  The loops around the pipeline of \<^verbatim>\<open>Worker\<close>: \<^verbatim>\<open>Run\<close> of \<^verbatim>\<open>internal/daemon/worker.go\<close> with the monitor it reads from, \<^verbatim>\<open>scanDisc\<close>
  with its deadlines, \<^verbatim>\<open>discGone\<close>, \<^verbatim>\<open>writeDiscJSON\<close> and \<^verbatim>\<open>displayLabel\<close>.

  The monitor and the worker are two goroutines with a channel of eight events between them; the lemmas show that a worker
  busy for an hour misses no change and sees them in order. A scan may hang; with a deadline it ends in bounded time,
  and it does what \<^verbatim>\<open>scanWithRetry\<close> does with what the attempts came to. A crash while the description of a disc is
  written leaves the old one or the new one.
\<close>

section \<open>Run\<close>

record watch =
  wt_monitor :: monitor
  wt_queue :: "drive_event list"
  wt_blocked :: "drive_event option"
  wt_worker :: worker
  wt_readings :: "(int \<times> status option) list"
  wt_handled :: "drive_event list"

definition event_buffer :: nat where
  "event_buffer = 8"

definition watch_start :: "worker \<Rightarrow> watch" where
  "watch_start w = \<lparr>wt_monitor = initial_monitor, wt_queue = [], wt_blocked = None, wt_worker = w, wt_readings = [], wt_handled = []\<rparr>"

text \<open>The monitor sends, and waits where the channel is full.\<close>

definition send_event :: "drive_event \<Rightarrow> watch \<Rightarrow> watch" where
  "send_event ev s =
     (if length (wt_queue s) < event_buffer then s\<lparr>wt_queue := wt_queue s @ [ev]\<rparr> else s\<lparr>wt_blocked := Some ev\<rparr>)"

definition poll_watch :: "int \<times> status option \<Rightarrow> watch \<Rightarrow> watch" where
  "poll_watch r s =
     (case poll r (wt_monitor s) of
        (m, ev) \<Rightarrow>
          (let s1 = s\<lparr>wt_monitor := m, wt_readings := wt_readings s @ [r]\<rparr>
           in case ev of None \<Rightarrow> s1 | Some e \<Rightarrow> send_event e s1))"

text \<open>The worker takes the next event and deals with it to the end; a monitor that was waiting can go on.\<close>

definition take_event :: "(drive_event \<Rightarrow> worker \<Rightarrow> worker) \<Rightarrow> watch \<Rightarrow> watch" where
  "take_event h s =
     (case wt_queue s of
        [] \<Rightarrow> s
      | ev # evs \<Rightarrow>
          (let s1 = s\<lparr>wt_queue := evs, wt_worker := h ev (wt_worker s), wt_handled := wt_handled s @ [ev]\<rparr>
           in case wt_blocked s of None \<Rightarrow> s1 | Some e \<Rightarrow> s1\<lparr>wt_queue := evs @ [e], wt_blocked := None\<rparr>))"

inductive watch_step :: "(string \<Rightarrow> string) \<Rightarrow> config \<Rightarrow> watch \<Rightarrow> watch \<Rightarrow> bool" for sha cfg where
  tick: "wt_blocked s = None \<Longrightarrow> watch_step sha cfg s (poll_watch r s)"
| work: "watch_step sha cfg s (take_event (handleEvent sha cfg env now today) s)"

text \<open>What the monitor has reported is what was dealt with, then what waits.\<close>

definition watch_ok :: "watch \<Rightarrow> bool" where
  "watch_ok s \<longleftrightarrow> polls (wt_readings s) initial_monitor =
       (wt_monitor s, wt_handled s @ wt_queue s @ (case wt_blocked s of None \<Rightarrow> [] | Some e \<Rightarrow> [e]))
     \<and> length (wt_queue s) \<le> event_buffer \<and> (wt_blocked s \<noteq> None \<longrightarrow> length (wt_queue s) = event_buffer)"

lemma polls_snoc:
  "polls (rs @ [r]) m = (case polls rs m of (m1, evs) \<Rightarrow> case poll r m1 of (m2, ev) \<Rightarrow> (m2, evs @ (case ev of None \<Rightarrow> [] | Some e \<Rightarrow> [e])))"
  by (induction rs arbitrary: m) (auto split: prod.splits option.splits)

lemma watch_start_ok: "watch_ok (watch_start w)"
  by (simp add: watch_ok_def watch_start_def)

lemma watch_step_ok: "watch_step sha cfg s t \<Longrightarrow> watch_ok s \<Longrightarrow> watch_ok t"
proof (induction rule: watch_step.induct)
  case (tick s r)
  then show ?case
    by (auto simp: watch_ok_def poll_watch_def send_event_def Let_def polls_snoc event_buffer_def split: prod.splits option.splits)
next
  case (work s env now today)
  then show ?case by (auto simp: watch_ok_def take_event_def Let_def split: list.splits option.splits)
qed

lemma watch_runs_ok: "(watch_step sha cfg)\<^sup>*\<^sup>* s t \<Longrightarrow> watch_ok s \<Longrightarrow> watch_ok t"
  by (induction rule: rtranclp_induct) (auto dest: watch_step_ok)

lemma last_event: "polls rs m = (m', evs) \<Longrightarrow> evs \<noteq> [] \<Longrightarrow> mo_current m' = de_To (last evs)"
proof (induction rs arbitrary: m' evs rule: rev_induct)
  case (snoc r rs)
  obtain m1 es where p: "polls rs m = (m1, es)" by fastforce
  obtain m2 ev where q: "poll r m1 = (m2, ev)" by fastforce
  have cur: "(ev = None \<longrightarrow> mo_current m2 = mo_current m1) \<and> (\<forall>e. ev = Some e \<longrightarrow> mo_current m2 = de_To e)"
    using q by (cases r; cases "snd r") (auto simp: emit_def split: if_splits)
  show ?case using snoc.prems snoc.IH [OF p] cur p q by (auto simp: polls_snoc split: option.splits)
qed simp

text \<open>C14. A worker deals with every change its drive's monitor reports, each once and in the order they happened, however long
  it is busy with one: what it has dealt with is a beginning of what was reported, the rest waits, and once
  nothing waits the last change it dealt with is the drive's state as the monitor holds it.\<close>

theorem worker_misses_no_change:
  assumes "(watch_step sha cfg)\<^sup>*\<^sup>* (watch_start w) s"
  shows "\<exists>m evs. polls (wt_readings s) initial_monitor = (m, evs) \<and> prefix (wt_handled s) evs
    \<and> length evs \<le> length (wt_handled s) + event_buffer + 1
    \<and> (wt_queue s = [] \<longrightarrow> wt_handled s = evs \<and> (evs \<noteq> [] \<longrightarrow> mo_current m = de_To (last (wt_handled s))))"
proof -
  have ok: "watch_ok s" by (rule watch_runs_ok [OF assms watch_start_ok])
  let ?evs = "wt_handled s @ wt_queue s @ (case wt_blocked s of None \<Rightarrow> [] | Some e \<Rightarrow> [e])"
  have p: "polls (wt_readings s) initial_monitor = (wt_monitor s, ?evs)" using ok by (simp add: watch_ok_def)
  have "length ?evs \<le> length (wt_handled s) + event_buffer + 1" using ok by (auto simp: watch_ok_def split: option.split)
  moreover have "wt_queue s = [] \<Longrightarrow> ?evs = wt_handled s" using ok by (auto simp: watch_ok_def event_buffer_def split: option.split)
  ultimately show ?thesis using p last_event [OF p] by (intro exI [of _ "wt_monitor s"] exI [of _ ?evs]) auto
qed

text \<open>A tray opened and a disc put in while the first change is being dealt with.\<close>

theorem worker_misses_no_change_witness:
  "\<forall>sha cfg w env now today. \<exists>s m evs. (watch_step sha cfg)\<^sup>*\<^sup>* (watch_start w) s \<and> polls (wt_readings s) initial_monitor = (m, evs)
     \<and> length (wt_handled s) = 1 \<and> length evs = 2 \<and> prefix (wt_handled s) evs"
proof (intro allI)
  fix sha cfg w env now today
  define s1 where "s1 = poll_watch (0, Some StatusTrayOpen) (watch_start w)"
  define s2 where "s2 = poll_watch (2000000000, Some StatusDiscOK) s1"
  define s3 where "s3 = take_event (handleEvent sha cfg env now today) s2"
  note defs = s1_def s2_def s3_def poll_watch_def send_event_def take_event_def watch_start_def event_buffer_def Let_def
    initial_monitor_def emit_def transient_def
  have "watch_step sha cfg (watch_start w) s1" unfolding s1_def by (rule tick) (simp add: watch_start_def)
  moreover have "watch_step sha cfg s1 s2" unfolding s2_def by (rule tick) (simp add: defs)
  moreover have "watch_step sha cfg s2 s3" unfolding s3_def by (rule work)
  ultimately have run: "(watch_step sha cfg)\<^sup>*\<^sup>* (watch_start w) s3" by (meson r_into_rtranclp rtranclp.rtrancl_into_rtrancl)
  have "length (wt_handled s3) = 1" "length (snd (polls (wt_readings s3) initial_monitor)) = 2" by (simp_all add: defs)
  then show "\<exists>s m evs. (watch_step sha cfg)\<^sup>*\<^sup>* (watch_start w) s \<and> polls (wt_readings s) initial_monitor = (m, evs)
     \<and> length (wt_handled s) = 1 \<and> length evs = 2 \<and> prefix (wt_handled s) evs"
    using run worker_misses_no_change [OF run] by (metis snd_conv)
qed

section \<open>Scans that may hang\<close>

text \<open>An attempt at a scan: how long it takes if left alone (for ever when it hangs) and what it comes to, when the work is
  cancelled meanwhile, and what the drive says afterwards.\<close>

record scan_run =
  sr_takes :: "int option"
  sr_result :: "string + disc \<times> string"
  sr_cancel :: "int option"
  sr_killed :: string
  sr_status :: "string + status"
  sr_wait_cancelled :: bool

definition discGone :: "string + status \<Rightarrow> string + bool" where
  "discGone st = (case st of Inl e \<Rightarrow> Inl e | Inr s \<Rightarrow> Inr (s \<noteq> StatusDiscOK))"

text \<open>When an attempt ends: by itself, at its deadline, when the work is cancelled; never when there is none of them. \<^verbatim>\<open>limit\<close> is the
  deadline in words.\<close>

definition scan_ends :: "config \<Rightarrow> scan_run \<Rightarrow> int list" where
  "scan_ends cfg r =
     (case sr_takes r of None \<Rightarrow> [] | Some t \<Rightarrow> [t]) @ (if ScanTimeout cfg > 0 then [ScanTimeout cfg] else [])
     @ (case sr_cancel r of None \<Rightarrow> [] | Some t \<Rightarrow> [t])"

definition scan_once :: "config \<Rightarrow> string \<Rightarrow> scan_run \<Rightarrow> (scan_try \<times> int) option" where
  "scan_once cfg limit r =
     (case scan_ends cfg r of
        [] \<Rightarrow> None
      | e # es \<Rightarrow>
          (let t = fold min es e; cancelled = (sr_cancel r = Some t)
           in Some (\<lparr>sc_result = (if sr_takes r = Some t then sr_result r
                                  else if cancelled then Inl (sr_killed r)
                                  else Inl (''scan did not finish within '' @ limit)),
                     sc_cancelled = cancelled,
                     sc_gone = (case discGone (sr_status r) of Inl err \<Rightarrow> None | Inr b \<Rightarrow> Some b),
                     sc_wait_cancelled = sr_wait_cancelled r\<rparr>, t)))"

text \<open>\<^verbatim>\<open>scanDisc\<close>: the attempts with the waits between them, the time they took, and nothing when one of them hangs.\<close>

fun scan_runs :: "config \<Rightarrow> string \<Rightarrow> (nat \<Rightarrow> scan_run) \<Rightarrow> nat \<Rightarrow> nat \<Rightarrow> worker \<Rightarrow> (((work_error + disc \<times> string) \<times> worker) \<times> int) option" where
  "scan_runs cfg limit runs 0 k w = Some ((Inl (ErrText []), w), 0)"
| "scan_runs cfg limit runs (Suc left) k w =
     (case scan_once cfg limit (runs k) of
        None \<Rightarrow> None
      | Some (tr, t) \<Rightarrow>
          (let w1 = note_cancel (sc_cancelled tr) w
           in case sc_result tr of
                Inr r \<Rightarrow> Some ((Inr r, if k > 0 then logf ''info'' w1 else w1), t)
              | Inl e \<Rightarrow>
                  if wk_cancelled w1 then Some ((Inl ErrCancelled, w1), t)
                  else if sc_gone tr = Some True then Some ((Inl ErrDiscGone, w1), t)
                  else
                    let w2 = (if sc_gone tr = None then logf ''warn'' w1 else w1)
                    in if left = 0 then
                         Some ((Inl (ErrText (if ScanAttempts cfg > 1 then e @ '' ('' @ int_str (ScanAttempts cfg) @ '' attempts)'' else e)), w2), t)
                       else
                         let w3 = note_cancel (sc_wait_cancelled tr) (logf ''warn'' w2)
                         in if wk_cancelled w3 then Some ((Inl (ErrText e), w3), t + ScanRetryDelay cfg)
                            else map_option (\<lambda>(x, t'). (x, t + ScanRetryDelay cfg + t')) (scan_runs cfg limit runs left (k + 1) w3)))"

definition scanDisc :: "config \<Rightarrow> string \<Rightarrow> (nat \<Rightarrow> scan_run) \<Rightarrow> worker \<Rightarrow> (((work_error + disc \<times> string) \<times> worker) \<times> int) option" where
  "scanDisc cfg limit runs w = scan_runs cfg limit runs (nat (ScanAttempts cfg)) 0 w"

lemma scan_runs_refine:
  "(\<And>j tr t. scan_once cfg limit (runs j) = Some (tr, t) \<Longrightarrow> ev_scans env j = tr) \<Longrightarrow>
   scan_runs cfg limit runs left k w = Some (x, t) \<Longrightarrow> scan_attempts cfg env left k w = x"
proof (induction left arbitrary: k w x t)
  case (Suc left)
  obtain tr t0 where o: "scan_once cfg limit (runs k) = Some (tr, t0)" using Suc.prems(2) by (auto split: option.splits)
  note e = Suc.prems(1) [OF o]
  show ?case using Suc.prems(2) o e Suc.IH [OF Suc.prems(1)]
    by (auto simp: Let_def split: sum.splits if_splits)
qed simp

lemma fold_min_le: "fold min es e \<le> e \<and> (\<forall>x \<in> set es. fold min es e \<le> x)" for e :: int
proof (induction es arbitrary: e)
  case (Cons a es)
  then show ?case using Cons [of "min a e"] by auto
qed simp

lemma scan_once_ends:
  assumes "ScanTimeout cfg > 0"
  obtains tr t where "scan_once cfg limit r = Some (tr, t)" "t \<le> ScanTimeout cfg"
proof -
  have m: "ScanTimeout cfg \<in> set (scan_ends cfg r)" using assms by (simp add: scan_ends_def)
  then obtain e es where l: "scan_ends cfg r = e # es" by (cases "scan_ends cfg r") auto
  have "fold min es e \<le> ScanTimeout cfg" using fold_min_le [of es e] m l by auto
  then show thesis using that by (simp add: scan_once_def l Let_def)
qed

text \<open>A computation that ends by a time.\<close>

definition by_then :: "int \<Rightarrow> ('a \<times> int) option \<Rightarrow> bool" where
  "by_then b y = (case y of None \<Rightarrow> False | Some xt \<Rightarrow> snd xt \<le> b)"

lemma by_then_Some [simp]: "by_then b (Some (x, t)) \<longleftrightarrow> t \<le> b"
  by (simp add: by_then_def)

lemma by_then_later [simp]: "by_then b (map_option (\<lambda>(x, t). (x, d + t)) y) \<longleftrightarrow> by_then (b - d) y"
  by (auto simp: by_then_def split: option.split)

lemma by_then_mono: "by_then a y \<Longrightarrow> a \<le> b \<Longrightarrow> by_then b y"
  by (auto simp: by_then_def split: option.splits)

lemma scan_runs_bounded:
  assumes "ScanTimeout cfg > 0" "ScanRetryDelay cfg \<ge> 0"
  shows "by_then (int left * (ScanTimeout cfg + ScanRetryDelay cfg)) (scan_runs cfg limit runs left k w)"
proof (induction left arbitrary: k w)
  case (Suc left)
  obtain tr t where o: "scan_once cfg limit (runs k) = Some (tr, t)" "t \<le> ScanTimeout cfg" by (rule scan_once_ends [OF assms(1)])
  define L where "L = int left * (ScanTimeout cfg + ScanRetryDelay cfg)"
  define B where "B = int (Suc left) * (ScanTimeout cfg + ScanRetryDelay cfg)"
  have L: "0 \<le> L" "B = ScanTimeout cfg + ScanRetryDelay cfg + L" using assms by (simp_all add: L_def B_def algebra_simps)
  have rest: "by_then (B - (t + ScanRetryDelay cfg)) (scan_runs cfg limit runs left j w')" for j w'
    by (rule by_then_mono [OF Suc]) (use L o(2) in \<open>simp add: L_def\<close>)
  have "t \<le> B" "t + ScanRetryDelay cfg \<le> B" using L o(2) assms(2) by auto
  then show ?case unfolding B_def [symmetric]
    using rest by (simp add: o(1) Let_def split: sum.split)
qed simp


definition hanging_scan :: scan_run where
  "hanging_scan = \<lparr>sr_takes = None, sr_result = Inl [], sr_cancel = None, sr_killed = [], sr_status = Inr StatusDiscOK, sr_wait_cancelled = False\<rparr>"


section \<open>The description beside a rip\<close>

text \<open>\<^verbatim>\<open>writeDiscJSON\<close> on the files of the rip's directory: encoding may fail, the write may fail, or the process die, after any
  number of bytes, and so may the rename.\<close>

record json_env =
  je_encode :: "string + string"
  je_write :: "(nat \<times> string) option"
  je_rename :: "string option"

definition writeDiscJSON :: "json_env \<Rightarrow> (string \<rightharpoonup> string) \<Rightarrow> string option \<times> (string \<rightharpoonup> string)" where
  "writeDiscJSON env files =
     (case je_encode env of
        Inl e \<Rightarrow> (Some (''encode disc.json: '' @ e), files)
      | Inr b \<Rightarrow>
          (let doc = b @ [CHR 0x0A]
           in case je_write env of
                Some (n, e) \<Rightarrow> (Some (''write disc.json: '' @ e), files(''.disc.json.tmp'' \<mapsto> take n doc))
              | None \<Rightarrow>
                  (case je_rename env of
                     Some e \<Rightarrow> (Some (''finalise disc.json: '' @ e), files(''.disc.json.tmp'' \<mapsto> doc))
                   | None \<Rightarrow> (None, files(''.disc.json.tmp'' := None, ''disc.json'' \<mapsto> doc)))))"

text \<open>Whatever interrupts it, the description is the old one or the whole new one, and the new one exactly when it says so.\<close>

theorem disc_json_is_never_torn:
  "case writeDiscJSON env files of (err, files') \<Rightarrow>
     (case err of
        None \<Rightarrow> (\<exists>b. je_encode env = Inr b \<and> files' ''disc.json'' = Some (b @ [CHR 0x0A]))
      | Some e \<Rightarrow> files' ''disc.json'' = files ''disc.json'')
     \<and> (\<forall>f. f \<noteq> ''disc.json'' \<and> f \<noteq> ''.disc.json.tmp'' \<longrightarrow> files' f = files f)"
  by (auto simp: writeDiscJSON_def Let_def split: sum.split option.split)

definition displayLabel :: "disc \<Rightarrow> string" where
  "displayLabel d =
     (let l = TrimSpace (di_VolumeLabel d) in if l \<noteq> [] then l else ''unlabelled disc '' @ Short (di_Fingerprint d))"

lemma displayLabel_says_something: "displayLabel d \<noteq> []"
  by (simp add: displayLabel_def Let_def)

end
