(* ===== verification/Library.thy ===== *)
theory Library
  imports Disc Go_Path
begin

text \<open>
  \<^verbatim>\<open>internal/library/library.go\<close>: what a disc holds (\<^verbatim>\<open>Classify\<close>), what Jellyfin is told it is called
  (\<^verbatim>\<open>Name\<close>), where each title goes (\<^verbatim>\<open>Plan\<close>) and the hard link that puts it there (\<^verbatim>\<open>Link\<close>), over a
  small file system.

  The comparisons the code makes in \<^verbatim>\<open>float64\<close> are written over the integers. For runtimes below
  \<^verbatim>\<open>2^53\<close> seconds they agree: both conversions are exact, twice a runtime is exact, and a quotient
  that is not a quarter differs from a quarter by more than half a unit in its last place.
\<close>

section \<open>Classifying a disc\<close>

datatype kind = KindMovie | KindTV | KindUnknown

definition featureRatio :: int where "featureRatio = 2"
definition minFeatureSecs :: int where "minFeatureSecs = 45 * 60"
definition minEpisodeSecs :: int where "minEpisodeSecs = 10 * 60"
definition maxEpisodeSecs :: int where "maxEpisodeSecs = 90 * 60"

text \<open>\<^verbatim>\<open>episodeSpread\<close> is a quarter.\<close>

definition withinSpread :: "int \<Rightarrow> int \<Rightarrow> bool" where
  "withinSpread value median \<longleftrightarrow>
     \<not> median \<le> 0 \<and> 4 * (value - median) \<le> median \<and> - median \<le> 4 * (value - median)"

definition looksLikeEpisodes :: "int list \<Rightarrow> bool" where
  "looksLikeEpisodes durations =
     (if length durations < 2 then False
      else let median = durations ! (length durations div 2)
           in if median < minEpisodeSecs \<or> median > maxEpisodeSecs then False
              else let alike = length (filter (\<lambda>d. d \<ge> minEpisodeSecs \<and> withinSpread d median) durations)
                   in alike \<ge> 2 \<and> alike * 2 \<ge> length durations)"

definition Classify :: "title list \<Rightarrow> kind" where
  "Classify titles =
     (if titles = [] then KindUnknown
      else let durations = rev (sort (map ti_DurationSecs titles));
               longest = durations ! 0
           in if length titles = 1 then (if longest \<ge> minFeatureSecs then KindMovie else KindUnknown)
              else let median = durations ! (length durations div 2)
                   in if length durations > 1 \<and> looksLikeEpisodes (drop 1 durations) then KindTV
                      else if longest \<ge> minFeatureSecs \<and> longest \<ge> featureRatio * median then KindMovie
                      else if looksLikeEpisodes durations then KindTV
                      else KindUnknown)"

section \<open>Naming\<close>

definition formatMarkers :: "string list" where
  "formatMarkers = [''lb'', ''ws'', ''fs'', ''ps'']"

definition isNumberish :: "string \<Rightarrow> bool" where
  "isNumberish s = (let s' = TrimSpace s in s' \<noteq> [] \<and> list_all is_digit s')"

definition titleCase :: "string \<Rightarrow> string" where
  "titleCase w =
     (if w = [] then w
      else if list_ex is_lower w then w
      else (case ToLower w of [] \<Rightarrow> [] | c # cs \<Rightarrow> upper_char c # cs))"

definition discMarkers :: "string list" where
  "discMarkers = [''disc'', ''disk'', ''dvd'', ''side'']"

definition unseparate :: "char \<Rightarrow> char" where
  "unseparate c = (if c = CHR ''_'' \<or> c = CHR ''.'' \<or> c = CHR ''-'' then CHR '' '' else c)"

text \<open>Whether the loop of \<^verbatim>\<open>Name\<close> keeps the word \<^verbatim>\<open>w\<close>; \<^verbatim>\<open>prev\<close> is the word before it, if any.\<close>

definition keep_word :: "string option \<Rightarrow> string \<Rightarrow> bool" where
  "keep_word prev w =
     (let lower = ToLower w
      in if lower \<in> set formatMarkers then False
         else if lower \<in> set discMarkers then False
         else if isNumberish w \<and> (case prev of None \<Rightarrow> False | Some p \<Rightarrow> ToLower p \<in> set discMarkers) then False
         else True)"

fun kept_words :: "string option \<Rightarrow> string list \<Rightarrow> string list" where
  "kept_words prev [] = []"
| "kept_words prev (w # ws) = (if keep_word prev w then [w] else []) @ kept_words (Some w) ws"

definition Name :: "string \<Rightarrow> string" where
  "Name volumeLabel =
     (let s = TrimSpace volumeLabel
      in if s = [] then []
         else let words = Fields (map unseparate s);
                  kept = kept_words None words
              in join_with '' '' (map titleCase (if kept = [] then words else kept)))"

section \<open>Placing titles\<close>

record placement =
  p_TitleIndex :: int
  p_Path :: string
  p_Feature :: bool

definition longestTitle :: "title list \<Rightarrow> int" where
  "longestTitle titles =
     fst (fold (\<lambda>t best. if ti_DurationSecs t > snd best then (ti_Index t, ti_DurationSecs t) else best)
       titles (-1, -1))"

definition plan_name :: "disc \<Rightarrow> string" where
  "plan_name d = (let name = Name (di_VolumeLabel d)
     in if name = [] then ''Unlabeled '' @ Short (di_Fingerprint d) else name)"

definition Plan :: "string \<Rightarrow> disc \<Rightarrow> kind \<Rightarrow> placement list" where
  "Plan libraryDir d kind =
     (let name = plan_name d;
          ts = sort_key ti_Index (di_Titles d);
          short = Short (di_Fingerprint d)
      in case kind of
           KindMovie \<Rightarrow>
             (let feature = longestTitle ts
              in map (\<lambda>t.
                   if ti_Index t = feature then
                     \<lparr>p_TitleIndex = ti_Index t,
                      p_Path = Join [libraryDir, ''Movies'', name, name @ ''.mkv''], p_Feature = True\<rparr>
                   else
                     \<lparr>p_TitleIndex = ti_Index t,
                      p_Path = Join [libraryDir, ''Movies'', name, ''extras'',
                        name @ '' - t'' @ int_str02 (ti_Index t) @ ''.mkv''], p_Feature = False\<rparr>) ts)
         | _ \<Rightarrow>
             map (\<lambda>t.
               \<lparr>p_TitleIndex = ti_Index t,
                p_Path = Join [libraryDir, ''TV'', name,
                  name @ '' - '' @ short @ '' - t'' @ int_str02 (ti_Index t) @ ''.mkv''],
                p_Feature = False\<rparr>) ts)"

section \<open>Linking\<close>

text \<open>A file system: what is at a path, and where the daemon may create something. A hard link gives the
  destination the source's node.\<close>

datatype node = DirNode | FileNode nat

record fs =
  fs_nodes :: "string \<Rightarrow> node option"
  fs_writable :: "string \<Rightarrow> bool"

definition path_prefixes :: "string \<Rightarrow> string list" where
  "path_prefixes p =
     (let cs = path_comps p; root = (if rooted_path p then [SLASH] else [])
      in map (\<lambda>n. root @ join_with [SLASH] (take n cs)) [1..<Suc (length cs)])"

fun mkdirs :: "string list \<Rightarrow> fs \<Rightarrow> fs \<times> bool" where
  "mkdirs [] fs = (fs, True)"
| "mkdirs (p # ps) fs =
     (case fs_nodes fs p of
        Some DirNode \<Rightarrow> mkdirs ps fs
      | Some (FileNode n) \<Rightarrow> (fs, False)
      | None \<Rightarrow> if fs_writable fs p then mkdirs ps (fs\<lparr>fs_nodes := (fs_nodes fs)(p \<mapsto> DirNode)\<rparr>)
                else (fs, False))"

definition MkdirAll :: "string \<Rightarrow> fs \<Rightarrow> fs \<times> bool" where
  "MkdirAll p = mkdirs (path_prefixes p)"

datatype link_result = LinkDone | LinkExists | LinkError

definition Link :: "string \<Rightarrow> string \<Rightarrow> fs \<Rightarrow> fs \<times> link_result" where
  "Link src dst fs =
     (case MkdirAll (Dir dst) fs of
        (fs1, False) \<Rightarrow> (fs1, LinkError)
      | (fs1, True) \<Rightarrow>
          (case fs_nodes fs1 dst of
             Some n \<Rightarrow> (fs1, LinkExists)
           | None \<Rightarrow>
               (case fs_nodes fs1 src of
                  Some (FileNode n) \<Rightarrow>
                    if fs_writable fs1 dst then (fs1\<lparr>fs_nodes := (fs_nodes fs1)(dst \<mapsto> FileNode n)\<rparr>, LinkDone)
                    else (fs1, LinkError)
                | _ \<Rightarrow> (fs1, LinkError))))"

section \<open>Classification depends on the runtimes alone\<close>

lemma sort_mset_eq: "mset xs = mset ys \<Longrightarrow> sort xs = sort (ys :: 'a::linorder list)"
  by (metis mset_sort properties_for_sort sorted_sort)

lemma Classify_mset: "mset (map ti_DurationSecs ts) = mset (map ti_DurationSecs us) \<Longrightarrow> Classify ts = Classify us"
proof -
  assume m: "mset (map ti_DurationSecs ts) = mset (map ti_DurationSecs us)"
  then have s: "sort (map ti_DurationSecs ts) = sort (map ti_DurationSecs us)" by (rule sort_mset_eq)
  have len: "length ts = length us" using arg_cong [OF m, of size] by simp
  then have emp: "ts = [] \<longleftrightarrow> us = []" by (metis length_0_conv)
  show ?thesis by (simp only: Classify_def s len emp Let_def length_rev length_sort length_map)
qed

text \<open>How many runtimes satisfy a predicate does not change when they are sorted.\<close>

lemma length_filter_sort: "length (filter p (rev (sort xs))) = length (filter p xs)"
  by (metis mset_filter mset_rev mset_sort size_mset)

lemma looksLikeEpisodes_two:
  assumes "looksLikeEpisodes ds"
  shows "\<exists>m \<in> set ds. minEpisodeSecs \<le> m \<and> m \<le> maxEpisodeSecs
    \<and> 2 \<le> length (filter (\<lambda>d. minEpisodeSecs \<le> d \<and> withinSpread d m) ds)
    \<and> length ds \<le> 2 * length (filter (\<lambda>d. minEpisodeSecs \<le> d \<and> withinSpread d m) ds)"
  using assms
  by (intro bexI [of _ "ds ! (length ds div 2)"]) (auto simp: looksLikeEpisodes_def Let_def split: if_splits)

lemma below_nth_count:
  assumes "sorted (rev ds)" and "k < length ds"
  shows "length ds - k \<le> length (filter (\<lambda>d. d \<le> ds ! k) (ds :: int list))"
proof -
  have "\<forall>d \<in> set (drop k ds). d \<le> ds ! k"
  proof
    fix d assume "d \<in> set (drop k ds)"
    then obtain i where "i < length ds - k" and d: "d = ds ! (k + i)" by (auto simp: in_set_conv_nth)
    then show "d \<le> ds ! k" unfolding d by (intro sorted_rev_nth_mono [OF assms(1)]) auto
  qed
  then have "filter (\<lambda>d. d \<le> ds ! k) (drop k ds) = drop k ds" by (simp add: filter_id_conv)
  moreover have "filter (\<lambda>d. d \<le> ds ! k) ds = filter (\<lambda>d. d \<le> ds ! k) (take k ds) @ filter (\<lambda>d. d \<le> ds ! k) (drop k ds)"
    by (metis append_take_drop_id filter_append)
  ultimately show ?thesis by simp
qed

lemma length_filter_map_sorted:
  "length (filter p (rev (sort (map f xs)))) = length (filter (\<lambda>x. p (f x)) xs)"
  by (simp only: length_filter_sort) (simp add: filter_map comp_def)

definition lopsided :: "title list \<Rightarrow> bool" where
  "lopsided ts \<longleftrightarrow> list_ex (\<lambda>t. minFeatureSecs \<le> ti_DurationSecs t
     \<and> list_all (\<lambda>u. ti_DurationSecs u \<le> ti_DurationSecs t) ts
     \<and> (length ts = 1 \<or> length ts \<le> 2 * length (filter (\<lambda>u. 2 * ti_DurationSecs u \<le> ti_DurationSecs t) ts))) ts"

definition level :: "title list \<Rightarrow> bool" where
  "level ts \<longleftrightarrow> list_ex (\<lambda>t. minEpisodeSecs \<le> ti_DurationSecs t \<and> ti_DurationSecs t \<le> maxEpisodeSecs
     \<and> 2 \<le> length (filter (\<lambda>u. minEpisodeSecs \<le> ti_DurationSecs u
          \<and> withinSpread (ti_DurationSecs u) (ti_DurationSecs t)) ts)) ts"

lemma longest_title:
  assumes "ts \<noteq> []" and "ds = rev (sort (map ti_DurationSecs ts))"
  obtains t where "t \<in> set ts" "ti_DurationSecs t = ds ! 0" "\<forall>u \<in> set ts. ti_DurationSecs u \<le> ti_DurationSecs t"
proof -
  have len: "0 < length ds" and mem: "set ds = ti_DurationSecs ` set ts" using assms by simp_all
  then have "ds ! 0 \<in> ti_DurationSecs ` set ts" using nth_mem by blast
  then obtain t where t: "t \<in> set ts" "ti_DurationSecs t = ds ! 0" by auto
  have "ti_DurationSecs u \<le> ds ! 0" if "u \<in> set ts" for u
  proof -
    have "ti_DurationSecs u \<in> set ds" using that mem by simp
    then obtain i where "i < length ds" "ds ! i = ti_DurationSecs u" by (auto simp: in_set_conv_nth)
    moreover have "sorted (rev ds)" using assms(2) by simp
    ultimately show ?thesis using sorted_rev_nth_mono [of ds 0 i] by simp
  qed
  with t show thesis using that by simp
qed

lemma movie_lopsided:
  assumes "ts \<noteq> []" and ds: "ds = rev (sort (map ti_DurationSecs ts))" and "ds ! 0 \<ge> minFeatureSecs"
    and "length ts = 1 \<or> ds ! 0 \<ge> 2 * (ds ! (length ds div 2))"
  shows "lopsided ts"
proof -
  obtain t where t: "t \<in> set ts" "ti_DurationSecs t = ds ! 0" "\<forall>u \<in> set ts. ti_DurationSecs u \<le> ti_DurationSecs t"
    by (rule longest_title [OF assms(1) ds])
  have "length ts \<le> 2 * length (filter (\<lambda>u. 2 * ti_DurationSecs u \<le> ti_DurationSecs t) ts)" if "length ts \<noteq> 1"
  proof -
    let ?k = "length ds div 2"
    have len: "length ds = length ts" using ds by simp
    have half: "ds ! 0 \<ge> 2 * (ds ! ?k)" using that assms(4) by simp
    have "?k < length ds" using assms(1) len by simp
    then have "length ds - ?k \<le> length (filter (\<lambda>d. d \<le> ds ! ?k) ds)"
      by (rule below_nth_count [rotated]) (simp add: ds)
    also have "\<dots> = length (filter (\<lambda>u. ti_DurationSecs u \<le> ds ! ?k) ts)" by (simp add: ds length_filter_map_sorted)
    also have "\<dots> \<le> length (filter (\<lambda>u. 2 * ti_DurationSecs u \<le> ti_DurationSecs t) ts)"
      using half t(2) by (intro length_filter_mono) auto
    finally show ?thesis using len by simp
  qed
  then show ?thesis using t assms(3) unfolding lopsided_def list_ex_iff list_all_iff
    by (intro bexI [OF _ t(1)]) auto
qed

lemma episodes_level:
  assumes "looksLikeEpisodes (drop k (rev (sort (map ti_DurationSecs ts))))"
  shows "level ts"
proof -
  let ?ds = "rev (sort (map ti_DurationSecs ts))"
  obtain m where m: "m \<in> set (drop k ?ds)" "minEpisodeSecs \<le> m" "m \<le> maxEpisodeSecs"
    and two: "2 \<le> length (filter (\<lambda>d. minEpisodeSecs \<le> d \<and> withinSpread d m) (drop k ?ds))"
    using looksLikeEpisodes_two [OF assms] by blast
  have "filter p ?ds = filter p (take k ?ds) @ filter p (drop k ?ds)" for p
    by (metis append_take_drop_id filter_append)
  then have "2 \<le> length (filter (\<lambda>d. minEpisodeSecs \<le> d \<and> withinSpread d m) ?ds)" using two by simp
  then have n: "2 \<le> length (filter (\<lambda>u. minEpisodeSecs \<le> ti_DurationSecs u \<and> withinSpread (ti_DurationSecs u) m) ts)"
    by (simp only: length_filter_map_sorted)
  have "m \<in> set ?ds" using m(1) by (rule in_set_dropD)
  then obtain t where "t \<in> set ts" "ti_DurationSecs t = m" by auto
  with m n show ?thesis by (auto simp: level_def list_ex_iff)
qed

text \<open>A disc is filed as a film only if its longest title is at least 45 minutes and at least half of
  its titles run no more than half of that; it is filed as television only if two of its titles are
  of episode length and within a quarter of each other's runtime; and the answer does not depend on
  the order the titles were enumerated in.\<close>

theorem Classify_is_sound:
  "(case Classify ts of KindMovie \<Rightarrow> lopsided ts | KindTV \<Rightarrow> level ts | KindUnknown \<Rightarrow> True)
   \<and> (mset us = mset ts \<longrightarrow> Classify us = Classify ts)"
proof
  let ?ds = "rev (sort (map ti_DurationSecs ts))"
  have whole: "looksLikeEpisodes ?ds \<Longrightarrow> level ts" using episodes_level [of 0 ts] by simp
  show "case Classify ts of KindMovie \<Rightarrow> lopsided ts | KindTV \<Rightarrow> level ts | KindUnknown \<Rightarrow> True"
    using movie_lopsided [of ts ?ds] episodes_level [of 1 ts] whole
    by (auto simp: Classify_def Let_def featureRatio_def)
  show "mset us = mset ts \<longrightarrow> Classify us = Classify ts"
    using Classify_mset by (metis mset_map)
qed

theorem Classify_is_sound_witness:
  "lopsided (map (\<lambda>n. empty_title\<lparr>ti_DurationSecs := n\<rparr>) [300, 7860, 7860, 240, 180])
   \<and> Classify (rev (map (\<lambda>n. empty_title\<lparr>ti_DurationSecs := n\<rparr>) [300, 7860, 7860, 240, 180])) = KindMovie"
proof -
  let ?ts = "map (\<lambda>n. empty_title\<lparr>ti_DurationSecs := n\<rparr>) [300, 7860, 7860, 240, 180]"
  have "Classify ?ts = KindMovie" by code_simp
  then show ?thesis using Classify_is_sound [of ?ts "rev ?ts"] by (simp only: mset_rev kind.case simp_thms)
qed

section \<open>Placements stay inside the library\<close>

lemma set_kept_words: "set (kept_words prev ws) \<subseteq> set ws"
  by (induction prev ws rule: kept_words.induct) auto

lemma titleCase_no_dot: "CHR ''.'' \<notin> set w \<Longrightarrow> CHR ''.'' \<notin> set (titleCase w)"
proof -
  assume nd: "CHR ''.'' \<notin> set w"
  have l: "\<not> is_lower (CHR ''.'')" and u: "\<not> is_upper (CHR ''.'')" by (simp_all add: is_lower_def is_upper_def)
  have "CHR ''.'' \<notin> set (ToLower w)" using nd lower_char_same [OF l] unfolding ToLower_def by (metis imageE set_map)
  moreover have "upper_char c \<noteq> CHR ''.''" if "c \<noteq> CHR ''.''" for c using upper_char_same [OF u] that by blast
  ultimately show ?thesis
    using nd by (cases "ToLower w") (simp_all add: titleCase_def, metis)
qed

lemma Name_no_dot: "CHR ''.'' \<notin> set (Name label)"
proof -
  let ?words = "Fields (map unseparate (TrimSpace label))"
  let ?kept = "if kept_words None ?words = [] then ?words else kept_words None ?words"
  have "CHR ''.'' \<notin> set w" if "w \<in> set ?words" for w
  proof -
    have "set w \<subseteq> set (map unseparate (TrimSpace label))"
      using that by (simp only: Fields_def) (rule set_fields_by)
    then show ?thesis by (auto simp: unseparate_def split: if_splits)
  qed
  then have "CHR ''.'' \<notin> set w" if "w \<in> set ?kept" for w
    using that set_kept_words [of None ?words] by (auto split: if_splits)
  then have "\<forall>w \<in> set (map titleCase ?kept). CHR ''.'' \<notin> set w" using titleCase_no_dot by auto
  then have "CHR ''.'' \<notin> set (join_with '' '' (map titleCase ?kept))"
    using set_join_with [of "'' ''" "map titleCase ?kept"] by fastforce
  then show ?thesis by (simp add: Name_def Let_def)
qed

definition hex_text :: "string \<Rightarrow> bool" where
  "hex_text s \<longleftrightarrow> list_all (\<lambda>c. is_digit c \<or> is_lower c) s"

lemma hex_text_Short: "hex_text fp \<Longrightarrow> c \<in> set (Short fp) \<Longrightarrow> is_digit c \<or> is_lower c"
  by (auto simp: hex_text_def Short_def list_all_iff dest: in_set_takeD split: if_splits)

lemma not_hex_dot: "\<not> (is_digit (CHR ''.'') \<or> is_lower (CHR ''.''))" "\<not> (is_digit SLASH \<or> is_lower SLASH)"
  by (simp_all add: is_digit_def is_lower_def)

lemma plan_name_no_dot: "hex_text (di_Fingerprint d) \<Longrightarrow> CHR ''.'' \<notin> set (plan_name d)"
  using Name_no_dot [of "di_VolumeLabel d"] hex_text_Short [of "di_Fingerprint d" "CHR ''.''"] not_hex_dot
  by (auto simp: plan_name_def Let_def)

lemma int_str02_chars: "c \<in> set (int_str02 i) \<Longrightarrow> is_digit c \<or> c = CHR ''-''"
  using int_str_sep [of c i] by (auto simp: int_str02_def is_digit_def split: if_splits)

text \<open>The file part of a placement: the name followed by a suffix that ends in \<^verbatim>\<open>.mkv\<close>.\<close>

lemma last_path_comps:
  assumes "SLASH \<notin> set b" and "b \<noteq> []"
  shows "path_comps (a @ b) = filter (\<lambda>c. c \<noteq> []) (butlast (split_on SLASH a)) @ [last (split_on SLASH a) @ b]"
  using last_split_snoc [OF assms(1), of a] assms(2) by (auto simp: path_comps_def)

lemma plain_file:
  assumes "CHR ''.'' \<notin> set a" and "SLASH \<notin> set b" and "2 < length b"
  shows "list_all plain_comp (split_on SLASH (a @ b))"
proof -
  obtain w ws where s: "split_on SLASH (a @ b) = ws @ [w @ b]" "split_on SLASH a = ws @ [w]"
    using last_split_snoc [OF assms(2), of a] by blast
  have "list_all plain_comp (ws @ [w])" using plain_comp_no_dot [OF assms(1)] s(2) by simp
  moreover have "2 < length (w @ b)" using assms(3) by simp
  then have "plain_comp (w @ b)" by (auto simp: plain_comp_def simp del: length_append)
  ultimately show ?thesis by (simp add: s(1))
qed

lemma placed_path:
  assumes "rooted_path dir" and "CHR ''.'' \<notin> set name" and "SLASH \<notin> set b" and "2 < length b"
    and "\<And>e. e \<in> set es \<Longrightarrow> list_all plain_comp (split_on SLASH e)"
  shows "path_comps (Join (dir # es @ [name @ b])) = path_comps (Clean dir) @ concat (map path_comps es)
    @ filter (\<lambda>c. c \<noteq> []) (butlast (split_on SLASH name)) @ [last (split_on SLASH name) @ b]"
proof -
  have "e \<in> set (es @ [name @ b]) \<Longrightarrow> list_all plain_comp (split_on SLASH e)" for e
    using assms(5) plain_file [OF assms(2-4)] by auto
  from Join_rooted [OF assms(1) this, of "es @ [name @ b]"]
  have "path_comps (Join (dir # es @ [name @ b])) =
      path_comps (Clean dir) @ concat (map path_comps es) @ path_comps (name @ b)" by simp
  moreover have "b \<noteq> []" using assms(4) by auto
  ultimately show ?thesis using last_path_comps [OF assms(3), of name] by simp
qed

definition movie_suffix :: "int \<Rightarrow> title \<Rightarrow> string" where
  "movie_suffix feature t =
     (if ti_Index t = feature then ''.mkv'' else '' - t'' @ int_str02 (ti_Index t) @ ''.mkv'')"

definition tv_suffix :: "string \<Rightarrow> title \<Rightarrow> string" where
  "tv_suffix short t = '' - '' @ short @ '' - t'' @ int_str02 (ti_Index t) @ ''.mkv''"

definition plan_suffix :: "disc \<Rightarrow> kind \<Rightarrow> title \<Rightarrow> string" where
  "plan_suffix d k t = (if k = KindMovie then movie_suffix (longestTitle (sort_key ti_Index (di_Titles d))) t
     else tv_suffix (Short (di_Fingerprint d)) t)"

definition plan_dirs :: "disc \<Rightarrow> kind \<Rightarrow> title \<Rightarrow> string list" where
  "plan_dirs d k t =
     (if k \<noteq> KindMovie then [''TV'', plan_name d]
      else if ti_Index t = longestTitle (sort_key ti_Index (di_Titles d)) then [''Movies'', plan_name d]
      else [''Movies'', plan_name d, ''extras''])"

lemma Plan_eq:
  "Plan lib d k = map (\<lambda>t. \<lparr>p_TitleIndex = ti_Index t,
      p_Path = Join (lib # plan_dirs d k t @ [plan_name d @ plan_suffix d k t]),
      p_Feature = (k = KindMovie \<and> ti_Index t = longestTitle (sort_key ti_Index (di_Titles d)))\<rparr>)
    (sort_key ti_Index (di_Titles d))"
  by (cases k) (simp_all add: Plan_def Let_def plan_dirs_def plan_suffix_def movie_suffix_def tv_suffix_def)

lemma suffix_no_slash: "hex_text (di_Fingerprint d) \<Longrightarrow> SLASH \<notin> set (plan_suffix d k t)"
proof -
  assume "hex_text (di_Fingerprint d)"
  then have "SLASH \<notin> set (Short (di_Fingerprint d))" using hex_text_Short not_hex_dot(2) by blast
  moreover have "SLASH \<notin> set (int_str02 (ti_Index t))" using int_str02_chars [of SLASH] by (auto simp: is_digit_def)
  ultimately show ?thesis by (auto simp: plan_suffix_def movie_suffix_def tv_suffix_def)
qed

lemma suffix_long: "2 < length (plan_suffix d k t)"
  by (simp add: plan_suffix_def movie_suffix_def tv_suffix_def)

lemma suffix_inj: "plan_suffix d k t = plan_suffix d k u \<Longrightarrow> ti_Index t = ti_Index u"
  by (auto simp: plan_suffix_def movie_suffix_def tv_suffix_def split: if_splits)

lemma path_comps_plain: "list_all plain_comp (split_on SLASH e) \<Longrightarrow> list_all plain_comp (path_comps e)"
  by (auto simp: path_comps_def list_all_iff)

lemma plan_dirs_plain:
  assumes "hex_text (di_Fingerprint d)" and "e \<in> set (plan_dirs d k t)"
  shows "list_all plain_comp (split_on SLASH e)"
proof -
  have "CHR ''.'' \<notin> set e" using plan_name_no_dot [OF assms(1)] assms(2) by (auto simp: plan_dirs_def split: if_splits)
  then show ?thesis by (rule plain_comp_no_dot)
qed

lemma plan_path:
  assumes "rooted_path lib" and "hex_text (di_Fingerprint d)"
  shows "path_comps (Join (lib # plan_dirs d k t @ [plan_name d @ plan_suffix d k t])) =
    path_comps (Clean lib) @ concat (map path_comps (plan_dirs d k t))
    @ filter (\<lambda>c. c \<noteq> []) (butlast (split_on SLASH (plan_name d))) @ [last (split_on SLASH (plan_name d)) @ plan_suffix d k t]"
  by (rule placed_path [OF assms(1) plan_name_no_dot [OF assms(2)] suffix_no_slash [OF assms(2)] suffix_long
        plan_dirs_plain [OF assms(2)]])

lemma plan_path_inj:
  assumes "rooted_path lib" and "hex_text (di_Fingerprint d)"
    and "Join (lib # plan_dirs d k t @ [plan_name d @ plan_suffix d k t])
       = Join (lib # plan_dirs d k u @ [plan_name d @ plan_suffix d k u])"
  shows "ti_Index t = ti_Index u"
proof -
  have "last (path_comps (Join (lib # plan_dirs d k t @ [plan_name d @ plan_suffix d k t])))
      = last (path_comps (Join (lib # plan_dirs d k u @ [plan_name d @ plan_suffix d k u])))"
    by (simp only: assms(3))
  then have "plan_suffix d k t = plan_suffix d k u"
    by (simp only: plan_path [OF assms(1,2)] last_append last_snoc append_assoc [symmetric])
      (simp add: append_eq_append_conv)
  then show ?thesis by (rule suffix_inj)
qed

lemma plan_path_inside:
  assumes "rooted_path lib" and "hex_text (di_Fingerprint d)"
  shows "\<exists>rest. path_comps (Join (lib # plan_dirs d k t @ [plan_name d @ plan_suffix d k t])) =
      path_comps (Clean lib) @ (if k = KindMovie then ''Movies'' else ''TV'') # rest \<and> rest \<noteq> [] \<and> list_all plain_comp rest"
proof -
  let ?l = "last (split_on SLASH (plan_name d)) @ plan_suffix d k t"
  let ?f = "filter (\<lambda>c. c \<noteq> []) (butlast (split_on SLASH (plan_name d)))"
  have "\<exists>es. plan_dirs d k t = (if k = KindMovie then ''Movies'' else ''TV'') # es" by (simp add: plan_dirs_def)
  then obtain es where es: "plan_dirs d k t = (if k = KindMovie then ''Movies'' else ''TV'') # es" by blast
  have "2 < length ?l" using suffix_long [of d k t] by simp
  then have l: "plain_comp ?l" by (auto simp: plain_comp_def simp del: length_append)
  have "list_all plain_comp (split_on SLASH (plan_name d))"
    by (rule plain_comp_no_dot [OF plan_name_no_dot [OF assms(2)]])
  then have f: "list_all plain_comp ?f" by (auto simp: list_all_iff dest: in_set_butlastD)
  have "list_all plain_comp (concat (map path_comps es))"
    using plan_dirs_plain [OF assms(2), of _ k t] path_comps_plain
    unfolding es by (fastforce simp: list_all_iff)
  moreover have "path_comps (if k = KindMovie then ''Movies'' else ''TV'') = [if k = KindMovie then ''Movies'' else ''TV'']"
    by (simp add: path_comps_single)
  moreover from this have "concat (map path_comps (plan_dirs d k t)) =
      (if k = KindMovie then ''Movies'' else ''TV'') # concat (map path_comps es)" by (simp add: es)
  ultimately show ?thesis using l f plan_path [OF assms, of k t]
    by (intro exI [of _ "concat (map path_comps es) @ ?f @ [?l]"]) simp
qed

text \<open>C25. For every disc, whatever its volume label says, the plan places each title exactly once, at
  pairwise different paths, each strictly below the library's \<^verbatim>\<open>Movies\<close> or \<^verbatim>\<open>TV\<close> directory: no
  label can climb out of it.\<close>

theorem Plan_stays_in_library:
  assumes "rooted_path lib" and "hex_text (di_Fingerprint d)" and "distinct (map ti_Index (di_Titles d))"
  shows "map p_TitleIndex (Plan lib d k) = sort (map ti_Index (di_Titles d))
    \<and> distinct (map p_Path (Plan lib d k))
    \<and> (\<forall>p \<in> set (Plan lib d k). \<exists>rest. path_comps (p_Path p) =
          path_comps (Clean lib) @ (if k = KindMovie then ''Movies'' else ''TV'') # rest
          \<and> rest \<noteq> [] \<and> list_all plain_comp rest)"
proof (intro conjI ballI)
  let ?ts = "sort_key ti_Index (di_Titles d)"
  let ?path = "\<lambda>t. Join (lib # plan_dirs d k t @ [plan_name d @ plan_suffix d k t])"
  have idx: "map ti_Index ?ts = sort (map ti_Index (di_Titles d))"
    by (rule properties_for_sort [symmetric]) simp_all
  then show "map p_TitleIndex (Plan lib d k) = sort (map ti_Index (di_Titles d))"
    by (simp add: Plan_eq comp_def)
  have "distinct (map ti_Index ?ts)" using assms(3) idx by simp
  then have inj: "inj_on ti_Index (set ?ts)" and dts: "distinct ?ts" by (simp_all only: distinct_map)
  have "inj_on ?path (set ?ts)"
    by (rule inj_onI) (rule inj_onD [OF inj plan_path_inj [OF assms(1,2)]])
  with dts have "distinct (map ?path ?ts)" by (simp only: distinct_map)
  then show "distinct (map p_Path (Plan lib d k))" by (simp add: Plan_eq comp_def)
  fix p
  assume "p \<in> set (Plan lib d k)"
  then obtain t where "p_Path p = ?path t" by (auto simp: Plan_eq)
  then show "\<exists>rest. path_comps (p_Path p) = path_comps (Clean lib) @ (if k = KindMovie then ''Movies'' else ''TV'') # rest
          \<and> rest \<noteq> [] \<and> list_all plain_comp rest"
    using plan_path_inside [OF assms(1,2)] by simp
qed

theorem Plan_stays_in_library_witness:
  "map p_TitleIndex (Plan ''/srv/media'' (empty_disc\<lparr>di_VolumeLabel := ''../../ETC_DISC_1'', di_Fingerprint := ''ab12'',
      di_Titles := [empty_title\<lparr>ti_Index := 1\<rparr>, empty_title\<lparr>ti_Index := 0\<rparr>]\<rparr>) KindTV) = [0, 1]
   \<and> list_all (\<lambda>p. \<exists>rest. path_comps (p_Path p) = [''srv'', ''media'', ''TV''] @ rest)
       (Plan ''/srv/media'' (empty_disc\<lparr>di_VolumeLabel := ''../../ETC_DISC_1'', di_Fingerprint := ''ab12'',
         di_Titles := [empty_title\<lparr>ti_Index := 1\<rparr>, empty_title\<lparr>ti_Index := 0\<rparr>]\<rparr>) KindTV)"
proof -
  let ?d = "empty_disc\<lparr>di_VolumeLabel := ''../../ETC_DISC_1'', di_Fingerprint := ''ab12'',
      di_Titles := [empty_title\<lparr>ti_Index := 1\<rparr>, empty_title\<lparr>ti_Index := 0\<rparr>]\<rparr>"
  have "rooted_path ''/srv/media''" "hex_text (di_Fingerprint ?d)" "distinct (map ti_Index (di_Titles ?d))"
    and c: "path_comps (Clean ''/srv/media'') = [''srv'', ''media'']"
    and o: "sort (map ti_Index (di_Titles ?d)) = [0, 1]"
    by code_simp+
  from Plan_stays_in_library [OF this(1-3), of KindTV] show ?thesis unfolding c o list_all_iff by fastforce
qed

section \<open>Filing never replaces anything\<close>

lemma mkdirs_keeps: "fs_nodes fs p = Some n \<Longrightarrow> fs_nodes (fst (mkdirs ps fs)) p = Some n"
proof (induction ps fs rule: mkdirs.induct)
  case (2 q ps fs)
  then have "fs_nodes fs q = None \<Longrightarrow> p \<noteq> q" by auto
  with 2 show ?case by (cases "fs_nodes fs q") (auto split: node.splits)
qed simp

lemma mkdirs_adds_dirs: "fs_nodes (fst (mkdirs ps fs)) p \<noteq> fs_nodes fs p \<Longrightarrow> fs_nodes (fst (mkdirs ps fs)) p = Some DirNode"
proof (induction ps fs rule: mkdirs.induct)
  case (2 q ps fs)
  show ?case
  proof (cases "fs_nodes fs q")
    case None
    show ?thesis
    proof (cases "fs_writable fs q")
      case True
      let ?fs = "fs\<lparr>fs_nodes := (fs_nodes fs)(q \<mapsto> DirNode)\<rparr>"
      have eq: "mkdirs (q # ps) fs = mkdirs ps ?fs" using None True by simp
      show ?thesis
      proof (cases "fs_nodes (fst (mkdirs ps ?fs)) p = fs_nodes ?fs p")
        case True
        then show ?thesis using "2.prems" unfolding eq by (auto split: if_splits)
      next
        case False
        then show ?thesis unfolding eq using "2.IH"(1) [OF None \<open>fs_writable fs q\<close>] by blast
      qed
    qed (use "2.prems" None in simp)
  qed (use 2 in \<open>auto split: node.splits\<close>)
qed simp

lemma Link_effect:
  "case Link src dst fs of (fs', r) \<Rightarrow>
     (\<forall>p n. fs_nodes fs p = Some n \<longrightarrow> fs_nodes fs' p = Some n)
     \<and> (\<forall>p k. fs_nodes fs' p = Some (FileNode k) \<longrightarrow> fs_nodes fs p = Some (FileNode k) \<or> (r = LinkDone \<and> p = dst))
     \<and> (r = LinkDone \<longrightarrow> fs_nodes fs dst = None
          \<and> (\<exists>k. fs_nodes fs src = Some (FileNode k) \<and> fs_nodes fs' dst = Some (FileNode k)))
     \<and> (r = LinkExists \<longrightarrow> fs_nodes fs' dst \<noteq> None)"
proof -
  obtain fs1 made where m: "MkdirAll (Dir dst) fs = (fs1, made)" by fastforce
  have keep: "fs_nodes fs p = Some n \<Longrightarrow> fs_nodes fs1 p = Some n" for p n
    using mkdirs_keeps [of fs p n "path_prefixes (Dir dst)"] m by (simp add: MkdirAll_def)
  have add: "fs_nodes fs1 p = fs_nodes fs p \<or> fs_nodes fs1 p = Some DirNode" for p
    using mkdirs_adds_dirs [of "path_prefixes (Dir dst)" fs p] m by (auto simp: MkdirAll_def)
  have files: "fs_nodes fs1 p = Some (FileNode k) \<Longrightarrow> fs_nodes fs p = Some (FileNode k)" for p k
    using add [of p] by auto
  have none: "fs_nodes fs1 p = None \<Longrightarrow> fs_nodes fs p = None" for p
    using keep [of p] by (cases "fs_nodes fs p") auto
  show ?thesis
  proof (cases "made \<and> fs_nodes fs1 dst = None \<and> fs_writable fs1 dst \<and> (\<exists>k. fs_nodes fs1 src = Some (FileNode k))")
    case True
    then obtain k where k: "fs_nodes fs1 src = Some (FileNode k)" by blast
    have eq: "Link src dst fs = (fs1\<lparr>fs_nodes := (fs_nodes fs1)(dst \<mapsto> FileNode k)\<rparr>, LinkDone)"
      using True m k by (simp add: Link_def)
    have nd: "fs_nodes fs dst = None" using True none by blast
    let ?fs = "fs1\<lparr>fs_nodes := (fs_nodes fs1)(dst \<mapsto> FileNode k)\<rparr>"
    have "fs_nodes ?fs p = Some n" if "fs_nodes fs p = Some n" for p n
      using keep [OF that] nd that by auto
    moreover have "fs_nodes fs p = Some (FileNode i) \<or> p = dst" if "fs_nodes ?fs p = Some (FileNode i)" for p i
      using that files [of p i] by (auto split: if_splits)
    moreover have "fs_nodes ?fs dst = Some (FileNode k)" by simp
    ultimately show ?thesis unfolding eq prod.case using nd files [OF k] by blast
  next
    case False
    have "\<exists>r. Link src dst fs = (fs1, r) \<and> r \<noteq> LinkDone \<and> (r = LinkExists \<longrightarrow> fs_nodes fs1 dst \<noteq> None)"
    proof (cases "made \<and> fs_nodes fs1 dst = None")
      case True
      then show ?thesis
      proof (cases "fs_nodes fs1 src")
        case (Some n)
        then show ?thesis using True False m by (cases n) (simp_all add: Link_def)
      qed (use True m in \<open>simp add: Link_def\<close>)
    next
      case F: False
      show ?thesis
      proof (cases made)
        case True
        with F obtain n where "fs_nodes fs1 dst = Some n" by auto
        then show ?thesis using True m by (simp add: Link_def)
      qed (use m in \<open>simp add: Link_def\<close>)
    qed
    then obtain r where eq: "Link src dst fs = (fs1, r)" and r: "r \<noteq> LinkDone" "r = LinkExists \<longrightarrow> fs_nodes fs1 dst \<noteq> None" by blast
    show ?thesis unfolding eq prod.case using r keep files by blast
  qed
qed

lemma Link_keeps:
  assumes "Link src dst fs = (fs', r)" and "fs_nodes fs p = Some n"
  shows "fs_nodes fs' p = Some n"
proof -
  have "\<forall>p n. fs_nodes fs p = Some n \<longrightarrow> fs_nodes fs' p = Some n"
    using Link_effect [where src = src and dst = dst and fs = fs] unfolding assms(1) prod.case by (rule conjunct1)
  with assms(2) show ?thesis by blast
qed

lemma Link_placed:
  assumes "Link src dst fs = (fs', r)" and "r \<noteq> LinkError"
  shows "fs_nodes fs' dst \<noteq> None"
proof -
  have "(r = LinkDone \<longrightarrow> (\<exists>k. fs_nodes fs' dst = Some (FileNode k))) \<and> (r = LinkExists \<longrightarrow> fs_nodes fs' dst \<noteq> None)"
    using Link_effect [where src = src and dst = dst and fs = fs] unfolding assms(1) prod.case by blast
  then show ?thesis using assms(2) by (cases r) auto
qed

text \<open>C26. Filing a title never replaces or removes anything that is on disk, whatever the outcome. When
  it reports success there was nothing at the destination, and the destination is now the very file
  the transcode wrote; when it reports that something is already there, something is.\<close>

theorem Link_never_replaces:
  "case Link src dst fs of (fs', r) \<Rightarrow>
     (\<forall>p n. fs_nodes fs p = Some n \<longrightarrow> fs_nodes fs' p = Some n)
     \<and> (\<forall>p k. fs_nodes fs' p = Some (FileNode k) \<longrightarrow> fs_nodes fs p = Some (FileNode k) \<or> (r = LinkDone \<and> p = dst))
     \<and> (r = LinkDone \<longrightarrow> fs_nodes fs dst = None
          \<and> (\<exists>k. fs_nodes fs src = Some (FileNode k) \<and> fs_nodes fs' dst = Some (FileNode k)))
     \<and> (r = LinkExists \<longrightarrow> fs_nodes fs' dst \<noteq> None)"
  by (rule Link_effect)

theorem Link_never_replaces_witness:
  "snd (Link ''/t/a.mkv'' ''/lib/Movies/A.mkv''
      \<lparr>fs_nodes = [''/t'' \<mapsto> DirNode, ''/t/a.mkv'' \<mapsto> FileNode 7, ''/lib'' \<mapsto> DirNode], fs_writable = (\<lambda>p. True)\<rparr>) = LinkDone
   \<and> fs_nodes (fst (Link ''/t/a.mkv'' ''/lib/Movies/A.mkv''
      \<lparr>fs_nodes = [''/t'' \<mapsto> DirNode, ''/t/a.mkv'' \<mapsto> FileNode 7, ''/lib'' \<mapsto> DirNode], fs_writable = (\<lambda>p. True)\<rparr>))
      ''/t/a.mkv'' = Some (FileNode 7)"
proof -
  let ?fs = "\<lparr>fs_nodes = [''/t'' \<mapsto> DirNode, ''/t/a.mkv'' \<mapsto> FileNode 7, ''/lib'' \<mapsto> DirNode], fs_writable = (\<lambda>p. True)\<rparr>"
  have d: "snd (Link ''/t/a.mkv'' ''/lib/Movies/A.mkv'' ?fs) = LinkDone" by code_simp
  have "fs_nodes ?fs ''/t/a.mkv'' = Some (FileNode 7)" by simp
  then show ?thesis
    using Link_never_replaces [where src = "''/t/a.mkv''" and dst = "''/lib/Movies/A.mkv''" and fs = ?fs] d
    by (cases "Link ''/t/a.mkv'' ''/lib/Movies/A.mkv'' ?fs") auto
qed

end
