(* ===== verification/Encoder.thy ===== *)
theory Encoder
  imports Library "HOL-Library.Product_Lexorder"
begin

text \<open>
  \<^verbatim>\<open>internal/transcode\<close>: what a probe makes of ffprobe's answer (\<^verbatim>\<open>probe.go\<close>), the choice of the streams that
  reach the library (\<^verbatim>\<open>select.go\<close>), and the ffmpeg command line and the way its output is put in place
  (\<^verbatim>\<open>transcode.go\<close>).

  What ffmpeg and ffprobe did is an argument: the decoded answer of the probe, and for an encode what was at
  the temporary name as it went on and how it ended. The progress fraction and speed, which are floating-point
  and only shown, are left out.
\<close>

section \<open>Probing\<close>

record av_stream =
  as_Index :: int
  as_Kind :: string
  as_Codec :: string
  as_Channels :: int
  as_Language :: string
  as_Title :: string
  as_Default :: bool

definition losslessAudio :: "string list" where
  "losslessAudio = [''truehd'', ''dts'', ''flac'', ''mlp'', ''pcm_bluray'', ''pcm_dvd'', ''pcm_s16le'', ''pcm_s24le'']"

definition Lossless :: "av_stream \<Rightarrow> bool" where
  "Lossless s \<longleftrightarrow> ToLower (as_Codec s) \<in> set losslessAudio"

text \<open>A stream of ffprobe's answer. The duration of the answer is the number of nanoseconds that its text
  stands for, where it is a number.\<close>

record probe_stream =
  ps_Index :: int
  ps_CodecType :: string
  ps_CodecName :: string
  ps_Width :: int
  ps_Height :: int
  ps_FieldOrder :: string
  ps_Channels :: int
  ps_Language :: string
  ps_Title :: string
  ps_Default :: int

record probe_output =
  po_Streams :: "probe_stream list"
  po_Duration :: "int option"

record av_source =
  so_Duration :: int
  so_Interlaced :: bool
  so_Width :: int
  so_Height :: int
  so_FieldOrder :: string
  so_Streams :: "av_stream list"

definition empty_source :: av_source where
  "empty_source = \<lparr>so_Duration = 0, so_Interlaced = False, so_Width = 0, so_Height = 0, so_FieldOrder = [], so_Streams = []\<rparr>"

definition interlacedOrders :: "string list" where
  "interlacedOrders = [''tt'', ''bb'', ''tb'', ''bt'']"

definition probed_stream :: "probe_stream \<Rightarrow> av_stream" where
  "probed_stream st = \<lparr>as_Index = ps_Index st, as_Kind = ps_CodecType st, as_Codec = ps_CodecName st, as_Channels = ps_Channels st,
     as_Language = ToLower (TrimSpace (ps_Language st)), as_Title = ps_Title st, as_Default = (ps_Default st \<noteq> 0)\<rparr>"

fun probe_streams :: "bool \<Rightarrow> av_source \<Rightarrow> probe_stream list \<Rightarrow> av_source" where
  "probe_streams seenVideo s [] = s"
| "probe_streams seenVideo s (st # sts) =
     (let s1 = s\<lparr>so_Streams := so_Streams s @ [probed_stream st]\<rparr>
      in if ps_CodecType st = ''video'' \<and> \<not> seenVideo
         then probe_streams True (s1\<lparr>so_Width := ps_Width st, so_Height := ps_Height st, so_FieldOrder := ps_FieldOrder st,
                so_Interlaced := ToLower (TrimSpace (ps_FieldOrder st)) \<in> set interlacedOrders\<rparr>) sts
         else probe_streams seenVideo s1 sts)"

text \<open>\<^verbatim>\<open>ProbeBin\<close>, and \<^verbatim>\<open>Probe\<close> given how the command and the decoding of its output went.\<close>

definition ProbeBin :: "string \<Rightarrow> string" where
  "ProbeBin bin = (if suffix ''ffmpeg'' bin then take (length bin - 6) bin @ ''ffprobe'' else ''ffprobe'')"

definition Probe :: "string \<Rightarrow> string \<Rightarrow> string option \<Rightarrow> string + probe_output \<Rightarrow> string + av_source" where
  "Probe bin path run decoded =
     (case run of
        Some e \<Rightarrow> Inl (ProbeBin bin @ '' '' @ path @ '': '' @ e)
      | None \<Rightarrow>
          (case decoded of
             Inl e \<Rightarrow> Inl (''read '' @ ProbeBin bin @ '' output for '' @ path @ '': '' @ e)
           | Inr p \<Rightarrow> Inr (probe_streams False
               (empty_source\<lparr>so_Duration := (case po_Duration p of None \<Rightarrow> 0 | Some n \<Rightarrow> if n > 0 then n else 0)\<rparr>) (po_Streams p))))"

section \<open>Choosing streams\<close>

record selection =
  sl_Maps :: "string list"
  sl_TranscodeAudio :: bool
  sl_Dropped :: "string list"
  sl_Kept :: "string list"

definition empty_selection :: selection where
  "empty_selection = \<lparr>sl_Maps = [], sl_TranscodeAudio = False, sl_Dropped = [], sl_Kept = []\<rparr>"

definition commentaryWords :: "string list" where
  "commentaryWords = [''comment'', ''director'', ''cast'', ''crew'', ''isolated score'']"

definition isCommentary :: "av_stream \<Rightarrow> bool" where
  "isCommentary s \<longleftrightarrow> list_ex (contains (ToLower (as_Title s))) commentaryWords"

definition lang_match :: "string \<Rightarrow> av_stream \<Rightarrow> bool" where
  "lang_match language s \<longleftrightarrow> as_Language s \<noteq> [] \<and>
     (as_Language s = language \<or> prefix (as_Language s) language \<or> prefix language (as_Language s))"

definition matching :: "av_stream list \<Rightarrow> string \<Rightarrow> av_stream list" where
  "matching streams language = filter (lang_match language) streams"

definition filterByLanguage :: "av_stream list \<Rightarrow> string \<Rightarrow> av_stream list" where
  "filterByLanguage streams language =
     (if language = [] then streams
      else let m = matching streams language in if m \<noteq> [] then m else streams)"

definition better_audio :: "av_stream \<Rightarrow> av_stream \<Rightarrow> av_stream" where
  "better_audio s best =
     (if as_Channels s > as_Channels best then s
      else if as_Channels s = as_Channels best \<and> as_Default s \<and> \<not> as_Default best then s
      else best)"

definition pickAudio :: "av_stream list \<Rightarrow> string \<Rightarrow> av_stream option" where
  "pickAudio audio language =
     (if audio = [] then None
      else let notComm = filter (\<lambda>s. \<not> isCommentary s) audio;
               feature = (if notComm = [] then audio else notComm);
               inLang = (if language \<noteq> [] \<and> matching feature language \<noteq> [] then matching feature language else feature)
           in Some (fold better_audio (tl inLang) (hd inLang)))"

definition contains_stream :: "av_stream list \<Rightarrow> int \<Rightarrow> bool" where
  "contains_stream streams index \<longleftrightarrow> list_ex (\<lambda>s. as_Index s = index) streams"

definition describe :: "string \<Rightarrow> av_stream \<Rightarrow> string" where
  "describe kind s =
     join_with '' '' ([kind, as_Codec s]
       @ (if as_Channels s > 2 then [int_str (as_Channels s - 1) @ ''.1'']
          else if as_Channels s > 0 then [int_str (as_Channels s) @ ''ch''] else [])
       @ (if as_Language s \<noteq> [] then [as_Language s] else [])
       @ (if as_Title s \<noteq> [] then [[CHR 0x22] @ as_Title s @ [CHR 0x22]] else []))"

definition map_arg :: "av_stream \<Rightarrow> string" where
  "map_arg s = ''0:'' @ int_str (as_Index s)"

record select_state =
  ss_sel :: selection
  ss_audio :: "av_stream list"
  ss_subs :: "av_stream list"
  ss_videoSeen :: bool

definition select_step :: "av_stream \<Rightarrow> select_state \<Rightarrow> select_state" where
  "select_step s st =
     (let sel = ss_sel st
      in if as_Kind s = ''video'' then
           (if \<not> ss_videoSeen st
            then st\<lparr>ss_videoSeen := True, ss_sel := sel\<lparr>sl_Maps := sl_Maps sel @ [map_arg s], sl_Kept := sl_Kept sel @ [describe ''video'' s]\<rparr>\<rparr>
            else st\<lparr>ss_sel := sel\<lparr>sl_Dropped := sl_Dropped sel @ [''extra video stream '' @ int_str (as_Index s)]\<rparr>\<rparr>)
         else if as_Kind s = ''audio'' then st\<lparr>ss_audio := ss_audio st @ [s]\<rparr>
         else if as_Kind s = ''subtitle'' then st\<lparr>ss_subs := ss_subs st @ [s]\<rparr>
         else st)"

definition select_start :: select_state where
  "select_start = \<lparr>ss_sel = empty_selection, ss_audio = [], ss_subs = [], ss_videoSeen = False\<rparr>"

definition Select :: "av_stream list \<Rightarrow> string \<Rightarrow> selection" where
  "Select streams lang =
     (let language = ToLower (TrimSpace lang);
          st = fold select_step streams select_start;
          sel = ss_sel st; audio = ss_audio st; subs = ss_subs st;
          sel1 = (case pickAudio audio language of
                    None \<Rightarrow> sel
                  | Some chosen \<Rightarrow>
                      sel\<lparr>sl_Maps := sl_Maps sel @ [map_arg chosen], sl_Kept := sl_Kept sel @ [describe ''audio'' chosen],
                          sl_TranscodeAudio := Lossless chosen,
                          sl_Dropped := sl_Dropped sel @ map (describe ''audio'') (filter (\<lambda>s. as_Index s \<noteq> as_Index chosen) audio)\<rparr>);
          kept = filterByLanguage subs language
      in sel1\<lparr>sl_Maps := sl_Maps sel1 @ map map_arg kept, sl_Kept := sl_Kept sel1 @ map (describe ''subtitle'') kept,
              sl_Dropped := sl_Dropped sel1 @ map (describe ''subtitle'') (filter (\<lambda>s. \<not> contains_stream kept (as_Index s)) subs)\<rparr>)"

section \<open>The command line\<close>

record encoder =
  ec_Bin :: string
  ec_Device :: string

definition New_encoder :: "string \<Rightarrow> string \<Rightarrow> encoder" where
  "New_encoder bin device = \<lparr>ec_Bin = (if bin = [] then ''ffmpeg'' else bin), ec_Device = device\<rparr>"

definition Hardware :: "encoder \<Rightarrow> bool" where
  "Hardware e \<longleftrightarrow> ec_Device e \<noteq> []"

definition DefaultDevice :: string where
  "DefaultDevice = ''/dev/dri/renderD128''"

definition ResolveDevice :: "(string \<Rightarrow> bool) \<Rightarrow> string \<Rightarrow> string" where
  "ResolveDevice exists configured =
     (if configured \<noteq> ''auto'' then configured else if \<not> exists DefaultDevice then [] else DefaultDevice)"

record profile =
  pf_Name :: string
  pf_Quality :: int
  pf_Preset :: string
  pf_MaxKbps :: int
  pf_Interlaced :: bool
  pf_MaxHeight :: int
  pf_SourceHeight :: int
  pf_Streams :: "av_stream list"
  pf_Language :: string
  pf_AudioKbps :: int

definition vfilters :: "profile \<Rightarrow> bool \<Rightarrow> string" where
  "vfilters p hardware =
     join_with '',''
       ((if pf_Interlaced p then [if hardware then ''deinterlace_vaapi=rate=field'' else ''yadif=mode=send_field''] else [])
        @ (if pf_MaxHeight p > 0 \<and> pf_SourceHeight p > pf_MaxHeight p
           then [if hardware then ''scale_vaapi=w=-1:h='' @ int_str (pf_MaxHeight p) else ''scale=-2:'' @ int_str (pf_MaxHeight p)]
           else []))"

definition profile_selection :: "profile \<Rightarrow> selection" where
  "profile_selection p = (if pf_Streams p \<noteq> [] then Select (pf_Streams p) (pf_Language p) else empty_selection)"

definition ffargs :: "encoder \<Rightarrow> string \<Rightarrow> string \<Rightarrow> profile \<Rightarrow> string list" where
  "ffargs e src dst p =
     (let sel = profile_selection p; vf = vfilters p (Hardware e); kbps = (\<lambda>n. int_str (wrap64 n) @ ''k'')
      in [''-hide_banner'', ''-nostdin'', ''-y'']
       @ (if Hardware e then [''-hwaccel'', ''vaapi'', ''-hwaccel_device'', ec_Device e, ''-hwaccel_output_format'', ''vaapi''] else [])
       @ [''-i'', src]
       @ (if vf \<noteq> [] then [''-vf'', vf] else [])
       @ (if sl_Maps sel \<noteq> [] then concat (map (\<lambda>m. [''-map'', m]) (sl_Maps sel)) else [''-map'', ''0'', ''-map'', ''-0:d?''])
       @ [''-map_chapters'', ''0'']
       @ (if sl_TranscodeAudio sel \<and> pf_AudioKbps p > 0 then [''-c:a'', ''ac3'', ''-b:a'', kbps (pf_AudioKbps p)] else [''-c:a'', ''copy''])
       @ [''-c:s'', ''copy'']
       @ (if Hardware e then
            [''-c:v'', ''h264_vaapi'']
            @ (if pf_MaxKbps p > 0
               then [''-rc_mode'', ''QVBR'', ''-global_quality'', int_str (pf_Quality p),
                     ''-b:v'', kbps (go_div (wrap64 (pf_MaxKbps p * 4)) 5), ''-maxrate'', kbps (pf_MaxKbps p)]
               else [''-qp'', int_str (pf_Quality p)])
          else
            [''-c:v'', ''libx264'', ''-crf'', int_str (pf_Quality p)]
            @ (if pf_Preset p \<noteq> [] then [''-preset'', pf_Preset p] else [])
            @ (if pf_MaxKbps p > 0 then [''-maxrate'', kbps (pf_MaxKbps p), ''-bufsize'', kbps (pf_MaxKbps p * 2)] else []))
       @ [''-f'', ''matroska'', ''-progress'', ''pipe:1'', ''-nostats'', dst])"

definition lastLines :: "string \<Rightarrow> nat \<Rightarrow> string" where
  "lastLines s n =
     (let ls = split_on (CHR 0x0A) (TrimRight s [CHR 0x0A])
      in join_with ''; '' (if length ls > n then drop (length ls - n) ls else ls))"

section \<open>An encode\<close>

text \<open>What an encode meets. \<^verbatim>\<open>tc_writes\<close> is what is at the temporary name as ffmpeg runs, the last entry being
  what it leaves there when it exits.\<close>

record transcode_env =
  te_pipe :: "string option"
  te_start :: "string option"
  te_writes :: "node option list"
  te_wait :: "string option"
  te_ctx :: "string option"
  te_stderr :: string
  te_rename :: "string option"
  te_size :: "node \<Rightarrow> int"

record transcode_result =
  tr_Path :: string
  tr_SizeBytes :: int
  tr_Hardware :: bool
  tr_Raw :: string
  tr_Streams :: selection

definition part_name :: "string \<Rightarrow> string" where
  "part_name dst = Join [Dir dst, ''.'' @ Base dst @ ''.part'']"

definition set_node :: "string \<Rightarrow> node option \<Rightarrow> fs \<Rightarrow> fs" where
  "set_node p n fs = fs\<lparr>fs_nodes := (fs_nodes fs)(p := n)\<rparr>"

text \<open>\<^verbatim>\<open>Transcode\<close> returns the states of the disk it went through, in any of which the machine may stop, and its
  result. The temporary file is removed on every way out.\<close>

definition Transcode_run :: "transcode_env \<Rightarrow> encoder \<Rightarrow> string \<Rightarrow> profile \<Rightarrow> fs \<Rightarrow> fs list \<times> (string + transcode_result)" where
  "Transcode_run env e dst p fs =
     (case MkdirAll (Dir dst) fs of
        (fs1, False) \<Rightarrow> ([fs1], Inl (''create '' @ Dir dst))
      | (fs1, True) \<Rightarrow>
          (let tmp = part_name dst;
               give_up = (\<lambda>states fs' err. (states @ [set_node tmp None fs'], Inl err))
           in case te_pipe env of
                Some err \<Rightarrow> give_up [fs1] fs1 (''stdout pipe: '' @ err)
              | None \<Rightarrow>
                  (case te_start env of
                     Some err \<Rightarrow> give_up [fs1] fs1 (''start '' @ ec_Bin e @ '': '' @ err)
                   | None \<Rightarrow>
                       (let running = map (\<lambda>n. set_node tmp n fs1) (te_writes env);
                            fs2 = last (fs1 # running)
                        in case te_wait env of
                             Some err \<Rightarrow> give_up (fs1 # running) fs2
                               (case te_ctx env of Some c \<Rightarrow> c | None \<Rightarrow> ''ffmpeg: '' @ err @ '': '' @ lastLines (te_stderr env) 3)
                           | None \<Rightarrow>
                               (case fs_nodes fs2 tmp of
                                  None \<Rightarrow> give_up (fs1 # running) fs2 ''ffmpeg reported success but wrote no output''
                                | Some out \<Rightarrow>
                                    (case te_rename env of
                                       Some err \<Rightarrow> give_up (fs1 # running) fs2 (''move the transcode into place: '' @ err)
                                     | None \<Rightarrow>
                                         (fs1 # running @ [set_node dst (Some out) (set_node tmp None fs2)],
                                          Inr \<lparr>tr_Path = dst, tr_SizeBytes = te_size env out, tr_Hardware = Hardware e,
                                               tr_Raw = te_stderr env, tr_Streams = profile_selection p\<rparr>)))))))"

section \<open>The audio track that is kept\<close>

text \<open>The first of the elements that nothing outranks.\<close>

definition first_max :: "('a \<Rightarrow> 'b::linorder) \<Rightarrow> 'a list \<Rightarrow> 'a option" where
  "first_max f xs = List.find (\<lambda>x. list_all (\<lambda>y. f y \<le> f x) xs) xs"

lemma first_max_iff:
  "first_max f xs = Some x \<longleftrightarrow> (\<exists>pre post. xs = pre @ x # post \<and> (\<forall>y \<in> set pre. f y < f x) \<and> (\<forall>y \<in> set post. f y \<le> f x))"
  (is "_ \<longleftrightarrow> (\<exists>pre post. ?split pre post)")
proof
  assume "first_max f xs = Some x"
  then obtain i where i: "i < length xs" "x = xs ! i" "\<forall>y \<in> set xs. f y \<le> f x"
    and before: "\<And>j. j < i \<Longrightarrow> \<exists>y \<in> set xs. f (xs ! j) < f y"
    by (auto simp: first_max_def find_Some_iff list_all_iff not_le)
  have "f (xs ! j) < f x" if "j < i" for j using before [OF that] i(3) by force
  then have "?split (take i xs) (drop (Suc i) xs)"
    using i id_take_nth_drop [OF i(1)] by (auto simp: in_set_conv_nth dest: in_set_dropD)
  then show "\<exists>pre post. ?split pre post" by blast
next
  assume "\<exists>pre post. ?split pre post"
  then obtain pre post where sp: "?split pre post" by blast
  then have top: "list_all (\<lambda>y. f y \<le> f x) xs" by (auto simp: list_all_iff intro: less_imp_le)
  moreover have "\<not> list_all (\<lambda>y. f y \<le> f (xs ! j)) xs" if "j < length pre" for j
  proof -
    have "f (xs ! j) < f x" using that sp by (simp add: nth_append)
    then show ?thesis using sp by (auto simp: list_all_iff not_le)
  qed
  ultimately show "first_max f xs = Some x"
    unfolding first_max_def find_Some_iff using sp by (intro exI [of _ "length pre"]) auto
qed

lemma first_maxI:
  "xs = pre @ x # post \<Longrightarrow> \<forall>y \<in> set pre. f y < f x \<Longrightarrow> \<forall>y \<in> set post. f y \<le> f x \<Longrightarrow> first_max f xs = Some x"
  unfolding first_max_iff by blast

lemma fold_first_max:
  fixes f :: "'a \<Rightarrow> 'b::linorder"
  assumes step: "\<And>s b. g s b = (if f b < f s then s else b)" and ne: "xs \<noteq> []"
  shows "first_max f xs = Some (fold g (tl xs) (hd xs))"
  using ne
proof (induction xs rule: rev_nonempty_induct)
  case (single x)
  show ?case by (simp add: first_max_def)
next
  case (snoc x xs)
  let ?b = "fold g (tl xs) (hd xs)"
  obtain pre post where b: "xs = pre @ ?b # post" "\<forall>y \<in> set pre. f y < f ?b" "\<forall>y \<in> set post. f y \<le> f ?b"
    using snoc.IH by (auto simp: first_max_iff)
  then have le: "\<forall>y \<in> set xs. f y \<le> f ?b" by (metis Un_iff less_imp_le order_refl set_ConsD set_append)
  have next_best: "fold g (tl (xs @ [x])) (hd (xs @ [x])) = g x ?b" using snoc.hyps by (cases xs) simp_all
  show ?case
  proof (cases "f ?b < f x")
    case True
    then have "\<forall>y \<in> set xs. f y < f x" using le by (auto intro: le_less_trans)
    moreover have "g x ?b = x" using True by (subst step) simp
    ultimately show ?thesis
      unfolding next_best by (intro first_maxI [of _ xs _ "[]"]) simp_all
  next
    case False
    then have "g x ?b = ?b" by (subst step) simp
    moreover have "xs @ [x] = pre @ ?b # post @ [x]" using b(1) by simp
    ultimately show ?thesis
      unfolding next_best using b False by (intro first_maxI [of _ pre _ "post @ [x]"]) (simp_all add: not_less)
  qed
qed

lemma find_in_filter: "List.find (\<lambda>x. P x \<and> Q x) xs = List.find Q (filter P xs)"
  by (induction xs) auto

lemma first_max_restrict:
  "first_max (\<lambda>x. (P x, f x)) xs = first_max f (if filter P xs = [] then xs else filter P xs)"
proof (cases "filter P xs = []")
  case True
  then have "\<forall>x \<in> set xs. \<not> P x" by (simp add: filter_empty_conv)
  then show ?thesis using True unfolding first_max_def
    by (auto simp: list_all_iff less_eq_prod_def intro!: find_cong)
next
  case False
  then obtain z where z: "z \<in> set xs" "P z" by (auto simp: filter_empty_conv)
  have "list_all (\<lambda>y. (P y, f y) \<le> (P x, f x)) xs \<longleftrightarrow> P x \<and> list_all (\<lambda>y. f y \<le> f x) (filter P xs)" for x
    using z by (cases "P x") (auto simp: list_all_iff less_eq_prod_def)
  then have "first_max (\<lambda>x. (P x, f x)) xs = List.find (\<lambda>x. P x \<and> list_all (\<lambda>y. f y \<le> f x) (filter P xs)) xs"
    by (simp add: first_max_def)
  also have "\<dots> = List.find (\<lambda>x. list_all (\<lambda>y. f y \<le> f x) (filter P xs)) (filter P xs)"
    by (rule find_in_filter)
  finally show ?thesis using False by (simp add: first_max_def)
qed

text \<open>What makes a track the one to keep, most important first.\<close>

definition audio_rank :: "string \<Rightarrow> av_stream \<Rightarrow> bool \<times> bool \<times> int \<times> bool" where
  "audio_rank language s = (\<not> isCommentary s, language \<noteq> [] \<and> lang_match language s, as_Channels s, as_Default s)"

lemma pickAudio_first_max:
  "pickAudio audio language = first_max (audio_rank language) audio"
proof (cases "audio = []")
  case True
  then show ?thesis by (simp add: pickAudio_def first_max_def)
next
  case False
  let ?rank = "\<lambda>s. (as_Channels s, as_Default s)"
  let ?feature = "if filter (\<lambda>s. \<not> isCommentary s) audio = [] then audio else filter (\<lambda>s. \<not> isCommentary s) audio"
  let ?inLang = "if filter (\<lambda>s. language \<noteq> [] \<and> lang_match language s) ?feature = [] then ?feature
    else filter (\<lambda>s. language \<noteq> [] \<and> lang_match language s) ?feature"
  have step: "better_audio s best = (if ?rank best < ?rank s then s else best)" for s best
    by (auto simp: better_audio_def less_prod_def)
  have ne: "?inLang \<noteq> []" using False by simp
  have "first_max (audio_rank language) audio = first_max ?rank ?inLang"
    unfolding audio_rank_def [abs_def] first_max_restrict ..
  also have "\<dots> = Some (fold better_audio (tl ?inLang) (hd ?inLang))" by (rule fold_first_max [OF step ne])
  also have "?inLang = (if language \<noteq> [] \<and> matching ?feature language \<noteq> [] then matching ?feature language else ?feature)"
    by (cases "language = []") (simp_all add: matching_def)
  finally show ?thesis using False unfolding pickAudio_def Let_def by simp
qed

lemma pickAudio_in: "pickAudio audio l = Some c \<Longrightarrow> c \<in> set audio"
  by (auto simp: pickAudio_first_max first_max_iff)

lemma pickAudio_None: "pickAudio audio l = None \<longleftrightarrow> audio = []"
  by (simp add: pickAudio_def Let_def)


section \<open>Every stream is kept or dropped\<close>

abbreviation of_kind :: "string \<Rightarrow> av_stream list \<Rightarrow> av_stream list" where
  "of_kind k streams \<equiv> filter (\<lambda>s. as_Kind s = k) streams"

lemma select_fold:
  "ss_audio (fold select_step xs st) = ss_audio st @ of_kind ''audio'' xs"
  "ss_subs (fold select_step xs st) = ss_subs st @ of_kind ''subtitle'' xs"
  "sl_TranscodeAudio (ss_sel (fold select_step xs st)) = sl_TranscodeAudio (ss_sel st)"
  by (induction xs arbitrary: st) (auto simp: select_step_def Let_def)

lemma select_fold_video:
  "sl_Maps (ss_sel (fold select_step xs st)) = sl_Maps (ss_sel st) @ (if ss_videoSeen st then [] else map map_arg (take 1 (of_kind ''video'' xs)))"
  "sl_Kept (ss_sel (fold select_step xs st)) =
     sl_Kept (ss_sel st) @ (if ss_videoSeen st then [] else map (describe ''video'') (take 1 (of_kind ''video'' xs)))"
  "sl_Dropped (ss_sel (fold select_step xs st)) = sl_Dropped (ss_sel st) @
     map (\<lambda>s. ''extra video stream '' @ int_str (as_Index s)) (if ss_videoSeen st then of_kind ''video'' xs else drop 1 (of_kind ''video'' xs))"
  by (induction xs arbitrary: st) (auto simp: select_step_def Let_def)

text \<open>The streams that \<^verbatim>\<open>Select\<close> keeps, in order.\<close>

definition chosen_streams :: "av_stream list \<Rightarrow> string \<Rightarrow> av_stream list" where
  "chosen_streams streams language =
     take 1 (of_kind ''video'' streams)
     @ (case pickAudio (of_kind ''audio'' streams) language of None \<Rightarrow> [] | Some c \<Rightarrow> [c])
     @ filterByLanguage (of_kind ''subtitle'' streams) language"

lemma Select_maps: "sl_Maps (Select streams lang) = map map_arg (chosen_streams streams (ToLower (TrimSpace lang)))"
  by (simp add: Select_def Let_def chosen_streams_def select_fold select_fold_video select_start_def empty_selection_def split: option.split)

lemma Select_kept: "length (sl_Kept (Select streams lang)) = length (sl_Maps (Select streams lang))"
  by (simp add: Select_def Let_def select_fold select_fold_video select_start_def empty_selection_def split: option.split)

lemma length_filter_other:
  "distinct (map f xs) \<Longrightarrow> c \<in> set xs \<Longrightarrow> Suc (length (filter (\<lambda>s. f s \<noteq> f c) xs)) = length xs"
proof (induction xs)
  case (Cons x xs)
  show ?case
  proof (cases "c = x")
    case True
    with Cons.prems have "filter (\<lambda>s. f s \<noteq> f c) xs = xs" by (auto simp: filter_id_conv) (metis imageI)
    with True show ?thesis by simp
  next
    case False
    with Cons show ?thesis by auto
  qed
qed simp

lemma filterByLanguage_filter: "\<exists>P. filterByLanguage subs l = filter P subs"
  by (auto simp: filterByLanguage_def matching_def Let_def intro: exI [of _ "\<lambda>_. True"])

lemma length_not_kept:
  assumes "distinct (map as_Index subs)"
  shows "length (filter P subs) + length (filter (\<lambda>s. \<not> contains_stream (filter P subs) (as_Index s)) subs) = length subs"
proof -
  have "contains_stream (filter P subs) (as_Index s) \<longleftrightarrow> P s" if "s \<in> set subs" for s
    using that assms by (auto simp: contains_stream_def list_ex_iff distinct_map dest: inj_onD)
  then have "filter (\<lambda>s. \<not> contains_stream (filter P subs) (as_Index s)) subs = filter (\<lambda>s. \<not> P s) subs"
    by (auto intro: filter_cong)
  then show ?thesis by (simp add: sum_length_filter_compl)
qed

lemma distinct_of_kind: "distinct (map as_Index streams) \<Longrightarrow> distinct (map as_Index (of_kind k streams))"
  by (induction streams) auto

lemma of_kinds_length:
  "length (of_kind ''video'' xs) + length (of_kind ''audio'' xs) + length (of_kind ''subtitle'' xs) =
     length (filter (\<lambda>s. as_Kind s \<in> {''video'', ''audio'', ''subtitle''}) xs)"
  by (induction xs) auto

lemma map_arg_inj: "map_arg s = map_arg t \<longleftrightarrow> as_Index s = as_Index t"
  by (simp add: map_arg_def)

lemma chosen_from: "set (chosen_streams streams l) \<subseteq> set streams"
  using filterByLanguage_filter [of "of_kind ''subtitle'' streams" l]
  by (auto simp: chosen_streams_def dest: pickAudio_in [OF sym] dest!: in_set_takeD split: option.splits)

lemma chosen_distinct:
  assumes "distinct (map as_Index streams)"
  shows "distinct (map map_arg (chosen_streams streams l))"
proof -
  obtain P where subs: "filterByLanguage (of_kind ''subtitle'' streams) l = filter P (of_kind ''subtitle'' streams)"
    using filterByLanguage_filter by blast
  have "distinct streams" using assms by (simp add: distinct_map)
  then have "distinct (chosen_streams streams l)"
    by (auto simp: chosen_streams_def subs split: option.split dest!: pickAudio_in in_set_takeD)
  moreover have "inj_on map_arg (set streams)" using assms by (auto simp: distinct_map inj_on_def map_arg_inj)
  ultimately show ?thesis using chosen_from by (auto simp: distinct_map intro: inj_on_subset)
qed

text \<open>Where streams have different numbers, every video, audio and subtitle stream of a file is either mapped into
  the output once or listed as dropped: the mapped streams are different streams of the file, each listed as kept,
  and kept and dropped together are all of them.\<close>

theorem Select_accounts_for_every_stream:
  assumes "distinct (map as_Index streams)"
  shows "distinct (sl_Maps (Select streams lang)) \<and> set (sl_Maps (Select streams lang)) \<subseteq> map_arg ` set streams
    \<and> length (sl_Kept (Select streams lang)) = length (sl_Maps (Select streams lang))
    \<and> length (sl_Kept (Select streams lang)) + length (sl_Dropped (Select streams lang)) =
        length (filter (\<lambda>s. as_Kind s \<in> {''video'', ''audio'', ''subtitle''}) streams)"
proof -
  let ?l = "ToLower (TrimSpace lang)" and ?audio = "of_kind ''audio'' streams" and ?subs = "of_kind ''subtitle'' streams"
  obtain P where subs: "filterByLanguage ?subs ?l = filter P ?subs" using filterByLanguage_filter by blast
  have audio: "length (case pickAudio ?audio ?l of None \<Rightarrow> [] | Some c \<Rightarrow> [c])
      + length (case pickAudio ?audio ?l of None \<Rightarrow> [] | Some c \<Rightarrow> filter (\<lambda>s. as_Index s \<noteq> as_Index c) ?audio) = length ?audio"
  proof (cases "pickAudio ?audio ?l")
    case None
    then have "?audio = []" by (simp only: pickAudio_None)
    with None show ?thesis by (simp only: option.case list.size add_0)
  next
    case (Some c)
    then show ?thesis using length_filter_other [OF distinct_of_kind [OF assms] pickAudio_in [OF Some]] by simp
  qed
  have "length (sl_Dropped (Select streams lang)) = length (drop 1 (of_kind ''video'' streams))
      + length (case pickAudio ?audio ?l of None \<Rightarrow> [] | Some c \<Rightarrow> filter (\<lambda>s. as_Index s \<noteq> as_Index c) ?audio)
      + length (filter (\<lambda>s. \<not> contains_stream (filter P ?subs) (as_Index s)) ?subs)"
    by (simp add: Select_def Let_def select_fold select_fold_video select_start_def empty_selection_def subs split: option.split)
  then have "length (sl_Kept (Select streams lang)) + length (sl_Dropped (Select streams lang)) =
      length (filter (\<lambda>s. as_Kind s \<in> {''video'', ''audio'', ''subtitle''}) streams)"
    unfolding Select_kept Select_maps of_kinds_length [symmetric]
    using audio length_not_kept [OF distinct_of_kind [OF assms, of "''subtitle''"], of P] by (simp add: chosen_streams_def subs)
  moreover have "set (sl_Maps (Select streams lang)) \<subseteq> map_arg ` set streams"
    unfolding Select_maps set_map by (intro image_mono chosen_from)
  moreover have "distinct (sl_Maps (Select streams lang))" unfolding Select_maps by (rule chosen_distinct [OF assms])
  ultimately show ?thesis using Select_kept by blast
qed

definition sample_streams :: "av_stream list" where
  "sample_streams =
     [\<lparr>as_Index = 0, as_Kind = ''video'', as_Codec = ''mpeg2video'', as_Channels = 0, as_Language = [], as_Title = [], as_Default = True\<rparr>,
      \<lparr>as_Index = 1, as_Kind = ''audio'', as_Codec = ''ac3'', as_Channels = 2, as_Language = ''eng'', as_Title = ''Director'', as_Default = True\<rparr>,
      \<lparr>as_Index = 2, as_Kind = ''audio'', as_Codec = ''dts'', as_Channels = 6, as_Language = ''eng'', as_Title = [], as_Default = False\<rparr>,
      \<lparr>as_Index = 3, as_Kind = ''subtitle'', as_Codec = ''dvd_subtitle'', as_Channels = 0, as_Language = ''fre'', as_Title = [], as_Default = False\<rparr>]"

theorem Select_accounts_for_every_stream_witness:
  "sl_Maps (Select sample_streams ''en'') = [''0:0'', ''0:2'', ''0:3''] \<and> sl_TranscodeAudio (Select sample_streams ''en'')
     \<and> length (sl_Kept (Select sample_streams ''en'')) + length (sl_Dropped (Select sample_streams ''en'')) = 4"
proof -
  have "distinct (map as_Index sample_streams)" by code_simp
  from Select_accounts_for_every_stream [OF this, of "''en''"]
  have "length (sl_Kept (Select sample_streams ''en'')) + length (sl_Dropped (Select sample_streams ''en'')) =
    length (filter (\<lambda>s. as_Kind s \<in> {''video'', ''audio'', ''subtitle''}) sample_streams)" by blast
  moreover have "length (filter (\<lambda>s. as_Kind s \<in> {''video'', ''audio'', ''subtitle''}) sample_streams) = 4" by code_simp
  moreover have "sl_Maps (Select sample_streams ''en'') = [''0:0'', ''0:2'', ''0:3'']" by code_simp
  moreover have "sl_TranscodeAudio (Select sample_streams ''en'')" by code_simp
  ultimately show ?thesis by simp
qed

section \<open>An encode never leaves a half-written file in the library's way\<close>

lemma path_comps_trim: "path_comps (trim_right_by (\<lambda>c. c = SLASH) p) = path_comps p"
proof (induction p rule: rev_induct)
  case (snoc c p)
  show ?case
  proof (cases "c = SLASH")
    case True
    then have "trim_right_by (\<lambda>c. c = SLASH) (p @ [c]) = trim_right_by (\<lambda>c. c = SLASH) p" by (simp add: trim_right_by_def)
    moreover have "path_comps (p @ [SLASH]) = path_comps p" using split_append_sep [of SLASH p "[]"] by (simp add: path_comps_def)
    ultimately show ?thesis using snoc True by simp
  qed (simp add: trim_right_by_def)
qed simp

lemma Base_last_comp:
  assumes "path_comps p \<noteq> []"
  shows "Base p = last (path_comps p)"
proof -
  let ?q = "trim_right_by (\<lambda>c. c = SLASH) p"
  have ne: "p \<noteq> []" using assms by (auto simp: path_comps_def)
  have q: "?q \<noteq> []" using assms path_comps_trim [of p] by (auto simp: path_comps_def)
  then have "last ?q \<noteq> SLASH" using last_trim_right_by [of "\<lambda>c. c = SLASH" p] by simp
  then obtain a c where ac: "?q = a @ [c]" "c \<noteq> SLASH" using q by (metis append_butlast_last_id)
  then obtain w ws where "split_on SLASH ?q = ws @ [w @ [c]]" using last_split_snoc [of "[c]" a] by auto
  then have "last (split_on SLASH ?q) = last (path_comps ?q)" by (simp add: path_comps_def)
  then show ?thesis using ne q by (simp add: Base_def Let_def path_comps_trim)
qed

lemma Base_no_slash: "path_comps p \<noteq> [] \<Longrightarrow> SLASH \<notin> set (Base p) \<and> Base p \<noteq> []"
  using last_in_set [of "path_comps p"] split_on_no_sep [of _ SLASH p] by (auto simp: Base_last_comp path_comps_def)

lemma Dir_rooted: "rooted_path p \<Longrightarrow> rooted_path (Dir p)"
proof -
  assume "rooted_path p"
  then obtain q where q: "p = SLASH # q" by (cases p) (auto simp: rooted_path_def)
  have "rev (dropWhile (\<lambda>c. c \<noteq> SLASH) (rev p)) = SLASH # rev (dropWhile (\<lambda>c. c \<noteq> SLASH) (rev q))"
    unfolding q by (cases "SLASH \<in> set q") (simp_all add: dropWhile_append)
  then show ?thesis by (simp add: Dir_def Clean_def rooted_path_def)
qed

lemma part_name_other: "rooted_path dst \<Longrightarrow> path_comps dst \<noteq> [] \<Longrightarrow> part_name dst \<noteq> dst"
proof
  assume r: "rooted_path dst" and ne: "path_comps dst \<noteq> []" and eq: "part_name dst = dst"
  let ?x = "''.'' @ Base dst @ ''.part''"
  have ns: "SLASH \<notin> set ?x" using Base_no_slash [OF ne] by simp
  have "list_all plain_comp (split_on SLASH ?x)" using split_on_sep_free [OF ns] by (simp add: plain_comp_def)
  then have "path_comps (part_name dst) = path_comps (Clean (Dir dst)) @ path_comps ?x"
    unfolding part_name_def using Join_rooted [OF Dir_rooted [OF r], of "[?x]"] by simp
  then have "last (path_comps dst) = ?x" using eq path_comps_single [OF ns] by simp
  then have "length (Base dst) = length ?x" using Base_last_comp [OF ne] by simp
  then show False by simp
qed

definition file_at :: "fs \<Rightarrow> string \<Rightarrow> nat option" where
  "file_at fs p = (case fs_nodes fs p of Some (FileNode k) \<Rightarrow> Some k | _ \<Rightarrow> None)"

lemma file_at_mkdir: "file_at (fst (MkdirAll d fs)) p = file_at fs p"
  using mkdirs_keeps [of fs p _ "path_prefixes d"] mkdirs_adds_dirs [of "path_prefixes d" fs p]
  by (cases "fs_nodes (fst (MkdirAll d fs)) p = fs_nodes fs p"; cases "fs_nodes fs p")
     (auto simp: file_at_def MkdirAll_def split: node.split)

lemma file_at_set_node [simp]: "q \<noteq> p \<Longrightarrow> file_at (set_node p n fs) q = file_at fs q"
  by (simp add: file_at_def set_node_def)

lemma set_node_same [simp]: "fs_nodes (set_node p n fs) p = n"
  by (simp add: set_node_def)

lemma set_node_other [simp]: "q \<noteq> p \<Longrightarrow> fs_nodes (set_node p n fs) q = fs_nodes fs q"
  by (simp add: set_node_def)

text \<open>The three shapes of a run: no directory, given up with the temporary file removed, or renamed into place.\<close>

lemma Transcode_run_cases:
  assumes "Transcode_run env e dst p fs = (states, res)"
  obtains (nodir) err where "states = [fst (MkdirAll (Dir dst) fs)]" "res = Inl err"
  | (gaveup) ns err where "states = (let fs1 = fst (MkdirAll (Dir dst) fs); running = map (\<lambda>n. set_node (part_name dst) n fs1) ns
      in fs1 # running @ [set_node (part_name dst) None (last (fs1 # running))])" "res = Inl err"
  | (renamed) out r where "states = (let fs1 = fst (MkdirAll (Dir dst) fs); running = map (\<lambda>n. set_node (part_name dst) n fs1) (te_writes env)
      in fs1 # running @ [set_node dst (Some out) (set_node (part_name dst) None (last (fs1 # running)))])" "res = Inr r"
      "fs_nodes (last (butlast states)) (part_name dst) = Some out" "te_wait env = None"
proof (cases "MkdirAll (Dir dst) fs")
  case (Pair fs1 ok)
  show thesis
  proof (cases "ok \<and> te_pipe env = None \<and> te_start env = None")
    case False
    then show thesis using assms Pair nodir gaveup [of "[]"]
      by (auto simp: Transcode_run_def Let_def split: option.splits bool.splits)
  next
    case True
    let ?fs2 = "last (fs1 # map (\<lambda>n. set_node (part_name dst) n fs1) (te_writes env))"
    show thesis
    proof (cases "te_wait env = None \<and> fs_nodes ?fs2 (part_name dst) \<noteq> None \<and> te_rename env = None")
      case True
      then obtain out where "fs_nodes ?fs2 (part_name dst) = Some out" by blast
      then show thesis using assms Pair \<open>ok \<and> _ \<and> _\<close> True renamed
        by (auto simp: Transcode_run_def Let_def butlast_append split: if_splits)
    next
      case False
      then show thesis using assms Pair True gaveup [of "te_writes env"]
        by (auto simp: Transcode_run_def Let_def split: option.splits)
    qed
  qed
qed

lemma last_running:
  "last (fs1 # map (\<lambda>n. set_node tmp n fs1) ns) = (if ns = [] then fs1 else set_node tmp (last ns) fs1)"
  by (simp add: last_map)

text \<open>C9. Wherever the machine stops during an encode, the destination holds the file it held before or, after ffmpeg
  exited successfully, the whole of what ffmpeg wrote; an encode that fails leaves it alone, one that succeeds puts
  ffmpeg's output there, and no other file on the disk is touched but the temporary one beside it, which is gone
  at the end.\<close>

theorem Transcode_is_atomic:
  assumes dst: "rooted_path dst" "path_comps dst \<noteq> []" and run: "Transcode_run env e dst p fs = (states, res)"
  shows "(\<forall>fs' \<in> set states. \<forall>q. q \<noteq> part_name dst \<longrightarrow> file_at fs' q = file_at fs q
            \<or> (q = dst \<and> fs' = last states \<and> (\<exists>r. res = Inr r)))
    \<and> (case res of
         Inl err \<Rightarrow> file_at (last states) dst = file_at fs dst
       | Inr r \<Rightarrow> te_wait env = None \<and> fs_nodes (last states) dst = fs_nodes (last (butlast states)) (part_name dst)
            \<and> fs_nodes (last states) dst \<noteq> None \<and> fs_nodes (last states) (part_name dst) = None)"
proof -
  define fs1 where "fs1 = fst (MkdirAll (Dir dst) fs)"
  have tmp: "part_name dst \<noteq> dst" by (rule part_name_other [OF dst])
  have f1: "file_at fs1 q = file_at fs q" for q by (simp add: fs1_def file_at_mkdir)
  from run show ?thesis
  proof (cases rule: Transcode_run_cases)
    case nodir
    then show ?thesis by (simp add: file_at_mkdir)
  next
    case (gaveup ns err)
    then show ?thesis unfolding Let_def fs1_def [symmetric] last_running using tmp by (auto simp: f1)
  next
    case (renamed out r)
    from renamed(1) have st: "states = fs1 # map (\<lambda>n. set_node (part_name dst) n fs1) (te_writes env)
        @ [set_node dst (Some out) (set_node (part_name dst) None (if te_writes env = [] then fs1 else set_node (part_name dst) (last (te_writes env)) fs1))]"
      unfolding Let_def fs1_def [symmetric] last_running by simp
    have "file_at fs' q = file_at fs q \<or> (q = dst \<and> fs' = last states)" if "fs' \<in> set states" "q \<noteq> part_name dst" for fs' q
      using that by (cases "q = dst") (auto simp: st f1)
    moreover have "fs_nodes (last states) dst = Some out" "fs_nodes (last states) (part_name dst) = None"
      using tmp by (simp_all add: st)
    ultimately show ?thesis using renamed(2-4) by (simp add: disj_imp)
  qed
qed

definition sample_disk :: fs where
  "sample_disk = \<lparr>fs_nodes = [''/out'' \<mapsto> DirNode, ''/out/a.mkv'' \<mapsto> FileNode 1], fs_writable = (\<lambda>p. True)\<rparr>"

definition sample_encode :: transcode_env where
  "sample_encode = \<lparr>te_pipe = None, te_start = None, te_writes = [Some (FileNode 7), Some (FileNode 8)], te_wait = None, te_ctx = None,
     te_stderr = [], te_rename = None, te_size = (\<lambda>n. 4096)\<rparr>"

theorem Transcode_is_atomic_witness:
  "\<exists>states r. Transcode_run sample_encode (New_encoder [] []) ''/out/a.mkv''
      \<lparr>pf_Name = [], pf_Quality = 20, pf_Preset = [], pf_MaxKbps = 0, pf_Interlaced = False, pf_MaxHeight = 0, pf_SourceHeight = 0,
       pf_Streams = [], pf_Language = [], pf_AudioKbps = 0\<rparr> sample_disk = (states, Inr r)
     \<and> map (\<lambda>fs. file_at fs ''/out/a.mkv'') states = [Some 1, Some 1, Some 1, Some 8] \<and> fs_nodes (last states) ''/out/.a.mkv.part'' = None"
proof -
  let ?p = "\<lparr>pf_Name = [], pf_Quality = 20, pf_Preset = [], pf_MaxKbps = 0, pf_Interlaced = False, pf_MaxHeight = 0, pf_SourceHeight = 0,
       pf_Streams = [], pf_Language = [], pf_AudioKbps = 0\<rparr>"
  let ?run = "Transcode_run sample_encode (New_encoder [] []) ''/out/a.mkv'' ?p sample_disk"
  have "(case ?run of (states, Inr r) \<Rightarrow> map (\<lambda>fs. file_at fs ''/out/a.mkv'') states = [Some 1, Some 1, Some 1, Some 8] | _ \<Rightarrow> False)"
    by code_simp
  then obtain states r where run: "?run = (states, Inr r)"
    and m: "map (\<lambda>fs. file_at fs ''/out/a.mkv'') states = [Some 1, Some 1, Some 1, Some 8]"
    by (cases ?run; cases "snd ?run") (auto split: sum.splits)
  have "rooted_path ''/out/a.mkv''" "path_comps ''/out/a.mkv'' \<noteq> []" by code_simp+
  from Transcode_is_atomic [OF this run] have "fs_nodes (last states) (part_name ''/out/a.mkv'') = None" by simp
  moreover have "part_name ''/out/a.mkv'' = ''/out/.a.mkv.part''" by code_simp
  ultimately show ?thesis using run m by (intro exI [of _ states] exI [of _ r]) simp
qed

end
