(* ===== verification/Daemon.thy ===== *)
theory Daemon
  imports Worker_Safety Makemkv Encoder
begin

text \<open>
  \<^verbatim>\<open>internal/daemon/daemon.go\<close> and \<^verbatim>\<open>check.go\<close>: the set of drives that are watched, the health checks with the
  refresh of MakeMKV's key, and the slot that lets one drive at a time work on a disc (\<^verbatim>\<open>takeDiscSlot\<close> and
  \<^verbatim>\<open>releaseDiscSlot\<close> of \<^verbatim>\<open>worker.go\<close>).

  What the tools and the file system answer to a check is an argument. The map of workers, which Go iterates over in
  an arbitrary order, is an association list in an arbitrary order. Tickers, wait groups and the servers' goroutines
  are not modelled.
\<close>

section \<open>Drives\<close>

record watched =
  wa_drv :: drive
  wa_label :: string
  wa_driveID :: int

record daemon =
  da_workers :: "(string \<times> watched) list"
  da_db :: store
  da_log :: "string list"

definition defaultLabel :: "drive \<Rightarrow> string" where
  "defaultLabel dr = (let m = TrimSpace (dv_Model dr) in if m \<noteq> [] then m else dv_StableID dr)"

definition Describe :: "drive \<Rightarrow> string" where
  "Describe dr =
     (let n = TrimSpace (dv_Vendor dr @ '' '' @ dv_Model dr); name = (if n = [] then dv_StableID dr else n)
      in name @ '' ('' @ dv_DevicePath dr @ '')'')"

text \<open>One drive of \<^verbatim>\<open>syncDrives\<close>. A drive that is already watched keeps its worker, moved or not.\<close>

definition sync_drive :: "config \<Rightarrow> int \<Rightarrow> drive \<Rightarrow> daemon \<Rightarrow> (store_error + unit) \<times> daemon" where
  "sync_drive cfg now dr d =
     (let c = DriveFor cfg (dv_StableID dr)
      in if (case c of None \<Rightarrow> False | Some c' \<Rightarrow> dc_Disabled c') then (Inr (), d)
         else case map_of (da_workers d) (dv_StableID dr) of
           Some w \<Rightarrow>
             (Inr (), if dv_DevicePath (wa_drv w) \<noteq> dv_DevicePath dr
                      then d\<lparr>da_log := da_log d @ [wa_label w @ '' moved from '' @ dv_DevicePath (wa_drv w) @ '' to '' @ dv_DevicePath dr]\<rparr>
                      else d)
         | None \<Rightarrow>
             (let l = (case c of None \<Rightarrow> [] | Some c' \<Rightarrow> dc_Label c'); label = (if l = [] then defaultLabel dr else l)
              in case UpsertDrive now (dv_StableID dr) (dv_DevicePath dr) label (TrimSpace (dv_Vendor dr @ '' '' @ dv_Model dr)) (da_db d) of
                   Inl e \<Rightarrow> (Inl e, d)
                 | Inr (driveID, db') \<Rightarrow>
                     (Inr (), d\<lparr>da_db := db', da_workers := da_workers d @ [(dv_StableID dr, \<lparr>wa_drv = dr, wa_label = label, wa_driveID = driveID\<rparr>)],
                                da_log := da_log d @ [''watching '' @ Describe dr @ '' as '' @ [CHR 0x22] @ label @ [CHR 0x22]]\<rparr>)))"

fun sync_drives :: "config \<Rightarrow> int \<Rightarrow> drive list \<Rightarrow> daemon \<Rightarrow> (store_error + unit) \<times> daemon" where
  "sync_drives cfg now [] d = (Inr (), d)"
| "sync_drives cfg now (dr # drs) d =
     (case sync_drive cfg now dr d of
        (Inl e, d') \<Rightarrow> (Inl e, d')
      | (Inr u, d') \<Rightarrow> sync_drives cfg now drs d')"

datatype sync_error = DiscoverFailed | SyncStore store_error

definition syncDrives :: "config \<Rightarrow> int \<Rightarrow> sysfs \<Rightarrow> daemon \<Rightarrow> (sync_error + unit) \<times> daemon" where
  "syncDrives cfg now sf d =
     (case Discover sf of
        None \<Rightarrow> (Inl DiscoverFailed, d)
      | Some found \<Rightarrow>
          (case sync_drives cfg now found d of
             (Inl e, d') \<Rightarrow> (Inl (SyncStore e), d')
           | (Inr u, d') \<Rightarrow> (Inr (), d')))"

definition snapshotWorkers :: "daemon \<Rightarrow> watched list" where
  "snapshotWorkers d = sort_key wa_label (map snd (da_workers d))"

definition EqualFold :: "string \<Rightarrow> string \<Rightarrow> bool" where
  "EqualFold s t \<longleftrightarrow> ToLower s = ToLower t"

definition workerFor :: "string \<Rightarrow> daemon \<Rightarrow> string + watched" where
  "workerFor name d =
     (if name = [] \<and> length (da_workers d) = 1 then Inr (snd (hd (da_workers d)))
      else case map_of (da_workers d) name of
        Some w \<Rightarrow> Inr w
      | None \<Rightarrow>
          (case List.find (\<lambda>(i, w). EqualFold (wa_label w) name) (da_workers d) of
             Some (i, w) \<Rightarrow> Inr w
           | None \<Rightarrow> Inl (''no drive named '' @ [CHR 0x22] @ name @ [CHR 0x22])))"

definition haveBluRayDrive :: "daemon \<Rightarrow> bool" where
  "haveBluRayDrive d \<longleftrightarrow> list_ex (\<lambda>w. ReadsBluRay (wa_drv w)) (snapshotWorkers d)"

definition prepareDirs :: "config \<Rightarrow> string list" where
  "prepareDirs cfg =
     filter (\<lambda>dir. dir \<noteq> [])
       ([RipsDir cfg, Dir (StatePath cfg), Dir (SocketPath cfg)]
        @ (if Transcode cfg then [WorkDir cfg, TranscodedDir cfg] else [])
        @ (if FileToLibrary cfg then [LibraryDir cfg] else []))"

section \<open>Health\<close>

record health =
  hl_Name :: string
  hl_OK :: bool
  hl_Fatal :: bool
  hl_Detail :: string

definition check_of :: "string \<Rightarrow> bool \<Rightarrow> bool \<Rightarrow> string \<Rightarrow> health" where
  "check_of name ok fatal detail = \<lparr>hl_Name = name, hl_OK = ok, hl_Fatal = fatal, hl_Detail = detail\<rparr>"

definition DASH :: string where
  "DASH = '' '' @ [CHR 0xE2, CHR 0x80, CHR 0x94] @ '' ''"

text \<open>What the checks meet. \<^verbatim>\<open>he_key\<close> and \<^verbatim>\<open>he_key_again\<close> are the answers about the key before and after a refresh,
  \<^verbatim>\<open>he_refresh\<close> what fetching and installing the published key came to: the error, or whether it changed anything and
  what it installed.\<close>

record health_env =
  he_ffmpeg :: "string option"
  he_device :: "string option"
  he_makemkv :: "string option"
  he_version :: "string + string"
  he_key :: "string + key_status"
  he_key_again :: "string + key_status"
  he_refresh :: "string + bool \<times> string"
  he_settings :: string
  he_rips :: "string option"
  he_free :: "string + int"
  he_now :: int

record key_state =
  kr_tried :: bool
  kr_last :: int

definition encoderHealth :: "config \<Rightarrow> encoder \<Rightarrow> health_env \<Rightarrow> health list" where
  "encoderHealth cfg e env =
     (if \<not> Transcode cfg then []
      else case he_ffmpeg env of
        Some err \<Rightarrow> [check_of ''ffmpeg'' False True (err @ DASH @ ''install ffmpeg, or set transcode = false'')]
      | None \<Rightarrow>
          check_of ''ffmpeg'' True False ''present'' #
          (if \<not> Hardware e
           then [check_of ''encoder'' True False (''software'' @ DASH @ ''no VAAPI device configured; transcoding will be several times slower'')]
           else case he_device env of
             Some err \<Rightarrow> [check_of ''encoder'' False False (err @ DASH @ ''transcoding will fall back to software'')]
           | None \<Rightarrow> [check_of ''encoder'' True False (''vaapi '' @ ec_Device e)]))"

definition refreshKey :: "config \<Rightarrow> health_env \<Rightarrow> key_state \<Rightarrow> health option \<times> key_state" where
  "refreshKey cfg env k =
     (if kr_tried k \<and> he_now env - kr_last k < KeyRefreshInterval cfg then (None, k)
      else let k' = \<lparr>kr_tried = True, kr_last = he_now env\<rparr>
           in if he_settings env = []
              then (Some (check_of ''key refresh'' False False ''cannot locate MakeMKV's settings.conf; set makemkv_settings_path in the config''), k')
              else case he_refresh env of
                Inl err \<Rightarrow> (Some (check_of ''key refresh'' False False err), k')
              | Inr (False, key) \<Rightarrow>
                  (Some (check_of ''key refresh'' False False ''the published key is already installed; MakeMKV has not issued a replacement yet''), k')
              | Inr (True, key) \<Rightarrow> (Some (check_of ''key refresh'' True False (''installed the published beta key '' @ key)), k'))"

definition key_bad :: "key_status \<Rightarrow> bool" where
  "key_bad k \<longleftrightarrow> ks_Expired k \<or> \<not> ks_Present k"

text \<open>The part of \<^verbatim>\<open>runHealthChecks\<close> about the key: the checks it adds, and whether it refreshed.\<close>

definition key_checks :: "config \<Rightarrow> health_env \<Rightarrow> key_state \<Rightarrow> health list \<times> key_state" where
  "key_checks cfg env k =
     (let (note, k', key) =
            (case he_key env of
               Inl e \<Rightarrow> ([], k, he_key env)
             | Inr ks \<Rightarrow>
                 if \<not> ks_VersionTooOld ks \<and> key_bad ks \<and> AutoRefreshKey cfg
                 then (case refreshKey cfg env k of
                         (None, k1) \<Rightarrow> ([], k1, he_key env)
                       | (Some h, k1) \<Rightarrow> ([h], k1, he_key_again env))
                 else ([], k, he_key env))
      in (note @ [case key of
                    Inl e \<Rightarrow> check_of ''makemkv key'' False False e
                  | Inr ks \<Rightarrow>
                      if key_bad ks \<or> ks_VersionTooOld ks
                      then check_of ''makemkv key'' False False (''no valid registration key. Nothing here needs one: ''
                             @ ''DVD scanning works without it, and Blu-ray uses libaacs rather than MakeMKV. '' @ ks_Detail ks)
                      else check_of ''makemkv key'' True False ''accepted''],
          k'))"

definition runHealthChecks :: "config \<Rightarrow> encoder \<Rightarrow> health_env \<Rightarrow> nat \<Rightarrow> key_state \<Rightarrow> health list \<times> key_state" where
  "runHealthChecks cfg e env n k =
     (let (mk, k') =
            (case he_makemkv env of
               Some err \<Rightarrow> ([check_of ''makemkv'' False True (err @ DASH @ ''install MakeMKV, or set makemkv_bin in the config'')], k)
             | None \<Rightarrow>
                 (case key_checks cfg env k of (kc, k1) \<Rightarrow>
                    ((case he_version env of
                        Inl err \<Rightarrow> check_of ''makemkv'' False True err
                      | Inr v \<Rightarrow> check_of ''makemkv'' True False (''v'' @ v)) # kc, k1)))
      in (encoderHealth cfg e env @ mk
          @ [case he_rips env of
               Some err \<Rightarrow> check_of ''rips directory'' False True err
             | None \<Rightarrow> check_of ''rips directory'' True False (RipsDir cfg)]
          @ [case he_free env of
               Inl err \<Rightarrow> check_of ''free space'' False False err
             | Inr free \<Rightarrow> check_of ''free space'' (free \<ge> 20 * 2 ^ 30) False (humanBytes (wrap64 free) @ '' free'')]
          @ [check_of ''drives'' (n > 0) False (nat_str n @ '' detected'')],
          k'))"

text \<open>\<^verbatim>\<open>Check\<close> fails exactly when a check that is not met is fatal.\<close>

definition Check_ok :: "health list \<Rightarrow> bool" where
  "Check_ok hs \<longleftrightarrow> \<not> list_ex (\<lambda>h. \<not> hl_OK h \<and> hl_Fatal h) hs"

section \<open>Every drive has one worker\<close>

definition enabled :: "config \<Rightarrow> drive \<Rightarrow> bool" where
  "enabled cfg dr \<longleftrightarrow> (case DriveFor cfg (dv_StableID dr) of None \<Rightarrow> True | Some c \<Rightarrow> \<not> dc_Disabled c)"

definition daemon_ok :: "daemon \<Rightarrow> bool" where
  "daemon_ok d \<longleftrightarrow> store_ok (da_db d) \<and> distinct (map fst (da_workers d))
     \<and> list_all (\<lambda>(i, w). dv_StableID (wa_drv w) = i \<and> has_drive (da_db d) (wa_driveID w)) (da_workers d)"

text \<open>The two ways a drive can go: nothing but the log changes, or a worker is added for it.\<close>

lemma sync_drive_cases:
  obtains (kept) ls where "sync_drive cfg now dr d = (Inr (), d\<lparr>da_log := da_log d @ ls\<rparr>)"
      "enabled cfg dr \<Longrightarrow> dv_StableID dr \<in> fst ` set (da_workers d)"
  | (added) w db' ls where "sync_drive cfg now dr d = (Inr (), d\<lparr>da_db := db', da_workers := da_workers d @ [(dv_StableID dr, w)], da_log := da_log d @ ls\<rparr>)"
      "dv_StableID dr \<notin> fst ` set (da_workers d)" "wa_drv w = dr" "enabled cfg dr"
      "\<exists>lab vm. UpsertDrive now (dv_StableID dr) (dv_DevicePath dr) lab vm (da_db d) = Inr (wa_driveID w, db')"
proof (cases "enabled cfg dr")
  case False
  then have "sync_drive cfg now dr d = (Inr (), d\<lparr>da_log := da_log d @ []\<rparr>)"
    by (simp add: sync_drive_def enabled_def Let_def split: option.splits)
  then show thesis using kept False by blast
next
  case en: True
  show thesis
  proof (cases "map_of (da_workers d) (dv_StableID dr)")
    case (Some w)
    then have "dv_StableID dr \<in> fst ` set (da_workers d)" by (metis map_of_eq_None_iff option.distinct(1))
    moreover have "sync_drive cfg now dr d = (Inr (), d\<lparr>da_log := da_log d @
        (if dv_DevicePath (wa_drv w) \<noteq> dv_DevicePath dr
         then [wa_label w @ '' moved from '' @ dv_DevicePath (wa_drv w) @ '' to '' @ dv_DevicePath dr] else [])\<rparr>)"
      using en Some by (simp add: sync_drive_def enabled_def Let_def split: option.splits)
    ultimately show thesis using kept by blast
  next
    case None
    define lab where "lab = (case DriveFor cfg (dv_StableID dr) of None \<Rightarrow> defaultLabel dr
      | Some c \<Rightarrow> if dc_Label c = [] then defaultLabel dr else dc_Label c)"
    define vm where "vm = TrimSpace (dv_Vendor dr @ '' '' @ dv_Model dr)"
    obtain i db' where up: "UpsertDrive now (dv_StableID dr) (dv_DevicePath dr) lab vm (da_db d) = Inr (i, db')"
      by (simp add: UpsertDrive_eq)
    let ?w = "\<lparr>wa_drv = dr, wa_label = lab, wa_driveID = i\<rparr>"
    have "\<exists>ls. sync_drive cfg now dr d = (Inr (), d\<lparr>da_db := db', da_workers := da_workers d @ [(dv_StableID dr, ?w)], da_log := da_log d @ ls\<rparr>)"
      using en None up by (auto simp: sync_drive_def enabled_def Let_def lab_def vm_def split: option.splits)
    moreover have "dv_StableID dr \<notin> fst ` set (da_workers d)" using None by (simp add: map_of_eq_None_iff)
    ultimately show thesis using added [where w = ?w] up en by fastforce
  qed
qed

lemma UpsertDrive_has:
  assumes "UpsertDrive now sid dev lab vm db = Inr (i, db')"
  shows "has_drive db' i" and "has_drive db j \<Longrightarrow> has_drive db' j"
proof -
  let ?rs = "upsert_where (\<lambda>r. dr_stable_id r = sid) (drive_refresh (dev, lab, vm, now))
    (drive_fresh (next_id dr_id (drives db)) sid (dev, lab, vm, now)) (drives db)"
  have up: "drives db' = ?rs" "\<exists>r \<in> set ?rs. dr_id r = i"
    using assms by (auto simp: UpsertDrive_def Let_def split: option.splits dest!: find_Some_D)
  then show "has_drive db' i" by (auto simp: has_drive_iff)
  have "map dr_id (update_where (\<lambda>r. dr_stable_id r = sid) (drive_refresh (dev, lab, vm, now)) (drives db)) = map dr_id (drives db)"
    by (simp add: update_where_def drive_refresh_def)
  from arg_cong [OF this, of set] have "dr_id ` set (drives db) \<subseteq> dr_id ` set ?rs" by (auto simp: upsert_where_def)
  then show "has_drive db j \<Longrightarrow> has_drive db' j" using up by (auto simp: has_drive_iff)
qed

lemma sync_drive_step:
  assumes "daemon_ok d" and "sync_drive cfg now dr d = (r, d')"
  shows "r = Inr () \<and> daemon_ok d' \<and> (enabled cfg dr \<longrightarrow> dv_StableID dr \<in> fst ` set (da_workers d'))
    \<and> (\<exists>ws. da_workers d' = da_workers d @ ws \<and> (\<forall>(i, w) \<in> set ws. enabled cfg dr \<and> wa_drv w = dr))"
  using sync_drive_cases [of cfg now dr d]
proof cases
  case (kept ls)
  then show ?thesis using assms by (auto simp: daemon_ok_def)
next
  case (added w db' ls)
  then obtain lab vm where up: "UpsertDrive now (dv_StableID dr) (dv_DevicePath dr) lab vm (da_db d) = Inr (wa_driveID w, db')" by blast
  have d': "d' = d\<lparr>da_db := db', da_workers := da_workers d @ [(dv_StableID dr, w)], da_log := da_log d @ ls\<rparr>" "r = Inr ()"
    using added(1) assms(2) by auto
  have "daemon_ok d'"
    using assms(1) added(2, 3) UpsertDrive_ok [OF _ up] UpsertDrive_has [OF up]
    unfolding d' daemon_ok_def by (auto simp: list_all_iff)
  then show ?thesis using added d' by auto
qed

lemma sync_drives_steps:
  assumes "daemon_ok d" and "sync_drives cfg now drs d = (r, d')"
  shows "r = Inr () \<and> daemon_ok d' \<and> (\<forall>dr \<in> set drs. enabled cfg dr \<longrightarrow> dv_StableID dr \<in> fst ` set (da_workers d'))
    \<and> (\<exists>ws. da_workers d' = da_workers d @ ws \<and> (\<forall>(i, w) \<in> set ws. enabled cfg (wa_drv w) \<and> wa_drv w \<in> set drs))"
  using assms
proof (induction drs arbitrary: d)
  case (Cons dr drs)
  obtain r1 d1 where s1: "sync_drive cfg now dr d = (r1, d1)" by (cases "sync_drive cfg now dr d")
  note one = sync_drive_step [OF Cons.prems(1) s1]
  then have "sync_drives cfg now drs d1 = (r, d')" using Cons.prems(2) s1 by simp
  note rest = Cons.IH [OF conjunct1 [OF conjunct2 [OF one]] this]
  obtain ws1 ws2 where "da_workers d1 = da_workers d @ ws1" "\<forall>(i, w) \<in> set ws1. enabled cfg dr \<and> wa_drv w = dr"
    "da_workers d' = da_workers d1 @ ws2" "\<forall>(i, w) \<in> set ws2. enabled cfg (wa_drv w) \<and> wa_drv w \<in> set drs"
    using one rest by blast
  then show ?case using one rest by (auto intro!: exI [of _ "ws1 @ ws2"])
qed auto

text \<open>A second look at the same drives adds nothing.\<close>

lemma sync_drive_again:
  assumes "enabled cfg dr \<Longrightarrow> dv_StableID dr \<in> fst ` set (da_workers d)" and "sync_drive cfg now dr d = (r, d')"
  shows "da_workers d' = da_workers d \<and> da_db d' = da_db d"
  using sync_drive_cases [of cfg now dr d]
proof cases
  case (kept ls)
  then show ?thesis using assms(2) by auto
next
  case (added w db' ls)
  then show ?thesis using assms(1) by blast
qed

lemma sync_drives_again:
  "(\<And>dr. dr \<in> set drs \<Longrightarrow> enabled cfg dr \<Longrightarrow> dv_StableID dr \<in> fst ` set (da_workers d)) \<Longrightarrow> daemon_ok d \<Longrightarrow>
     sync_drives cfg now drs d = (r, d') \<Longrightarrow> da_workers d' = da_workers d \<and> da_db d' = da_db d"
proof (induction drs arbitrary: d)
  case (Cons dr drs)
  obtain r1 d1 where s1: "sync_drive cfg now dr d = (r1, d1)" by (cases "sync_drive cfg now dr d")
  have same: "da_workers d1 = da_workers d \<and> da_db d1 = da_db d" by (rule sync_drive_again [OF _ s1]) (use Cons.prems(1) in simp)
  have ok: "r1 = Inr ()" "daemon_ok d1" using sync_drive_step [OF Cons.prems(2) s1] by simp_all
  have "da_workers d' = da_workers d1 \<and> da_db d' = da_db d1"
    by (rule Cons.IH) (use Cons.prems same ok s1 in simp_all)
  then show ?case using same by simp
qed simp

text \<open>A look for drives leaves every drive found that is not switched off with exactly one worker: no drive gets a
  second one, no worker goes away or changes, each belongs to a drive of the database, and only a failure to list
  the drives is reported. Looking again at the same drives changes nothing.\<close>

theorem syncDrives_one_worker_each:
  assumes ok: "daemon_ok d" and found: "Discover sf = Some drs" and run: "syncDrives cfg now sf d = (r, d')"
  shows "r = Inr () \<and> daemon_ok d'
    \<and> (\<forall>dr \<in> set drs. enabled cfg dr \<longrightarrow> length (filter (\<lambda>(i, w). i = dv_StableID dr) (da_workers d')) = 1)
    \<and> (\<exists>ws. da_workers d' = da_workers d @ ws \<and> (\<forall>(i, w) \<in> set ws. enabled cfg (wa_drv w) \<and> wa_drv w \<in> set drs))
    \<and> (let d'' = snd (syncDrives cfg later sf d') in da_workers d'' = da_workers d' \<and> da_db d'' = da_db d')"
proof -
  obtain r1 where s: "sync_drives cfg now drs d = (r1, d')" and r: "r1 = Inr () \<Longrightarrow> r = Inr ()"
    using run found by (auto simp: syncDrives_def split: prod.splits sum.splits)
  note all = sync_drives_steps [OF ok s]
  have once: "length (filter (\<lambda>(i, w). i = k) ws) = 1" if "distinct (map fst ws)" "k \<in> fst ` set ws" for k and ws :: "(string \<times> watched) list"
    using that by (induction ws) (auto simp: filter_empty_conv image_iff)
  have "\<forall>dr \<in> set drs. enabled cfg dr \<longrightarrow> length (filter (\<lambda>(i, w). i = dv_StableID dr) (da_workers d')) = 1"
    using all once by (auto simp: daemon_ok_def)
  moreover have "let d'' = snd (syncDrives cfg later sf d') in da_workers d'' = da_workers d' \<and> da_db d'' = da_db d'"
  proof -
    obtain r2 d2 where s2: "sync_drives cfg later drs d' = (r2, d2)" by (cases "sync_drives cfg later drs d'")
    have "da_workers d2 = da_workers d' \<and> da_db d2 = da_db d'"
      by (rule sync_drives_again [OF _ _ s2]) (use all in auto)
    then show ?thesis using s2 found by (auto simp: syncDrives_def Let_def split: sum.splits)
  qed
  ultimately show ?thesis using all r by blast
qed

definition sample_sysfs :: sysfs where
  "sample_sysfs = \<lparr>sf_block = Some [''sr0'', ''sda'', ''sr1''], sf_by_id = Some [(''usb-ASUS_1'', Some ''/dev/sr0'')], sf_by_path = Some [],
     sf_identity = (\<lambda>dev. if dev = ''sr0'' then (''ASUS'', ''SDRW'') else (''LG'', ''BD-RE''))\<rparr>"

definition sample_daemon :: daemon where
  "sample_daemon = \<lparr>da_workers = [], da_db = empty_store, da_log = []\<rparr>"

theorem syncDrives_one_worker_each_witness:
  "\<exists>drs d'. Discover sample_sysfs = Some drs \<and> length drs = 2 \<and> syncDrives Default 100 sample_sysfs sample_daemon = (Inr (), d')
     \<and> length (da_workers d') = 2 \<and> daemon_ok d'"
proof -
  have "(case Discover sample_sysfs of None \<Rightarrow> False | Some drs \<Rightarrow> length drs = 2)" by code_simp
  then obtain drs where drs: "Discover sample_sysfs = Some drs" "length drs = 2" by (auto split: option.splits)
  have ok: "daemon_ok sample_daemon" by (simp add: daemon_ok_def sample_daemon_def store_ok_empty)
  obtain r d' where run: "syncDrives Default 100 sample_sysfs sample_daemon = (r, d')" by (cases "syncDrives Default 100 sample_sysfs sample_daemon")
  have "length (da_workers (snd (syncDrives Default 100 sample_sysfs sample_daemon))) = 2" by code_simp
  with syncDrives_one_worker_each [OF ok drs(1) run] drs run show ?thesis by auto
qed

section \<open>The key is not fetched too often\<close>

text \<open>The times at which a sequence of health checks fetched the published key.\<close>

fun refresh_times :: "config \<Rightarrow> health_env list \<Rightarrow> key_state \<Rightarrow> int list" where
  "refresh_times cfg [] k = []"
| "refresh_times cfg (env # envs) k =
     (case refreshKey cfg env k of
        (None, k') \<Rightarrow> refresh_times cfg envs k'
      | (Some h, k') \<Rightarrow> he_now env # refresh_times cfg envs k')"

lemma refreshKey_cases:
  obtains "refreshKey cfg env k = (None, k)" "kr_tried k" "he_now env - kr_last k < KeyRefreshInterval cfg"
  | h where "refreshKey cfg env k = (Some h, \<lparr>kr_tried = True, kr_last = he_now env\<rparr>)"
      "\<not> kr_tried k \<or> KeyRefreshInterval cfg \<le> he_now env - kr_last k"
proof (cases "kr_tried k \<and> he_now env - kr_last k < KeyRefreshInterval cfg")
  case True
  then show thesis using that(1) by (simp add: refreshKey_def)
next
  case False
  then have "\<exists>h. refreshKey cfg env k = (Some h, \<lparr>kr_tried = True, kr_last = he_now env\<rparr>)"
    by (auto simp: refreshKey_def Let_def split: sum.split prod.split bool.split)
  then show thesis using that(2) False by (metis not_less)
qed

lemma refresh_times_after:
  assumes "0 \<le> KeyRefreshInterval cfg" and "kr_tried k" and "t \<in> set (refresh_times cfg envs k)"
  shows "KeyRefreshInterval cfg \<le> t - kr_last k"
  using assms
proof (induction envs arbitrary: k)
  case (Cons env envs)
  show ?case
  proof (rule refreshKey_cases [of cfg env k], goal_cases)
    case 1
    then show ?case using Cons by simp
  next
    case (2 h)
    then show ?case using Cons.IH [of "\<lparr>kr_tried = True, kr_last = he_now env\<rparr>"] Cons.prems by fastforce
  qed
qed simp

lemma refresh_times_spaced:
  assumes "0 \<le> KeyRefreshInterval cfg"
  shows "sorted_wrt (\<lambda>t u. KeyRefreshInterval cfg \<le> u - t) (refresh_times cfg envs k)"
proof (induction envs arbitrary: k)
  case (Cons env envs)
  show ?case
  proof (rule refreshKey_cases [of cfg env k], goal_cases)
    case 1
    then show ?case using Cons by simp
  next
    case (2 h)
    then show ?case using Cons refresh_times_after [OF assms, of "\<lparr>kr_tried = True, kr_last = he_now env\<rparr>"] by simp
  qed
qed simp

text \<open>However often the health of the daemon is checked, the published key is fetched only when MakeMKV says that the
  one installed is bad and a newer MakeMKV is not what it wants, and any two fetches are at least the configured
  interval apart.\<close>

theorem key_refresh_is_rare:
  assumes "Validate cfg = None" and "AutoRefreshKey cfg"
  shows "sorted_wrt (\<lambda>t u. KeyRefreshInterval cfg \<le> u - t \<and> 0 < u - t) (refresh_times cfg envs k)
    \<and> (snd (key_checks cfg env k) = k \<or> (\<exists>ks. he_key env = Inr ks \<and> key_bad ks \<and> \<not> ks_VersionTooOld ks
         \<and> snd (key_checks cfg env k) = snd (refreshKey cfg env k)))"
proof
  have pos: "0 < KeyRefreshInterval cfg" using assms by (auto simp: Validate_def split: option.splits if_splits)
  from refresh_times_spaced [of cfg envs k] pos
  show "sorted_wrt (\<lambda>t u. KeyRefreshInterval cfg \<le> u - t \<and> 0 < u - t) (refresh_times cfg envs k)"
    by (auto elim!: sorted_wrt_mono_rel [rotated])
  show "snd (key_checks cfg env k) = k \<or> (\<exists>ks. he_key env = Inr ks \<and> key_bad ks \<and> \<not> ks_VersionTooOld ks
      \<and> snd (key_checks cfg env k) = snd (refreshKey cfg env k))"
    by (auto simp: key_checks_def Let_def split: sum.split prod.split option.split)
qed

definition sample_health :: "int \<Rightarrow> health_env" where
  "sample_health now = \<lparr>he_ffmpeg = None, he_device = None, he_makemkv = None, he_version = Inr ''1.18.1'',
     he_key = Inr \<lparr>ks_Present = True, ks_Expired = True, ks_Detail = [], ks_VersionTooOld = False\<rparr>,
     he_key_again = Inr \<lparr>ks_Present = True, ks_Expired = False, ks_Detail = [], ks_VersionTooOld = False\<rparr>,
     he_refresh = Inr (True, ''T-abc''), he_settings = ''/s'', he_rips = None, he_free = Inr 0, he_now = now\<rparr>"

theorem key_refresh_is_rare_witness:
  "refresh_times Default [sample_health 0, sample_health 900000000000, sample_health 21600000000000] \<lparr>kr_tried = False, kr_last = 0\<rparr> = [0, 21600000000000]
     \<and> sorted_wrt (\<lambda>t u. KeyRefreshInterval Default \<le> u - t \<and> 0 < u - t) [0, 21600000000000]"
proof -
  have t: "refresh_times Default [sample_health 0, sample_health 900000000000, sample_health 21600000000000] \<lparr>kr_tried = False, kr_last = 0\<rparr> = [0, 21600000000000]"
    by code_simp
  have "Validate Default = None" "AutoRefreshKey Default" by code_simp+
  from key_refresh_is_rare [OF this, of "[sample_health 0, sample_health 900000000000, sample_health 21600000000000]" "\<lparr>kr_tried = False, kr_last = 0\<rparr>"]
  show ?thesis unfolding t by simp
qed

section \<open>One disc at a time\<close>

text \<open>Where a drive's worker is: watching, waiting for the slot with a disc in, or working on it.\<close>

datatype phase = Watching | Queued | Working

text \<open>The slot is a channel that holds one token at most; its length is kept. Workers share the database.\<close>

record fleet =
  fl_tokens :: nat
  fl_phase :: "string \<Rightarrow> phase"
  fl_db :: store

definition slot_capacity :: nat where "slot_capacity = 1"

definition send_token :: "nat \<Rightarrow> nat option" where
  "send_token n = (if n < slot_capacity then Some (n + 1) else None)"

definition receive_token :: "nat \<Rightarrow> nat" where
  "receive_token n = n - 1"

text \<open>What the workers of all drives and a client who has a disc forgotten do, in any order. A worker holds the slot
  for the whole of \<^const>\<open>handleDisc\<close>; the step that ends it is the step that shows its effect on the database.\<close>

inductive fleet_step :: "(string \<Rightarrow> string) \<Rightarrow> config \<Rightarrow> fleet \<Rightarrow> fleet \<Rightarrow> bool" for sha cfg where
  take_now: "fl_phase f d = Watching \<Longrightarrow> send_token (fl_tokens f) = Some n \<Longrightarrow>
     fleet_step sha cfg f (f\<lparr>fl_tokens := n, fl_phase := (fl_phase f)(d := Working)\<rparr>)"
| queue: "fl_phase f d = Watching \<Longrightarrow> send_token (fl_tokens f) = None \<Longrightarrow>
     fleet_step sha cfg f (f\<lparr>fl_phase := (fl_phase f)(d := Queued)\<rparr>)"
| take_later: "fl_phase f d = Queued \<Longrightarrow> send_token (fl_tokens f) = Some n \<Longrightarrow>
     fleet_step sha cfg f (f\<lparr>fl_tokens := n, fl_phase := (fl_phase f)(d := Working)\<rparr>)"
| give_up: "fl_phase f d = Queued \<Longrightarrow>
     fleet_step sha cfg f (f\<lparr>fl_phase := (fl_phase f)(d := Watching)\<rparr>)"
| finish: "fl_phase f d = Working \<Longrightarrow> wk_db w = fl_db f \<Longrightarrow> ev_slot env \<noteq> SlotStopped \<Longrightarrow>
     fleet_step sha cfg f (f\<lparr>fl_tokens := receive_token (fl_tokens f), fl_phase := (fl_phase f)(d := Watching),
       fl_db := wk_db (handleDisc sha cfg env now today w)\<rparr>)"
| forget: "ForgetDisc fp (fl_db f) = Inr db' \<Longrightarrow> fleet_step sha cfg f (f\<lparr>fl_db := db'\<rparr>)"

inductive reachable :: "(string \<Rightarrow> string) \<Rightarrow> config \<Rightarrow> fleet \<Rightarrow> bool" for sha cfg where
  start: "reachable sha cfg \<lparr>fl_tokens = 0, fl_phase = (\<lambda>d. Watching), fl_db = empty_store\<rparr>"
| step: "reachable sha cfg f \<Longrightarrow> fleet_step sha cfg f g \<Longrightarrow> reachable sha cfg g"
| drive_added: "reachable sha cfg f \<Longrightarrow> UpsertDrive now sid dev lab vm (fl_db f) = Inr (i, db') \<Longrightarrow>
     reachable sha cfg (f\<lparr>fl_db := db'\<rparr>)"

definition working :: "fleet \<Rightarrow> string set" where
  "working f = {d. fl_phase f d = Working}"

definition slot_ok :: "fleet \<Rightarrow> bool" where
  "slot_ok f \<longleftrightarrow> working f = {} \<and> fl_tokens f = 0 \<or> (\<exists>d. working f = {d} \<and> fl_tokens f = 1)"

lemma working_upd:
  "working (f\<lparr>fl_phase := (fl_phase f)(d := p)\<rparr>) = (if p = Working then insert d (working f) else working f - {d})"
  "working (f\<lparr>fl_tokens := n\<rparr>) = working f" "working (f\<lparr>fl_db := db\<rparr>) = working f"
  by (auto simp: working_def)

definition attempts_ok :: "config \<Rightarrow> store \<Rightarrow> bool" where
  "attempts_ok cfg db \<longleftrightarrow> store_ok db \<and> (\<forall>k. AttemptsForDisc k db \<le> nat (MaxRipAttempts cfg))"

lemma send_token_Some: "send_token n = Some m \<longleftrightarrow> n = 0 \<and> m = 1"
  by (auto simp: send_token_def slot_capacity_def)

lemma slot_held:
  assumes "slot_ok f" and "d \<in> working f"
  shows "working f = {d}" and "fl_tokens f = 1"
  using assms unfolding slot_ok_def by (metis empty_iff singletonD)+

lemma slot_free: "slot_ok f \<Longrightarrow> working f = {} \<longleftrightarrow> fl_tokens f = 0"
  unfolding slot_ok_def by (metis insert_not_empty zero_neq_one)

lemma slot_taken:
  assumes "slot_ok f" and "send_token (fl_tokens f) = Some n"
  shows "slot_ok (f\<lparr>fl_tokens := n, fl_phase := (fl_phase f)(d := Working)\<rparr>)"
proof -
  have "working f = {}" "n = 1" using assms by (auto simp: slot_ok_def send_token_Some)
  moreover have "working (f\<lparr>fl_tokens := n, fl_phase := (fl_phase f)(d := Working)\<rparr>) = insert d (working f)"
    by (auto simp: working_def)
  ultimately show ?thesis by (simp add: slot_ok_def)
qed

lemma slot_step: "fleet_step sha cfg f g \<Longrightarrow> slot_ok f \<Longrightarrow> slot_ok g"
proof (induction rule: fleet_step.induct)
  case (finish f d w env now today)
  then have "d \<in> working f" by (simp add: working_def)
  from slot_held [OF finish.prems this] have "working f = {d}" "fl_tokens f = 1" .
  moreover have "working (f\<lparr>fl_tokens := n, fl_phase := (fl_phase f)(d := Watching), fl_db := db\<rparr>) = working f - {d}" for n db
    by (auto simp: working_def)
  ultimately show ?case by (simp add: slot_ok_def receive_token_def)
next
  case (take_now f d n)
  then show ?case using slot_taken by blast
next
  case (take_later f d n)
  then show ?case using slot_taken by blast
next
  case (queue f d)
  then have "d \<notin> working f" by (simp add: working_def)
  then show ?case using queue by (simp add: slot_ok_def working_upd)
next
  case (give_up f d)
  then have "d \<notin> working f" by (simp add: working_def)
  then show ?case using give_up by (simp add: slot_ok_def working_upd)
qed (simp add: slot_ok_def working_upd)

lemma attempts_step: "fleet_step sha cfg f g \<Longrightarrow> attempts_ok cfg (fl_db f) \<Longrightarrow> attempts_ok cfg (fl_db g)"
proof (induction rule: fleet_step.induct)
  case (finish f d w env now today)
  then show ?case
    using handleDisc_within [of cfg w sha env now today] by (auto simp: attempts_ok_def within_def max.absorb2)
next
  case (forget fp f db')
  then obtain r where "List.find (\<lambda>d. d_fingerprint d = fp) (discs (fl_db f)) = Some r"
    by (auto simp: ForgetDisc_def split: option.splits)
  then show ?case
    using forget ForgetDisc_ok ForgetDisc_attempts by (auto simp: attempts_ok_def)
qed simp_all

lemma UpsertDrive_attempts: "UpsertDrive now sid dev lab vm db = Inr (i, db') \<Longrightarrow> AttemptsForDisc k db' = AttemptsForDisc k db"
  by (auto simp: UpsertDrive_eq AttemptsForDisc_def counts_as_attempt_def [abs_def] forgotten_after_def)



end
