(* ===== verification/Transcode_Runner.thy ===== *)
theory Transcode_Runner
  imports Transcode_Store Library Config
begin

text \<open>
  The transcode runner and the filing of finished transcodes: \<^verbatim>\<open>internal/daemon/transcode.go\<close> and
  \<^verbatim>\<open>internal/daemon/library.go\<close>. The state is the store, the file system, the status snapshot the socket
  serves, the wake-up flag of the runner and the log.

  ffmpeg is outside the model. What one encode met is an \<^verbatim>\<open>encode_env\<close>: what the probe said, how the
  encode ended, what it left on disk, and whether the job or the whole daemon was being stopped by
  then. Log lines are kept as values; their wording is left out, as are the snapshot's progress
  fraction and speed.
\<close>

section \<open>State\<close>

record transcode_snapshot =
  sn_Running :: bool
  sn_Disc :: string
  sn_TitleIndex :: int
  sn_Hardware :: bool
  sn_Pending :: nat
  sn_Failed :: nat

datatype log_line =
    LogReclaimed nat
  | LogProbeFailed string
  | LogInterlaced string int
  | LogEncodeCancelled string int
  | LogEncodeFailed string int string
  | LogEncoded string int int bool
  | LogDiscUnread int
  | LogFileFailed int string
  | LogFiled string int string bool
  | LogQueueFailed int
  | LogQueued nat
  | LogRipMissing int string
  | LogRequeued nat string

record runner =
  rn_db :: store
  rn_fs :: fs
  rn_snap :: transcode_snapshot
  rn_wake :: bool
  rn_log :: "log_line list"

datatype encode_result = Encoded string int bool | EncodeError string

record encode_env =
  en_probe_ok :: bool
  en_interlaced :: bool
  en_result :: encode_result
  en_disk :: "fs \<Rightarrow> fs"
  en_cancelled :: bool
  en_shutdown :: bool

definition maxTranscodeAttempts :: int where
  "maxTranscodeAttempts = 2"

definition logEvent :: "log_line \<Rightarrow> runner \<Rightarrow> runner" where
  "logEvent l s = s\<lparr>rn_log := rn_log s @ [l]\<rparr>"

definition clearCurrent :: "runner \<Rightarrow> runner" where
  "clearCurrent s = s\<lparr>rn_snap := (rn_snap s)\<lparr>sn_Disc := [], sn_TitleIndex := 0, sn_Hardware := False, sn_Running := False\<rparr>\<rparr>"

definition refreshTranscodeCounts :: "runner \<Rightarrow> runner" where
  "refreshTranscodeCounts s =
     (case TranscodeQueue maxTranscodeAttempts (rn_db s) of (p, f) \<Rightarrow>
        s\<lparr>rn_snap := (rn_snap s)\<lparr>sn_Pending := p, sn_Failed := f\<rparr>\<rparr>)"

definition nudgeTranscoder :: "runner \<Rightarrow> runner" where
  "nudgeTranscoder s = s\<lparr>rn_wake := True\<rparr>"

definition displayName :: "string \<Rightarrow> string \<Rightarrow> string" where
  "displayName label fingerprint =
     (let l = TrimSpace label in if l \<noteq> [] then l else Short fingerprint)"

section \<open>Filing\<close>

definition placement_for :: "config \<Rightarrow> disc \<Rightarrow> int \<Rightarrow> placement option" where
  "placement_for cfg rec titleIndex =
     List.find (\<lambda>p. p_TitleIndex p = titleIndex) (Plan (LibraryDir cfg) rec (Classify (di_Titles rec)))"

definition fileTitle :: "config \<Rightarrow> int \<Rightarrow> int \<Rightarrow> int \<Rightarrow> string \<Rightarrow> runner \<Rightarrow> runner" where
  "fileTitle cfg now discID titleIndex source s =
     (if \<not> FileToLibrary cfg then s
      else case DiscWithTitles discID (rn_db s) of
        Inl e \<Rightarrow> logEvent (LogDiscUnread discID) s
      | Inr rec \<Rightarrow>
          (case placement_for cfg rec titleIndex of
             None \<Rightarrow> s
           | Some placement \<Rightarrow>
               (case Link source (p_Path placement) (rn_fs s) of (fs', res) \<Rightarrow>
                  (let s1 = s\<lparr>rn_fs := fs'\<rparr>;
                       s2 = s1\<lparr>rn_db := or_rollback (rn_db s1)
                                 (RecordLibraryLink now discID titleIndex (p_Path placement) (rn_db s1))\<rparr>
                   in case res of
                        LinkExists \<Rightarrow> s2
                      | LinkError \<Rightarrow> logEvent (LogFileFailed titleIndex
                          (displayName (di_VolumeLabel rec) (di_Fingerprint rec))) s1
                      | LinkDone \<Rightarrow> logEvent (LogFiled (displayName (di_VolumeLabel rec) (di_Fingerprint rec))
                          titleIndex (p_Path placement) (p_Feature placement)) s2))))"

text \<open>\<^verbatim>\<open>fileUnfiled\<close>; \<^verbatim>\<open>stop\<close> is how many titles it gets through before the daemon is stopped.\<close>

definition file_one :: "config \<Rightarrow> int \<Rightarrow> unfiled \<Rightarrow> runner \<Rightarrow> runner" where
  "file_one cfg now u s =
     (if fs_nodes (rn_fs s) (u_OutputPath u) = None then s
      else fileTitle cfg now (u_DiscID u) (u_TitleIndex u) (u_OutputPath u) s)"

definition fileUnfiled :: "config \<Rightarrow> int \<Rightarrow> nat \<Rightarrow> runner \<Rightarrow> runner" where
  "fileUnfiled cfg now stop s =
     (if \<not> FileToLibrary cfg then s
      else fold (file_one cfg now) (take stop (UnfiledTranscodes (rn_db s))) s)"

section \<open>Encoding\<close>

definition transcodeOutputPath :: "config \<Rightarrow> transcode_job \<Rightarrow> string" where
  "transcodeOutputPath cfg job =
     Join [TranscodedDir cfg, Base (Dir (tj_SourcePath job)), TitleFileName (tj_TitleIndex job)]"

definition transcodeOne :: "config \<Rightarrow> bool \<Rightarrow> int \<Rightarrow> encode_env \<Rightarrow> transcode_job \<Rightarrow> runner \<Rightarrow> runner" where
  "transcodeOne cfg hardware now env job s =
     (let label = (if tj_VolumeLabel job = [] then ''disc '' @ int_str (tj_DiscID job) else tj_VolumeLabel job);
          idx = tj_TitleIndex job;
          s1 = s\<lparr>rn_snap := (rn_snap s)\<lparr>sn_Running := True, sn_Disc := label, sn_TitleIndex := idx,
                               sn_Hardware := hardware\<rparr>\<rparr>;
          s2 = (if en_probe_ok env then s1 else logEvent (LogProbeFailed (tj_SourcePath job)) s1);
          s3 = (if en_probe_ok env \<and> en_interlaced env then logEvent (LogInterlaced label idx) s2 else s2);
          s4 = s3\<lparr>rn_fs := en_disk env (rn_fs s3)\<rparr>;
          s5 = (if en_cancelled env then
                  (let s' = s4\<lparr>rn_db := RequeueTranscode (tj_ID job) (rn_db s4)\<rparr>
                   in if en_shutdown env then s' else logEvent (LogEncodeCancelled label idx) s')
                else case en_result env of
                  EncodeError e \<Rightarrow>
                    logEvent (LogEncodeFailed label idx e) (s4\<lparr>rn_db := FailTranscode now (tj_ID job) e (rn_db s4)\<rparr>)
                | Encoded path sizeBytes hw \<Rightarrow>
                    logEvent (LogEncoded label idx sizeBytes hw)
                      (fileTitle cfg now (tj_DiscID job) idx path
                        (s4\<lparr>rn_db := FinishTranscode now (tj_ID job) path sizeBytes hw (rn_db s4)\<rparr>)))
      in clearCurrent s5)"

text \<open>The inner loop of \<^verbatim>\<open>runTranscodes\<close>, the \<^verbatim>\<open>k\<close>-th encode meeting \<^verbatim>\<open>envs k\<close>; the flag says that the
  daemon was stopped. It may run for as long as someone cancels encodes, hence the fuel.\<close>

definition claim_job :: "int \<Rightarrow> runner \<Rightarrow> (transcode_job \<times> runner) option" where
  "claim_job now s =
     map_option (\<lambda>(job, db'). (job, s\<lparr>rn_db := db'\<rparr>)) (NextTranscode now maxTranscodeAttempts (rn_db s))"

fun drain_queue :: "config \<Rightarrow> bool \<Rightarrow> int \<Rightarrow> (nat \<Rightarrow> encode_env) \<Rightarrow> nat \<Rightarrow> nat \<Rightarrow> runner \<Rightarrow> (runner \<times> bool) option" where
  "drain_queue cfg hardware now envs k 0 s = None"
| "drain_queue cfg hardware now envs k (Suc fuel) s =
     (case claim_job now s of
        None \<Rightarrow> Some (s, False)
      | Some (job, s1) \<Rightarrow>
          (let s2 = transcodeOne cfg hardware now (envs k) job s1
           in if en_shutdown (envs k) then Some (s2, True)
              else drain_queue cfg hardware now envs (Suc k) fuel s2))"

text \<open>\<^verbatim>\<open>runTranscodes\<close> up to its first wait: reclaim, drain, count, file.\<close>

definition runTranscodes :: "config \<Rightarrow> bool \<Rightarrow> int \<Rightarrow> (nat \<Rightarrow> encode_env) \<Rightarrow> nat \<Rightarrow> nat \<Rightarrow> runner \<Rightarrow> runner option" where
  "runTranscodes cfg hardware now envs fuel stop s =
     (if \<not> Transcode cfg then Some s
      else let (n, db1) = ReclaimRunningTranscodes (rn_db s);
               s1 = s\<lparr>rn_db := db1\<rparr>;
               s2 = (if n > 0 then logEvent (LogReclaimed n) s1 else s1)
           in case drain_queue cfg hardware now envs 0 fuel s2 of
                None \<Rightarrow> None
              | Some (s3, True) \<Rightarrow> Some s3
              | Some (s3, False) \<Rightarrow> Some (fileUnfiled cfg now stop (refreshTranscodeCounts s3)))"

section \<open>Queueing\<close>

fun queue_titles :: "int \<Rightarrow> int \<Rightarrow> string \<Rightarrow> title list \<Rightarrow> nat \<Rightarrow> runner \<Rightarrow> nat \<times> runner" where
  "queue_titles now discID ripDir [] queued s = (queued, s)"
| "queue_titles now discID ripDir (t # ts) queued s =
     (case QueueTranscode now discID (ti_Index t) ''default'' (Join [ripDir, TitleFileName (ti_Index t)]) (rn_db s) of
        Inl e \<Rightarrow> queue_titles now discID ripDir ts queued (logEvent (LogQueueFailed (ti_Index t)) s)
      | Inr db' \<Rightarrow> queue_titles now discID ripDir ts (Suc queued) (s\<lparr>rn_db := db'\<rparr>))"

definition queueTranscodes :: "config \<Rightarrow> int \<Rightarrow> int \<Rightarrow> string \<Rightarrow> title list \<Rightarrow> runner \<Rightarrow> runner" where
  "queueTranscodes cfg now discID ripDir ts s =
     (if \<not> Transcode cfg then s
      else case queue_titles now discID ripDir ts 0 s of (queued, s1) \<Rightarrow>
        if queued = 0 then s1
        else nudgeTranscoder (refreshTranscodeCounts (logEvent (LogQueued queued) s1)))"

datatype requeue_error = TranscodingOff | UnknownDisc string | NotRipped string | NoTitles string | RipGone string
  | RequeueStore store_error

fun requeue_titles :: "int \<Rightarrow> int \<Rightarrow> string \<Rightarrow> string \<Rightarrow> int list \<Rightarrow> nat \<Rightarrow> runner \<Rightarrow> (store_error option \<times> nat) \<times> runner" where
  "requeue_titles now discID ripDir name [] queued s = ((None, queued), s)"
| "requeue_titles now discID ripDir name (idx # is) queued s =
     (let src = Join [ripDir, TitleFileName idx]
      in if fs_nodes (rn_fs s) src = None
         then requeue_titles now discID ripDir name is queued (logEvent (LogRipMissing idx name) s)
         else case QueueTranscode now discID idx ''default'' src (rn_db s) of
                Inl e \<Rightarrow> ((Some e, queued), s)
              | Inr db' \<Rightarrow> requeue_titles now discID ripDir name is (Suc queued) (s\<lparr>rn_db := db'\<rparr>))"

definition requeueDisc :: "config \<Rightarrow> int \<Rightarrow> string \<Rightarrow> runner \<Rightarrow> (requeue_error + nat \<times> string) \<times> runner" where
  "requeueDisc cfg now fingerprint s =
     (if \<not> Transcode cfg then (Inl TranscodingOff, s)
      else case FindDisc fingerprint (rn_db s) of
        None \<Rightarrow> (Inl (UnknownDisc fingerprint), s)
      | Some rec \<Rightarrow>
          (let name = displayName (r_VolumeLabel rec) fingerprint
           in if \<not> Ripped rec then (Inl (NotRipped name), s)
              else if RippedTitles (r_ID rec) (rn_db s) = [] then (Inl (NoTitles name), s)
              else case requeue_titles now (r_ID rec) (r_RipDir rec) name (RippedTitles (r_ID rec) (rn_db s)) 0 s of
                     ((Some e, queued), s1) \<Rightarrow> (Inl (RequeueStore e), s1)
                   | ((None, queued), s1) \<Rightarrow>
                       if queued = 0 then (Inl (RipGone name), s1)
                       else (Inr (queued, name),
                             nudgeTranscoder (refreshTranscodeCounts (logEvent (LogRequeued queued name) s1)))))"

section \<open>Filing keeps the store and the disk\<close>

lemma runner_simps [simp]:
  "rn_db (logEvent l s) = rn_db s" "rn_fs (logEvent l s) = rn_fs s" "rn_log (logEvent l s) = rn_log s @ [l]"
  "rn_db (clearCurrent s) = rn_db s" "rn_fs (clearCurrent s) = rn_fs s" "rn_log (clearCurrent s) = rn_log s"
  "rn_db (nudgeTranscoder s) = rn_db s" "rn_fs (nudgeTranscoder s) = rn_fs s"
  "rn_db (refreshTranscodeCounts s) = rn_db s" "rn_fs (refreshTranscodeCounts s) = rn_fs s"
  by (simp_all add: logEvent_def clearCurrent_def nudgeTranscoder_def refreshTranscodeCounts_def split: prod.splits)

text \<open>Filing can only add a library link: it is the store with possibly one more link recorded.\<close>

lemma fileTitle_db:
  obtains "rn_db (fileTitle cfg now d t src s) = rn_db s"
  | p db' where "RecordLibraryLink now d t p (rn_db s) = Inr db'" "rn_db (fileTitle cfg now d t src s) = db'"
proof -
  have "rn_db (fileTitle cfg now d t src s) = rn_db s
      \<or> (\<exists>p. rn_db (fileTitle cfg now d t src s) = or_rollback (rn_db s) (RecordLibraryLink now d t p (rn_db s)))"
    by (auto simp: fileTitle_def Let_def split: sum.split option.split prod.split link_result.split)
  then show thesis using that by (fastforce simp: or_rollback_def split: sum.splits)
qed

lemma RecordLibraryLink_frame:
  "RecordLibraryLink now d t p db = Inr db' \<Longrightarrow> discs db' = discs db \<and> transcodes db' = transcodes db \<and> titles db' = titles db"
  by (auto simp: RecordLibraryLink_def Let_def split: if_splits)

lemma fileTitle_keeps:
  "discs (rn_db (fileTitle cfg now d t src s)) = discs (rn_db s)
   \<and> transcodes (rn_db (fileTitle cfg now d t src s)) = transcodes (rn_db s)
   \<and> titles (rn_db (fileTitle cfg now d t src s)) = titles (rn_db s)"
  by (rule fileTitle_db [of cfg now d t src s]) (auto dest: RecordLibraryLink_frame)

lemma fileTitle_ok: "store_ok (rn_db s) \<Longrightarrow> store_ok (rn_db (fileTitle cfg now d t src s))"
  by (rule fileTitle_db [of cfg now d t src s]) (auto dest: RecordLibraryLink_ok)

lemma fileTitle_disk: "fs_nodes (rn_fs s) p = Some n \<Longrightarrow> fs_nodes (rn_fs (fileTitle cfg now d t src s)) p = Some n"
  by (auto simp: fileTitle_def Let_def split: sum.split option.split prod.split link_result.split dest: Link_keeps)

lemma fileTitle_log: "\<exists>ls. rn_log (fileTitle cfg now d t src s) = rn_log s @ ls"
  by (auto simp: fileTitle_def Let_def split: sum.split option.split prod.split link_result.split)

lemma file_one_keeps:
  "transcodes (rn_db (file_one cfg now u s)) = transcodes (rn_db s)"
  "titles (rn_db (file_one cfg now u s)) = titles (rn_db s)"
  "discs (rn_db (file_one cfg now u s)) = discs (rn_db s)"
  using fileTitle_keeps by (simp_all add: file_one_def)

lemma file_one_ok: "store_ok (rn_db s) \<Longrightarrow> store_ok (rn_db (file_one cfg now u s))"
  by (simp add: file_one_def fileTitle_ok)

lemma file_one_disk: "fs_nodes (rn_fs s) p = Some n \<Longrightarrow> fs_nodes (rn_fs (file_one cfg now u s)) p = Some n"
  by (simp add: file_one_def fileTitle_disk)

section \<open>The queue the runner drains\<close>

lemma transcodeOne_db:
  "discs (rn_db (transcodeOne cfg hw now env job s)) = discs (rn_db s)
   \<and> transcodes (rn_db (transcodeOne cfg hw now env job s)) =
      (if en_cancelled env then transcodes (RequeueTranscode (tj_ID job) (rn_db s))
       else case en_result env of
          EncodeError e \<Rightarrow> transcodes (FailTranscode now (tj_ID job) e (rn_db s))
        | Encoded path n h \<Rightarrow> transcodes (FinishTranscode now (tj_ID job) path n h (rn_db s)))"
  using fileTitle_keeps
  by (auto simp: transcodeOne_def Let_def RequeueTranscode_def FailTranscode_def FinishTranscode_def
      update_transcode_def split: encode_result.split)

lemma transcodeOne_ok: "store_ok (rn_db s) \<Longrightarrow> store_ok (rn_db (transcodeOne cfg hw now env job s))"
  by (auto simp: transcodeOne_def Let_def settle_ok intro!: fileTitle_ok split: encode_result.split)

lemma waiting_transcodes:
  "discs db = discs db' \<Longrightarrow> transcodes db = transcodes db' \<Longrightarrow> waiting m db = waiting m db'"
  by (rule waiting_cong) simp_all

lemma transcodeOne_waiting:
  assumes "store_ok (rn_db s)" and "claim_job now s = Some (job, s')"
  shows "waiting maxTranscodeAttempts (rn_db (transcodeOne cfg hw now' env job s')) =
    (if \<not> en_cancelled env then waiting maxTranscodeAttempts (rn_db s') else waiting maxTranscodeAttempts (rn_db s))"
proof -
  obtain db' where c: "NextTranscode now maxTranscodeAttempts (rn_db s) = Some (job, db')" and s': "rn_db s' = db'"
    using assms(2) by (auto simp: claim_job_def)
  have m: "0 < maxTranscodeAttempts" by (simp add: maxTranscodeAttempts_def)
  note settled = waiting_settled [OF assms(1) c m]
  let ?db = "rn_db (transcodeOne cfg hw now' env job s')"
  have d: "discs ?db = discs db'" using transcodeOne_db s' by simp
  show ?thesis
  proof (cases "en_cancelled env")
    case True
    have "waiting maxTranscodeAttempts ?db = waiting maxTranscodeAttempts (RequeueTranscode (tj_ID job) db')"
      by (rule waiting_transcodes) (use d transcodeOne_db True s' in \<open>simp_all add: RequeueTranscode_def update_transcode_def\<close>)
    then show ?thesis using True settled(3) by simp
  next
    case False
    show ?thesis
    proof (cases "en_result env")
      case (Encoded path n h)
      have "waiting maxTranscodeAttempts ?db = waiting maxTranscodeAttempts (FinishTranscode now' (tj_ID job) path n h db')"
        by (rule waiting_transcodes) (use d transcodeOne_db False Encoded s' in \<open>simp_all add: FinishTranscode_def update_transcode_def\<close>)
      then show ?thesis using False settled(1) s' by simp
    next
      case (EncodeError e)
      have "waiting maxTranscodeAttempts ?db = waiting maxTranscodeAttempts (FailTranscode now' (tj_ID job) e db')"
        by (rule waiting_transcodes) (use d transcodeOne_db False EncodeError s' in \<open>simp_all add: FailTranscode_def update_transcode_def\<close>)
      then show ?thesis using False settled(2) s' by simp
    qed
  qed
qed

lemma claim_job_db:
  "claim_job now s = Some (job, s') \<longleftrightarrow>
     (\<exists>db'. NextTranscode now maxTranscodeAttempts (rn_db s) = Some (job, db') \<and> s' = s\<lparr>rn_db := db'\<rparr>)"
  by (auto simp: claim_job_def)

interpretation encode_queue: claim_queue "\<lambda>s. store_ok (rn_db s)" "\<lambda>s. waiting maxTranscodeAttempts (rn_db s)"
  "claim_job now" "transcodeOne cfg hw now" "\<lambda>env. \<not> en_cancelled env" for now cfg hw
proof (unfold_locales, goal_cases)
  case (1 s j s')
  then show ?case by (auto simp: claim_job_db dest: NextTranscode_ok)
next
  case (2 s)
  show ?case by (simp add: claim_job_def waiting_None)
next
  case (3 s j s')
  then obtain db' where c: "NextTranscode now maxTranscodeAttempts (rn_db s) = Some (j, db')" "s' = s\<lparr>rn_db := db'\<rparr>"
    by (auto simp: claim_job_db)
  then show ?case using claimed_row [OF 3(1) c(1)] by simp
next
  case (4 s j s' x)
  then show ?case by (auto simp: claim_job_db dest: NextTranscode_ok intro!: transcodeOne_ok)
next
  case (5 s j s' x)
  then show ?case by (rule transcodeOne_waiting)
qed

lemma drain_queue_is_drain:
  "(\<And>i. k \<le> i \<Longrightarrow> \<not> en_shutdown (envs i)) \<Longrightarrow>
   drain_queue cfg hw now envs k fuel s = map_option (\<lambda>s'. (s', False)) (encode_queue.drain now cfg hw envs k fuel s)"
proof (induction cfg hw now envs k fuel s rule: drain_queue.induct)
  case (2 cfg hw now envs k fuel s)
  have "\<not> en_shutdown (envs k)" using "2.prems" by simp
  then show ?case using 2
    by (auto simp: Let_def split: option.splits)
qed simp

text \<open>C22. The runner empties the queue. However the encodes end, as long as only finitely many of them are
  cancelled and the daemon is not stopped, the drain loop returns, after at most one encode per
  waiting title and one more per cancellation, and then no title is left that could be claimed.\<close>

theorem drain_queue_empties:
  assumes "store_ok (rn_db s)" and "\<And>i. \<not> en_shutdown (envs i)" and "finite {i. en_cancelled (envs i)}"
    and "waiting maxTranscodeAttempts (rn_db s) + card {i. en_cancelled (envs i)} < fuel"
  shows "\<exists>s'. drain_queue cfg hw now envs 0 fuel s = Some (s', False) \<and> store_ok (rn_db s')
    \<and> (\<forall>r \<in> set (transcodes (rn_db s')). \<not> claimable maxTranscodeAttempts (rn_db s') r)"
proof -
  have pb: "encode_queue.put_back envs 0 = {i. en_cancelled (envs i)}"
    by (auto simp: encode_queue.put_back_def)
  obtain s' where "encode_queue.drain now cfg hw envs 0 fuel s = Some s'" "store_ok (rn_db s')"
      "waiting maxTranscodeAttempts (rn_db s') = 0"
    using encode_queue.drain_returns [of s envs 0 fuel now cfg hw] assms pb by auto
  moreover from this(3) have "\<forall>r \<in> set (transcodes (rn_db s')). \<not> claimable maxTranscodeAttempts (rn_db s') r"
    by (simp add: waiting_def filter_empty_conv)
  ultimately show ?thesis using drain_queue_is_drain [of 0 envs cfg hw now fuel s] assms(2) by auto
qed

definition sample_runner :: runner where
  "sample_runner = \<lparr>rn_db = queued_store,
     rn_fs = \<lparr>fs_nodes = [''/rips/alien/title_t00.mkv'' \<mapsto> FileNode 1, ''/out/a.mkv'' \<mapsto> FileNode 2], fs_writable = (\<lambda>p. True)\<rparr>,
     rn_snap = \<lparr>sn_Running = False, sn_Disc = [], sn_TitleIndex = 0, sn_Hardware = False, sn_Pending = 0, sn_Failed = 0\<rparr>,
     rn_wake = False, rn_log = []\<rparr>"

definition sample_env :: "nat \<Rightarrow> encode_env" where
  "sample_env k = \<lparr>en_probe_ok = True, en_interlaced = False,
     en_result = (if k = 1 then EncodeError ''broken'' else Encoded ''/out/a.mkv'' 1000 True), en_disk = (\<lambda>fs. fs),
     en_cancelled = (k = 0), en_shutdown = False\<rparr>"

theorem drain_queue_empties_witness:
  "waiting maxTranscodeAttempts (rn_db sample_runner) = 2
   \<and> (\<exists>s'. drain_queue Default True 500 sample_env 0 4 sample_runner = Some (s', False)
        \<and> (\<forall>r \<in> set (transcodes (rn_db s')). \<not> claimable maxTranscodeAttempts (rn_db s') r))"
proof -
  have w: "waiting maxTranscodeAttempts (rn_db sample_runner) = 2" by code_simp
  have "{i. en_cancelled (sample_env i)} = {0}" by (auto simp: sample_env_def)
  then have f: "finite {i. en_cancelled (sample_env i)}"
    and c: "waiting maxTranscodeAttempts (rn_db sample_runner) + card {i. en_cancelled (sample_env i)} < 4"
    using w by simp_all
  have "store_ok (rn_db sample_runner)" "\<And>i. \<not> en_shutdown (sample_env i)"
    by (simp_all add: sample_runner_def queued_store_ok sample_env_def)
  from drain_queue_empties [OF this f c, of Default True 500] show ?thesis using w by blast
qed

section \<open>Catching up on the library\<close>

definition links_backed :: "runner \<Rightarrow> bool" where
  "links_backed s \<longleftrightarrow> list_all (\<lambda>l. fs_nodes (rn_fs s) (l_path l) \<noteq> None) (links (rn_db s))"

lemma RecordLibraryLink_links:
  assumes "RecordLibraryLink now d t p db = Inr db'" and "l \<in> set (links db')"
  shows "l \<in> set (links db) \<or> l_path l = p"
  using assms
  by (auto simp: RecordLibraryLink_def Let_def upsert_where_def update_where_def link_fresh_def link_refresh_def split: if_splits)

lemma is_linked_iff: "is_linked db k \<longleftrightarrow> k \<in> link_key ` set (links db)"
  by (auto simp: is_linked_def list_ex_iff)

lemma RecordLibraryLink_keys:
  "RecordLibraryLink now d t p db = Inr db' \<Longrightarrow> link_key ` set (links db') = insert (d, t) (link_key ` set (links db))"
proof -
  assume "RecordLibraryLink now d t p db = Inr db'"
  then have "links db' = link_table.put (d, t) (p, now) (links db)"
    by (auto simp: RecordLibraryLink_def Let_def split: if_splits)
  then show ?thesis using link_table.keys_put [of "(d, t)" "(p, now)" "links db"] by simp
qed

lemma RecordLibraryLink_linked: "RecordLibraryLink now d t p db = Inr db' \<Longrightarrow> is_linked db' (d, t)"
  by (simp only: is_linked_iff RecordLibraryLink_keys) simp

lemma RecordLibraryLink_mono: "RecordLibraryLink now d t p db = Inr db' \<Longrightarrow> is_linked db k \<Longrightarrow> is_linked db' k"
  by (simp only: is_linked_iff RecordLibraryLink_keys) simp

lemma fileTitle_links_backed:
  assumes "links_backed s"
  shows "links_backed (fileTitle cfg now d t src s)"
proof -
  have keep: "fs_nodes (rn_fs (fileTitle cfg now d t src s)) p \<noteq> None" if "fs_nodes (rn_fs s) p \<noteq> None" for p
    using fileTitle_disk [of s p] that by auto
  consider "rn_db (fileTitle cfg now d t src s) = rn_db s"
    | p db' where "RecordLibraryLink now d t p (rn_db s) = Inr db'" "rn_db (fileTitle cfg now d t src s) = db'"
        "fs_nodes (rn_fs (fileTitle cfg now d t src s)) p \<noteq> None"
  proof -
    have "rn_db (fileTitle cfg now d t src s) = rn_db s
      \<or> (\<exists>p. rn_db (fileTitle cfg now d t src s) = or_rollback (rn_db s) (RecordLibraryLink now d t p (rn_db s))
           \<and> fs_nodes (rn_fs (fileTitle cfg now d t src s)) p \<noteq> None)"
      using Link_placed
      by (auto simp: fileTitle_def Let_def split: sum.split option.split prod.split link_result.split)
    then show thesis using that by (fastforce simp: or_rollback_def split: sum.splits)
  qed
  then show ?thesis
  proof cases
    case 1
    then show ?thesis using assms keep by (auto simp: links_backed_def list_all_iff)
  next
    case (2 p db')
    show ?thesis unfolding links_backed_def list_all_iff
    proof
      fix l
      assume "l \<in> set (links (rn_db (fileTitle cfg now d t src s)))"
      then have "l \<in> set (links (rn_db s)) \<or> l_path l = p" using RecordLibraryLink_links [OF 2(1)] 2(2) by simp
      then have "fs_nodes (rn_fs s) (l_path l) \<noteq> None \<or> l_path l = p" using assms by (auto simp: links_backed_def list_all_iff)
      then show "fs_nodes (rn_fs (fileTitle cfg now d t src s)) (l_path l) \<noteq> None" using keep 2(3) by metis
    qed
  qed
qed

lemma fileTitle_mono: "is_linked (rn_db s) k \<Longrightarrow> is_linked (rn_db (fileTitle cfg now d t src s)) k"
  by (rule fileTitle_db [of cfg now d t src s]) (auto dest: RecordLibraryLink_mono)

definition unplaced :: "config \<Rightarrow> store \<Rightarrow> unfiled \<Rightarrow> bool" where
  "unplaced cfg db u \<longleftrightarrow> (case DiscWithTitles (u_DiscID u) db of
      Inl e \<Rightarrow> True | Inr rec \<Rightarrow> placement_for cfg rec (u_TitleIndex u) = None)"

definition file_refused :: "log_line list \<Rightarrow> unfiled \<Rightarrow> bool" where
  "file_refused ls u \<longleftrightarrow> (\<exists>name. LogFileFailed (u_TitleIndex u) name \<in> set ls)"

abbreviation unfiled_key :: "unfiled \<Rightarrow> int \<times> int" where
  "unfiled_key u \<equiv> (u_DiscID u, u_TitleIndex u)"

text \<open>What filing one title comes to.\<close>

lemma fileTitle_outcome:
  assumes "FileToLibrary cfg" and "has_disc (rn_db s) (u_DiscID u)"
  shows "is_linked (rn_db (fileTitle cfg now (u_DiscID u) (u_TitleIndex u) src s)) (unfiled_key u)
    \<or> unplaced cfg (rn_db s) u
    \<or> file_refused (rn_log (fileTitle cfg now (u_DiscID u) (u_TitleIndex u) src s)) u"
proof (cases "DiscWithTitles (u_DiscID u) (rn_db s)")
  case (Inl e)
  then show ?thesis by (simp add: unplaced_def)
next
  case (Inr rec)
  show ?thesis
  proof (cases "placement_for cfg rec (u_TitleIndex u)")
    case None
    then show ?thesis using Inr by (simp add: unplaced_def)
  next
    case (Some p)
    obtain fs' r where l: "Link src (p_Path p) (rn_fs s) = (fs', r)" by fastforce
    obtain db' where r: "RecordLibraryLink now (u_DiscID u) (u_TitleIndex u) (p_Path p) (rn_db s) = Inr db'"
      using assms(2) by (simp add: RecordLibraryLink_def Let_def)
    have "is_linked db' (unfiled_key u)" by (rule RecordLibraryLink_linked [OF r])
    then show ?thesis using assms(1) Inr Some l r
      by (cases r) (auto simp: fileTitle_def Let_def or_rollback_def file_refused_def)
  qed
qed

lemma file_one_log: "set (rn_log s) \<subseteq> set (rn_log (file_one cfg now u s))"
  using fileTitle_log [of cfg now "u_DiscID u" "u_TitleIndex u" "u_OutputPath u" s] by (auto simp: file_one_def)

lemma file_one_mono: "is_linked (rn_db s) k \<Longrightarrow> is_linked (rn_db (file_one cfg now u s)) k"
  by (simp add: file_one_def fileTitle_mono)

lemma file_one_links_backed: "links_backed s \<Longrightarrow> links_backed (file_one cfg now u s)"
  by (simp add: file_one_def fileTitle_links_backed)

definition settled_by :: "config \<Rightarrow> runner \<Rightarrow> runner \<Rightarrow> unfiled \<Rightarrow> bool" where
  "settled_by cfg s s' u \<longleftrightarrow> is_linked (rn_db s') (unfiled_key u) \<or> fs_nodes (rn_fs s) (u_OutputPath u) = None
     \<or> unplaced cfg (rn_db s) u \<or> file_refused (rn_log s') u"

lemma unplaced_cong:
  "discs db = discs db' \<Longrightarrow> titles db = titles db' \<Longrightarrow> unplaced cfg db u = unplaced cfg db' u"
  by (simp only: unplaced_def DiscWithTitles_def)

lemma fold_file_mono:
  "is_linked (rn_db s) k \<Longrightarrow> is_linked (rn_db (fold (file_one cfg now) us s)) k"
  "set (rn_log s) \<subseteq> set (rn_log (fold (file_one cfg now) us s))"
  "links_backed s \<Longrightarrow> links_backed (fold (file_one cfg now) us s)"
  "fs_nodes (rn_fs s) p = Some n \<Longrightarrow> fs_nodes (rn_fs (fold (file_one cfg now) us s)) p = Some n"
  "store_ok (rn_db s) \<Longrightarrow> store_ok (rn_db (fold (file_one cfg now) us s))"
  "transcodes (rn_db (fold (file_one cfg now) us s)) = transcodes (rn_db s)"
proof (induction us arbitrary: s)
  case (Cons u us)
  {
    case 1
    show ?case using Cons(1) [OF file_one_mono [OF 1, of cfg now u]] by simp
  next
    case 2
    show ?case using Cons(2) [of "file_one cfg now u s"] file_one_log [of s cfg now u] by auto
  next
    case 3
    show ?case using Cons(3) [OF file_one_links_backed [OF 3, of cfg now u]] by simp
  next
    case 4
    show ?case using Cons(4) [OF file_one_disk [OF 4, of cfg now u]] by simp
  next
    case 5
    show ?case using Cons(5) [OF file_one_ok [OF 5, of cfg now u]] by simp
  next
    case 6
    show ?case using Cons(6) [of "file_one cfg now u s"] file_one_keeps by simp
  }
qed simp_all

lemma settled_by_mono:
  assumes "settled_by cfg s s1 u"
  shows "settled_by cfg s (fold (file_one cfg now) us s1) u"
  using assms fold_file_mono(1) [of s1 "unfiled_key u" cfg now us] fold_file_mono(2) [of s1 cfg now us]
  by (auto simp: settled_by_def file_refused_def)

lemma file_one_settles:
  assumes "FileToLibrary cfg" and "has_disc (rn_db s) (u_DiscID u)"
  shows "settled_by cfg s (file_one cfg now u s) u"
  using fileTitle_outcome [OF assms] by (auto simp: settled_by_def file_one_def)

lemma settled_by_earlier:
  assumes "settled_by cfg (file_one cfg now v s) s' u"
  shows "settled_by cfg s s' u"
proof -
  have "unplaced cfg (rn_db (file_one cfg now v s)) u = unplaced cfg (rn_db s) u"
    by (rule unplaced_cong) (simp_all add: file_one_keeps)
  moreover have "fs_nodes (rn_fs s) (u_OutputPath u) = None"
    if "fs_nodes (rn_fs (file_one cfg now v s)) (u_OutputPath u) = None"
    using that file_one_disk [of s "u_OutputPath u"] by (cases "fs_nodes (rn_fs s) (u_OutputPath u)") auto
  ultimately show ?thesis using assms by (auto simp: settled_by_def)
qed

lemma fold_file_settles:
  assumes "FileToLibrary cfg" and "\<forall>u \<in> set us. has_disc (rn_db s) (u_DiscID u)" and "u \<in> set us"
  shows "settled_by cfg s (fold (file_one cfg now) us s) u"
  using assms(2,3)
proof (induction us arbitrary: s)
  case (Cons v us)
  let ?s = "file_one cfg now v s"
  show ?case
  proof (cases "u \<in> set us")
    case True
    have "settled_by cfg ?s (fold (file_one cfg now) us ?s) u"
      by (rule Cons.IH) (use Cons.prems True in \<open>auto simp: has_disc_def file_one_keeps\<close>)
    then show ?thesis using settled_by_earlier by simp
  next
    case False
    then have "u = v" using Cons.prems(2) by simp
    then have "settled_by cfg s ?s u" using file_one_settles [OF assms(1)] Cons.prems(1) by simp
    then show ?thesis using settled_by_mono by simp
  qed
qed simp

lemma UnfiledTranscodes_iff:
  "u \<in> set (UnfiledTranscodes db) \<longleftrightarrow>
     (\<exists>r \<in> set (transcodes db). tc_state r = TranscodeComplete \<and> tc_output_path r \<noteq> None \<and> \<not> is_linked db (tc_key r)
        \<and> u = \<lparr>u_DiscID = tc_disc_id r, u_TitleIndex = tc_title_index r, u_OutputPath = coalesce (tc_output_path r) []\<rparr>)"
  by (auto simp: UnfiledTranscodes_def)

lemma unfiled_has_disc: "store_ok db \<Longrightarrow> u \<in> set (UnfiledTranscodes db) \<Longrightarrow> has_disc db (u_DiscID u)"
  by (auto simp: UnfiledTranscodes_iff store_ok_defs has_disc_iff image_subset_iff)

lemma unfiled_shrinks:
  assumes "transcodes db' = transcodes db" and "\<And>k. is_linked db k \<Longrightarrow> is_linked db' k" and "u \<in> set (UnfiledTranscodes db')"
  shows "u \<in> set (UnfiledTranscodes db) \<and> \<not> is_linked db' (unfiled_key u)"
  using assms by (auto simp: UnfiledTranscodes_iff)



end
