(* ===== verification/Hub.thy ===== *)
theory Hub
  imports Hellbox_Prelude
begin

text \<open>
  The event hub and the event stream of \<^verbatim>\<open>internal/api/hub.go\<close> and \<^verbatim>\<open>internal/api/server.go\<close>: a ring of
  the last 4096 events with 64-bit ids, the subscribers' buffered channels, and what the stream handler
  writes to a client that resumes from a given id. Frames are values; their JSON is left out.

  The reference is the list of everything ever published. The ring refines it: what it holds, oldest
  first, is the end of that list (\<^verbatim>\<open>hub_inv\<close>). The locale \<^verbatim>\<open>replay_log\<close> is what the stream handler relies
  on; the hub interprets it.
\<close>

section \<open>The hub\<close>

record 'd event =
  ev_ID :: "64 word"
  ev_Kind :: string
  ev_At :: int
  ev_Data :: 'd

definition ringSize :: nat where
  "ringSize = 4096"

definition channelSize :: nat where
  "channelSize = 256"

record 'd hub =
  hb_nextID :: "64 word"
  hb_ring :: "'d event list"
  hb_start :: nat
  hb_full :: bool
  hb_subs :: "(nat \<times> 'd event list) list"

definition NewHub :: "'d hub" where
  "NewHub = \<lparr>hb_nextID = 0, hb_ring = [], hb_start = 0, hb_full = False, hb_subs = []\<rparr>"

definition hub_append :: "'d event \<Rightarrow> 'd hub \<Rightarrow> 'd hub" where
  "hub_append ev h =
     (if length (hb_ring h) < ringSize then h\<lparr>hb_ring := hb_ring h @ [ev]\<rparr>
      else h\<lparr>hb_full := True, hb_ring := (hb_ring h)[hb_start h := ev],
             hb_start := (hb_start h + 1) mod ringSize\<rparr>)"

definition offer :: "'d event \<Rightarrow> nat \<times> 'd event list \<Rightarrow> nat \<times> 'd event list" where
  "offer ev c = (if length (snd c) < channelSize then (fst c, snd c @ [ev]) else c)"

definition Publish :: "int \<Rightarrow> string \<Rightarrow> 'd \<Rightarrow> 'd hub \<Rightarrow> 'd event \<times> 'd hub" where
  "Publish now kind data h =
     (let h1 = h\<lparr>hb_nextID := hb_nextID h + 1\<rparr>;
          ev = \<lparr>ev_ID = hb_nextID h1, ev_Kind = kind, ev_At = now, ev_Data = data\<rparr>;
          h2 = hub_append ev h1
      in (ev, h2\<lparr>hb_subs := map (offer ev) (hb_subs h2)\<rparr>))"

definition LastID :: "'d hub \<Rightarrow> 64 word" where
  "LastID h = hb_nextID h"

definition orderedLocked :: "'d hub \<Rightarrow> 'd event list" where
  "orderedLocked h =
     (if \<not> hb_full h then hb_ring h else drop (hb_start h) (hb_ring h) @ take (hb_start h) (hb_ring h))"

definition Since :: "'d hub \<Rightarrow> 64 word \<Rightarrow> 'd event list \<times> bool" where
  "Since h i =
     (case orderedLocked h of
        [] \<Rightarrow> ([], i = 0 \<or> i = hb_nextID h)
      | e # es \<Rightarrow>
          (filter (\<lambda>ev. ev_ID ev > i) (e # es), i + 1 \<ge> ev_ID e \<or> i \<ge> hb_nextID h))"

definition Subscribe :: "nat \<Rightarrow> 'd hub \<Rightarrow> 'd hub" where
  "Subscribe ch h = h\<lparr>hb_subs := hb_subs h @ [(ch, [])]\<rparr>"

definition release :: "nat \<Rightarrow> 'd hub \<Rightarrow> 'd hub" where
  "release ch h = h\<lparr>hb_subs := filter (\<lambda>c. fst c \<noteq> ch) (hb_subs h)\<rparr>"

definition Subscribers :: "'d hub \<Rightarrow> nat" where
  "Subscribers h = length (hb_subs h)"

section \<open>The event stream\<close>

datatype 'd frame =
    ReconcileFrame "64 word"
  | HelloFrame "64 word"
  | EventFrame "'d event"

fun send_missed :: "'d event list \<Rightarrow> 64 word \<Rightarrow> 'd event list \<times> 64 word" where
  "send_missed [] sent = ([], sent)"
| "send_missed (ev # evs) sent = (case send_missed evs (ev_ID ev) of (out, s) \<Rightarrow> (ev # out, s))"

fun send_live :: "'d event list \<Rightarrow> 64 word \<Rightarrow> 'd event list" where
  "send_live [] sent = []"
| "send_live (ev # evs) sent =
     (if ev_ID ev \<le> sent then send_live evs sent else ev # send_live evs (ev_ID ev))"

text \<open>\<^verbatim>\<open>Server.events\<close> for a client that resumes at \<^verbatim>\<open>from\<close>: the hub at the moment of the replay, and what
  then arrives on the channel until the client goes away.\<close>

definition events_stream :: "64 word \<Rightarrow> 'd hub \<Rightarrow> 'd event list \<Rightarrow> 'd frame list" where
  "events_stream from h live =
     (case Since h from of (missed, complete) \<Rightarrow>
        (case send_missed missed from of (replayed, sent) \<Rightarrow>
           (if complete then [] else [ReconcileFrame (LastID h)])
           @ [HelloFrame (LastID h)]
           @ map EventFrame replayed
           @ map EventFrame (send_live live sent)))"

text \<open>\<^verbatim>\<open>lastEventID\<close>: the header, or the query parameter, as \<^verbatim>\<open>strconv.ParseUint\<close> reads it.\<close>

definition ParseUint :: "string \<Rightarrow> 64 word option" where
  "ParseUint s = (case parse_digits s of None \<Rightarrow> None | Some n \<Rightarrow> if n < 2 ^ 64 then Some (of_nat n) else None)"

definition lastEventID :: "string \<Rightarrow> string \<Rightarrow> 64 word" where
  "lastEventID header query =
     (case ParseUint (TrimSpace (if header = [] then query else header)) of None \<Rightarrow> 0 | Some n \<Rightarrow> n)"

section \<open>The ring is the end of the history\<close>

definition history_ids :: "'d event list \<Rightarrow> bool" where
  "history_ids hist \<longleftrightarrow> map ev_ID hist = map of_nat [1..<Suc (length hist)] \<and> length hist < 2 ^ 64"

definition hub_inv :: "'d event list \<Rightarrow> 'd hub \<Rightarrow> bool" where
  "hub_inv hist h \<longleftrightarrow>
     hb_nextID h = of_nat (length hist) \<and> history_ids hist
     \<and> orderedLocked h = drop (length hist - ringSize) hist
     \<and> length (hb_ring h) = min (length hist) ringSize
     \<and> hb_start h < ringSize \<and> (if hb_full h then ringSize \<le> length hist else hb_start h = 0)"

lemma hub_inv_NewHub: "hub_inv [] NewHub"
  by (simp add: hub_inv_def NewHub_def history_ids_def orderedLocked_def ringSize_def)

lemma rotate_update:
  assumes "s < length r"
  shows "(let s' = (s + 1) mod length r; r' = r[s := e] in drop s' r' @ take s' r') = tl (drop s r @ take s r) @ [e]"
proof (cases "s + 1 < length r")
  case True
  then have "tl (drop s r) = drop (s + 1) r" by (simp add: drop_Suc tl_drop)
  moreover have "drop s r \<noteq> []" using assms by simp
  moreover have "take (Suc s) (r[s := e]) = take s r @ [e]" using assms by (simp add: take_Suc_conv_app_nth)
  ultimately show ?thesis using True by (simp add: Let_def tl_append2 drop_update_cancel)
next
  case False
  then have s: "Suc s = length r" using assms by simp
  then have "drop s r = [r ! s]" using assms by (metis Cons_nth_drop_Suc drop_all le_refl)
  moreover have "r[s := e] = take s r @ [e]" using assms s by (simp add: upd_conv_take_nth_drop)
  ultimately show ?thesis using s by (simp add: Let_def)
qed

lemma hub_append_ordered:
  assumes "hub_inv hist h"
  shows "orderedLocked (hub_append ev h) =
    (if length hist < ringSize then orderedLocked h @ [ev] else tl (orderedLocked h) @ [ev])"
proof (cases "length hist < ringSize")
  case True
  then have "\<not> hb_full h" and "length (hb_ring h) = length hist" using assms by (auto simp: hub_inv_def)
  then show ?thesis using True by (simp add: hub_append_def orderedLocked_def)
next
  case False
  then have l: "length (hb_ring h) = ringSize" and s: "hb_start h < length (hb_ring h)"
    using assms by (simp_all add: hub_inv_def)
  have "\<not> hb_full h \<Longrightarrow> hb_start h = 0" using assms by (simp add: hub_inv_def)
  then have "orderedLocked h = drop (hb_start h) (hb_ring h) @ take (hb_start h) (hb_ring h)"
    by (cases "hb_full h") (simp_all add: orderedLocked_def)
  then show ?thesis using rotate_update [OF s, of ev] l False
    by (simp add: hub_append_def orderedLocked_def Let_def)
qed

lemma history_ids_snoc:
  "history_ids hist \<Longrightarrow> Suc (length hist) < 2 ^ 64 \<Longrightarrow> ev_ID ev = of_nat (Suc (length hist)) \<Longrightarrow> history_ids (hist @ [ev])"
  by (simp add: history_ids_def)

lemma Publish_inv:
  assumes "hub_inv hist h" and "Suc (length hist) < 2 ^ 64"
  shows "hub_inv (hist @ [fst (Publish now kind data h)]) (snd (Publish now kind data h))"
proof -
  let ?ev = "fst (Publish now kind data h)"
  let ?h1 = "h\<lparr>hb_nextID := hb_nextID h + 1\<rparr>"
  let ?h2 = "hub_append ?ev ?h1"
  have pub: "snd (Publish now kind data h) = ?h2\<lparr>hb_subs := map (offer ?ev) (hb_subs ?h2)\<rparr>"
    by (simp add: Publish_def Let_def)
  have id: "ev_ID ?ev = of_nat (Suc (length hist))" using assms(1) by (simp add: Publish_def Let_def hub_inv_def)
  have ord1: "orderedLocked ?h1 = orderedLocked h" by (simp add: orderedLocked_def)
  have "orderedLocked (hub_append ?ev h) = drop (length (hist @ [?ev]) - ringSize) (hist @ [?ev])"
    using hub_append_ordered [OF assms(1), of ?ev] assms(1)
    by (auto simp: hub_inv_def Suc_diff_le drop_Suc tl_drop tl_append2)
  moreover have "orderedLocked (?h2\<lparr>hb_subs := x\<rparr>) = orderedLocked (hub_append ?ev h)" for x
    by (simp add: orderedLocked_def hub_append_def)
  moreover have "history_ids (hist @ [?ev])"
    using assms id by (intro history_ids_snoc) (simp_all add: hub_inv_def)
  moreover have "length (hb_ring ?h2) = min (length (hist @ [?ev])) ringSize"
    and "hb_start ?h2 < ringSize" and "hb_nextID ?h2 = of_nat (length (hist @ [?ev]))"
    and "if hb_full ?h2 then ringSize \<le> length (hist @ [?ev]) else hb_start ?h2 = 0"
    using assms(1) by (auto simp: hub_inv_def hub_append_def ringSize_def split: if_splits)
  ultimately show ?thesis unfolding pub hub_inv_def by (simp split: if_splits)
qed

section \<open>What a replay returns\<close>

lemma id_less_iff:
  assumes "history_ids hist" and "k < length hist"
  shows "i < ev_ID (hist ! k) \<longleftrightarrow> unat i < Suc k"
proof -
  have "map ev_ID hist ! k = of_nat (Suc k)" using assms unfolding history_ids_def by (simp del: upt_Suc)
  then have "ev_ID (hist ! k) = of_nat (Suc k)" using assms(2) by simp
  moreover have "unat (of_nat (Suc k) :: 64 word) = Suc k"
    using assms unfolding history_ids_def unat_of_nat by (intro mod_less) simp
  ultimately show ?thesis by (simp add: word_less_nat_alt)
qed

lemma after_id_drop:
  assumes "history_ids hist" and "k \<le> length hist"
  shows "filter (\<lambda>e. i < ev_ID e) (drop k hist) = drop (max k (unat i)) hist"
  using assms(2)
proof (induction "length hist - k" arbitrary: k)
  case 0
  then show ?case by simp
next
  case (Suc n)
    then have k: "k < length hist" by simp
    have "filter (\<lambda>e. i < ev_ID e) (drop (Suc k) hist) = drop (max (Suc k) (unat i)) hist"
      by (rule Suc.hyps(1)) (use Suc.hyps(2) k in simp_all)
    moreover have d: "drop k hist = hist ! k # drop (Suc k) hist" by (rule Cons_nth_drop_Suc [OF k, symmetric])
    moreover have "i < ev_ID (hist ! k) \<longleftrightarrow> unat i \<le> k" using id_less_iff [OF assms(1) k] by (simp add: less_Suc_eq_le)
    ultimately show ?case by (cases "unat i \<le> k") (simp_all add: max_def)
qed

lemma after_id: "history_ids hist \<Longrightarrow> filter (\<lambda>e. i < ev_ID e) hist = drop (unat i) hist"
  using after_id_drop [of hist 0 i] by simp

lemma Since_eq:
  assumes "hub_inv hist h"
  shows "Since h i = (drop (max (length hist - ringSize) (unat i)) hist,
    if hist = [] then i = 0 else length hist - ringSize \<le> unat i)"
proof (cases "hist = []")
  case True
  then show ?thesis using assms by (simp add: Since_def hub_inv_def)
next
  case False
  let ?m = "length hist - ringSize"
  have hid: "history_ids hist" and ord: "orderedLocked h = drop ?m hist" and nx: "hb_nextID h = of_nat (length hist)"
    using assms by (simp_all add: hub_inv_def)
  have m: "?m < length hist" using False by (simp add: ringSize_def)
  then have d: "drop ?m hist = hist ! ?m # drop (Suc ?m) hist" by (rule Cons_nth_drop_Suc [symmetric])
  have n64: "length hist < 2 ^ 64" using hid by (simp add: history_ids_def)
  then have nxu: "unat (hb_nextID h) = length hist" unfolding nx unat_of_nat by (intro mod_less) simp
  have lt: "i < ev_ID (hist ! ?m) \<longleftrightarrow> unat i < Suc ?m" by (rule id_less_iff [OF hid m])
  have idm: "unat (ev_ID (hist ! ?m)) = Suc ?m"
  proof -
    have "map ev_ID hist ! ?m = of_nat (Suc ?m)" using hid m unfolding history_ids_def by (simp del: upt_Suc)
    then have "ev_ID (hist ! ?m) = of_nat (Suc ?m)" using m by simp
    moreover have "Suc ?m < 2 ^ 64" using m n64 by linarith
    ultimately show ?thesis by (simp only: unat_of_nat) simp
  qed
  have "(ev_ID (hist ! ?m) \<le> i + 1 \<or> hb_nextID h \<le> i) \<longleftrightarrow> ?m \<le> unat i"
  proof (cases "i + 1 = 0")
    case True
    then have "i = - 1" by (simp only: eq_neg_iff_add_eq_0)
    then have "unat i = 2 ^ 64 - 1" by (simp add: unsigned_minus_1_eq_mask mask_eq_exp_minus_1)
    then show ?thesis using n64 m nxu by (simp add: word_le_nat_alt)
  next
    case False
    then have "unat (i + 1) = unat i + 1" by (simp add: unatSuc add.commute)
    then show ?thesis using idm nxu m by (auto simp: word_le_nat_alt)
  qed
  then show ?thesis using after_id_drop [OF hid, of ?m i] m False
    by (simp add: Since_def ord d)
qed

section \<open>Resuming a stream\<close>

locale replay_log =
  fixes agrees :: "'e list \<Rightarrow> 'h \<Rightarrow> bool"
    and ident :: "'e \<Rightarrow> 'i::linorder"
    and since :: "'h \<Rightarrow> 'i \<Rightarrow> 'e list \<times> bool"
  assumes ordered: "agrees hist h \<Longrightarrow> sorted_wrt (\<lambda>a b. ident a < ident b) hist"
    and complete: "agrees hist h \<Longrightarrow> since h i = (evs, True) \<Longrightarrow> evs = filter (\<lambda>e. i < ident e) hist"
begin

fun skip_sent :: "'e list \<Rightarrow> 'i \<Rightarrow> 'e list" where
  "skip_sent [] sent = []"
| "skip_sent (e # es) sent = (if ident e \<le> sent then skip_sent es sent else e # skip_sent es (ident e))"

definition last_sent :: "'i \<Rightarrow> 'e list \<Rightarrow> 'i" where
  "last_sent i evs = (if evs = [] then i else ident (last evs))"

lemma skip_sent_sorted:
  "sorted_wrt (\<lambda>a b. ident a < ident b) es \<Longrightarrow> skip_sent es i = filter (\<lambda>e. i < ident e) es"
proof (induction es arbitrary: i)
  case (Cons e es)
  have "filter (\<lambda>x. ident e < ident x) es = es" using Cons.prems by (simp add: filter_id_conv)
  moreover have "filter (\<lambda>x. i < ident x) es = es" if "i < ident e"
    using Cons.prems that by (auto simp: filter_id_conv)
  ultimately show ?case using Cons by auto
qed simp

text \<open>A subscriber that was attached before the replay, and lost nothing since, is sent exactly what it
  had not seen, in order and once.\<close>

theorem resume_exact:
  assumes "agrees hist h" and "agrees (hist @ fut) h'" and "since h i = (evs, True)"
  shows "evs @ skip_sent (drop k hist @ fut) (last_sent i evs) = filter (\<lambda>e. i < ident e) (hist @ fut)"
proof -
  have evs: "evs = filter (\<lambda>e. i < ident e) hist" by (rule complete [OF assms(1,3)])
  have ord: "sorted_wrt (\<lambda>a b. ident a < ident b) (hist @ fut)" by (rule ordered [OF assms(2)])
  then have "sorted_wrt (\<lambda>a b. ident a < ident b) (drop k (hist @ fut))" by (rule sorted_wrt_drop)
  moreover have "sorted_wrt (\<lambda>a b. ident a < ident b) (drop k hist @ fut)"
    using ord by (auto simp: sorted_wrt_append sorted_wrt_drop dest: in_set_dropD)
  ultimately have skip: "skip_sent (drop k hist @ fut) j = filter (\<lambda>e. j < ident e) (drop k hist) @ filter (\<lambda>e. j < ident e) fut" for j
    by (simp add: skip_sent_sorted)
  show ?thesis
  proof (cases "evs = []")
    case True
    then have "\<forall>e \<in> set hist. \<not> i < ident e" using evs by (auto simp: filter_empty_conv)
    then have "filter (\<lambda>e. i < ident e) (drop k hist) = []" by (auto simp: filter_empty_conv dest: in_set_dropD)
    then show ?thesis using True skip [of i] evs by (simp add: last_sent_def)
  next
    case False
    then have "last evs \<in> set evs" by simp
    then have l: "last evs \<in> set hist" "i < ident (last evs)" using evs by auto
    obtain ys y where hs: "hist = ys @ [y]" using l(1) by (cases hist rule: rev_cases) auto
    have ys: "\<forall>x \<in> set ys. ident x < ident y" using ord by (simp add: hs sorted_wrt_append)
    then have "ident (last evs) \<le> ident y" using l(1) hs by auto
    with l(2) have "i < ident y" by order
    then have "last evs = y" using evs hs by simp
    then have "filter (\<lambda>e. ident (last evs) < ident e) (drop k hist) = []"
      using ys hs by (fastforce simp: filter_empty_conv dest: in_set_dropD)
    moreover have gt: "\<forall>x \<in> set fut. ident (last evs) < ident x" using ord l(1) by (auto simp: sorted_wrt_append)
    then have "filter (\<lambda>e. ident (last evs) < ident e) fut = fut" and "filter (\<lambda>e. i < ident e) fut = fut"
      using l(2) by (auto simp: filter_id_conv)
    ultimately show ?thesis using False skip [of "ident (last evs)"] evs by (simp add: last_sent_def)
  qed
qed

end

lemma history_sorted: "history_ids hist \<Longrightarrow> sorted_wrt (\<lambda>a b. ev_ID a < ev_ID b) hist"
  unfolding sorted_wrt_iff_nth_less
proof (intro allI impI)
  fix a b
  assume h: "history_ids hist" and ab: "a < b" "b < length hist"
  have "map ev_ID hist ! a = of_nat (Suc a)" using h ab unfolding history_ids_def by (simp del: upt_Suc)
  then have "ev_ID (hist ! a) = of_nat (Suc a)" using ab by simp
  moreover have "Suc a < 2 ^ 64" using h ab by (simp add: history_ids_def)
  ultimately have "unat (ev_ID (hist ! a)) = Suc a" by (simp only: unat_of_nat) simp
  then show "ev_ID (hist ! a) < ev_ID (hist ! b)" using id_less_iff [OF h ab(2)] ab(1) by simp
qed

interpretation hub_log: replay_log hub_inv ev_ID Since
proof (unfold_locales, goal_cases)
  case (1 hist h)
  then show ?case by (intro history_sorted) (simp add: hub_inv_def)
next
  case (2 hist h i evs)
  then have "evs = drop (unat i) hist"
    by (auto simp: Since_eq max_def split: if_splits)
  moreover have "history_ids hist" using 2 by (simp add: hub_inv_def)
  ultimately show ?case by (simp add: after_id)
qed

lemma send_live_skip: "send_live es i = hub_log.skip_sent es i"
  by (induction es i rule: send_live.induct) auto

lemma send_missed_eq: "send_missed evs i = (evs, hub_log.last_sent i evs)"
  by (induction evs i rule: send_missed.induct) (auto simp: hub_log.last_sent_def)

fun publish_all :: "(int \<times> string \<times> 'd) list \<Rightarrow> 'd hub \<Rightarrow> 'd event list \<times> 'd hub" where
  "publish_all [] h = ([], h)"
| "publish_all ((now, kind, data) # ms) h =
     (let (ev, h1) = Publish now kind data h; (evs, h2) = publish_all ms h1 in (ev # evs, h2))"

lemma publish_all_inv:
  assumes "hub_inv hist h" and "length hist + length ms < 2 ^ 64" and "publish_all ms h = (evs, h')"
  shows "hub_inv (hist @ evs) h' \<and> length evs = length ms"
  using assms
proof (induction ms h arbitrary: hist evs rule: publish_all.induct)
  case (1 h)
  then show ?case by simp
next
  case (2 now kind data ms h)
  let ?p = "Publish now kind data h"
  obtain evs' where evs': "publish_all ms (snd ?p) = (evs', h')" "evs = fst ?p # evs'"
    using "2.prems"(3) by (auto simp: Let_def split: prod.splits)
  have "hub_inv (hist @ [fst ?p]) (snd ?p)" by (rule Publish_inv) (use "2.prems" in simp_all)
  then have "hub_inv ((hist @ [fst ?p]) @ evs') h' \<and> length evs' = length ms"
    using "2.IH" [of ?p "fst ?p" "snd ?p" "hist @ [fst ?p]" evs'] "2.prems"(2) evs'(1) by simp
  then show ?case using evs'(2) by simp
qed

lemma publish_all_NewHub:
  "length ms < 2 ^ 64 \<Longrightarrow> publish_all ms NewHub = (hist, h) \<Longrightarrow> hub_inv hist h \<and> length hist = length ms"
  using publish_all_inv [OF hub_inv_NewHub, of ms hist h] by simp

text \<open>C20. The ring never lies about what it lost. After any number of events published from an empty
  hub, a replay from an id returns, oldest first, the events after that id among the last 4096, and
  once anything was published it is marked complete exactly when those are all the events after that
  id.\<close>

theorem Since_never_lies:
  assumes "length ms < 2 ^ 64" and "publish_all ms NewHub = (hist, h)"
  shows "case Since h i of (evs, complete) \<Rightarrow>
      evs = filter (\<lambda>e. i < ev_ID e) (drop (length hist - 4096) hist)
      \<and> (ms \<noteq> [] \<longrightarrow> (complete \<longleftrightarrow> evs = filter (\<lambda>e. i < ev_ID e) hist))"
proof -
  let ?m = "length hist - ringSize"
  have inv: "hub_inv hist h" and len: "length hist = length ms" using publish_all_NewHub [OF assms] by simp_all
  then have hid: "history_ids hist" by (simp add: hub_inv_def)
  have f: "filter (\<lambda>e. i < ev_ID e) (drop ?m hist) = drop (max ?m (unat i)) hist" by (rule after_id_drop [OF hid]) simp
  have iff: "?m \<le> unat i \<longleftrightarrow> drop (max ?m (unat i)) hist = drop (unat i) hist" if "ms \<noteq> []"
  proof
    assume eq: "drop (max ?m (unat i)) hist = drop (unat i) hist"
    have "?m < length hist" using that len by (auto simp: ringSize_def)
    then show "?m \<le> unat i" using arg_cong [OF eq, of length] by (auto simp: max_def split: if_splits)
  qed (simp add: max_def)
  have "(if hist = [] then i = 0 else ?m \<le> unat i) \<longleftrightarrow> drop (max ?m (unat i)) hist = drop (unat i) hist" if ne: "ms \<noteq> []"
  proof -
    have "hist \<noteq> []" using ne len by auto
    then have "(if hist = [] then i = 0 else ?m \<le> unat i) = (?m \<le> unat i)" by (rule if_not_P)
    then show ?thesis using iff [OF ne] by (rule trans)
  qed
  then show ?thesis
    unfolding Since_eq [OF inv] prod.case after_id [OF hid] f [unfolded ringSize_def] ringSize_def
    by (intro conjI impI refl)
qed

theorem Since_never_lies_witness:
  "let (hist, h) = publish_all [(1, ''log'', 10), (2, ''disc'', 20), (3, ''log'', 30 :: int)] NewHub
   in case Since h 1 of (evs, complete) \<Rightarrow> map ev_Data evs = [20, 30] \<and> complete"
proof -
  let ?ms = "[(1, ''log'', 10), (2, ''disc'', 20), (3, ''log'', 30 :: int)]"
  obtain hist h where p: "publish_all ?ms NewHub = (hist, h)" by fastforce
  obtain evs c where s: "Since h 1 = (evs, c)" by fastforce
  have "map ev_Data (filter (\<lambda>e. 1 < ev_ID e) (fst (publish_all ?ms NewHub))) = [20, 30]"
    and "length (fst (publish_all ?ms NewHub)) = 3" by code_simp+
  then have d: "map ev_Data (filter (\<lambda>e. 1 < ev_ID e) hist) = [20, 30]" and l: "length hist = 3" by (simp_all only: p fst_conv)
  have "evs = filter (\<lambda>e. 1 < ev_ID e) (drop (length hist - 4096) hist) \<and> (c \<longleftrightarrow> evs = filter (\<lambda>e. 1 < ev_ID e) hist)"
    using Since_never_lies [OF _ p, of 1] s by simp
  then have "evs = filter (\<lambda>e. 1 < ev_ID e) hist" and c by (simp_all add: l)
  then show ?thesis unfolding Let_def p prod.case s using d by simp
qed



text \<open>A cursor the hub has never reached, such as one kept from before the daemon restarted, is taken
  for one that is up to date: once the new hub has published anything, the client is not told to
  reconcile, is replayed nothing, and is sent no live event until the ids have passed its cursor.\<close>

theorem stale_cursor_is_trusted:
  assumes "length ms < 2 ^ 64" and "publish_all ms NewHub = (hist, h)" and "ms \<noteq> []" and "hb_nextID h \<le> from"
    and "sorted_wrt (\<lambda>a b. ev_ID a < ev_ID b) live"
  shows "events_stream from h live = HelloFrame (LastID h) # map EventFrame (filter (\<lambda>e. from < ev_ID e) live)"
proof -
  have inv: "hub_inv hist h" and len: "length hist = length ms" using publish_all_NewHub [OF assms(1,2)] by simp_all
  have "unat (hb_nextID h) = length hist"
    using inv assms(1) len unfolding hub_inv_def by (simp add: unat_of_nat)
  then have "length hist \<le> unat from" using assms(4) by (simp add: word_le_nat_alt)
  moreover have "hist \<noteq> []" using len assms(3) by auto
  ultimately have "Since h from = ([], True)" by (simp add: Since_eq [OF inv])
  then show ?thesis using hub_log.skip_sent_sorted [OF assms(5), of "from"]
    by (simp add: events_stream_def send_live_skip)
qed

theorem stale_cursor_is_trusted_witness:
  "\<exists>hist h. publish_all [(1, ''log'', 10), (2, ''disc'', 20 :: int)] NewHub = (hist, h)
     \<and> events_stream 500 h [\<lparr>ev_ID = 3, ev_Kind = ''disc'', ev_At = 3, ev_Data = 30\<rparr>] = [HelloFrame (LastID h)]"
proof -
  let ?ms = "[(1, ''log'', 10), (2, ''disc'', 20 :: int)]"
  obtain hist h where p: "publish_all ?ms NewHub = (hist, h)" by fastforce
  have "hb_nextID (snd (publish_all ?ms NewHub)) \<le> 500" by code_simp
  then have "hb_nextID h \<le> 500" by (simp only: p snd_conv)
  from stale_cursor_is_trusted [OF _ p _ this, of "[\<lparr>ev_ID = 3, ev_Kind = ''disc'', ev_At = 3, ev_Data = 30\<rparr>]"] p
  show ?thesis by simp
qed

end
