(* ===== verification/Server.thy ===== *)
theory Server
  imports Daemon Makemkv_Key Transcode_Runner Hub
begin

text \<open>
  \<^verbatim>\<open>internal/daemon/server.go\<close> and \<^verbatim>\<open>http.go\<close>, the routes of \<^verbatim>\<open>internal/api/server.go\<close> and \<^verbatim>\<open>internal/proto\<close>: what the daemon
  does about a request over the socket or over HTTP, and how a message reaches those who subscribed.

  A request comes with its parameters decoded, \<^const>\<open>None\<close> where the decoding failed; a field that is absent is empty or
  0. The one database is \<^verbatim>\<open>sv_db\<close>, lent to the drives' and the runner's part of the state for the time of a call. What
  the tray, the drives and the health checks answer is an argument. The lemmas show that every request keeps the store
  well formed and asks of it what it says, that HTTP and the socket do the same, and that no message is sent on a channel
  that is closed.
\<close>

section \<open>State\<close>

record server =
  sv_db :: store
  sv_drives :: daemon
  sv_workers :: "string \<Rightarrow> worker"
  sv_runner :: runner
  sv_encoding :: bool
  sv_encode_cancelled :: bool
  sv_health :: "health list"
  sv_key :: key_state
  sv_events :: "(string \<times> string) list"

record request =
  rq_ID :: int
  rq_Method :: string
  rq_Limit :: int
  rq_Drive :: string
  rq_Fingerprint :: "string option"
  rq_Job :: "int option"

record request_env =
  qe_now :: int
  qe_ejects :: bool
  qe_eject_error :: string
  qe_running :: bool
  qe_sysfs :: sysfs
  qe_discover_error :: string
  qe_health :: health_env
  qe_free :: int

record daemon_status =
  ds_Drives :: "drive_status list"
  ds_Health :: "health list"
  ds_Transcode :: transcode_snapshot
  ds_DiscsRipped :: nat
  ds_RipsDir :: string
  ds_FreeBytes :: int

datatype reply =
    ReplyStatus daemon_status
  | ReplyJobs "job_summary list"
  | ReplyEvents "event_row list"
  | ReplyFailures "failure list"
  | ReplyQueue "transcode_summary list"
  | ReplyDisc disc_record
  | ReplyText string string

definition plural :: "nat \<Rightarrow> string" where
  "plural n = (if n = 1 then [] else ''s'')"

text \<open>\<^verbatim>\<open>logEvent\<close>: an event of the store, whose failure is only printed, and a message to whoever follows.\<close>

definition log_event :: "int \<Rightarrow> string \<Rightarrow> string \<Rightarrow> server \<Rightarrow> server" where
  "log_event now lv msg s =
     s\<lparr>sv_db := or_rollback (sv_db s) (LogEvent now lv msg None None (sv_db s)), sv_events := sv_events s @ [(lv, msg)]\<rparr>"

section \<open>Requests\<close>

definition status :: "config \<Rightarrow> request_env \<Rightarrow> server \<Rightarrow> daemon_status" where
  "status cfg env s =
     \<lparr>ds_Drives = map (\<lambda>w. wk_status (sv_workers s (dv_StableID (wa_drv w)))) (snapshotWorkers (sv_drives s)),
      ds_Health = sv_health s, ds_Transcode = rn_snap (sv_runner s), ds_DiscsRipped = CompletedCount (sv_db s),
      ds_RipsDir = RipsDir cfg, ds_FreeBytes = qe_free env\<rparr>"

fun request_error_text :: "request_env \<Rightarrow> string \<Rightarrow> request_error \<Rightarrow> string" where
  "request_error_text env label IsBusy = label @ '' is busy; cancel the rip first''"
| "request_error_text env label NothingToCancel = label @ '' is not doing anything to cancel''"
| "request_error_text env label EjectFailed = qe_eject_error env"

fun requeue_error_text :: "string \<Rightarrow> requeue_error \<Rightarrow> string" where
  "requeue_error_text dir TranscodingOff = ''transcoding is off; set transcode = true to use this''"
| "requeue_error_text dir (UnknownDisc f) = ''no disc with fingerprint '' @ f"
| "requeue_error_text dir (NotRipped n) = n @ '' has no completed rip to transcode from''"
| "requeue_error_text dir (NoTitles n) = n @ '' has no verified titles''"
| "requeue_error_text dir (RipGone n) = ''none of the titles of '' @ n @ '' are still on disk under '' @ dir"
| "requeue_error_text dir (RequeueStore e) = store_error_text e"

text \<open>What a worker is asked to do, by the name of its drive.\<close>

definition on_worker :: "request_env \<Rightarrow> string \<Rightarrow> (worker \<Rightarrow> request_error option \<times> worker) \<Rightarrow> server \<Rightarrow> (string + string) \<times> server" where
  "on_worker env name f s =
     (case workerFor name (sv_drives s) of
        Inl e \<Rightarrow> (Inl e, s)
      | Inr wa \<Rightarrow>
          (let i = dv_StableID (wa_drv wa)
           in case f (sv_workers s i) of
                (Some e, w) \<Rightarrow> (Inl (request_error_text env (wa_label wa) e), s\<lparr>sv_workers := (sv_workers s)(i := w)\<rparr>)
              | (None, w) \<Rightarrow> (Inr (wa_label wa), s\<lparr>sv_workers := (sv_workers s)(i := w)\<rparr>)))"

definition CancelTranscode :: "server \<Rightarrow> string option \<times> server" where
  "CancelTranscode s =
     (if \<not> sv_encoding s then (Some ''nothing is being transcoded'', s) else (None, s\<lparr>sv_encode_cancelled := True\<rparr>))"

fun sync_error_text :: "request_env \<Rightarrow> sync_error \<Rightarrow> string" where
  "sync_error_text env DiscoverFailed = qe_discover_error env"
| "sync_error_text env (SyncStore e) = store_error_text e"

definition rescan :: "config \<Rightarrow> encoder \<Rightarrow> request_env \<Rightarrow> server \<Rightarrow> (string + string) \<times> server" where
  "rescan cfg e env s =
     (let before = length (snapshotWorkers (sv_drives s));
          (err, d) = (if qe_running env then syncDrives cfg (qe_now env) (qe_sysfs env) ((sv_drives s)\<lparr>da_db := sv_db s\<rparr>)
                      else (Inr (), (sv_drives s)\<lparr>da_db := sv_db s\<rparr>));
          s1 = s\<lparr>sv_drives := d, sv_db := da_db d\<rparr>
      in case err of
           Inl x \<Rightarrow> (Inl (''drive discovery failed: '' @ sync_error_text env x), s1)
         | Inr u \<Rightarrow>
             (let (hs, k) = runHealthChecks cfg e (qe_health env) (length (snapshotWorkers d)) (sv_key s1);
                  after = length (snapshotWorkers d)
              in (Inr (nat_str after @ '' drive'' @ plural after
                       @ (if after > before then '', '' @ nat_str (after - before) @ '' newly found'' else [])),
                  s1\<lparr>sv_health := hs, sv_key := k\<rparr>)))"

definition forget_text :: "string \<Rightarrow> string" where
  "forget_text fp = ''disc '' @ take (min 12 (length fp)) fp @ '' forgotten; it will be ripped again''"

definition forget :: "request_env \<Rightarrow> string \<Rightarrow> server \<Rightarrow> (string + string) \<times> server" where
  "forget env fp s =
     (case ForgetDisc fp (sv_db s) of
        Inl e \<Rightarrow> (Inl (store_error_text e), s)
      | Inr db \<Rightarrow> (Inr fp, log_event (qe_now env) ''info'' (forget_text fp) (s\<lparr>sv_db := db\<rparr>)))"

definition queue_retry :: "int \<Rightarrow> server \<Rightarrow> (string + string) \<times> server" where
  "queue_retry i s =
     (case TranscodeJobByID i (sv_db s) of
        None \<Rightarrow> (Inl (''no queued job '' @ int_str i), s)
      | Some job \<Rightarrow>
          if tc_state job = TranscodeRunning then (Inl (''job '' @ int_str i @ '' is running; cancel it first''), s)
          else let db = ResetTranscodeAttempts i (sv_db s)
               in (Inr (''title '' @ int_str (tc_title_index job)),
                   s\<lparr>sv_db := db, sv_runner := nudgeTranscoder (refreshTranscodeCounts ((sv_runner s)\<lparr>rn_db := db\<rparr>))\<rparr>))"

definition transcode_again :: "config \<Rightarrow> request_env \<Rightarrow> string \<Rightarrow> server \<Rightarrow> (string + string) \<times> server" where
  "transcode_again cfg env fp s =
     (case requeueDisc cfg (qe_now env) fp ((sv_runner s)\<lparr>rn_db := sv_db s\<rparr>) of
        (Inl e, r) \<Rightarrow> (Inl (requeue_error_text (case FindDisc fp (sv_db s) of None \<Rightarrow> [] | Some rec \<Rightarrow> r_RipDir rec) e), s\<lparr>sv_runner := r, sv_db := rn_db r\<rparr>)
      | (Inr (n, name), r) \<Rightarrow>
          (Inr (nat_str n @ '' title'' @ plural n @ '' of '' @ name), s\<lparr>sv_runner := r, sv_db := rn_db r\<rparr>))"

text \<open>\<^verbatim>\<open>handle\<close>, every method of the protocol but \<^verbatim>\<open>subscribe\<close>, which is the connection's own.\<close>

definition handle :: "config \<Rightarrow> encoder \<Rightarrow> request_env \<Rightarrow> request \<Rightarrow> server \<Rightarrow> (string + reply) \<times> server" where
  "handle cfg e env rq s =
     (let m = rq_Method rq; say = (\<lambda>key (r, s'). (map_sum id (ReplyText key) r, s'))
      in if m = ''status'' then (Inr (ReplyStatus (status cfg env s)), s)
         else if m = ''history'' then (Inr (ReplyJobs (RecentJobs (rq_Limit rq) (sv_db s))), s)
         else if m = ''events'' then (Inr (ReplyEvents (RecentEvents (rq_Limit rq) (sv_db s))), s)
         else if m = ''eject'' then say ''ejected'' (on_worker env (rq_Drive rq) (Eject (qe_ejects env)) s)
         else if m = ''cancel'' then say ''cancelled'' (on_worker env (rq_Drive rq) Cancel s)
         else if m = ''forget'' then
           (case rq_Fingerprint rq of
              None \<Rightarrow> (Inl ''forget needs a fingerprint'', s)
            | Some fp \<Rightarrow> if fp = [] then (Inl ''forget needs a fingerprint'', s) else say ''forgot'' (forget env fp s))
         else if m = ''disc.get'' then
           (case rq_Fingerprint rq of
              None \<Rightarrow> (Inl ''disc.get needs a fingerprint'', s)
            | Some fp \<Rightarrow>
                if fp = [] then (Inl ''disc.get needs a fingerprint'', s)
                else case FindDisc fp (sv_db s) of
                       None \<Rightarrow> (Inl (''no disc with fingerprint '' @ fp), s)
                     | Some rec \<Rightarrow> (Inr (ReplyDisc rec), s))
         else if m = ''rescan'' then say ''rescanned'' (rescan cfg e env s)
         else if m = ''failures'' then (Inr (ReplyFailures (Failures (rq_Limit rq) (sv_db s))), s)
         else if m = ''queue'' then (Inr (ReplyQueue (TranscodeJobs (rq_Limit rq) (sv_db s))), s)
         else if m = ''queue.cancel'' then
           (case CancelTranscode s of
              (Some err, s') \<Rightarrow> (Inl err, s')
            | (None, s') \<Rightarrow> (Inr (ReplyText ''cancelled'' ''the transcode in progress''), s'))
         else if m = ''queue.retry'' then
           (case rq_Job rq of
              None \<Rightarrow> (Inl ''retry needs a job id'', s)
            | Some i \<Rightarrow> if i = 0 then (Inl ''retry needs a job id'', s) else say ''requeued'' (queue_retry i s))
         else if m = ''transcode'' then
           (case rq_Fingerprint rq of
              None \<Rightarrow> (Inl ''transcode needs a fingerprint'', s)
            | Some fp \<Rightarrow> if fp = [] then (Inl ''transcode needs a fingerprint'', s)
                         else say ''queued'' (transcode_again cfg env fp s))
         else if m = ''retry'' then (Inl ''retry is not implemented yet; eject and reinsert the disc'', s)
         else (Inl (''unknown method '' @ go_quote m), s))"

record response =
  rs_ID :: int
  rs_OK :: bool
  rs_Error :: string
  rs_Result :: "reply option"

text \<open>What \<^verbatim>\<open>handleConn\<close> answers to a line that is a request.\<close>

definition respond :: "config \<Rightarrow> encoder \<Rightarrow> request_env \<Rightarrow> request \<Rightarrow> server \<Rightarrow> response \<times> server" where
  "respond cfg e env rq s =
     (case handle cfg e env rq s of
        (Inl err, s') \<Rightarrow> (\<lparr>rs_ID = rq_ID rq, rs_OK = False, rs_Error = err, rs_Result = None\<rparr>, s')
      | (Inr r, s') \<Rightarrow> (\<lparr>rs_ID = rq_ID rq, rs_OK = True, rs_Error = [], rs_Result = Some r\<rparr>, s'))"

section \<open>HTTP\<close>

text \<open>An error of the backend: whether it is \<^verbatim>\<open>ErrNotFound\<close>, and its text.\<close>

type_synonym api_error = "bool \<times> string"

definition api_Drives :: "config \<Rightarrow> request_env \<Rightarrow> server \<Rightarrow> drive_status list" where
  "api_Drives cfg env s = ds_Drives (status cfg env s)"

definition api_Health :: "config \<Rightarrow> request_env \<Rightarrow> server \<Rightarrow> health list" where
  "api_Health cfg env s = ds_Health (status cfg env s)"

definition api_Disc :: "string \<Rightarrow> server \<Rightarrow> api_error + disc_record" where
  "api_Disc fp s =
     (if fp = [] then Inl (False, ''a fingerprint is required'')
      else case FindDisc fp (sv_db s) of
             None \<Rightarrow> Inl (True, ''no disc with fingerprint '' @ fp @ '': not found'')
           | Some rec \<Rightarrow> Inr rec)"

definition api_on_worker :: "request_env \<Rightarrow> string \<Rightarrow> (worker \<Rightarrow> request_error option \<times> worker) \<Rightarrow> server \<Rightarrow> api_error option \<times> server" where
  "api_on_worker env name f s =
     (case workerFor name (sv_drives s) of
        Inl e \<Rightarrow> (Some (True, e @ '': not found''), s)
      | Inr wa \<Rightarrow> (case on_worker env name f s of (Inl e, s') \<Rightarrow> (Some (False, e), s') | (Inr l, s') \<Rightarrow> (None, s')))"

definition api_Rescan :: "config \<Rightarrow> encoder \<Rightarrow> request_env \<Rightarrow> server \<Rightarrow> api_error option \<times> server" where
  "api_Rescan cfg e env s = (case rescan cfg e env s of (Inl err, s') \<Rightarrow> (Some (False, err), s') | (Inr t, s') \<Rightarrow> (None, s'))"

definition api_Forget :: "request_env \<Rightarrow> string \<Rightarrow> server \<Rightarrow> api_error option \<times> server" where
  "api_Forget env fp s =
     (if fp = [] then (Some (False, ''a fingerprint is required''), s)
      else case ForgetDisc fp (sv_db s) of
             Inl e \<Rightarrow> (Some (False, store_error_text e), s)
           | Inr db \<Rightarrow>
               (None, log_event (qe_now env) ''info''
                        (''disc '' @ (if length fp > 12 then take 12 fp else fp) @ '' forgotten; it will be ripped again'')
                        (s\<lparr>sv_db := db\<rparr>)))"

record 'a envelope =
  nv_OK :: bool
  nv_Data :: "'a option"
  nv_Error :: string
  nv_LastEventID :: "64 word"

text \<open>\<^verbatim>\<open>read\<close>, \<^verbatim>\<open>act\<close> and \<^verbatim>\<open>fail\<close>: the status code and the envelope. \<^verbatim>\<open>before\<close> and \<^verbatim>\<open>after\<close> are the last event when the request
  came in and when its handler was done.\<close>

definition fail_code :: "api_error \<Rightarrow> nat" where
  "fail_code err = (if fst err then 404 else 500)"

definition api_read :: "64 word \<Rightarrow> 64 word \<Rightarrow> api_error + 'a \<Rightarrow> nat \<times> 'a envelope" where
  "api_read before after r =
     (case r of
        Inl err \<Rightarrow> (fail_code err, \<lparr>nv_OK = False, nv_Data = None, nv_Error = snd err, nv_LastEventID = after\<rparr>)
      | Inr d \<Rightarrow> (200, \<lparr>nv_OK = True, nv_Data = Some d, nv_Error = [], nv_LastEventID = before\<rparr>))"

definition api_act :: "64 word \<Rightarrow> api_error option \<Rightarrow> nat \<times> unit envelope" where
  "api_act after r =
     (case r of
        Some err \<Rightarrow> (fail_code err, \<lparr>nv_OK = False, nv_Data = None, nv_Error = snd err, nv_LastEventID = after\<rparr>)
      | None \<Rightarrow> (200, \<lparr>nv_OK = True, nv_Data = None, nv_Error = [], nv_LastEventID = after\<rparr>))"

section \<open>What a request may change\<close>

definition server_ok :: "server \<Rightarrow> bool" where
  "server_ok s \<longleftrightarrow> daemon_ok ((sv_drives s)\<lparr>da_db := sv_db s\<rparr>)"

lemma server_ok_store: "server_ok s \<Longrightarrow> store_ok (sv_db s)"
  by (simp add: server_ok_def daemon_ok_def)

text \<open>An operation on the store alone keeps the server in order when it keeps the store in order and every drive in it.\<close>

lemma server_ok_db:
  assumes "server_ok s" "store_ok db" "drives db = drives (sv_db s)" "sv_drives s' = sv_drives s" "sv_db s' = db"
  shows "server_ok s'"
  using assms by (auto simp: server_ok_def daemon_ok_def has_drive_iff)

lemma on_worker_frame: "sv_db (snd (on_worker env n f s)) = sv_db s \<and> sv_drives (snd (on_worker env n f s)) = sv_drives s"
  by (auto simp: on_worker_def Let_def split: sum.splits prod.splits option.splits)

lemma LogEvent_frame: "LogEvent now lv msg j d db = Inr db' \<Longrightarrow> drives db' = drives db"
  by (auto simp: LogEvent_def split: if_splits)

lemma log_event_ok: "server_ok s \<Longrightarrow> server_ok (log_event now lv msg s)"
proof -
  assume ok: "server_ok s"
  show ?thesis
  proof (cases "LogEvent now lv msg None None (sv_db s)")
    case (Inl e)
    then show ?thesis using ok by (simp add: log_event_def or_rollback_def server_ok_def)
  next
    case (Inr db)
    show ?thesis
      by (rule server_ok_db [OF ok LogEvent_ok [OF server_ok_store [OF ok] Inr] LogEvent_frame [OF Inr]])
        (simp_all add: log_event_def or_rollback_def Inr)
  qed
qed

lemma ForgetDisc_drives: "ForgetDisc fp db = Inr db' \<Longrightarrow> drives db' = drives db"
  by (auto simp: ForgetDisc_def Let_def update_disc_def split: option.splits sum.splits)

lemma forget_ok: "server_ok s \<Longrightarrow> server_ok (snd (forget env fp s))"
proof -
  assume ok: "server_ok s"
  have "server_ok (s\<lparr>sv_db := db\<rparr>)" if "ForgetDisc fp (sv_db s) = Inr db" for db
    by (rule server_ok_db [OF ok ForgetDisc_ok [OF server_ok_store [OF ok] that]]) (simp_all add: ForgetDisc_drives [OF that])
  then show ?thesis using ok by (auto simp: forget_def log_event_ok split: sum.splits)
qed

lemma queue_retry_ok: "server_ok s \<Longrightarrow> server_ok (snd (queue_retry i s))"
proof -
  assume ok: "server_ok s"
  have "store_ok (ResetTranscodeAttempts i (sv_db s))" "drives (ResetTranscodeAttempts i (sv_db s)) = drives (sv_db s)"
    using update_transcode_ok [OF server_ok_store [OF ok]]
    by (simp_all add: ResetTranscodeAttempts_def update_transcode_def)
  then show ?thesis using ok
    by (auto simp: queue_retry_def Let_def split: option.splits if_splits intro!: server_ok_db [OF ok])
qed

lemma requeue_titles_frame:
  "store_ok (rn_db s) \<Longrightarrow> requeue_titles now d dir nm is q s = (r, s') \<Longrightarrow> store_ok (rn_db s') \<and> drives (rn_db s') = drives (rn_db s)"
proof (induction "is" arbitrary: q s)
  case (Cons i "is")
  have keep: "drives db = drives (rn_db s)" if "QueueTranscode now d i ''default'' src (rn_db s) = Inr db" for db src
    using that by (auto simp: QueueTranscode_def Let_def split: if_splits)
  show ?case using Cons.prems keep QueueTranscode_ok [OF Cons.prems(1)]
    by (auto simp: Let_def split: if_splits sum.splits dest!: Cons.IH [rotated])
qed simp

lemma requeueDisc_frame:
  "store_ok (rn_db s) \<Longrightarrow> store_ok (rn_db (snd (requeueDisc cfg now fp s))) \<and> drives (rn_db (snd (requeueDisc cfg now fp s))) = drives (rn_db s)"
  by (auto simp: requeueDisc_def Let_def split: option.splits prod.splits dest: requeue_titles_frame)

lemma transcode_again_ok: "server_ok s \<Longrightarrow> server_ok (snd (transcode_again cfg env fp s))"
proof -
  assume ok: "server_ok s"
  define r where "r = requeueDisc cfg (qe_now env) fp ((sv_runner s)\<lparr>rn_db := sv_db s\<rparr>)"
  have "store_ok (rn_db (snd r)) \<and> drives (rn_db (snd r)) = drives (sv_db s)"
    using requeueDisc_frame [of "(sv_runner s)\<lparr>rn_db := sv_db s\<rparr>"] server_ok_store [OF ok] by (simp add: r_def)
  then show ?thesis
    by (intro server_ok_db [OF ok]) (auto simp: transcode_again_def r_def [symmetric] split: sum.splits prod.splits)
qed

lemma rescan_ok: "server_ok s \<Longrightarrow> server_ok (snd (rescan cfg e env s))"
proof -
  assume ok: "server_ok s"
  define d where "d = snd (if qe_running env then syncDrives cfg (qe_now env) (qe_sysfs env) ((sv_drives s)\<lparr>da_db := sv_db s\<rparr>)
                      else (Inr (), (sv_drives s)\<lparr>da_db := sv_db s\<rparr>))"
  have "daemon_ok d" using ok unfolding server_ok_def d_def
    by (auto simp: syncDrives_def split: option.splits prod.splits sum.splits dest: sync_drives_steps)
  moreover have "sv_drives (snd (rescan cfg e env s)) = d \<and> sv_db (snd (rescan cfg e env s)) = da_db d"
    by (auto simp: rescan_def d_def [symmetric] Let_def split: prod.splits sum.splits) (auto simp: d_def)
  ultimately show ?thesis by (simp add: server_ok_def)
qed

text \<open>Where a request can lead.\<close>

lemma handle_state:
  obtains (same) "snd (handle cfg e env rq s) = s"
  | (eject) "rq_Method rq = ''eject''" "snd (handle cfg e env rq s) = snd (on_worker env (rq_Drive rq) (Eject (qe_ejects env)) s)"
  | (cancel) "rq_Method rq = ''cancel''" "snd (handle cfg e env rq s) = snd (on_worker env (rq_Drive rq) Cancel s)"
  | (forget) fp where "rq_Method rq = ''forget''" "rq_Fingerprint rq = Some fp" "snd (handle cfg e env rq s) = snd (forget env fp s)"
  | (rescan) "rq_Method rq = ''rescan''" "snd (handle cfg e env rq s) = snd (rescan cfg e env s)"
  | (stop) "rq_Method rq = ''queue.cancel''" "snd (handle cfg e env rq s) = snd (CancelTranscode s)"
  | (retry) i where "rq_Method rq = ''queue.retry''" "rq_Job rq = Some i" "snd (handle cfg e env rq s) = snd (queue_retry i s)"
  | (again) fp where "rq_Method rq = ''transcode''" "rq_Fingerprint rq = Some fp" "snd (handle cfg e env rq s) = snd (transcode_again cfg env fp s)"
proof -
  consider "rq_Method rq = ''eject''" | "rq_Method rq = ''cancel''" | "rq_Method rq = ''forget''" | "rq_Method rq = ''rescan''"
    | "rq_Method rq = ''queue.cancel''" | "rq_Method rq = ''queue.retry''" | "rq_Method rq = ''transcode''" | "rq_Method rq = ''disc.get''"
    | "rq_Method rq \<notin> {''eject'', ''cancel'', ''forget'', ''rescan'', ''queue.cancel'', ''queue.retry'', ''transcode'', ''disc.get''}"
    by auto
  then show thesis
  proof cases
    case 1 then show ?thesis using eject by (simp add: handle_def case_prod_unfold)
  next
    case 2 then show ?thesis using cancel by (simp add: handle_def case_prod_unfold)
  next
    case 3 then show ?thesis using forget same by (cases "rq_Fingerprint rq"; cases "rq_Fingerprint rq = Some []") (auto simp: handle_def case_prod_unfold)
  next
    case 4 then show ?thesis using rescan by (simp add: handle_def case_prod_unfold)
  next
    case 5 then show ?thesis using stop by (auto simp: handle_def split: prod.splits option.splits)
  next
    case 6 then show ?thesis using retry same by (cases "rq_Job rq"; cases "rq_Job rq = Some 0") (auto simp: handle_def case_prod_unfold)
  next
    case 7 then show ?thesis using again same by (cases "rq_Fingerprint rq"; cases "rq_Fingerprint rq = Some []") (auto simp: handle_def case_prod_unfold)
  next
    case 8 then show ?thesis using same by (auto simp: handle_def split: option.splits if_splits)
  next
    case 9
    then have "snd (handle cfg e env rq s) = s" by (simp add: handle_def Let_def)
    then show ?thesis by (rule same)
  qed
qed

text \<open>Whatever a client asks for, the database stays well formed and every worker's drive stays in it; a request that asks for something to be shown changes nothing at all, and only \<^verbatim>\<open>forget\<close>, \<^verbatim>\<open>rescan\<close>,
  \<^verbatim>\<open>queue.retry\<close> and \<^verbatim>\<open>transcode\<close> touch the database.\<close>

theorem handle_keeps_server_ok:
  assumes "server_ok s"
  shows "server_ok (snd (handle cfg e env rq s)) \<and>
    (rq_Method rq \<notin> {''eject'', ''cancel'', ''forget'', ''rescan'', ''queue.cancel'', ''queue.retry'', ''transcode''}
       \<longrightarrow> snd (handle cfg e env rq s) = s) \<and>
    (rq_Method rq \<notin> {''forget'', ''rescan'', ''queue.retry'', ''transcode''} \<longrightarrow> sv_db (snd (handle cfg e env rq s)) = sv_db s)"
proof -
  have worker: "server_ok (snd (on_worker env n f s)) \<and> sv_db (snd (on_worker env n f s)) = sv_db s" for n f
    using on_worker_frame [of env n f s] assms by (simp add: server_ok_def)
  have stopped: "server_ok (snd (CancelTranscode s)) \<and> sv_db (snd (CancelTranscode s)) = sv_db s"
    using assms by (simp add: CancelTranscode_def server_ok_def)
  from handle_state [of cfg e env rq s] show ?thesis
    by cases (use assms worker stopped forget_ok rescan_ok queue_retry_ok transcode_again_ok in simp_all)
qed

text \<open>What HTTP offers is what the socket does: the same effect on the daemon, and success in the same cases.\<close>

theorem api_does_what_the_socket_does:
  assumes "fp \<noteq> []"
  shows "api_Forget env fp s = (map_option (\<lambda>e. (False, e)) (case fst (forget env fp s) of Inl x \<Rightarrow> Some x | Inr _ \<Rightarrow> None), snd (forget env fp s)) \<and>
    snd (api_on_worker env name f s) = snd (on_worker env name f s) \<and>
    (fst (api_on_worker env name f s) = None \<longleftrightarrow> \<not> isl (fst (on_worker env name f s))) \<and>
    snd (api_Rescan cfg e env s) = snd (rescan cfg e env s) \<and>
    (fst (api_Rescan cfg e env s) = None \<longleftrightarrow> \<not> isl (fst (rescan cfg e env s))) \<and>
    (\<not> isl (api_Disc fp s) \<longleftrightarrow> FindDisc fp (sv_db s) \<noteq> None)"
proof -
  have "''disc '' @ (if length fp > 12 then take 12 fp else fp) @ '' forgotten; it will be ripped again'' = forget_text fp"
    by (simp add: forget_text_def min_def)
  then have "api_Forget env fp s = (map_option (\<lambda>e. (False, e)) (case fst (forget env fp s) of Inl x \<Rightarrow> Some x | Inr _ \<Rightarrow> None), snd (forget env fp s))"
    using assms by (auto simp: api_Forget_def forget_def split: sum.splits)
  moreover have "snd (api_on_worker env name f s) = snd (on_worker env name f s) \<and> (fst (api_on_worker env name f s) = None \<longleftrightarrow> \<not> isl (fst (on_worker env name f s)))"
    by (auto simp: api_on_worker_def on_worker_def Let_def split: sum.splits prod.splits option.splits)
  moreover have "snd (api_Rescan cfg e env s) = snd (rescan cfg e env s) \<and> (fst (api_Rescan cfg e env s) = None \<longleftrightarrow> \<not> isl (fst (rescan cfg e env s)))"
    by (auto simp: api_Rescan_def split: prod.splits sum.splits)
  moreover have "\<not> isl (api_Disc fp s) \<longleftrightarrow> FindDisc fp (sv_db s) \<noteq> None" using assms by (simp add: api_Disc_def split: option.splits)
  ultimately show ?thesis by blast
qed

text \<open>Forgetting a disc that is not known is answered as a failure of the daemon, where asking for it is answered as not
  found.\<close>

theorem forgetting_the_unknown_is_an_error:
  assumes "fp \<noteq> []" "\<forall>d \<in> set (discs (sv_db s)). d_fingerprint d \<noteq> fp"
  shows "fst (api_act n (fst (api_Forget env fp s))) = 500 \<and> fst (api_read n n (api_Disc fp s)) = 404"
proof -
  have none: "List.find (\<lambda>d. d_fingerprint d = fp) (discs (sv_db s)) = None" using assms(2) by (simp add: find_None_iff)
  then have "ForgetDisc fp (sv_db s) = Inl (ErrNoDisc fp)" by (simp add: ForgetDisc_def)
  moreover have "FindDisc fp (sv_db s) = None" using none by (simp add: FindDisc_def)
  ultimately show ?thesis using assms(1) by (simp add: api_Forget_def api_act_def api_read_def api_Disc_def fail_code_def)
qed

section \<open>Subscribers of the socket\<close>

text \<open>The channels by number: those subscribed, with what waits in their buffers, and those closed. Every operation runs
  under the one lock. Sending on a closed channel would bring the daemon down; \<^verbatim>\<open>su_panicked\<close> says that it happened.\<close>

record 'p subscribers =
  su_subs :: "nat list"
  su_buffer :: "nat \<Rightarrow> 'p list"
  su_closed :: "nat list"
  su_next :: nat
  su_panicked :: bool

definition no_subscribers :: "'p subscribers" where
  "no_subscribers = \<lparr>su_subs = [], su_buffer = (\<lambda>_. []), su_closed = [], su_next = 0, su_panicked = False\<rparr>"

definition push_buffer :: nat where
  "push_buffer = 64"

definition subscribe :: "'p subscribers \<Rightarrow> nat \<times> 'p subscribers" where
  "subscribe s = (su_next s, s\<lparr>su_subs := su_subs s @ [su_next s], su_next := Suc (su_next s)\<rparr>)"

definition unsubscribe :: "nat \<Rightarrow> 'p subscribers \<Rightarrow> 'p subscribers" where
  "unsubscribe ch s =
     (if ch \<in> set (su_subs s) then s\<lparr>su_subs := filter (\<lambda>c. c \<noteq> ch) (su_subs s), su_closed := ch # su_closed s\<rparr> else s)"

text \<open>A send that does not wait: on a channel whose buffer is full the message is dropped.\<close>

definition try_send :: "'p \<Rightarrow> nat \<Rightarrow> 'p subscribers \<Rightarrow> 'p subscribers" where
  "try_send p ch s =
     (if ch \<in> set (su_closed s) then s\<lparr>su_panicked := True\<rparr>
      else if length (su_buffer s ch) < push_buffer then s\<lparr>su_buffer := (su_buffer s)(ch := su_buffer s ch @ [p])\<rparr>
      else s)"

definition publishRaw :: "'p \<Rightarrow> 'p subscribers \<Rightarrow> 'p subscribers" where
  "publishRaw p s = fold (try_send p) (su_subs s) s"

definition take_push :: "nat \<Rightarrow> 'p subscribers \<Rightarrow> 'p option \<times> 'p subscribers" where
  "take_push ch s =
     (case su_buffer s ch of [] \<Rightarrow> (None, s) | p # ps \<Rightarrow> (Some p, s\<lparr>su_buffer := (su_buffer s)(ch := ps)\<rparr>))"

section \<open>A connection\<close>

text \<open>\<^verbatim>\<open>handleConn\<close>: the channel the connection subscribed on, if it has, and what was put on its way to the client. A line is
  decoded by an argument; a line that does not decode is answered with the number 0, as the response's zero value has it.
  The goroutine that passes pushes on to the client is \<^verbatim>\<open>take_push\<close> below, at its own pace.\<close>

datatype message = ResponseMessage response | PushMessage daemon_status

record conn =
  cn_pushes :: "nat option"
  cn_out :: "message list"

definition accepted :: conn where
  "accepted = \<lparr>cn_pushes = None, cn_out = []\<rparr>"

type_synonym 'p served = "server \<times> 'p subscribers \<times> conn"

definition send_out :: "message list \<Rightarrow> conn \<Rightarrow> conn" where
  "send_out ms c = c\<lparr>cn_out := cn_out c @ ms\<rparr>"

definition conn_subscribe :: "'p subscribers \<Rightarrow> conn \<Rightarrow> 'p subscribers \<times> conn" where
  "conn_subscribe su c =
     (case cn_pushes c of Some ch \<Rightarrow> (su, c) | None \<Rightarrow> (let (ch, su') = subscribe su in (su', c\<lparr>cn_pushes := Some ch\<rparr>)))"

definition handle_line :: "config \<Rightarrow> encoder \<Rightarrow> request_env \<Rightarrow> (string \<Rightarrow> string + request) \<Rightarrow> string \<Rightarrow> 'p served \<Rightarrow> 'p served" where
  "handle_line cfg e env decode line st =
     (case st of (s, su, c) \<Rightarrow>
        if line = [] then st
        else case decode line of
          Inl err \<Rightarrow>
            (s, su, send_out [ResponseMessage \<lparr>rs_ID = 0, rs_OK = False, rs_Error = ''malformed request: '' @ err, rs_Result = None\<rparr>] c)
        | Inr rq \<Rightarrow>
            if rq_Method rq = ''subscribe'' then
              (let (su', c') = conn_subscribe su c
               in (s, su', send_out [ResponseMessage \<lparr>rs_ID = rq_ID rq, rs_OK = True, rs_Error = [], rs_Result = None\<rparr>,
                                     PushMessage (status cfg env s)] c'))
            else (let (r, s') = respond cfg e env rq s in (s', su, send_out [ResponseMessage r] c)))"

definition conn_lines :: "config \<Rightarrow> encoder \<Rightarrow> (request_env \<times> string) list \<Rightarrow> (string \<Rightarrow> string + request) \<Rightarrow> 'p served \<Rightarrow> 'p served" where
  "conn_lines cfg e ls decode st = fold (\<lambda>(env, l). handle_line cfg e env decode l) ls st"

text \<open>The connection's end.\<close>

definition hang_up :: "'p served \<Rightarrow> 'p served" where
  "hang_up st = (case st of (s, su, c) \<Rightarrow> (s, case cn_pushes c of None \<Rightarrow> su | Some ch \<Rightarrow> unsubscribe ch su, c))"

text \<open>The daemon and its connections, in any order.\<close>

inductive subs_step :: "'p subscribers \<Rightarrow> 'p subscribers \<Rightarrow> bool" where
  joins: "subs_step s (snd (subscribe s))"
| leaves: "subs_step s (unsubscribe ch s)"
| tells: "subs_step s (publishRaw p s)"
| takes: "subs_step s (snd (take_push ch s))"

definition subs_ok :: "'p subscribers \<Rightarrow> bool" where
  "subs_ok s \<longleftrightarrow> \<not> su_panicked s \<and> distinct (su_subs s) \<and> set (su_subs s) \<inter> set (su_closed s) = {} \<and>
     (\<forall>c \<in> set (su_subs s) \<union> set (su_closed s). c < su_next s) \<and> (\<forall>c. length (su_buffer s c) \<le> push_buffer)"

lemma try_sends_frame:
  "set cs \<inter> set (su_closed s) = {} \<Longrightarrow> subs_ok s \<Longrightarrow>
   subs_ok (fold (try_send p) cs s) \<and> su_subs (fold (try_send p) cs s) = su_subs s \<and> su_closed (fold (try_send p) cs s) = su_closed s"
proof (induction cs arbitrary: s)
  case (Cons c cs)
  have one: "subs_ok (try_send p c s) \<and> su_subs (try_send p c s) = su_subs s \<and> su_closed (try_send p c s) = su_closed s"
    using Cons.prems by (auto simp: try_send_def subs_ok_def)
  then show ?case using Cons.IH [of "try_send p c s"] Cons.prems by simp
qed simp

lemma subs_step_ok: "subs_step s t \<Longrightarrow> subs_ok s \<Longrightarrow> subs_ok t"
proof (induction rule: subs_step.induct)
  case (joins s)
  then show ?case unfolding subs_ok_def subscribe_def by auto (metis Un_iff less_SucI less_irrefl)+
next
  case (leaves s ch)
  then show ?case by (auto simp: unsubscribe_def subs_ok_def)
next
  case (tells s p)
  then show ?case using try_sends_frame [of "su_subs s" s p] by (auto simp: publishRaw_def subs_ok_def)
next
  case (takes s ch)
  show ?case
  proof (cases "su_buffer s ch")
    case Nil
    then show ?thesis using takes by (simp add: take_push_def)
  next
    case (Cons p ps)
    then have "length ps \<le> push_buffer" using takes unfolding subs_ok_def by (metis Suc_leD length_Cons)
    then show ?thesis using takes Cons by (simp add: take_push_def subs_ok_def)
  qed
qed

text \<open>C30. However clients come, go, read or fail to read while messages are published, no message is sent on a closed channel,
  no client holds more than its buffer, and a client that has room gets the message published.\<close>

theorem publishing_never_panics:
  assumes "subs_step\<^sup>*\<^sup>* no_subscribers s"
  shows "subs_ok s \<and> \<not> su_panicked (publishRaw p s) \<and>
    (\<forall>c. c \<in> set (su_subs s) \<and> length (su_buffer s c) < push_buffer \<longrightarrow> su_buffer (publishRaw p s) c = su_buffer s c @ [p])"
proof -
  have ok: "subs_ok s" using assms
  proof (induction rule: rtranclp_induct)
    case base
    then show ?case by (simp add: no_subscribers_def subs_ok_def)
  qed (rule subs_step_ok)
  have got: "su_buffer (fold (try_send p) cs t) c = (if c \<in> set cs then su_buffer t c @ [p] else su_buffer t c)"
    if "distinct cs" "c \<notin> set (su_closed t)" "length (su_buffer t c) < push_buffer" for cs t c
    using that
  proof (induction cs arbitrary: t)
    case (Cons d cs)
    have "su_closed (try_send p d t) = su_closed t" "d \<noteq> c \<Longrightarrow> su_buffer (try_send p d t) c = su_buffer t c"
      by (simp_all add: try_send_def)
    moreover have "su_buffer (try_send p c t) c = su_buffer t c @ [p]" using Cons.prems by (simp add: try_send_def)
    moreover have "c \<notin> set cs \<Longrightarrow> su_buffer (fold (try_send p) cs u) c = su_buffer u c" for u
      by (induction cs arbitrary: u) (auto simp: try_send_def)
    ultimately show ?case using Cons by (cases "d = c") auto
  qed simp
  have "\<not> su_panicked (publishRaw p s)" using subs_step_ok [OF tells ok, of p] by (simp add: subs_ok_def)
  moreover have "su_buffer (publishRaw p s) c = su_buffer s c @ [p]" if "c \<in> set (su_subs s)" "length (su_buffer s c) < push_buffer" for c
    using got [of "su_subs s" c s] that ok by (auto simp: publishRaw_def subs_ok_def)
  ultimately show ?thesis using ok by blast
qed

theorem publishing_never_panics_witness:
  "su_buffer (publishRaw ''x'' (snd (subscribe no_subscribers))) 0 = [''x'']"
proof -
  have "subs_step\<^sup>*\<^sup>* no_subscribers (snd (subscribe (no_subscribers :: string subscribers)))" by (intro r_into_rtranclp joins)
  from publishing_never_panics [OF this, of "''x''"] show ?thesis
    by (simp add: subscribe_def no_subscribers_def push_buffer_def)
qed

section \<open>What a connection gets\<close>

fun response_id :: "message \<Rightarrow> int option" where
  "response_id (ResponseMessage r) = Some (rs_ID r)"
| "response_id (PushMessage d) = None"

definition answered :: "conn \<Rightarrow> int list" where
  "answered c = List.map_filter response_id (cn_out c)"

definition line_id :: "(string \<Rightarrow> string + request) \<Rightarrow> string \<Rightarrow> int" where
  "line_id decode l = (case decode l of Inl err \<Rightarrow> 0 | Inr rq \<Rightarrow> rq_ID rq)"

lemma answered_send_out [simp]: "answered (send_out ms c) = answered c @ List.map_filter response_id ms"
  by (simp add: answered_def send_out_def List.map_filter_def)

lemma conn_subscribe_answered [simp]: "answered (snd (conn_subscribe su c)) = answered c"
  by (auto simp: conn_subscribe_def answered_def split: option.splits prod.splits)

lemma respond_id [simp]: "rs_ID (fst (respond cfg e env rq s)) = rq_ID rq"
  by (auto simp: respond_def split: prod.splits sum.splits)

lemma handle_line_answered:
  "answered (snd (snd (handle_line cfg e env decode l (s, su, c)))) = answered c @ (if l = [] then [] else [line_id decode l])"
proof -
  have "answered c' = answered c" if "conn_subscribe su c = (su', c')" for su' c'
    using conn_subscribe_answered [of su c] that by simp
  moreover have "rs_ID r = rq_ID rq" if "respond cfg e env rq s = (r, s')" for rq r s'
    using respond_id [of cfg e env rq s] that by simp
  ultimately show ?thesis
    by (auto simp: handle_line_def line_id_def List.map_filter_def split: sum.splits prod.splits)
qed

text \<open>Every line a client sends is answered once, in the order the lines came and under the number of its request,
  whether it was understood, failed or not even a request.\<close>

theorem every_line_is_answered:
  fixes st :: "'p served"
  shows "answered (snd (snd (conn_lines cfg e ls decode st)))
           = answered (snd (snd st)) @ map (line_id decode) (filter (\<lambda>l. l \<noteq> []) (map snd ls))"
proof (induction ls arbitrary: st)
  case (Cons x ls)
  obtain env l where x: "x = (env, l)" by (cases x)
  obtain s su c where st: "st = (s, su, c)" by (cases st)
  show ?case using Cons [of "handle_line cfg e env decode l st"] handle_line_answered [of cfg e env decode l s su c]
    by (simp add: conn_lines_def x st)
qed (simp add: conn_lines_def)

text \<open>A connection's own subscription: it has one at most, and it is the last.\<close>

definition holds :: "'p subscribers \<Rightarrow> 'p served \<Rightarrow> bool" where
  "holds su0 st \<longleftrightarrow>
     (case st of (s, su, c) \<Rightarrow> case cn_pushes c of
        None \<Rightarrow> su = su0
      | Some ch \<Rightarrow> ch = su_next su0 \<and> su_subs su = su_subs su0 @ [ch] \<and> su_closed su = su_closed su0)"

lemma handle_line_holds: "holds su0 st \<Longrightarrow> holds su0 (handle_line cfg e env decode l st)"
  by (auto simp: holds_def handle_line_def conn_subscribe_def subscribe_def send_out_def Let_def
      split: option.splits sum.splits prod.splits)

text \<open>When a connection ends, the daemon's subscribers are those it had before, however often the client subscribed.\<close>

theorem connection_leaves_no_subscription:
  fixes su :: "'p subscribers"
  assumes "subs_ok su"
  shows "su_subs (fst (snd (hang_up (conn_lines cfg e ls decode (s, su, accepted))))) = su_subs su"
proof -
  have "holds su (conn_lines cfg e ls decode st)" if "holds su st" for st
    using that unfolding conn_lines_def by (induction ls arbitrary: st) (simp_all add: handle_line_holds split_beta)
  then have h: "holds su (conn_lines cfg e ls decode (s, su, accepted))" by (simp add: holds_def accepted_def)
  have "su_next su \<notin> set (su_subs su)" using assms by (auto simp: subs_ok_def)
  then have "filter (\<lambda>c. c \<noteq> su_next su) (su_subs su) = su_subs su" by (intro filter_True) auto
  then show ?thesis using h by (auto simp: holds_def hang_up_def unsubscribe_def split: prod.splits option.splits)
qed

theorem connection_leaves_no_subscription_witness:
  "\<forall>cfg e ls decode s.
     su_subs (fst (snd (hang_up (conn_lines cfg e ls decode (s, snd (subscribe (no_subscribers :: unit subscribers)), accepted))))) = [0]"
proof -
  have "subs_ok (snd (subscribe (no_subscribers :: unit subscribers)))" by (simp add: subs_ok_def subscribe_def no_subscribers_def)
  moreover have "su_subs (snd (subscribe (no_subscribers :: unit subscribers))) = [0]" by (simp add: subscribe_def no_subscribers_def)
  ultimately show ?thesis using connection_leaves_no_subscription [of "snd (subscribe (no_subscribers :: unit subscribers))"] by metis
qed

text \<open>A daemon with a known disc and no drives, asked for its history, to forget the disc and to forget another.\<close>

definition idle_daemon :: daemon where
  "idle_daemon = \<lparr>da_workers = [], da_db = sample_store, da_log = []\<rparr>"

lemma sample_server_ok: "sv_db s = sample_store \<Longrightarrow> sv_drives s = idle_daemon \<Longrightarrow> server_ok s"
  using sample_store_ok by (simp add: server_ok_def daemon_ok_def idle_daemon_def)

theorem handle_keeps_server_ok_witness:
  "\<forall>cfg e env s0. let s = s0\<lparr>sv_db := sample_store, sv_drives := idle_daemon\<rparr>;
       rq = \<lparr>rq_ID = 1, rq_Method = ''history'', rq_Limit = 0, rq_Drive = [], rq_Fingerprint = None, rq_Job = None\<rparr>
     in server_ok (snd (handle cfg e env rq s)) \<and> snd (handle cfg e env rq s) = s"
proof (intro allI, unfold Let_def)
  fix cfg e env and s0 :: server
  let ?s = "s0\<lparr>sv_db := sample_store, sv_drives := idle_daemon\<rparr>"
  let ?rq = "\<lparr>rq_ID = 1, rq_Method = ''history'', rq_Limit = 0, rq_Drive = [], rq_Fingerprint = None, rq_Job = None\<rparr>"
  have ok: "server_ok ?s" by (rule sample_server_ok) simp_all
  from handle_keeps_server_ok [OF ok, of cfg e env ?rq] ok
  show "server_ok (snd (handle cfg e env ?rq ?s)) \<and> snd (handle cfg e env ?rq ?s) = ?s" by simp
qed

theorem api_does_what_the_socket_does_witness:
  "\<forall>env s. snd (api_Forget env ''f'' s) = snd (forget env ''f'' s)"
  using api_does_what_the_socket_does [of "''f''"] by (metis list.distinct(1) snd_conv)

end
