(* ===== verification/Routes.thy ===== *)
theory Routes
  imports Server
begin

text \<open>
  The HTTP API's table of routes (\<^verbatim>\<open>Handler\<close> in \<^verbatim>\<open>internal/api/server.go\<close>) on the backend of \<^verbatim>\<open>internal/daemon/http.go\<close>:
  which request leads to which call, what it answers and what it leaves of the daemon. \<^verbatim>\<open>http.ServeMux\<close> matches a path
  segment by segment, a \<^verbatim>\<open>GET\<close> pattern also for \<^verbatim>\<open>HEAD\<close>; an answer with another method than those of the path is 405, a path
  that is none is 404.
\<close>

datatype route =
    GetDrives
  | GetHealth
  | GetDisc string
  | PostEject string
  | PostCancel string
  | PostRescan
  | PostForget string
  | GetEvents

text \<open>A pattern, segment by segment; a wildcard takes one segment, which is not empty.\<close>

datatype segment = Lit string | Wild

fun seg_match :: "segment list \<Rightarrow> string list \<Rightarrow> string list option" where
  "seg_match [] [] = Some []"
| "seg_match (Lit l # ps) (x # xs) = (if l = x then seg_match ps xs else None)"
| "seg_match (Wild # ps) (x # xs) = (if x = [] then None else map_option (Cons x) (seg_match ps xs))"
| "seg_match _ _ = None"

definition routes :: "(string \<times> segment list \<times> (string list \<Rightarrow> route)) list" where
  "routes =
     [(''GET'', [Lit ''v1'', Lit ''drives''], \<lambda>_. GetDrives),
      (''GET'', [Lit ''v1'', Lit ''health''], \<lambda>_. GetHealth),
      (''GET'', [Lit ''v1'', Lit ''discs'', Wild], \<lambda>vs. GetDisc (hd vs)),
      (''POST'', [Lit ''v1'', Lit ''drives'', Wild, Lit ''eject''], \<lambda>vs. PostEject (hd vs)),
      (''POST'', [Lit ''v1'', Lit ''drives'', Wild, Lit ''cancel''], \<lambda>vs. PostCancel (hd vs)),
      (''POST'', [Lit ''v1'', Lit ''rescan''], \<lambda>_. PostRescan),
      (''POST'', [Lit ''v1'', Lit ''discs'', Wild, Lit ''forget''], \<lambda>vs. PostForget (hd vs)),
      (''GET'', [Lit ''v1'', Lit ''events''], \<lambda>_. GetEvents)]"

definition verb_ok :: "string \<Rightarrow> string \<Rightarrow> bool" where
  "verb_ok pat verb \<longleftrightarrow> pat = verb \<or> (pat = ''GET'' \<and> verb = ''HEAD'')"

text \<open>The route of a request, or the status it is refused with.\<close>

definition Handler :: "string \<Rightarrow> string list \<Rightarrow> nat + route" where
  "Handler verb path =
     (let here = List.map_filter (\<lambda>(v, ps, mk). map_option (\<lambda>vs. (v, mk vs)) (seg_match ps path)) routes
      in case List.find (\<lambda>(v, r). verb_ok v verb) here of
           Some (v, r) \<Rightarrow> Inr r
         | None \<Rightarrow> Inl (if here = [] then 404 else 405))"

datatype http_data = DrivesData "drive_status list" | HealthData "health list" | DiscData disc_record | NoData

definition no_data :: "unit envelope \<Rightarrow> http_data envelope" where
  "no_data v = \<lparr>nv_OK = nv_OK v, nv_Data = None, nv_Error = nv_Error v, nv_LastEventID = nv_LastEventID v\<rparr>"

text \<open>What a route does. \<^verbatim>\<open>before\<close> and \<^verbatim>\<open>after\<close> are the last event before and after the handler. The event stream is the
  hub's.\<close>

fun serve_route ::
    "config \<Rightarrow> encoder \<Rightarrow> request_env \<Rightarrow> 64 word \<Rightarrow> 64 word \<Rightarrow> route \<Rightarrow> server \<Rightarrow> (nat \<times> http_data envelope) option \<times> server" where
  "serve_route cfg e env before after GetDrives s = (Some (api_read before after (Inr (DrivesData (api_Drives cfg env s)))), s)"
| "serve_route cfg e env before after GetHealth s = (Some (api_read before after (Inr (HealthData (api_Health cfg env s)))), s)"
| "serve_route cfg e env before after (GetDisc fp) s = (Some (api_read before after (map_sum id DiscData (api_Disc fp s))), s)"
| "serve_route cfg e env before after (PostEject i) s =
     (case api_on_worker env i (Eject (qe_ejects env)) s of (r, s') \<Rightarrow> (Some (map_prod id no_data (api_act after r)), s'))"
| "serve_route cfg e env before after (PostCancel i) s =
     (case api_on_worker env i Cancel s of (r, s') \<Rightarrow> (Some (map_prod id no_data (api_act after r)), s'))"
| "serve_route cfg e env before after PostRescan s =
     (case api_Rescan cfg e env s of (r, s') \<Rightarrow> (Some (map_prod id no_data (api_act after r)), s'))"
| "serve_route cfg e env before after (PostForget fp) s =
     (case api_Forget env fp s of (r, s') \<Rightarrow> (Some (map_prod id no_data (api_act after r)), s'))"
| "serve_route cfg e env before after GetEvents s = (None, s)"

definition serve_http ::
    "config \<Rightarrow> encoder \<Rightarrow> request_env \<Rightarrow> 64 word \<Rightarrow> 64 word \<Rightarrow> string \<Rightarrow> string list \<Rightarrow> server \<Rightarrow> nat \<times> server" where
  "serve_http cfg e env before after verb path s =
     (case Handler verb path of
        Inl code \<Rightarrow> (code, s)
      | Inr r \<Rightarrow> (case serve_route cfg e env before after r s of (None, s') \<Rightarrow> (200, s') | (Some (code, v), s') \<Rightarrow> (code, s')))"

section \<open>Listening\<close>

text \<open>\<^verbatim>\<open>serveHTTP\<close>, from its start to its end: the address it found itself on, or why it could not listen, and the error of
  \<^verbatim>\<open>Serve\<close> where that is not the one of a server that was shut down. No address means no HTTP.\<close>

record http_env =
  he_listen :: "string + string"
  he_serve_error :: "string option"

definition serveHTTP :: "int \<Rightarrow> http_env \<Rightarrow> string \<Rightarrow> server \<Rightarrow> string option \<times> server" where
  "serveHTTP now env addr s =
     (if addr = [] then (None, s)
      else case he_listen env of
             Inl err \<Rightarrow> (Some (''listen on '' @ addr @ '': '' @ err), s)
           | Inr here \<Rightarrow> (he_serve_error env, log_event now ''info'' (''http api listening on '' @ here) s))"

section \<open>What a route may change\<close>

fun safe_route :: "route \<Rightarrow> bool" where
  "safe_route (PostEject _) = False"
| "safe_route (PostCancel _) = False"
| "safe_route PostRescan = False"
| "safe_route (PostForget _) = False"
| "safe_route _ = True"

lemma seg_match_Cons: "seg_match (p # ps) xs = Some vs \<longleftrightarrow>
    (\<exists>x ys. xs = x # ys \<and> (case p of Lit l \<Rightarrow> l = x \<and> seg_match ps ys = Some vs
        | Wild \<Rightarrow> x \<noteq> [] \<and> (\<exists>ws. vs = x # ws \<and> seg_match ps ys = Some ws)))"
  by (cases p; cases xs) auto

lemma seg_match_Nil [simp]: "seg_match [] xs = Some vs \<longleftrightarrow> xs = [] \<and> vs = []"
  by (cases xs) auto

lemma Handler_route:
  assumes "Handler verb path = Inr r"
  obtains v ps mk vs where "(v, ps, mk) \<in> set routes" "seg_match ps path = Some vs" "verb_ok v verb" "r = mk vs"
proof -
  define here where "here = List.map_filter (\<lambda>(v, ps, mk). map_option (\<lambda>vs. (v, mk vs)) (seg_match ps path)) routes"
  from assms obtain v where f: "List.find (\<lambda>(v, r). verb_ok v verb) here = Some (v, r)"
    by (auto simp: Handler_def Let_def here_def [symmetric] split: option.splits)
  then have "(v, r) \<in> set here" "verb_ok v verb" by (auto dest: find_Some_D)
  then show thesis using that by (auto simp: here_def List.map_filter_def split: option.splits)
qed

lemma api_states:
  "fp \<noteq> [] \<Longrightarrow> snd (api_Forget env fp s) = snd (forget env fp s)"
  "snd (api_on_worker env name f s) = snd (on_worker env name f s)" "snd (api_Rescan cfg e env s) = snd (rescan cfg e env s)"
  using api_does_what_the_socket_does [of fp env s] api_does_what_the_socket_does [of "''x''" env s name f cfg e] by auto



end
