(* ===== verification/Store_Writes.thy ===== *)
theory Store_Writes
  imports Worker_Safety Transcode_Runner
begin

text \<open>
  What the parts of the daemon may do to the database they share. \<^verbatim>\<open>sound\<close> is the contract: a well-formed database
  stays well formed, no drive and no disc disappears from it, a disc that is on record as ripped stays so unless it is
  one of those named, and no disc gets more attempts than the configuration allows. \<^verbatim>\<open>writer\<close> is the interface of a
  part whose every action keeps the contract; it is interpreted on the workers here and on the whole daemon in
  \<^verbatim>\<open>System\<close>.
\<close>

section \<open>The contract\<close>

definition keeps :: "string set \<Rightarrow> store \<Rightarrow> store \<Rightarrow> bool" where
  "keeps F db db' \<longleftrightarrow> (store_ok db \<longrightarrow> store_ok db'
     \<and> (\<forall>i. has_drive db i \<longrightarrow> has_drive db' i)
     \<and> (\<forall>fp k. disc_id_of fp db = Some k \<longrightarrow> disc_id_of fp db' = Some k)
     \<and> (\<forall>fp. fp \<notin> F \<and> is_ripped fp db \<longrightarrow> is_ripped fp db'))"

definition sound :: "config \<Rightarrow> string set \<Rightarrow> store \<Rightarrow> store \<Rightarrow> bool" where
  "sound cfg F db db' \<longleftrightarrow> within cfg db db' \<and> keeps F db db'"

lemma keeps_refl [simp, intro]: "keeps F db db"
  by (simp add: keeps_def)

lemma keeps_trans: "keeps F db db1 \<Longrightarrow> keeps G db1 db2 \<Longrightarrow> keeps (F \<union> G) db db2"
  unfolding keeps_def by blast

lemma keeps_then [trans]: "keeps F db db1 \<Longrightarrow> keeps F db1 db2 \<Longrightarrow> keeps F db db2"
  using keeps_trans [of F db db1 F db2] by simp

lemma within_then: "within cfg db db1 \<Longrightarrow> within cfg db1 db2 \<Longrightarrow> within cfg db db2"
  unfolding within_def by (metis (no_types, lifting) le_max_iff_disj max.boundedE max.boundedI max.cobounded2 order.trans)

lemma sound_refl [simp, intro]: "sound cfg F db db"
  by (simp add: sound_def)

lemma sound_trans: "sound cfg F db db1 \<Longrightarrow> sound cfg G db1 db2 \<Longrightarrow> sound cfg (F \<union> G) db db2"
  unfolding sound_def using keeps_trans within_then by blast

lemma sound_then [trans]: "sound cfg F db db1 \<Longrightarrow> sound cfg F db1 db2 \<Longrightarrow> sound cfg F db db2"
  using sound_trans [of cfg F db db1 F db2] by simp

lemma sound_mono: "sound cfg F db db' \<Longrightarrow> F \<subseteq> G \<Longrightarrow> sound cfg G db db'"
  unfolding sound_def keeps_def by blast

text \<open>A write to other tables than those of discs and jobs keeps the contract.\<close>

lemma keeps_frame:
  assumes "store_ok db \<Longrightarrow> store_ok db'" "discs db' = discs db" "drives db' = drives db"
  shows "keeps F db db'"
  using assms by_discs [OF assms(2)] by (auto simp: keeps_def is_ripped_def has_drive_iff)

lemma sound_frame:
  assumes "store_ok db \<Longrightarrow> store_ok db'" "discs db' = discs db" "drives db' = drives db" "jobs db' = jobs db"
  shows "sound cfg F db db'"
proof -
  have "AttemptsForDisc k db' = AttemptsForDisc k db" for k
    using assms by (simp add: AttemptsForDisc_def counts_as_attempt_def [abs_def] forgotten_after_def)
  then show ?thesis using assms keeps_frame [of db db' F] by (simp add: sound_def within_def)
qed

section \<open>Writers\<close>

locale writer =
  fixes cfg :: config and db_of :: "'s \<Rightarrow> store" and act :: "'a \<Rightarrow> 's \<Rightarrow> 's" and forgets :: "'a \<Rightarrow> string set"
  assumes act_sound: "sound cfg (forgets a) (db_of s) (db_of (act a s))"
begin

text \<open>Any number of actions keeps the contract.\<close>

lemma run_sound: "sound cfg (\<Union> (forgets ` set as)) (db_of s) (db_of (fold act as s))"
proof (induction as arbitrary: s)
  case (Cons a as)
  show ?case using sound_trans [OF act_sound Cons.IH [of "act a s"]] by simp
qed simp

lemma run_keeps_ripped:
  "store_ok (db_of s) \<Longrightarrow> is_ripped fp (db_of s) \<Longrightarrow> fp \<notin> \<Union> (forgets ` set as) \<Longrightarrow> is_ripped fp (db_of (fold act as s))"
  using run_sound [of as s] unfolding sound_def keeps_def by blast

lemma run_bounded:
  "store_ok (db_of s) \<Longrightarrow> \<forall>k. AttemptsForDisc k (db_of s) \<le> nat (MaxRipAttempts cfg) \<Longrightarrow>
   store_ok (db_of (fold act as s)) \<and> (\<forall>k. AttemptsForDisc k (db_of (fold act as s)) \<le> nat (MaxRipAttempts cfg))"
  using run_sound [of as s] unfolding sound_def within_def by (metis max.absorb2)

end

section \<open>Workers\<close>

lemma SaveDisc_keeps: "SaveDisc now d raw db = Inr (i, db') \<Longrightarrow> keeps F db db'"
proof -
  assume s: "SaveDisc now d raw db = Inr (i, db')"
  then have "drives db' = drives db" by (auto simp: SaveDisc_eq Let_def split: sum.splits)
  then show ?thesis using SaveDisc_ok [OF _ s] SaveDisc_rip_dir [OF s] SaveDisc_disc_id(2) [OF s]
    by (auto simp: keeps_def is_ripped_def has_drive_iff)
qed

lemma SetDiscRipDir_keeps: "dir \<noteq> [] \<Longrightarrow> keeps F db (SetDiscRipDir k dir db)"
  using SetDiscRipDir_rip_dir [of db] SetDiscRipDir_ok [of db k dir]
  by (auto simp: keeps_def is_ripped_def has_drive_iff SetDiscRipDir_def update_disc_def)

lemma CreateJob_keeps: "CreateJob now d dr a db = Inr (i, db') \<Longrightarrow> keeps F db db'"
  using CreateJob_row [of db now d dr a i db'] CreateJob_ok [of db now d dr a i db'] keeps_frame [of db db' F]
  by (auto simp: keeps_def)

lemma job_frame_keeps [simp, intro]:
  "keeps F db (SetJobState now i st e db)" "keeps F db (SetJobProgress i n t db)" "keeps F db (MarkTitleRipped k t n v db)"
proof -
  show "keeps F db (SetJobState now i st e db)" by (rule keeps_frame [OF SetJobState_ok]) simp_all
  show "keeps F db (SetJobProgress i n t db)"
    by (rule keeps_frame [OF SetJobProgress_ok]) (simp_all add: SetJobProgress_def update_job_def)
  show "keeps F db (MarkTitleRipped k t n v db)" by (rule keeps_frame [OF MarkTitleRipped_ok]) (simp_all add: MarkTitleRipped_def)
qed

lemma job_work_keeps: "job_work jobID discID db db' \<Longrightarrow> keeps F db db'"
proof (induction rule: rtranclp_induct)
  case (step y z)
  from step(2) have "keeps F y z" by cases (auto intro: SaveDisc_keeps)
  with step(3) show ?case by (rule keeps_then)
qed simp

lemma open_job_keeps: "open_job cfg env now d raw w = (r, w') \<Longrightarrow> keeps F (wk_db w) (wk_db w')"
proof (cases r)
  case None
  moreover assume "open_job cfg env now d raw w = (r, w')"
  ultimately show ?thesis using open_job_None(1) [of cfg env now d raw w w'] by (auto intro: SaveDisc_keeps)
next
  case (Some x)
  moreover assume "open_job cfg env now d raw w = (r, w')"
  ultimately obtain db1 where "SaveDisc now d raw (wk_db w) = Inr (fst x, db1)"
    "CreateJob now (fst x) (wk_driveID w) (int (AttemptsForDisc (fst x) db1) + 1) db1 = Inr (snd x, wk_db w')"
    using open_job_Some [of cfg env now d raw w "fst x" "snd x" w'] by auto
  then show ?thesis using keeps_then SaveDisc_keeps CreateJob_keeps by metis
qed

lemma work_disc_keeps: "keeps F (wk_db w) (wk_db (work_disc cfg env now today jobID discID d raw w))"
  using refl
proof (cases rule: work_disc_elim [where cfg = cfg and env = env and now = now and today = today and jobID = jobID
      and discID = discID and d = d and raw = raw and w = w])
  case failed
  then show ?thesis by (intro job_work_keeps)
next
  case (complete dir db1 rd d')
  have "keeps F (wk_db w) (SetDiscRipDir discID dir db1)"
    using job_work_keeps [OF complete(2)] SetDiscRipDir_keeps [OF complete(1)] by (rule keeps_then)
  then show ?thesis using complete(3) keeps_then job_frame_keeps(1) by metis
qed

lemma exec_keeps: "(\<And>db. keeps F db (f db)) \<Longrightarrow> keeps F (wk_db w) (wk_db (exec f w))"
  by (simp add: exec_def)

lemma exec_or_warn_keeps: "(\<And>db db'. f db = Inr db' \<Longrightarrow> keeps F db db') \<Longrightarrow> keeps F (wk_db w) (wk_db (exec_or_warn f w))"
  by (auto simp: exec_or_warn_def split: sum.split)

lemma RecordTranscode_keeps: "RecordTranscode now k t p src out n hw db = Inr db' \<Longrightarrow> keeps F db db'"
  using RecordTranscode_ok [of db now k t p src out n hw db']
  by (intro keeps_frame) (auto simp: RecordTranscode_def Let_def split: if_splits)

lemma Dir_neq_Nil [simp]: "Dir p \<noteq> []"
  by (simp add: Dir_def Clean_def Let_def)

lemma work_bluray_keeps: "keeps F (wk_db w) (wk_db (work_bluray cfg env now today src jobID discID d secs w))"
proof -
  obtain r w1 where e: "encodeBluRay env secs w = (r, w1)" by (cases "encodeBluRay env secs w")
  have w1: "wk_db w1 = wk_db w" using e by (auto simp: encodeBluRay_def Let_def split: sum.splits)
  show ?thesis
  proof (cases r)
    case (Inl err)
    then show ?thesis using e w1 by (auto simp: work_bluray_def exec_def)
  next
    case (Inr res)
    obtain n hw where res: "res = (n, hw)" by (cases res)
    define out where "out = Join [TranscodedDir cfg, DirName today d, TitleFileName 0]"
    define w2 where "w2 = exec_or_warn (\<lambda>db. Inr (MarkTitleRipped discID 0 0 True db)) w1"
    define w3 where "w3 = exec_or_warn (\<lambda>db. Inr (SetDiscRipDir discID (Dir out) db)) w2"
    define w4 where "w4 = exec (SetJobState now jobID JobComplete []) w3"
    define w5 where "w5 = exec_or_warn (RecordTranscode now discID 0 ''default'' src out n hw) w4"
    have "keeps F (wk_db w) (wk_db w2)" unfolding w2_def w1 [symmetric] by (rule exec_or_warn_keeps) auto
    also have "keeps F (wk_db w2) (wk_db w3)" unfolding w3_def by (rule exec_or_warn_keeps) (auto intro: SetDiscRipDir_keeps)
    also have "keeps F (wk_db w3) (wk_db w4)" unfolding w4_def by (rule exec_keeps) simp
    also have "keeps F (wk_db w4) (wk_db w5)"
      unfolding w5_def by (rule exec_or_warn_keeps) (rule RecordTranscode_keeps)
    finally show ?thesis
      by (simp add: work_bluray_def Let_def e Inr res out_def [symmetric] w2_def [symmetric] w3_def [symmetric]
          w4_def [symmetric] w5_def [symmetric])
  qed
qed

text \<open>What a Blu-ray comes to: nothing is written, or a job is opened and worked on.\<close>

lemma handleBluRay_elim:
  assumes "handleBluRay sha cfg env now today w = w'"
  obtains (unread) "wk_db w' = wk_db w" "wk_bluray_done w' = wk_bluray_done w"
  | (opened) d secs w2 r w3 where "wk_db w2 = wk_db w" "wk_bluray_done w2 = wk_bluray_done w" "open_job cfg env now d [] w2 = (r, w3)"
      "w' = (case r of None \<Rightarrow> w3 | Some (discID, jobID) \<Rightarrow> work_bluray cfg env now today (''bluray:'' @ wk_device w) jobID discID d secs w3)"
proof -
  define w1 where "w1 = note_cancel (be_probe_cancelled (ev_bluray env)) (with_status (setState StateScanning)
    (if be_label (ev_bluray env) = None then logf ''warn'' w else w))"
  have w1: "wk_db w1 = wk_db w" "wk_bluray_done w1 = wk_bluray_done w" by (simp_all add: w1_def wk_defs)
  show thesis
  proof (cases "be_probe (ev_bluray env)")
    case (Inl e)
    then show thesis using unread assms w1
      by (auto simp: handleBluRay_def Let_def w1_def [symmetric] fail_def ejectNow_def wk_defs split: if_splits)
  next
    case (Inr dur)
    define secs where "secs = dur div 1000000000"
    define d where "d = bluray_disc sha today (wk_describe w) (case be_label (ev_bluray env) of None \<Rightarrow> [] | Some l \<Rightarrow> l) secs"
    define w2 where "w2 = logf ''info'' (with_status (update_snap (\<lambda>x. x\<lparr>sp_DiscLabel := di_VolumeLabel d,
      sp_Fingerprint := di_Fingerprint d, sp_TitleCount := 1\<rparr>)) w1)"
    have w2: "wk_db w2 = wk_db w" "wk_bluray_done w2 = wk_bluray_done w" using w1 by (simp_all add: w2_def wk_defs)
    obtain r w3 where o: "open_job cfg env now d [] w2 = (r, w3)" by (cases "open_job cfg env now d [] w2")
    show thesis
    proof (cases "dur \<le> 0")
      case True
      then show thesis using unread assms w1 Inr
        by (auto simp: handleBluRay_def Let_def w1_def [symmetric] fail_def ejectNow_def wk_defs split: if_splits)
    next
      case False
      then have "w' = (case r of None \<Rightarrow> w3 | Some (discID, jobID) \<Rightarrow> work_bluray cfg env now today (''bluray:'' @ wk_device w) jobID discID d secs w3)"
        using assms o Inr by (auto simp: handleBluRay_def Let_def w1_def [symmetric] secs_def [symmetric] d_def [symmetric] w2_def [symmetric]
            split: option.splits)
      with opened w2 o show thesis by blast
    qed
  qed
qed

lemma handleBluRay_keeps: "keeps F (wk_db w) (wk_db (handleBluRay sha cfg env now today w))"
  using refl
proof (cases rule: handleBluRay_elim [where sha = sha and cfg = cfg and env = env and now = now and today = today and w = w])
  case (opened d secs w2 r w3)
  have "keeps F (wk_db w) (wk_db w3)" using open_job_keeps [OF opened(3)] opened(1) by simp
  then show ?thesis unfolding opened(4) by (auto intro: keeps_then [OF _ work_bluray_keeps] split: option.split)
qed simp

lemma handleDisc_keeps: "keeps F (wk_db w) (wk_db (handleDisc sha cfg env now today w))"
  using refl
proof (cases rule: handleDisc_elim [where sha = sha and cfg = cfg and env = env and now = now and today = today and w = w])
  case (bluray w1)
  then show ?thesis using handleBluRay_keeps [of F w1] by (simp add: same_ledger_def)
next
  case (dvd w3)
  have "keeps F (wk_db w3) (wk_db (handleDVD cfg env now today w3))"
    using refl
  proof (cases rule: handleDVD_elim [where cfg = cfg and env = env and now = now and today = today and w = w3])
    case (refused i d raw w1)
    then show ?thesis using open_job_keeps [OF refused(5)] by simp
  next
    case (worked i d raw w1 w2 discID jobID)
    then show ?thesis using keeps_then [OF open_job_keeps [OF worked(5)] work_disc_keeps] by simp
  qed simp
  then show ?thesis using dvd by (simp add: same_ledger_def)
qed (simp add: same_ledger_def)

lemma handleEvent_sound: "sound cfg {} (wk_db w) (wk_db (handleEvent sha cfg env now today ev w))"
  using handleDisc_within [of cfg w sha env now today] handleDisc_keeps [of "{}" w sha cfg env now today]
  by (simp add: sound_def handleEvent_def handleIncompatible_def split: status.split)

interpretation drive_writer: writer cfg wk_db "\<lambda>(sha, env, now, today, ev). handleEvent sha cfg env now today ev" "\<lambda>_. {}"
  for cfg by unfold_locales (auto simp: handleEvent_sound split: prod.split)

section \<open>The transcode runner\<close>

lemma update_transcode_sound [simp, intro]:
  "sound cfg F db (FinishTranscode now i out n hw db)" "sound cfg F db (FailTranscode now i e db)"
  "sound cfg F db (RequeueTranscode i db)" "sound cfg F db (ResetTranscodeAttempts i db)"
  "sound cfg F db (snd (ReclaimRunningTranscodes db))"
  using settle_ok [of db] by (auto intro!: sound_frame
      simp: FinishTranscode_def FailTranscode_def RequeueTranscode_def ResetTranscodeAttempts_def ReclaimRunningTranscodes_def
        update_transcode_def)

lemma transcode_row_sound:
  "QueueTranscode now d t p src db = Inr db' \<Longrightarrow> sound cfg F db db'"
  "RecordLibraryLink now d t p db = Inr db' \<Longrightarrow> sound cfg F db db'"
  "NextTranscode now m db = Some (j, db') \<Longrightarrow> sound cfg F db db'"
  using QueueTranscode_ok [of db now d t p src db'] RecordLibraryLink_ok [of db now d t p db'] NextTranscode_ok [of db now m j db']
  by (auto intro!: sound_frame simp: QueueTranscode_def RecordLibraryLink_def NextTranscode_def update_transcode_def Let_def
      split: if_splits option.splits list.splits)

lemma fileTitle_sound: "sound cfg F (rn_db s) (rn_db (fileTitle cfg now d t src s))"
  by (rule fileTitle_db [of cfg now d t src s]) (auto intro: transcode_row_sound(2))

lemma file_one_sound: "sound cfg F (rn_db s) (rn_db (file_one cfg now u s))"
  by (simp add: file_one_def fileTitle_sound)

lemma fileUnfiled_sound: "sound cfg F (rn_db s) (rn_db (fileUnfiled cfg now stop s))"
proof -
  have "sound cfg F (rn_db s) (rn_db (fold (file_one cfg now) us s))" for us
    by (induction us arbitrary: s) (auto intro: sound_then [OF file_one_sound])
  then show ?thesis by (simp add: fileUnfiled_def)
qed

lemma claim_job_sound: "claim_job now s = Some (job, s') \<Longrightarrow> sound cfg F (rn_db s) (rn_db s')"
  by (auto simp: claim_job_db intro: transcode_row_sound(3))

lemma transcodeOne_sound: "sound cfg F (rn_db s) (rn_db (transcodeOne cfg hw now env job s))"
proof -
  have "sound cfg F (rn_db s) (rn_db (fileTitle cfg now d t src (s'\<lparr>rn_db := FinishTranscode now i out n h (rn_db s)\<rparr>)))" for s' d t src i out n h
    by (rule sound_then [OF update_transcode_sound(1) [of cfg F "rn_db s" now i out n h]])
       (use fileTitle_sound [of cfg F "s'\<lparr>rn_db := FinishTranscode now i out n h (rn_db s)\<rparr>"] in simp)
  then show ?thesis by (auto simp: transcodeOne_def Let_def split: encode_result.split)
qed

lemma queue_titles_sound: "queue_titles now d dir ts q s = (q', s') \<Longrightarrow> sound cfg F (rn_db s) (rn_db s')"
proof (induction now d dir ts q s rule: queue_titles.induct)
  case (2 now d dir t ts q s)
  show ?case
  proof (cases "QueueTranscode now d (ti_Index t) ''default'' (Join [dir, TitleFileName (ti_Index t)]) (rn_db s)")
    case (Inl e)
    then show ?thesis using 2 by (simp add: logEvent_def)
  next
    case (Inr db')
    then have "sound cfg F db' (rn_db s')" using 2 by simp
    then show ?thesis using transcode_row_sound(1) [OF Inr] sound_then by blast
  qed
qed simp

lemma queueTranscodes_sound: "sound cfg F (rn_db s) (rn_db (queueTranscodes cfg now d dir ts s))"
  using queue_titles_sound [where s = s and now = now and d = d and dir = dir and ts = ts and cfg = cfg and F = F]
  by (auto simp: queueTranscodes_def split: prod.split)

lemma requeue_titles_sound: "requeue_titles now d dir nm is q s = (r, s') \<Longrightarrow> sound cfg F (rn_db s) (rn_db s')"
proof (induction now d dir nm "is" q s rule: requeue_titles.induct)
  case (2 now d dir nm i "is" q s)
  show ?case
  proof (cases "fs_nodes (rn_fs s) (Join [dir, TitleFileName i])")
    case None
    then show ?thesis using 2 by (simp add: logEvent_def)
  next
    case (Some n)
    show ?thesis
    proof (cases "QueueTranscode now d i ''default'' (Join [dir, TitleFileName i]) (rn_db s)")
      case (Inl e)
      then show ?thesis using 2 Some by auto
    next
      case (Inr db')
      then have "sound cfg F db' (rn_db s')" using 2 Some by simp
      then show ?thesis using transcode_row_sound(1) [OF Inr] sound_then by blast
    qed
  qed
qed simp

lemma requeueDisc_sound: "requeueDisc cfg now fp s = (r, s') \<Longrightarrow> sound cfg F (rn_db s) (rn_db s')"
  by (auto simp: requeueDisc_def Let_def split: if_splits option.splits prod.splits dest: requeue_titles_sound [where cfg = cfg and F = F])

end
