(* ===== verification/System.thy ===== *)
theory System
  imports Routes Store_Writes
begin

text \<open>
  The daemon as a whole: \<^verbatim>\<open>New\<close> and \<^verbatim>\<open>Run\<close> of \<^verbatim>\<open>internal/daemon/daemon.go\<close>, \<^verbatim>\<open>NewWorker\<close> and \<^verbatim>\<open>Run\<close> of \<^verbatim>\<open>worker.go\<close>. Its
  goroutines are actions on one state, in any order: it starts, a drive reports a change and its worker deals with it,
  the runner claims a title and later is done with it, files what is unfiled, drives are looked for, health is checked, the
  HTTP server comes and goes, a client asks for something. A worker's dealing with one event, and a runner's ending of one encode, is one action.

  The lemmas show that the database keeps the contract of \<^verbatim>\<open>Store_Writes\<close> through everything, restarts included, and what a
  start leaves behind.
\<close>

section \<open>Start\<close>

record system =
  sy_server :: server
  sy_job :: "transcode_job option"

text \<open>\<^verbatim>\<open>NewWorker\<close>, as far as a worker has state. What is under the rips directory is not the worker's own: it is given
  with every event.\<close>

definition NewWorker :: "watched \<Rightarrow> store \<Rightarrow> worker" where
  "NewWorker wa db =
     \<lparr>wk_device = dv_DevicePath (wa_drv wa), wk_driveID = wa_driveID wa, wk_describe = Describe (wa_drv wa), wk_status = newDriveStatus,
      wk_db = db, wk_dirs = (\<lambda>p. None), wk_cancelled = False, wk_cancellable = False, wk_tray_opened = False, wk_discarded = [],
      wk_handed_on = [], wk_bluray_done = [], wk_published = [], wk_log = []\<rparr>"

text \<open>A worker for every drive that has none yet, which is what \<^verbatim>\<open>syncDrives\<close> starts.\<close>

definition start_workers :: "string set \<Rightarrow> server \<Rightarrow> server" where
  "start_workers known s =
     fold (\<lambda>(i, wa) s'. if i \<in> known then s' else s'\<lparr>sv_workers := (sv_workers s')(i := NewWorker wa (sv_db s'))\<rparr>)
       (da_workers (sv_drives s)) s"

definition watched_ids :: "server \<Rightarrow> string set" where
  "watched_ids s = fst ` set (da_workers (sv_drives s))"

definition idle_snapshot :: transcode_snapshot where
  "idle_snapshot = \<lparr>sn_Running = False, sn_Disc = [], sn_TitleIndex = 0, sn_Hardware = False, sn_Pending = 0, sn_Failed = 0\<rparr>"

text \<open>\<^verbatim>\<open>New\<close>: of an earlier process only the database and the files are left.\<close>

definition New_daemon :: "store \<Rightarrow> fs \<Rightarrow> (string \<Rightarrow> worker) \<Rightarrow> server" where
  "New_daemon db files ws =
     \<lparr>sv_db = db, sv_drives = \<lparr>da_workers = [], da_db = db, da_log = []\<rparr>, sv_workers = ws,
      sv_runner = \<lparr>rn_db = db, rn_fs = files, rn_snap = idle_snapshot, rn_wake = False, rn_log = []\<rparr>,
      sv_encoding = False, sv_encode_cancelled = False, sv_health = [], sv_key = \<lparr>kr_tried = False, kr_last = 0\<rparr>, sv_events = []\<rparr>"

text \<open>\<^verbatim>\<open>syncDrives\<close> on the daemon's database, and the workers it starts.\<close>

definition sync_server :: "config \<Rightarrow> int \<Rightarrow> sysfs \<Rightarrow> server \<Rightarrow> (sync_error + unit) \<times> server" where
  "sync_server cfg now sf s =
     (let (r, d) = syncDrives cfg now sf ((sv_drives s)\<lparr>da_db := sv_db s\<rparr>)
      in (r, start_workers (watched_ids s) (s\<lparr>sv_drives := d, sv_db := da_db d\<rparr>)))"

definition check_server :: "config \<Rightarrow> encoder \<Rightarrow> health_env \<Rightarrow> server \<Rightarrow> server" where
  "check_server cfg e henv s =
     (let (hs, k) = runHealthChecks cfg e henv (length (snapshotWorkers (sv_drives s))) (sv_key s)
      in s\<lparr>sv_health := hs, sv_key := k\<rparr>)"

definition log_health :: "int \<Rightarrow> health \<Rightarrow> server \<Rightarrow> server" where
  "log_health now h s =
     (if hl_OK h then s else log_event now (if hl_Fatal h then ''error'' else ''warn'') (hl_Name h @ '': '' @ hl_Detail h) s)"

record start_env =
  se_now :: int
  se_mkdir :: "string \<Rightarrow> string option"
  se_sysfs :: sysfs
  se_discover_error :: string
  se_health :: health_env
  se_version :: string

text \<open>\<^verbatim>\<open>Run\<close> up to its waiting, with what \<^verbatim>\<open>runTranscodes\<close> does first; the error where it gives up.\<close>

definition first_dir_error :: "(string \<Rightarrow> string option) \<Rightarrow> string list \<Rightarrow> string option" where
  "first_dir_error mk dirs =
     (case List.find (\<lambda>d. mk d \<noteq> None) dirs of
        None \<Rightarrow> None
      | Some d \<Rightarrow> Some (''create '' @ d @ '': '' @ (case mk d of None \<Rightarrow> [] | Some e \<Rightarrow> e)))"

definition reclaim_jobs :: "int \<Rightarrow> server \<Rightarrow> server" where
  "reclaim_jobs now s =
     (let (n, db) = ReclaimUnfinishedJobs now (sv_db s); s1 = s\<lparr>sv_db := db\<rparr>
      in if n > 0 then log_event now ''info'' (nat_str n @ '' job'' @ plural n @ '' interrupted by a restart marked cancelled'') s1 else s1)"

definition reclaim_transcodes :: "config \<Rightarrow> int \<Rightarrow> server \<Rightarrow> server" where
  "reclaim_transcodes cfg now s =
     (if \<not> Transcode cfg then s
      else let (n, db) = ReclaimRunningTranscodes (sv_db s); s1 = s\<lparr>sv_db := db\<rparr>
           in if n > 0 then log_event now ''info''
                  (nat_str n @ '' transcode'' @ plural n @ '' interrupted by a restart returned to the queue'') s1
              else s1)"

definition no_drives_warning :: "int \<Rightarrow> server \<Rightarrow> server" where
  "no_drives_warning now s =
     (if snapshotWorkers (sv_drives s) = [] then log_event now ''warn'' ''no optical drives were found; hellbox will keep looking'' s
      else s)"

text \<open>The part of a start after the drives have been found.\<close>

definition started :: "config \<Rightarrow> encoder \<Rightarrow> start_env \<Rightarrow> server \<Rightarrow> server" where
  "started cfg e env s =
     (let s2 = check_server cfg e (se_health env) (no_drives_warning (se_now env) s);
          s3 = fold (log_health (se_now env)) (sv_health s2) s2
      in reclaim_transcodes cfg (se_now env) (log_event (se_now env) ''info'' (''hellbox '' @ se_version env @ '' started'') s3))"

definition Run_start :: "config \<Rightarrow> encoder \<Rightarrow> start_env \<Rightarrow> server \<Rightarrow> string option \<times> server" where
  "Run_start cfg e env s =
     (case first_dir_error (se_mkdir env) (prepareDirs cfg) of
        Some err \<Rightarrow> (Some err, s)
      | None \<Rightarrow>
          (case sync_server cfg (se_now env) (se_sysfs env) (reclaim_jobs (se_now env) s) of
             (Inl x, s1) \<Rightarrow>
               (Some (case x of DiscoverFailed \<Rightarrow> se_discover_error env | SyncStore err \<Rightarrow> store_error_text err), s1)
           | (Inr u, s1) \<Rightarrow> (None, started cfg e env s1)))"

section \<open>Actions\<close>

text \<open>An event of a drive. The worker has the database for the time of it, and finds the rips directory as other workers and
  people have left it; what it hands on is queued, and what a Blu-ray came to is filed. What it logs is in its own
  log. A drive nobody watches has no events.\<close>

definition worker_event ::
    "(string \<Rightarrow> string) \<Rightarrow> config \<Rightarrow> disc_env \<Rightarrow> (string \<Rightarrow> bool option) \<Rightarrow> int \<Rightarrow> date \<Rightarrow> string \<Rightarrow> drive_event \<Rightarrow>
     server \<Rightarrow> server" where
  "worker_event sha cfg env rips now today i ev s =
     (if i \<notin> watched_ids s then s
      else let w = handleEvent sha cfg env now today ev
                     ((sv_workers s i)\<lparr>wk_db := sv_db s, wk_dirs := rips, wk_handed_on := [], wk_bluray_done := []\<rparr>);
               r1 = fold (\<lambda>(d, dir, ts). queueTranscodes cfg now d dir ts) (wk_handed_on w) ((sv_runner s)\<lparr>rn_db := wk_db w\<rparr>);
               r2 = fold (\<lambda>(d, t, out). fileTitle cfg now d t out) (wk_bluray_done w) r1
           in s\<lparr>sv_db := rn_db r2, sv_runner := r2, sv_workers := (sv_workers s)(i := w)\<rparr>)"

definition with_runner :: "(runner \<Rightarrow> runner) \<Rightarrow> server \<Rightarrow> server" where
  "with_runner f s = (let r = f ((sv_runner s)\<lparr>rn_db := sv_db s\<rparr>) in s\<lparr>sv_runner := r, sv_db := rn_db r\<rparr>)"

text \<open>The runner's loop: the next title is claimed, and when there is none the counts are refreshed and the library is
  caught up with; an encode ends. It was cancelled when a client asked for that, or the daemon is stopping.\<close>

definition claim_next :: "config \<Rightarrow> int \<Rightarrow> nat \<Rightarrow> system \<Rightarrow> system" where
  "claim_next cfg now stop st =
     (if \<not> Transcode cfg \<or> sy_job st \<noteq> None then st
      else case claim_job now ((sv_runner (sy_server st))\<lparr>rn_db := sv_db (sy_server st)\<rparr>) of
             None \<Rightarrow> st\<lparr>sy_server := with_runner (fileUnfiled cfg now stop \<circ> refreshTranscodeCounts) (sy_server st)\<rparr>
           | Some (job, r) \<Rightarrow>
               st\<lparr>sy_server := (sy_server st)\<lparr>sv_runner := r, sv_db := rn_db r, sv_encoding := True, sv_encode_cancelled := False\<rparr>,
                  sy_job := Some job\<rparr>)"

definition end_encode :: "config \<Rightarrow> encoder \<Rightarrow> int \<Rightarrow> encode_env \<Rightarrow> system \<Rightarrow> system" where
  "end_encode cfg e now env st =
     (case sy_job st of
        None \<Rightarrow> st
      | Some job \<Rightarrow>
          st\<lparr>sy_server := (with_runner (transcodeOne cfg (Hardware e) now
                 (env\<lparr>en_cancelled := sv_encode_cancelled (sy_server st) \<or> en_shutdown env\<rparr>) job) (sy_server st))
               \<lparr>sv_encoding := False, sv_encode_cancelled := False\<rparr>,
             sy_job := None\<rparr>)"

text \<open>The tick that looks for drives: a failure is only logged.\<close>

definition look_for_drives :: "config \<Rightarrow> int \<Rightarrow> sysfs \<Rightarrow> string \<Rightarrow> server \<Rightarrow> server" where
  "look_for_drives cfg now sf err s =
     (case sync_server cfg now sf s of
        (Inl x, s1) \<Rightarrow> log_event now ''warn'' (''drive discovery failed: ''
            @ (case x of DiscoverFailed \<Rightarrow> err | SyncStore e \<Rightarrow> store_error_text e)) s1
      | (Inr u, s1) \<Rightarrow> s1)"

text \<open>The goroutine of the HTTP server, whose end is only logged.\<close>

definition run_http :: "config \<Rightarrow> int \<Rightarrow> http_env \<Rightarrow> server \<Rightarrow> server" where
  "run_http cfg now env s =
     (case serveHTTP now env (HTTPAddr cfg) s of
        (None, s1) \<Rightarrow> s1
      | (Some err, s1) \<Rightarrow> log_event now ''error'' (''http api stopped: '' @ err) s1)"

datatype sys_action =
    Starts encoder start_env
  | DriveSays "string \<Rightarrow> string" disc_env "string \<Rightarrow> bool option" int date string drive_event
  | RunnerClaims int nat
  | EncodeEnds encoder int encode_env
  | LooksForDrives int sysfs string
  | ChecksHealth encoder health_env
  | ClientAsks encoder request_env request
  | HttpAsks encoder request_env string "string list"
  | HttpRuns int http_env

fun sys_act :: "config \<Rightarrow> sys_action \<Rightarrow> system \<Rightarrow> system" where
  "sys_act cfg (Starts e env) st =
     \<lparr>sy_server = snd (Run_start cfg e env (New_daemon (sv_db (sy_server st)) (rn_fs (sv_runner (sy_server st))) (sv_workers (sy_server st)))),
      sy_job = None\<rparr>"
| "sys_act cfg (DriveSays sha env rips now today i ev) st = st\<lparr>sy_server := worker_event sha cfg env rips now today i ev (sy_server st)\<rparr>"
| "sys_act cfg (RunnerClaims now stop) st = claim_next cfg now stop st"
| "sys_act cfg (EncodeEnds e now env) st = end_encode cfg e now env st"
| "sys_act cfg (LooksForDrives now sf err) st = st\<lparr>sy_server := look_for_drives cfg now sf err (sy_server st)\<rparr>"
| "sys_act cfg (ChecksHealth e henv) st = st\<lparr>sy_server := check_server cfg e henv (sy_server st)\<rparr>"
| "sys_act cfg (ClientAsks e env rq) st =
     st\<lparr>sy_server := start_workers (watched_ids (sy_server st)) (snd (handle cfg e env rq (sy_server st)))\<rparr>"
| "sys_act cfg (HttpAsks e env verb path) st =
     st\<lparr>sy_server := start_workers (watched_ids (sy_server st)) (snd (serve_http cfg e env 0 0 verb path (sy_server st)))\<rparr>"
| "sys_act cfg (HttpRuns now env) st = st\<lparr>sy_server := run_http cfg now env (sy_server st)\<rparr>"

definition forgotten :: "sys_action \<Rightarrow> string set" where
  "forgotten a =
     (case a of
        ClientAsks e env rq \<Rightarrow> if rq_Method rq = ''forget'' then set_option (rq_Fingerprint rq) else {}
      | HttpAsks e env verb path \<Rightarrow> (case Handler verb path of Inr (PostForget fp) \<Rightarrow> {fp} | _ \<Rightarrow> {})
      | _ \<Rightarrow> {})"

section \<open>Every action keeps the contract\<close>

lemma start_workers_frame [simp]:
  "sv_db (start_workers k s) = sv_db s" "sv_drives (start_workers k s) = sv_drives s" "sv_runner (start_workers k s) = sv_runner s"
  "sv_health (start_workers k s) = sv_health s"
proof -
  have "sv_db (fold (\<lambda>(i, wa) s'. if i \<in> k then s' else s'\<lparr>sv_workers := (sv_workers s')(i := NewWorker wa (sv_db s'))\<rparr>) ws s) = sv_db s
    \<and> sv_drives (fold (\<lambda>(i, wa) s'. if i \<in> k then s' else s'\<lparr>sv_workers := (sv_workers s')(i := NewWorker wa (sv_db s'))\<rparr>) ws s) = sv_drives s
    \<and> sv_runner (fold (\<lambda>(i, wa) s'. if i \<in> k then s' else s'\<lparr>sv_workers := (sv_workers s')(i := NewWorker wa (sv_db s'))\<rparr>) ws s) = sv_runner s
    \<and> sv_health (fold (\<lambda>(i, wa) s'. if i \<in> k then s' else s'\<lparr>sv_workers := (sv_workers s')(i := NewWorker wa (sv_db s'))\<rparr>) ws s) = sv_health s"
    for ws by (induction ws arbitrary: s) (auto split: prod.split)
  then show "sv_db (start_workers k s) = sv_db s" "sv_drives (start_workers k s) = sv_drives s" "sv_runner (start_workers k s) = sv_runner s"
    "sv_health (start_workers k s) = sv_health s" by (simp_all add: start_workers_def)
qed

lemma LogEvent_sound: "LogEvent now lv m j d db = Inr db' \<Longrightarrow> sound cfg F db db'"
  using LogEvent_ok [of db now lv m j d db'] by (auto intro!: sound_frame simp: LogEvent_def split: if_splits)

lemma log_event_sound [intro]: "sound cfg F (sv_db s) (sv_db (log_event now lv m s))"
  by (auto simp: log_event_def or_rollback_def intro: LogEvent_sound split: sum.split)

lemma UpsertDrive_sound: "UpsertDrive now sid dev lab vm db = Inr (i, db') \<Longrightarrow> sound cfg F db db'"
proof -
  assume u: "UpsertDrive now sid dev lab vm db = Inr (i, db')"
  then have "discs db' = discs db" by (auto simp: UpsertDrive_eq)
  then show ?thesis using u UpsertDrive_ok [OF _ u] UpsertDrive_has(2) [OF u] UpsertDrive_attempts [OF u] by_discs [of db' db]
    by (auto simp: sound_def within_def keeps_def is_ripped_def)
qed

lemma sync_drives_sound: "sync_drives cfg now drs d = (r, d') \<Longrightarrow> sound c F (da_db d) (da_db d')"
proof (induction drs arbitrary: d)
  case (Cons dr drs)
  obtain r1 d1 where s1: "sync_drive cfg now dr d = (r1, d1)" by (cases "sync_drive cfg now dr d")
  have "sound c F (da_db d) (da_db d1)" using sync_drive_cases [of cfg now dr d]
  proof cases
    case (added w db' ls)
    then show ?thesis using s1 UpsertDrive_sound by auto
  qed (use s1 in auto)
  moreover have "sound c F (da_db d1) (da_db d')" using Cons s1 by (cases r1) auto
  ultimately show ?case by (rule sound_then)
qed simp

lemma syncDrives_sound: "syncDrives cfg now sf d = (r, d') \<Longrightarrow> sound c F (da_db d) (da_db d')"
  by (auto simp: syncDrives_def split: option.splits prod.splits sum.splits dest: sync_drives_sound)

lemma sync_server_sound: "sync_server cfg now sf s = (r, s') \<Longrightarrow> sound c F (sv_db s) (sv_db s')"
  by (auto simp: sync_server_def Let_def split: prod.splits dest: syncDrives_sound [where c = c and F = F])

lemma same_id_same_disc:
  assumes "store_ok db" "a \<in> set (discs db)" "b \<in> set (discs db)" "d_id a = d_id b"
  shows "a = b"
proof -
  have "inj_on d_id (set (discs db))" using assms(1) by (simp add: store_ok_def tables_ok_def table_ok_def distinct_map)
  from this assms(4,2,3) show ?thesis by (rule inj_onD)
qed

lemma ForgetDisc_find:
  assumes "store_ok db" "ForgetDisc fp db = Inr db'"
  shows "map_option d_id (List.find (\<lambda>d. d_fingerprint d = g) (discs db')) = map_option d_id (List.find (\<lambda>d. d_fingerprint d = g) (discs db))"
    "g \<noteq> fp \<Longrightarrow> List.find (\<lambda>d. d_fingerprint d = g) (discs db') = List.find (\<lambda>d. d_fingerprint d = g) (discs db)"
proof -
  obtain r where r: "List.find (\<lambda>d. d_fingerprint d = fp) (discs db) = Some r"
    using assms by (auto simp: ForgetDisc_def split: option.splits)
  let ?f = "\<lambda>d. d\<lparr>d_rip_dir := None, d_forgotten_after_job := Some (coalesce (max_job (d_id r) db) 0)\<rparr>"
  have db': "db' = update_disc (d_id r) ?f db" using assms r by (simp add: ForgetDisc_eq)
  have find: "List.find (\<lambda>d. d_fingerprint d = h) (discs db') =
      map_option (\<lambda>d. if d_id d = d_id r then ?f d else d) (List.find (\<lambda>d. d_fingerprint d = h) (discs db))" for h
    unfolding db' update_disc_def by (simp add: find_update_where_frame)
  show "map_option d_id (List.find (\<lambda>d. d_fingerprint d = g) (discs db')) = map_option d_id (List.find (\<lambda>d. d_fingerprint d = g) (discs db))"
    unfolding find by (cases "List.find (\<lambda>d. d_fingerprint d = g) (discs db)") simp_all
  assume g: "g \<noteq> fp"
  show "List.find (\<lambda>d. d_fingerprint d = g) (discs db') = List.find (\<lambda>d. d_fingerprint d = g) (discs db)"
  proof (cases "List.find (\<lambda>d. d_fingerprint d = g) (discs db)")
    case (Some d)
    then have "d_id d \<noteq> d_id r" using same_id_same_disc [OF assms(1), of d r] find_Some_D [OF Some] find_Some_D [OF r] g by blast
    then show ?thesis by (simp add: find Some)
  qed (simp add: find)
qed

lemma ForgetDisc_sound:
  assumes "ForgetDisc fp db = Inr db'"
  shows "sound cfg {fp} db db'"
proof -
  obtain r where r: "List.find (\<lambda>d. d_fingerprint d = fp) (discs db) = Some r"
    using assms by (auto simp: ForgetDisc_def split: option.splits)
  have "within cfg db db'" unfolding within_def
    using ForgetDisc_ok [OF _ assms] ForgetDisc_attempts [OF _ assms r] by (metis max.coboundedI1 order_refl zero_le)
  moreover have "keeps {fp} db db'"
    using ForgetDisc_ok [OF _ assms] ForgetDisc_find [OF _ assms] ForgetDisc_drives [OF assms]
    by (simp add: keeps_def has_drive_iff disc_id_of_def is_ripped_def rip_dir_of_def FindDisc_def)
  ultimately show ?thesis by (simp add: sound_def)
qed

lemma ReclaimUnfinishedJobs_sound: "sound cfg F db (snd (ReclaimUnfinishedJobs now db))"
proof -
  let ?db = "snd (ReclaimUnfinishedJobs now db)"
  have fewer: "length (filter (\<lambda>j. P j \<and> Q j) js) \<le> length (filter P js)" for P Q and js :: "job_row list"
    by (induction js) auto
  have "AttemptsForDisc k ?db \<le> AttemptsForDisc k db" for k
    using Reclaim_makes_interruptions_free [of now db k] fewer unfolding Let_def AttemptsForDisc_def by simp
  then have "within cfg db ?db" using ReclaimUnfinishedJobs_ok [of db now] by (simp add: within_def le_max_iff_disj)
  moreover have "keeps F db ?db"
    by (rule keeps_frame [OF ReclaimUnfinishedJobs_ok]) (simp_all add: ReclaimUnfinishedJobs_def)
  ultimately show ?thesis by (simp add: sound_def)
qed

lemma forget_sound: "sound cfg {fp} (sv_db s) (sv_db (snd (forget env fp s)))"
proof (cases "ForgetDisc fp (sv_db s)")
  case (Inr db)
  have "sound cfg {fp} (sv_db (s\<lparr>sv_db := db\<rparr>)) (sv_db (log_event (qe_now env) ''info'' (forget_text fp) (s\<lparr>sv_db := db\<rparr>)))"
    by (rule log_event_sound)
  then show ?thesis using sound_then [OF ForgetDisc_sound [OF Inr]] by (simp add: forget_def Inr)
qed (simp add: forget_def)

lemma rescan_sound: "sound c F (sv_db s) (sv_db (snd (rescan cfg e env s)))"
  by (auto simp: rescan_def Let_def split: prod.splits sum.splits if_splits dest: syncDrives_sound [where c = c and F = F])

lemma handle_sound: "sound cfg (forgotten (ClientAsks e env rq)) (sv_db s) (sv_db (snd (handle cfg e env rq s)))"
  using handle_state [of cfg e env rq s]
proof cases
  case (forget fp)
  then show ?thesis by (simp add: forgotten_def forget_sound)
next
  case rescan
  then show ?thesis by (simp add: rescan_sound)
next
  case (retry i)
  then show ?thesis by (auto simp: queue_retry_def Let_def split: option.split)
next
  case (again fp)
  then show ?thesis by (auto simp: transcode_again_def split: prod.splits sum.splits
        dest: requeueDisc_sound [where F = "forgotten (ClientAsks e env rq)"])
qed (simp_all add: on_worker_frame CancelTranscode_def)

lemma serve_http_state:
  obtains (same) "snd (serve_http cfg e env b a verb path s) = s"
  | (worker) i f where "snd (serve_http cfg e env b a verb path s) = snd (on_worker env i f s)"
  | (rescan) "snd (serve_http cfg e env b a verb path s) = snd (rescan cfg e env s)"
  | (forget) fp where "Handler verb path = Inr (PostForget fp)" "snd (serve_http cfg e env b a verb path s) = snd (forget env fp s)"
proof (cases "Handler verb path")
  case (Inl code)
  then show thesis using same by (simp add: serve_http_def)
next
  case (Inr r)
  then have eq: "snd (serve_http cfg e env b a verb path s) = snd (serve_route cfg e env b a r s)"
    by (auto simp: serve_http_def split: prod.splits option.splits)
  show thesis
  proof (cases r)
    case (PostForget fp)
    then show thesis using forget [of fp] same eq Inr
      by (cases "fp = []") (simp_all add: case_prod_unfold api_states api_Forget_def [of _ "[]"])
  qed (use eq same worker rescan in \<open>auto simp: case_prod_unfold api_states\<close>)
qed

lemma serve_http_sound: "sound cfg (forgotten (HttpAsks e env verb path)) (sv_db s) (sv_db (snd (serve_http cfg e env b a verb path s)))"
  using serve_http_state [of cfg e env b a verb path s]
  by cases (simp_all add: on_worker_frame rescan_sound forgotten_def forget_sound)

lemma handed_on_sound:
  "sound cfg F (rn_db r) (rn_db (fold (\<lambda>(d, dir, ts). queueTranscodes cfg now d dir ts) xs r))"
  by (induction xs arbitrary: r) (auto intro: sound_then [OF queueTranscodes_sound] split: prod.split)

lemma bluray_done_sound: "sound cfg F (rn_db r) (rn_db (fold (\<lambda>(d, t, out). fileTitle cfg now d t out) xs r))"
  by (induction xs arbitrary: r) (auto intro: sound_then [OF fileTitle_sound] split: prod.split)

lemma worker_event_sound: "sound cfg {} (sv_db s) (sv_db (worker_event sha cfg env rips now today i ev s))"
proof (cases "i \<in> watched_ids s")
  case True
  define w0 where "w0 = (sv_workers s i)\<lparr>wk_db := sv_db s, wk_dirs := rips, wk_handed_on := [], wk_bluray_done := []\<rparr>"
  define w where "w = handleEvent sha cfg env now today ev w0"
  define r0 where "r0 = (sv_runner s)\<lparr>rn_db := wk_db w\<rparr>"
  define r1 where "r1 = fold (\<lambda>(d, dir, ts). queueTranscodes cfg now d dir ts) (wk_handed_on w) r0"
  have "sound cfg {} (sv_db s) (rn_db r0)" using handleEvent_sound [of cfg w0 sha env now today ev] by (simp add: w_def w0_def r0_def)
  also have "sound cfg {} (rn_db r0) (rn_db r1)" unfolding r1_def by (rule handed_on_sound)
  also have "sound cfg {} (rn_db r1) (rn_db (fold (\<lambda>(d, t, out). fileTitle cfg now d t out) (wk_bluray_done w) r1))"
    by (rule bluray_done_sound)
  finally show ?thesis using True
    by (simp add: worker_event_def Let_def w0_def [symmetric] w_def [symmetric] r0_def [symmetric] r1_def [symmetric])
qed (simp add: worker_event_def)

lemma with_runner_sound: "(\<And>r. sound cfg F (rn_db r) (rn_db (f r))) \<Longrightarrow> sound cfg F (sv_db s) (sv_db (with_runner f s))"
  by (simp add: with_runner_def Let_def) (metis runner.select_convs(1) runner.surjective runner.update_convs(1))

lemma claim_next_sound: "sound cfg F (sv_db (sy_server st)) (sv_db (sy_server (claim_next cfg now stop st)))"
proof -
  have "sound cfg F (rn_db r) (rn_db ((fileUnfiled cfg now stop \<circ> refreshTranscodeCounts) r))" for r
    using fileUnfiled_sound [of cfg F "refreshTranscodeCounts r"] by simp
  then show ?thesis using claim_job_sound [of now "(sv_runner (sy_server st))\<lparr>rn_db := sv_db (sy_server st)\<rparr>"]
    by (auto simp: claim_next_def intro: with_runner_sound split: option.split)
qed

lemma end_encode_sound: "sound cfg F (sv_db (sy_server st)) (sv_db (sy_server (end_encode cfg e now env st)))"
  by (auto simp: end_encode_def intro: with_runner_sound transcodeOne_sound split: option.split)

lemma look_for_drives_sound: "sound c F (sv_db s) (sv_db (look_for_drives cfg now sf err s))"
  by (auto simp: look_for_drives_def intro: sync_server_sound sound_then [OF _ log_event_sound] split: prod.split sum.split)

lemma check_server_frame [simp]: "sv_db (check_server cfg e henv s) = sv_db s" "sv_drives (check_server cfg e henv s) = sv_drives s"
  by (simp_all add: check_server_def split: prod.split)

lemma log_healths_sound: "sound c F (sv_db s) (sv_db (fold (log_health now) hs s))"
proof (induction hs arbitrary: s)
  case (Cons h hs)
  have "sound c F (sv_db s) (sv_db (log_health now h s))" by (auto simp: log_health_def)
  with Cons show ?case by (auto intro: sound_then)
qed simp

lemma reclaim_jobs_sound: "sound c F (sv_db s) (sv_db (reclaim_jobs now s))"
proof -
  obtain n db where r: "ReclaimUnfinishedJobs now (sv_db s) = (n, db)" by (cases "ReclaimUnfinishedJobs now (sv_db s)")
  have "sound c F (sv_db s) (sv_db (s\<lparr>sv_db := db\<rparr>))" using ReclaimUnfinishedJobs_sound [of c F "sv_db s" now] r by simp
  then show ?thesis using sound_then [OF _ log_event_sound] by (auto simp: reclaim_jobs_def r Let_def)
qed

lemma reclaim_transcodes_sound: "sound c F (sv_db s) (sv_db (reclaim_transcodes cfg now s))"
proof -
  obtain n db where r: "ReclaimRunningTranscodes (sv_db s) = (n, db)" by (cases "ReclaimRunningTranscodes (sv_db s)")
  have "sound c F (sv_db s) (sv_db (s\<lparr>sv_db := db\<rparr>))" using update_transcode_sound(5) [of c F "sv_db s"] r by simp
  then show ?thesis using sound_then [OF _ log_event_sound] by (auto simp: reclaim_transcodes_def r Let_def)
qed

lemma no_drives_warning_sound: "sound c F (sv_db s) (sv_db (no_drives_warning now s))"
  by (auto simp: no_drives_warning_def)

lemma started_sound: "sound c F (sv_db s) (sv_db (started cfg e env s))"
proof -
  define s2 where "s2 = check_server cfg e (se_health env) (no_drives_warning (se_now env) s)"
  define s3 where "s3 = fold (log_health (se_now env)) (sv_health s2) s2"
  define s4 where "s4 = log_event (se_now env) ''info'' (''hellbox '' @ se_version env @ '' started'') s3"
  have "sound c F (sv_db s) (sv_db s2)" by (simp add: s2_def no_drives_warning_sound)
  also have "sound c F (sv_db s2) (sv_db s3)" unfolding s3_def by (rule log_healths_sound)
  also have "sound c F (sv_db s3) (sv_db s4)" unfolding s4_def by (rule log_event_sound)
  also have "sound c F (sv_db s4) (sv_db (reclaim_transcodes cfg (se_now env) s4))" by (rule reclaim_transcodes_sound)
  finally show ?thesis unfolding started_def Let_def s2_def s3_def s4_def .
qed

lemma Run_start_sound: "sound c F (sv_db s) (sv_db (snd (Run_start cfg e env s)))"
proof -
  obtain r s1 where s1: "sync_server cfg (se_now env) (se_sysfs env) (reclaim_jobs (se_now env) s) = (r, s1)"
    by (cases "sync_server cfg (se_now env) (se_sysfs env) (reclaim_jobs (se_now env) s)")
  have "sound c F (sv_db s) (sv_db s1)" using reclaim_jobs_sound sync_server_sound [OF s1] by (rule sound_then)
  then show ?thesis using sound_then [OF _ started_sound [of c F s1 cfg e env]]
    by (auto simp: Run_start_def s1 split: option.split sum.split)
qed

lemma run_http_sound [intro]: "sound c F (sv_db s) (sv_db (run_http cfg now env s))"
  by (auto simp: run_http_def serveHTTP_def intro: sound_then [OF log_event_sound log_event_sound] split: sum.split option.split)

lemma sys_act_sound: "sound cfg (forgotten a) (sv_db (sy_server st)) (sv_db (sy_server (sys_act cfg a st)))"
proof (cases a)
  case (Starts e env)
  let ?s = "New_daemon (sv_db (sy_server st)) (rn_fs (sv_runner (sy_server st))) (sv_workers (sy_server st))"
  have "sv_db ?s = sv_db (sy_server st)" by (simp add: New_daemon_def)
  then show ?thesis using Run_start_sound [of cfg "forgotten a" ?s cfg e env] Starts by simp
next
  case (DriveSays sha env rips now today i ev)
  then show ?thesis using worker_event_sound by (simp add: forgotten_def)
next
  case (ClientAsks e env rq)
  then show ?thesis using handle_sound by simp
next
  case (HttpAsks e env verb path)
  then show ?thesis using serve_http_sound by simp
qed (simp_all add: claim_next_sound end_encode_sound look_for_drives_sound run_http_sound)

interpretation daemon_writer: writer cfg "\<lambda>st. sv_db (sy_server st)" "sys_act cfg" forgotten
  for cfg by unfold_locales (rule sys_act_sound)

section \<open>Every worker's drive is on record\<close>

lemma server_ok_sound:
  assumes "server_ok s" "sound c F (sv_db s) (sv_db s')" "sv_drives s' = sv_drives s"
  shows "server_ok s'"
  using assms unfolding server_ok_def daemon_ok_def sound_def keeps_def by (auto simp: list_all_iff)

lemma sync_server_ok: "server_ok s \<Longrightarrow> sync_server cfg now sf s = (r, s') \<Longrightarrow> server_ok s'"
  by (auto simp: sync_server_def server_ok_def syncDrives_def split: prod.splits option.splits sum.splits dest: sync_drives_steps)

lemma log_event_frame [simp]: "sv_drives (log_event now lv m s) = sv_drives s" "sv_workers (log_event now lv m s) = sv_workers s"
  "sv_health (log_event now lv m s) = sv_health s"
  by (simp_all add: log_event_def)

lemma log_healths_frame [simp]: "sv_drives (fold (log_health now) hs s) = sv_drives s" "sv_workers (fold (log_health now) hs s) = sv_workers s"
  by (induction hs arbitrary: s) (simp_all add: log_health_def)

lemma started_frame: "sv_drives (started cfg e env s) = sv_drives s" "sv_workers (started cfg e env s) = sv_workers s"
proof -
  have "sv_drives (reclaim_transcodes cfg now t) = sv_drives t" "sv_workers (reclaim_transcodes cfg now t) = sv_workers t" for now t
    by (simp_all add: reclaim_transcodes_def Let_def split: prod.split)
  moreover have "sv_drives (no_drives_warning now t) = sv_drives t" "sv_workers (no_drives_warning now t) = sv_workers t" for now t
    by (simp_all add: no_drives_warning_def)
  moreover have "sv_workers (check_server cfg e henv t) = sv_workers t" for henv t
    by (simp add: check_server_def split: prod.split)
  ultimately show "sv_drives (started cfg e env s) = sv_drives s" "sv_workers (started cfg e env s) = sv_workers s"
    by (simp_all add: started_def Let_def)
qed

lemma reclaim_jobs_frame: "sv_drives (reclaim_jobs now s) = sv_drives s" "sv_workers (reclaim_jobs now s) = sv_workers s"
  by (simp_all add: reclaim_jobs_def Let_def split: prod.split)

lemma New_daemon_ok: "store_ok db \<Longrightarrow> server_ok (New_daemon db files ws)"
  by (simp add: server_ok_def daemon_ok_def New_daemon_def)

lemma Run_start_ok:
  assumes "server_ok s"
  shows "server_ok (snd (Run_start cfg e env s))"
proof -
  obtain r s1 where s1: "sync_server cfg (se_now env) (se_sysfs env) (reclaim_jobs (se_now env) s) = (r, s1)"
    by (cases "sync_server cfg (se_now env) (se_sysfs env) (reclaim_jobs (se_now env) s)")
  have "server_ok s1"
    using sync_server_ok [OF server_ok_sound [OF assms reclaim_jobs_sound reclaim_jobs_frame(1)] s1] .
  then show ?thesis using assms server_ok_sound [OF _ started_sound started_frame(1)]
    by (auto simp: Run_start_def s1 split: option.split sum.split)
qed

lemma start_workers_ok: "server_ok (start_workers k s) = server_ok s"
  by (simp add: server_ok_def)

lemma handle_ok: "server_ok s \<Longrightarrow> server_ok (snd (handle cfg e env rq s))"
  using handle_state [of cfg e env rq s]
proof cases
  case (forget fp)
  then show "server_ok s \<Longrightarrow> ?thesis" using forget_ok by simp
next
  case rescan
  then show "server_ok s \<Longrightarrow> ?thesis" using rescan_ok by simp
next
  case (retry i)
  then show "server_ok s \<Longrightarrow> ?thesis" using queue_retry_ok by simp
next
  case (again fp)
  then show "server_ok s \<Longrightarrow> ?thesis" using transcode_again_ok by simp
qed (simp_all add: server_ok_def on_worker_frame CancelTranscode_def)

lemma serve_http_ok: "server_ok s \<Longrightarrow> server_ok (snd (serve_http cfg e env b a verb path s))"
  using serve_http_state [of cfg e env b a verb path s]
proof cases
  case (worker i f)
  then show "server_ok s \<Longrightarrow> ?thesis" by (simp add: server_ok_def on_worker_frame)
qed (simp_all add: rescan_ok forget_ok)

lemma sys_act_ok:
  assumes "server_ok (sy_server st)"
  shows "server_ok (sy_server (sys_act cfg a st))"
proof (cases a)
  case (Starts e env)
  then show ?thesis using Run_start_ok [OF New_daemon_ok [OF server_ok_store [OF assms]]] by simp
next
  case (LooksForDrives now sf err)
  then show ?thesis using assms sync_server_ok
    by (auto simp: look_for_drives_def log_event_ok split: prod.split sum.split)
next
  case (ClientAsks e env rq)
  then show ?thesis using handle_ok [OF assms] by (simp add: start_workers_ok)
next
  case (HttpAsks e env verb path)
  then show ?thesis using serve_http_ok [OF assms] by (simp add: start_workers_ok)
next
  case (DriveSays sha env rips now today i ev)
  then have "sv_drives (sy_server (sys_act cfg a st)) = sv_drives (sy_server st)" by (simp add: worker_event_def Let_def)
  then show ?thesis by (rule server_ok_sound [OF assms sys_act_sound])
next
  case (RunnerClaims now stop)
  then have "sv_drives (sy_server (sys_act cfg a st)) = sv_drives (sy_server st)"
    by (simp add: claim_next_def with_runner_def Let_def split: option.split prod.split)
  then show ?thesis by (rule server_ok_sound [OF assms sys_act_sound])
next
  case (EncodeEnds e now env)
  then have "sv_drives (sy_server (sys_act cfg a st)) = sv_drives (sy_server st)"
    by (simp add: end_encode_def with_runner_def Let_def split: option.split)
  then show ?thesis by (rule server_ok_sound [OF assms sys_act_sound])
next
  case (ChecksHealth e henv)
  then show ?thesis using assms by (simp add: server_ok_def)
next
  case (HttpRuns now env)
  then show ?thesis using assms by (auto simp: run_http_def serveHTTP_def log_event_ok split: sum.split option.split)
qed

lemma run_ok: "server_ok (sy_server st) \<Longrightarrow> server_ok (sy_server (fold (sys_act cfg) as st))"
  by (induction as arbitrary: st) (simp_all add: sys_act_ok)


definition sample_start :: start_env where
  "sample_start = \<lparr>se_now = 200, se_mkdir = (\<lambda>p. None), se_sysfs = sample_sysfs, se_discover_error = [], se_health = sample_health 200, se_version = ''0.1''\<rparr>"

definition sample_forget :: "string \<Rightarrow> sys_action" where
  "sample_forget fp = ClientAsks (New_encoder [] []) \<lparr>qe_now = 300, qe_ejects = True, qe_eject_error = [], qe_running = True, qe_sysfs = sample_sysfs,
       qe_discover_error = [], qe_health = sample_health 300, qe_free = 0\<rparr>
     \<lparr>rq_ID = 1, rq_Method = ''forget'', rq_Limit = 0, rq_Drive = [], rq_Fingerprint = Some fp, rq_Job = None\<rparr>"


section \<open>What a start leaves\<close>

text \<open>What is logged, and which drives are found, concerns neither jobs nor transcodes.\<close>

definition same_work :: "store \<Rightarrow> store \<Rightarrow> bool" where
  "same_work db db' \<longleftrightarrow> jobs db' = jobs db \<and> transcodes db' = transcodes db"

lemma same_work_refl [simp]: "same_work db db"
  by (simp add: same_work_def)

lemma same_work_trans [trans]: "same_work a b \<Longrightarrow> same_work b c \<Longrightarrow> same_work a c"
  by (simp add: same_work_def)

lemma log_event_work [simp]: "same_work (sv_db s) (sv_db (log_event now lv m s))"
  by (auto simp: same_work_def log_event_def or_rollback_def LogEvent_def split: sum.split if_splits)

lemma sync_drives_work: "sync_drives cfg now drs d = (r, d') \<Longrightarrow> same_work (da_db d) (da_db d')"
proof (induction drs arbitrary: d)
  case (Cons dr drs)
  obtain r1 d1 where s1: "sync_drive cfg now dr d = (r1, d1)" by (cases "sync_drive cfg now dr d")
  have "same_work (da_db d) (da_db d1)" using sync_drive_cases [of cfg now dr d]
  proof cases
    case (added w db' ls)
    then show ?thesis using s1 by (auto simp: same_work_def UpsertDrive_eq)
  qed (use s1 in auto)
  moreover have "same_work (da_db d1) (da_db d')" using Cons s1 by (cases r1) auto
  ultimately show ?case by (rule same_work_trans)
qed simp

lemma sync_server_work: "sync_server cfg now sf s = (r, s') \<Longrightarrow> same_work (sv_db s) (sv_db s')"
  by (auto simp: sync_server_def syncDrives_def Let_def split: prod.splits option.splits sum.splits dest: sync_drives_work)

lemma log_healths_work: "same_work (sv_db s) (sv_db (fold (log_health now) hs s))"
proof (induction hs arbitrary: s)
  case (Cons h hs)
  have "same_work (sv_db s) (sv_db (log_health now h s))" by (auto simp: log_health_def)
  with Cons show ?case by (auto intro: same_work_trans)
qed simp

lemma started_work:
  "jobs (sv_db (started cfg e env s)) = jobs (sv_db s)"
  "Transcode cfg \<Longrightarrow> list_all (\<lambda>r. tc_state r \<noteq> TranscodeRunning) (transcodes (sv_db (started cfg e env s)))"
proof -
  define s2 where "s2 = check_server cfg e (se_health env) (no_drives_warning (se_now env) s)"
  define s4 where "s4 = log_event (se_now env) ''info'' (''hellbox '' @ se_version env @ '' started'') (fold (log_health (se_now env)) (sv_health s2) s2)"
  obtain n db where r: "ReclaimRunningTranscodes (sv_db s4) = (n, db)" by (cases "ReclaimRunningTranscodes (sv_db s4)")
  have eq: "started cfg e env s = reclaim_transcodes cfg (se_now env) s4" by (simp add: started_def Let_def s2_def s4_def)
  have "same_work (sv_db s) (sv_db s2)" by (simp add: s2_def no_drives_warning_def)
  also have "same_work (sv_db s2) (sv_db (fold (log_health (se_now env)) (sv_health s2) s2))" by (rule log_healths_work)
  also have "same_work (sv_db (fold (log_health (se_now env)) (sv_health s2) s2)) (sv_db s4)" unfolding s4_def by (rule log_event_work)
  finally have 4: "jobs (sv_db s4) = jobs (sv_db s)" by (simp add: same_work_def)
  have log: "same_work db (sv_db (log_event now lv m (s4\<lparr>sv_db := db\<rparr>)))" for now lv m
    using log_event_work [of "s4\<lparr>sv_db := db\<rparr>"] by simp
  have db: "jobs db = jobs (sv_db s4)" "list_all (\<lambda>r. tc_state r \<noteq> TranscodeRunning) (transcodes db)"
    using r by (auto simp: ReclaimRunningTranscodes_def update_where_def list_all_iff)
  then show "jobs (sv_db (started cfg e env s)) = jobs (sv_db s)"
    using 4 log by (simp add: eq reclaim_transcodes_def r Let_def same_work_def)
  show "list_all (\<lambda>r. tc_state r \<noteq> TranscodeRunning) (transcodes (sv_db (started cfg e env s)))" if "Transcode cfg"
    using that db log by (simp add: eq reclaim_transcodes_def r Let_def same_work_def)
qed

lemma start_workers_new:
  assumes "distinct (map fst (da_workers (sv_drives s)))" "(i, wa) \<in> set (da_workers (sv_drives s))" "i \<notin> known"
  shows "sv_workers (start_workers known s) i = NewWorker wa (sv_db s)"
proof -
  let ?f = "\<lambda>(i, wa) (s' :: server). if i \<in> known then s' else s'\<lparr>sv_workers := (sv_workers s')(i := NewWorker wa (sv_db s'))\<rparr>"
  have other: "i \<notin> fst ` set xs \<Longrightarrow> sv_workers (fold ?f xs t) i = sv_workers t i" for xs t
    by (induction xs arbitrary: t) (auto split: prod.split)
  have db: "sv_db (?f x t) = sv_db t" for x t by (auto split: prod.split)
  have "distinct (map fst xs) \<Longrightarrow> (i, wa) \<in> set xs \<Longrightarrow> sv_workers (fold ?f xs t) i = NewWorker wa (sv_db t)" for xs t
  proof (induction xs arbitrary: t)
    case (Cons x xs)
    show ?case
    proof (cases "x = (i, wa)")
      case True
      then have "i \<notin> fst ` set xs" using Cons.prems(1) by simp
      then show ?thesis using other [of xs] True assms(3) by simp
    next
      case False
      then show ?thesis using Cons db [of x t] by simp
    qed
  qed simp
  then show ?thesis using assms by (simp add: start_workers_def)
qed

lemma reclaim_jobs_finished: "list_all (\<lambda>j. \<not> unfinished (j_state j)) (jobs (sv_db (reclaim_jobs now s)))"
proof -
  obtain n db where r: "ReclaimUnfinishedJobs now (sv_db s) = (n, db)" by (cases "ReclaimUnfinishedJobs now (sv_db s)")
  have "list_all (\<lambda>j. \<not> unfinished (j_state j)) (jobs db)"
    using Reclaim_makes_interruptions_free [of now "sv_db s"] r by (simp add: Let_def)
  moreover have "same_work db (sv_db (log_event now lv m (s\<lparr>sv_db := db\<rparr>)))" for lv m
    using log_event_work [of "s\<lparr>sv_db := db\<rparr>"] by simp
  ultimately show ?thesis by (simp add: reclaim_jobs_def r Let_def same_work_def)
qed

text \<open>What \<^verbatim>\<open>syncDrives\<close> does for a daemon that watches nothing yet.\<close>

lemma first_sync:
  assumes "server_ok s" "da_workers (sv_drives s) = []" "sync_server cfg now sf s = (r, s')"
  shows "r = (case Discover sf of None \<Rightarrow> Inl DiscoverFailed | Some drs \<Rightarrow> Inr ())"
    "Discover sf = Some drs \<Longrightarrow> watched_ids s' = dv_StableID ` {dr \<in> set drs. enabled cfg dr}
      \<and> (\<forall>(i, wa) \<in> set (da_workers (sv_drives s')). sv_workers s' i = NewWorker wa (sv_db s'))"
proof -
  define d where "d = (sv_drives s)\<lparr>da_db := sv_db s\<rparr>"
  have ok: "daemon_ok d" "da_workers d = []" using assms(1,2) by (simp_all add: server_ok_def d_def)
  obtain r1 d1 where y: "syncDrives cfg now sf d = (r1, d1)" by (cases "syncDrives cfg now sf d")
  have s': "r = r1" "s' = start_workers {} (s\<lparr>sv_drives := d1, sv_db := da_db d1\<rparr>)"
    using assms(2,3) y by (auto simp: sync_server_def d_def [symmetric] watched_ids_def)
  have found: "r1 = Inr () \<and> daemon_ok d1 \<and> (\<forall>dr \<in> set drs. enabled cfg dr \<longrightarrow> dv_StableID dr \<in> fst ` set (da_workers d1))
      \<and> (\<forall>(i, w) \<in> set (da_workers d1). enabled cfg (wa_drv w) \<and> wa_drv w \<in> set drs)" if "Discover sf = Some drs" for drs
  proof -
    obtain r2 d2 where s2: "sync_drives cfg now drs d = (r2, d2)" by (cases "sync_drives cfg now drs d")
    note steps = sync_drives_steps [OF ok(1) s2]
    then have "r1 = Inr ()" "d1 = d2" using y that s2 by (auto simp: syncDrives_def)
    then show ?thesis using steps ok(2) by auto
  qed
  show "r = (case Discover sf of None \<Rightarrow> Inl DiscoverFailed | Some drs \<Rightarrow> Inr ())"
    using found y s'(1) by (auto simp: syncDrives_def split: option.splits)
  assume dr: "Discover sf = Some drs"
  have "fst ` set (da_workers d1) = dv_StableID ` {dr \<in> set drs. enabled cfg dr}"
    using found [OF dr] by (fastforce simp: daemon_ok_def list_all_iff)
  then show "watched_ids s' = dv_StableID ` {dr \<in> set drs. enabled cfg dr}
      \<and> (\<forall>(i, wa) \<in> set (da_workers (sv_drives s')). sv_workers s' i = NewWorker wa (sv_db s'))"
    using found [OF dr] start_workers_new [where known = "{}" and s = "s\<lparr>sv_drives := d1, sv_db := da_db d1\<rparr>"]
    by (auto simp: s'(2) watched_ids_def daemon_ok_def)
qed



end
