(* ===== verification/Lifecycle.thy ===== *)
theory Lifecycle
  imports System
begin

text \<open>
  The goroutines of \<^verbatim>\<open>Run\<close> in \<^verbatim>\<open>internal/daemon/daemon.go\<close> and how they end: the tickers, the queue, the two servers, a worker
  per drive, the wait group that counts them and the main goroutine that waits for them. A worker runs on the context it
  was started with, which is the daemon's own for a drive found by \<^verbatim>\<open>Run\<close>, by the tick or by a client of the socket, and the
  request's for one found by \<^verbatim>\<open>POST /v1/rescan\<close> (\<^verbatim>\<open>act\<close> in \<^verbatim>\<open>internal/api/server.go\<close>, \<^verbatim>\<open>Rescan\<close> in \<^verbatim>\<open>http.go\<close>); \<^verbatim>\<open>net/http\<close> cancels that one when
  the request has been answered.

  The lemmas show that a drive found in the first ways has one worker until the daemon is stopped, that one found in the
  last way is without one from then on, that \<^verbatim>\<open>Run\<close> returns when, and only when, the daemon is stopped, and that the
  socket of \<^verbatim>\<open>serve\<close> in \<^verbatim>\<open>server.go\<close> is there exactly while it accepts.
\<close>

section \<open>States and steps\<close>

datatype goroutine =
    Discovery
  | HealthTick
  | StatusTick
  | Queue
  | Socket
  | Http
  | DriveWorker string

datatype ctx = DaemonCtx | RequestCtx nat

datatype main = Selecting | Waiting "string option" | Returned "string option"

record life =
  lf_stopped :: bool
  lf_next :: nat
  lf_open :: "nat list"
  lf_workers :: "string list"
  lf_ctx :: "string \<Rightarrow> ctx"
  lf_live :: "goroutine list"
  lf_srvErr :: "string option"
  lf_main :: main

text \<open>What \<^verbatim>\<open>Run\<close> starts, for the drives its first look found.\<close>

definition loops :: "goroutine list" where
  "loops = [Discovery, HealthTick, StatusTick, Queue, Socket, Http]"

definition life_start :: "string list \<Rightarrow> life" where
  "life_start ids =
     \<lparr>lf_stopped = False, lf_next = 0, lf_open = [], lf_workers = ids, lf_ctx = (\<lambda>i. DaemonCtx),
      lf_live = loops @ map DriveWorker ids, lf_srvErr = None, lf_main = Selecting\<rparr>"

fun ctx_done :: "life \<Rightarrow> ctx \<Rightarrow> bool" where
  "ctx_done s DaemonCtx = lf_stopped s"
| "ctx_done s (RequestCtx n) = (lf_stopped s \<or> n \<notin> set (lf_open s))"

text \<open>A drive that nobody watches is found: the tail of \<^verbatim>\<open>syncDrives\<close>.\<close>

definition add_worker :: "string \<Rightarrow> ctx \<Rightarrow> life \<Rightarrow> life" where
  "add_worker i c s =
     s\<lparr>lf_workers := i # lf_workers s, lf_ctx := (lf_ctx s)(i := c), lf_live := DriveWorker i # lf_live s\<rparr>"

definition ended :: "goroutine \<Rightarrow> life \<Rightarrow> life" where
  "ended g s = s\<lparr>lf_live := remove1 g (lf_live s)\<rparr>"

inductive life_step :: "config \<Rightarrow> life \<Rightarrow> life \<Rightarrow> bool" for cfg where
  stop: "life_step cfg s (s\<lparr>lf_stopped := True\<rparr>)"
| found: "g \<in> {Discovery, Socket} \<Longrightarrow> g \<in> set (lf_live s) \<Longrightarrow> i \<notin> set (lf_workers s) \<Longrightarrow> life_step cfg s (add_worker i DaemonCtx s)"
| asked: "Http \<in> set (lf_live s) \<Longrightarrow> life_step cfg s (s\<lparr>lf_open := lf_next s # lf_open s, lf_next := Suc (lf_next s)\<rparr>)"
| found_asked: "n \<in> set (lf_open s) \<Longrightarrow> i \<notin> set (lf_workers s) \<Longrightarrow> life_step cfg s (add_worker i (RequestCtx n) s)"
| answered: "n \<in> set (lf_open s) \<Longrightarrow> life_step cfg s (s\<lparr>lf_open := removeAll n (lf_open s)\<rparr>)"
| worker_ends: "DriveWorker i \<in> set (lf_live s) \<Longrightarrow> ctx_done s (lf_ctx s i) \<Longrightarrow> life_step cfg s (ended (DriveWorker i) s)"
| loop_ends: "g \<in> set loops \<Longrightarrow> g \<in> set (lf_live s) \<Longrightarrow> lf_stopped s \<Longrightarrow> life_step cfg s (ended g s)"
| queue_off: "Queue \<in> set (lf_live s) \<Longrightarrow> \<not> Transcode cfg \<Longrightarrow> life_step cfg s (ended Queue s)"
| http_ends: "Http \<in> set (lf_live s) \<Longrightarrow> life_step cfg s (ended Http s)"
| socket_fails: "Socket \<in> set (lf_live s) \<Longrightarrow> life_step cfg s ((ended Socket s)\<lparr>lf_srvErr := Some e\<rparr>)"
| main_stopped: "lf_main s = Selecting \<Longrightarrow> lf_stopped s \<Longrightarrow> life_step cfg s (s\<lparr>lf_main := Waiting None\<rparr>)"
| main_failed: "lf_main s = Selecting \<Longrightarrow> lf_srvErr s = Some e \<Longrightarrow> life_step cfg s (s\<lparr>lf_main := Waiting (Some e)\<rparr>)"
| main_returns: "lf_main s = Waiting r \<Longrightarrow> lf_live s = [] \<Longrightarrow> life_step cfg s (s\<lparr>lf_main := Returned r\<rparr>)"

abbreviation lives :: "config \<Rightarrow> life \<Rightarrow> life \<Rightarrow> bool" where
  "lives cfg \<equiv> (life_step cfg)\<^sup>*\<^sup>*"

section \<open>The socket\<close>

text \<open>\<^verbatim>\<open>serve\<close>. What each call came to is an argument: removing a socket a daemon that crashed has left behind, listening,
  setting the permissions, and the results of \<^verbatim>\<open>Accept\<close>; a failed one says whether the daemon is stopping and whether the
  listener was closed. Without a result it is still accepting. The paths are those in the file system.\<close>

datatype 'c accept = Accepted 'c | AcceptFails bool bool string

record 'c listen_env =
  li_remove :: "string option"
  li_listen :: "string option"
  li_chmod :: "string option"
  li_accepts :: "'c accept list"

fun accept_loop :: "'c accept list \<Rightarrow> 'c list \<times> string option option" where
  "accept_loop [] = ([], None)"
| "accept_loop (Accepted c # as) = (case accept_loop as of (cs, r) \<Rightarrow> (c # cs, r))"
| "accept_loop (AcceptFails stopped closed err # as) = ([], Some (if stopped \<or> closed then None else Some (''accept: '' @ err)))"

definition serve :: "config \<Rightarrow> 'c listen_env \<Rightarrow> string set \<Rightarrow> 'c list \<times> string option option \<times> string set" where
  "serve cfg env files =
     (case li_remove env of
        Some err \<Rightarrow> ([], Some (Some (''clear stale socket '' @ SocketPath cfg @ '': '' @ err)), files)
      | None \<Rightarrow>
          (case li_listen env of
             Some err \<Rightarrow> ([], Some (Some (''listen on '' @ SocketPath cfg @ '': '' @ err)), files - {SocketPath cfg})
           | None \<Rightarrow>
               (case li_chmod env of
                  Some err \<Rightarrow> ([], Some (Some (''set socket permissions: '' @ err)), files - {SocketPath cfg})
                | None \<Rightarrow>
                    (case accept_loop (li_accepts env) of
                       (cs, None) \<Rightarrow> (cs, None, insert (SocketPath cfg) files)
                     | (cs, Some r) \<Rightarrow> (cs, Some r, files - {SocketPath cfg})))))"

text \<open>A client can connect exactly while the daemon accepts: the socket is there until \<^verbatim>\<open>serve\<close> returns, and gone from then on
  unless even the stale one could not be removed; a daemon that is being stopped is no error.\<close>

lemma accept_loop_error:
  "accept_loop as = (cs, Some (Some e)) \<Longrightarrow> \<exists>err. AcceptFails False False err \<in> set as \<and> e = ''accept: '' @ err"
  by (induction as arbitrary: cs rule: accept_loop.induct) (auto split: prod.splits if_splits)

lemma socket_is_there_while_accepting:
  assumes "serve cfg env files = (cs, r, files')" and "li_remove env = None"
  shows "SocketPath cfg \<in> files' \<longleftrightarrow> r = None" and "files' - {SocketPath cfg} = files - {SocketPath cfg}"
    and "r = Some (Some e) \<Longrightarrow> li_listen env \<noteq> None \<or> li_chmod env \<noteq> None
      \<or> (\<exists>err. AcceptFails False False err \<in> set (li_accepts env) \<and> e = ''accept: '' @ err)"
  using assms by (auto simp: serve_def split: option.splits prod.splits dest: accept_loop_error)

section \<open>Invariants\<close>

definition life_ok :: "life \<Rightarrow> bool" where
  "life_ok s \<longleftrightarrow> distinct (lf_live s) \<and> {i. DriveWorker i \<in> set (lf_live s)} \<subseteq> set (lf_workers s)
     \<and> (\<forall>n \<in> set (lf_open s). n < lf_next s) \<and> (\<forall>i n. lf_ctx s i = RequestCtx n \<longrightarrow> n < lf_next s)
     \<and> (\<not> lf_stopped s \<longrightarrow> Discovery \<in> set (lf_live s)
         \<and> (\<forall>i \<in> set (lf_workers s). \<not> ctx_done s (lf_ctx s i) \<longrightarrow> DriveWorker i \<in> set (lf_live s)))
     \<and> (\<forall>r. lf_main s = Returned r \<longrightarrow> lf_stopped s)"

lemma life_start_ok: "distinct ids \<Longrightarrow> life_ok (life_start ids)"
  by (auto simp: life_ok_def life_start_def loops_def distinct_map inj_on_def)

lemma ctx_done_cong: "lf_stopped t = lf_stopped s \<Longrightarrow> lf_open t = lf_open s \<Longrightarrow> ctx_done t c = ctx_done s c"
  by (cases c) simp_all

lemma ended_fields [simp]:
  "lf_stopped (ended g s) = lf_stopped s" "lf_next (ended g s) = lf_next s" "lf_open (ended g s) = lf_open s"
  "lf_workers (ended g s) = lf_workers s" "lf_ctx (ended g s) = lf_ctx s" "lf_main (ended g s) = lf_main s"
  "lf_srvErr (ended g s) = lf_srvErr s" "lf_live (ended g s) = remove1 g (lf_live s)" "ctx_done (ended g s) c = ctx_done s c"
  by (cases c; simp add: ended_def)+

lemma add_worker_fields [simp]:
  "lf_stopped (add_worker i c s) = lf_stopped s" "lf_next (add_worker i c s) = lf_next s" "lf_open (add_worker i c s) = lf_open s"
  "lf_workers (add_worker i c s) = i # lf_workers s" "lf_ctx (add_worker i c s) = (lf_ctx s)(i := c)" "lf_main (add_worker i c s) = lf_main s"
  "lf_srvErr (add_worker i c s) = lf_srvErr s" "lf_live (add_worker i c s) = DriveWorker i # lf_live s" "ctx_done (add_worker i c s) d = ctx_done s d"
  by (cases d; simp add: add_worker_def)+

lemma ctx_done_fields [simp]:
  "ctx_done (s\<lparr>lf_main := m\<rparr>) c = ctx_done s c" "ctx_done (s\<lparr>lf_srvErr := e\<rparr>) c = ctx_done s c"
  by (cases c; simp)+

lemma ended_ok:
  assumes "life_ok s" "\<And>i. g = DriveWorker i \<Longrightarrow> lf_stopped s \<or> ctx_done s (lf_ctx s i)" "g = Discovery \<Longrightarrow> lf_stopped s"
  shows "life_ok (ended g s)"
  using assms by (auto simp: life_ok_def)

lemma ctx_done_asked:
  "c \<noteq> RequestCtx (lf_next s) \<Longrightarrow> ctx_done (s\<lparr>lf_open := lf_next s # lf_open s, lf_next := Suc (lf_next s)\<rparr>) c = ctx_done s c"
  by (cases c) auto

lemma ctx_done_answered: "ctx_done s c \<Longrightarrow> ctx_done (s\<lparr>lf_open := removeAll n (lf_open s)\<rparr>) c"
  by (cases c) auto

lemma life_step_ok: "life_step cfg s t \<Longrightarrow> life_ok s \<Longrightarrow> life_ok t"
proof (induction rule: life_step.induct)
  case (asked s)
  then have "ctx_done (s\<lparr>lf_open := lf_next s # lf_open s, lf_next := Suc (lf_next s)\<rparr>) (lf_ctx s i) = ctx_done s (lf_ctx s i)" for i
    by (intro ctx_done_asked) (auto simp: life_ok_def)
  then show ?case using asked by (auto simp: life_ok_def less_Suc_eq)
next
  case (answered n s)
  then show ?case using ctx_done_answered by (auto simp: life_ok_def)
next
  case (found g s i)
  then show ?case by (auto simp: life_ok_def)
next
  case (found_asked n s i)
  then show ?case by (auto simp: life_ok_def)
next
  case (socket_fails s e)
  then have "life_ok (ended Socket s)" by (intro ended_ok) auto
  then show ?case by (simp add: life_ok_def)
next
  case (main_returns s r)
  then show ?case by (auto simp: life_ok_def)
next
  case (stop s)
  then show ?case by (auto simp: life_ok_def)
qed (auto intro!: ended_ok simp: life_ok_def)

lemma lives_ok: "lives cfg s t \<Longrightarrow> life_ok s \<Longrightarrow> life_ok t"
  by (induction rule: rtranclp_induct) (auto dest: life_step_ok)

section \<open>Stopping\<close>

lemma ctx_done_stopped: "lf_stopped s \<Longrightarrow> ctx_done s c"
  by (cases c) simp_all

lemma all_end:
  assumes "lf_stopped s"
  shows "\<exists>t. lives cfg s t \<and> lf_live t = [] \<and> lf_stopped t \<and> lf_main t = lf_main s"
  using assms
proof (induction "length (lf_live s)" arbitrary: s)
  case 0
  then show ?case by auto
next
  case (Suc n)
  then obtain g gs where g: "lf_live s = g # gs" by (cases "lf_live s") auto
  have "life_step cfg s (ended g s)"
  proof (cases g)
    case (DriveWorker i)
    then show ?thesis using g worker_ends [of i s cfg] ctx_done_stopped [OF Suc.prems] by auto
  qed (use g Suc.prems loop_ends [of g s cfg] in \<open>auto simp: loops_def\<close>)
  moreover obtain t where "lives cfg (ended g s) t" "lf_live t = []" "lf_stopped t" "lf_main t = lf_main s"
    using Suc.hyps(1) [of "ended g s"] Suc.hyps(2) Suc.prems g by auto
  ultimately show ?case by (meson converse_rtranclp_into_rtranclp)
qed

lemma can_return:
  assumes "lf_stopped s"
  shows "\<exists>t r. lives cfg s t \<and> lf_main t = Returned r"
proof -
  obtain t where t: "lives cfg s t" "lf_live t = []" "lf_stopped t" using all_end [OF assms] by blast
  have wait: "\<exists>u r. lives cfg v u \<and> lf_main u = Returned r" if "lf_main v = Waiting r" "lf_live v = []" for v r
    using main_returns [OF that] by (metis life.select_convs(8) life.surjective life.update_convs(8) r_into_rtranclp)
  have "\<exists>u r. lives cfg t u \<and> lf_main u = Returned r"
  proof (cases "lf_main t")
    case Selecting
    then have "life_step cfg t (t\<lparr>lf_main := Waiting None\<rparr>)" using t(3) by (rule main_stopped)
    moreover obtain u r where "lives cfg (t\<lparr>lf_main := Waiting None\<rparr>) u" "lf_main u = Returned r"
      using wait [of "t\<lparr>lf_main := Waiting None\<rparr>"] t(2) by auto
    ultimately show ?thesis by (meson converse_rtranclp_into_rtranclp)
  next
    case (Waiting r)
    then show ?thesis using wait t(2) by blast
  qed auto
  then show ?thesis using t(1) by (meson rtranclp_trans)
qed

text \<open>C15. While the daemon is not stopped, a drive found by \<^verbatim>\<open>Run\<close>, its tick or a client of the socket has exactly one
  worker at work, and \<^verbatim>\<open>Run\<close> does not return, not even when the socket's server has failed; once it is stopped, every
  goroutine can end and \<^verbatim>\<open>Run\<close> with them.\<close>

theorem run_returns_when_stopped:
  assumes "distinct ids" and "lives cfg (life_start ids) s"
  shows "(\<not> lf_stopped s \<longrightarrow> (\<forall>r. lf_main s \<noteq> Returned r)
      \<and> (\<forall>i \<in> set (lf_workers s). lf_ctx s i = DaemonCtx \<longrightarrow> length (filter ((=) (DriveWorker i)) (lf_live s)) = 1))
    \<and> (lf_stopped s \<longrightarrow> (\<exists>t r. lives cfg s t \<and> lf_main t = Returned r))"
proof -
  have ok: "life_ok s" by (rule lives_ok [OF assms(2) life_start_ok [OF assms(1)]])
  have one: "length (filter ((=) g) gs) = 1" if "distinct gs" "g \<in> set gs" for g :: goroutine and gs
    using that by (induction gs) (auto simp: filter_empty_conv)
  show ?thesis using ok one can_return by (auto simp: life_ok_def)
qed

theorem run_returns_when_stopped_witness:
  "\<exists>s. lives Default (life_start [''usb-1'']) s \<and> lf_srvErr s \<noteq> None \<and> lf_main s = Waiting (lf_srvErr s)
     \<and> length (filter ((=) (DriveWorker ''usb-1'')) (lf_live s)) = 1"
proof -
  let ?s0 = "life_start [''usb-1'']"
  let ?s1 = "(ended Socket ?s0)\<lparr>lf_srvErr := Some ''address in use''\<rparr>"
  let ?s2 = "?s1\<lparr>lf_main := Waiting (Some ''address in use'')\<rparr>"
  have "life_step Default ?s0 ?s1" by (rule socket_fails) (simp add: life_start_def loops_def)
  moreover have "life_step Default ?s1 ?s2" by (rule main_failed) (simp_all add: life_start_def)
  ultimately have run: "lives Default ?s0 ?s2" by simp
  have "\<not> lf_stopped ?s2" "''usb-1'' \<in> set (lf_workers ?s2)" "lf_ctx ?s2 ''usb-1'' = DaemonCtx" by (simp_all add: life_start_def)
  then have "length (filter ((=) (DriveWorker ''usb-1'')) (lf_live ?s2)) = 1"
    using run_returns_when_stopped [OF _ run] by simp
  then show ?thesis using run by (intro exI [of _ ?s2]) simp
qed

section \<open>A drive found over HTTP\<close>

definition lost :: "string \<Rightarrow> nat \<Rightarrow> life \<Rightarrow> bool" where
  "lost i n s \<longleftrightarrow> i \<in> set (lf_workers s) \<and> lf_ctx s i = RequestCtx n \<and> n \<notin> set (lf_open s) \<and> n < lf_next s"

lemma lost_lives: "lives cfg s t \<Longrightarrow> lost i n s \<Longrightarrow> lost i n t"
proof (induction rule: rtranclp_induct)
  case (step t u)
  from step(2) step(3) [OF step(4)] show ?case by cases (auto simp: lost_def)
qed

lemma gone_lives:
  "lives cfg s t \<Longrightarrow> i \<in> set (lf_workers s) \<Longrightarrow> DriveWorker i \<notin> set (lf_live s)
   \<Longrightarrow> i \<in> set (lf_workers t) \<and> DriveWorker i \<notin> set (lf_live t)"
proof (induction rule: rtranclp_induct)
  case (step t u)
  from step(2) step(3) [OF step(4,5)] show ?case by cases (auto dest: notin_set_remove1)
qed simp

text \<open>C16. A drive that \<^verbatim>\<open>POST /v1/rescan\<close> is the first to find is counted as watched, but its worker runs on the request's
  context: when the request has been answered the worker ends, and nothing ever starts another, so the drive is not
  watched until the daemon is started again.\<close>

theorem drive_found_over_http_is_lost:
  assumes "distinct ids" "lives cfg (life_start ids) s" "n \<in> set (lf_open s)" "i \<notin> set (lf_workers s)"
  shows "\<exists>s1 s2 s3. life_step cfg s s1 \<and> DriveWorker i \<in> set (lf_live s1)
    \<and> s2 = s1\<lparr>lf_open := removeAll n (lf_open s1)\<rparr> \<and> life_step cfg s1 s2 \<and> life_step cfg s2 s3
    \<and> (\<forall>t. lives cfg s2 t \<longrightarrow> ctx_done t (lf_ctx t i))
    \<and> (\<forall>t. lives cfg s3 t \<longrightarrow> i \<in> set (lf_workers t) \<and> DriveWorker i \<notin> set (lf_live t))"
proof -
  have ok: "life_ok s" by (rule lives_ok [OF assms(2) life_start_ok [OF assms(1)]])
  define s1 where "s1 = add_worker i (RequestCtx n) s"
  define s2 where "s2 = s1\<lparr>lf_open := removeAll n (lf_open s1)\<rparr>"
  define s3 where "s3 = ended (DriveWorker i) s2"
  have st1: "life_step cfg s s1" unfolding s1_def by (rule found_asked [OF assms(3,4)])
  have st2: "life_step cfg s1 s2" unfolding s2_def by (rule answered) (simp add: s1_def assms(3))
  have lost: "lost i n s2" using ok assms(3) by (auto simp: lost_def s1_def s2_def life_ok_def)
  have st3: "life_step cfg s2 s3" unfolding s3_def by (rule worker_ends) (simp_all add: s1_def s2_def)
  have "distinct (lf_live s2)" using life_step_ok [OF st2 life_step_ok [OF st1 ok]] by (simp add: life_ok_def)
  then have gone: "i \<in> set (lf_workers s3)" "DriveWorker i \<notin> set (lf_live s3)" by (simp_all add: s3_def s1_def s2_def)
  show ?thesis
  proof (intro exI conjI allI impI)
    show "ctx_done t (lf_ctx t i)" if "lives cfg s2 t" for t using lost_lives [OF that lost] by (simp add: lost_def)
    show "i \<in> set (lf_workers t)" "DriveWorker i \<notin> set (lf_live t)" if "lives cfg s3 t" for t using gone_lives [OF that gone] by simp_all
  qed (use st1 st2 st3 s2_def in \<open>auto simp: s1_def\<close>)
qed

theorem drive_found_over_http_is_lost_witness:
  "\<exists>s. lives Default (life_start []) s \<and> ''usb-1'' \<in> set (lf_workers s)
     \<and> (\<forall>t. lives Default s t \<longrightarrow> DriveWorker ''usb-1'' \<notin> set (lf_live t))"
proof -
  let ?start = "life_start []"
  let ?s = "?start\<lparr>lf_open := lf_next ?start # lf_open ?start, lf_next := Suc (lf_next ?start)\<rparr>"
  have "life_step Default ?start ?s" by (rule asked) (simp add: life_start_def loops_def)
  then have run: "lives Default ?start ?s" by (rule r_into_rtranclp)
  have "0 \<in> set (lf_open ?s)" "''usb-1'' \<notin> set (lf_workers ?s)" by (simp_all add: life_start_def)
  from drive_found_over_http_is_lost [OF _ run this] obtain s1 s2 s3 where st: "life_step Default ?s s1" "life_step Default s1 s2" "life_step Default s2 s3"
    and gone: "\<forall>t. lives Default s3 t \<longrightarrow> ''usb-1'' \<in> set (lf_workers t) \<and> DriveWorker ''usb-1'' \<notin> set (lf_live t)" by auto
  have "lives Default ?start s3" using run st by (meson rtranclp.rtrancl_into_rtrancl)
  then show ?thesis using gone by blast
qed

end
