(* ===== verification/Store_Open.thy ===== *)
theory Store_Open
  imports Store Go_Path
begin

text \<open>
  \<^verbatim>\<open>Open\<close>, \<^verbatim>\<open>migrate\<close> and \<^verbatim>\<open>initVersion\<close> of \<^verbatim>\<open>internal/store/store.go\<close> on a database file of any age: its tables with their
  columns and rows. A column that a row has no value in is NULL there, which is what a column added to it holds. Every
  statement is its own transaction and may fail, and the process may be killed between two of them; the lemmas show that
  the next start then completes what was begun, and that no row changes.
\<close>

section \<open>Files\<close>

datatype sql_value = SqlInt int | SqlText string

record file_table =
  ft_cols :: "string list"
  ft_rows :: "(string \<rightharpoonup> sql_value) list"

type_synonym db_file = "(string \<times> file_table) list"

text \<open>\<^verbatim>\<open>schema.sql\<close>: the tables and their columns.\<close>

definition schema :: "(string \<times> string list) list" where
  "schema =
     [(''drives'', [''id'', ''stable_id'', ''device_path'', ''label'', ''vendor_model'', ''first_seen'', ''last_seen'']),
      (''discs'', [''id'', ''fingerprint'', ''volume_label'', ''disc_type'', ''title_count'', ''total_bytes'', ''first_seen'', ''rip_dir'',
                   ''makemkv_info'', ''forgotten_after_job'', ''read_path'', ''disc_name'']),
      (''jobs'', [''id'', ''disc_id'', ''drive_id'', ''state'', ''attempt'', ''created_at'', ''started_at'', ''ended_at'', ''error'',
                  ''titles_total'', ''titles_done'']),
      (''transcodes'', [''id'', ''disc_id'', ''title_index'', ''state'', ''profile'', ''source_path'', ''output_path'', ''size_bytes'',
                        ''attempt'', ''hardware'', ''created_at'', ''started_at'', ''ended_at'', ''error'']),
      (''titles'', [''id'', ''disc_id'', ''title_index'', ''duration_secs'', ''chapters'', ''size_bytes'', ''source_file'', ''output_file'',
                    ''ripped'', ''verified'']),
      (''streams'', [''id'', ''title_id'', ''stream_index'', ''kind'', ''codec'', ''language'', ''channels'', ''resolution'', ''frame_rate'', ''flags'']),
      (''library_links'', [''id'', ''disc_id'', ''title_index'', ''path'', ''created_at'']),
      (''events'', [''id'', ''ts'', ''job_id'', ''drive_id'', ''level'', ''message'']),
      (''schema_version'', [''version''])]"

definition create_table :: "string \<times> string list \<Rightarrow> db_file \<Rightarrow> db_file" where
  "create_table tc f =
     (if map_of f (fst tc) = None then f @ [(fst tc, \<lparr>ft_cols = snd tc, ft_rows = []\<rparr>)] else f)"

definition columns :: "string \<Rightarrow> db_file \<Rightarrow> string list" where
  "columns t f = (case map_of f t of None \<Rightarrow> [] | Some tb \<Rightarrow> ft_cols tb)"

definition rows_of :: "string \<Rightarrow> db_file \<Rightarrow> (string \<rightharpoonup> sql_value) list" where
  "rows_of t f = (case map_of f t of None \<Rightarrow> [] | Some tb \<Rightarrow> ft_rows tb)"

definition on_table :: "string \<Rightarrow> (file_table \<Rightarrow> file_table) \<Rightarrow> db_file \<Rightarrow> db_file" where
  "on_table t g f = map (\<lambda>(u, tb). (u, if u = t then g tb else tb)) f"

definition add_column :: "string \<Rightarrow> string \<Rightarrow> db_file \<Rightarrow> db_file" where
  "add_column t c = on_table t (\<lambda>tb. tb\<lparr>ft_cols := ft_cols tb @ [c]\<rparr>)"

definition insert_version :: "db_file \<Rightarrow> db_file" where
  "insert_version = on_table ''schema_version'' (\<lambda>tb. tb\<lparr>ft_rows := ft_rows tb @ [[''version'' \<mapsto> SqlInt schemaVersion]]\<rparr>)"

section \<open>Opening\<close>

text \<open>Statements one after another, the first that fails ending it. \<^verbatim>\<open>err n\<close> is the failure of the \<^verbatim>\<open>n\<close>-th.\<close>

fun exec_all :: "(nat \<Rightarrow> string option) \<Rightarrow> nat \<Rightarrow> (string \<times> (db_file \<Rightarrow> db_file)) list \<Rightarrow> db_file \<Rightarrow> string option \<times> db_file" where
  "exec_all err n [] f = (None, f)"
| "exec_all err n ((what, st) # sts) f =
     (case err n of Some e \<Rightarrow> (Some (what @ e), f) | None \<Rightarrow> exec_all err (Suc n) sts (st f))"

definition late_columns :: "string list" where
  "late_columns = [''forgotten_after_job'', ''read_path'', ''disc_name'']"

text \<open>What \<^verbatim>\<open>migrate\<close> adds, for the columns it read first.\<close>

definition migrate :: "string list \<Rightarrow> (string \<times> (db_file \<Rightarrow> db_file)) list" where
  "migrate cols =
     map (\<lambda>c. (''add discs.'' @ c @ '': '', add_column ''discs'' c)) (filter (\<lambda>c. c \<notin> set cols) late_columns)"

definition file_version :: "db_file \<Rightarrow> int option" where
  "file_version f =
     (case rows_of ''schema_version'' f of
        [] \<Rightarrow> None
      | r # rs \<Rightarrow> Some (case r ''version'' of Some (SqlInt v) \<Rightarrow> v | _ \<Rightarrow> 0))"

definition initVersion_file :: "string option \<Rightarrow> string option \<Rightarrow> db_file \<Rightarrow> string option \<times> db_file" where
  "initVersion_file rerr werr f =
     (case rerr of
        Some e \<Rightarrow> (Some (''read schema version: '' @ e), f)
      | None \<Rightarrow>
          (case file_version f of
             None \<Rightarrow> (case werr of Some e \<Rightarrow> (Some e, f) | None \<Rightarrow> (None, insert_version f))
           | Some v \<Rightarrow>
               if v > schemaVersion
               then (Some (''state database is version '' @ int_str v @ '' but this build understands '' @ int_str schemaVersion), f)
               else (None, f)))"

record open_env =
  oe_mkdir :: "string option"
  oe_open :: "string option"
  oe_schema :: "nat \<Rightarrow> string option"
  oe_columns :: "string option"
  oe_alter :: "nat \<Rightarrow> string option"
  oe_version_read :: "string option"
  oe_version_write :: "string option"

definition no_trouble :: open_env where
  "no_trouble = \<lparr>oe_mkdir = None, oe_open = None, oe_schema = (\<lambda>n. None), oe_columns = None, oe_alter = (\<lambda>n. None),
     oe_version_read = None, oe_version_write = None\<rparr>"

definition open_file :: "open_env \<Rightarrow> string \<Rightarrow> db_file \<Rightarrow> string option \<times> db_file" where
  "open_file env path f =
     (if Dir path \<noteq> ''.'' \<and> oe_mkdir env \<noteq> None then (Some (''create state directory '' @ Dir path @ '': '' @ the (oe_mkdir env)), f)
      else case oe_open env of
        Some e \<Rightarrow> (Some (''open '' @ path @ '': '' @ e), f)
      | None \<Rightarrow>
          (case exec_all (oe_schema env) 0 (map (\<lambda>tc. (''apply schema: '', create_table tc)) schema) f of
             (Some e, f1) \<Rightarrow> (Some e, f1)
           | (None, f1) \<Rightarrow>
               (case oe_columns env of
                  Some e \<Rightarrow> (Some (''read discs columns: '' @ e), f1)
                | None \<Rightarrow>
                    (case exec_all (oe_alter env) 0 (migrate (columns ''discs'' f1)) f1 of
                       (Some e, f2) \<Rightarrow> (Some e, f2)
                     | (None, f2) \<Rightarrow> initVersion_file (oe_version_read env) (oe_version_write env) f2))))"

section \<open>Steps that may be taken again\<close>

text \<open>A sequence of steps each of which does nothing when it has been taken, and stays taken whatever else is: it can be
  broken off anywhere and started over.\<close>

locale restartable =
  fixes sts :: "('a \<Rightarrow> 'a) list"
  assumes idem: "a \<in> set sts \<Longrightarrow> a (a f) = a f"
    and stable: "a \<in> set sts \<Longrightarrow> b \<in> set sts \<Longrightarrow> a f = f \<Longrightarrow> a (b f) = b f"
begin

lemma taken: "set as \<subseteq> set sts \<Longrightarrow> a \<in> set as \<Longrightarrow> a (fold (\<lambda>a. a) as f) = fold (\<lambda>a. a) as f"
proof (induction as rule: rev_induct)
  case (snoc b as)
  then show ?case using idem stable [of a b "fold (\<lambda>a. a) as f"] by (cases "a \<in> set as") auto
qed simp

lemma again: "set as \<subseteq> set sts \<Longrightarrow> set bs \<subseteq> set as \<Longrightarrow> fold (\<lambda>a. a) bs (fold (\<lambda>a. a) as f) = fold (\<lambda>a. a) as f"
  by (induction bs) (simp_all add: taken)

lemma resume: "fold (\<lambda>a. a) sts (fold (\<lambda>a. a) (take k sts) f) = fold (\<lambda>a. a) sts f"
proof -
  have sub: "set (take k sts) \<subseteq> set sts" by (rule set_take_subset)
  have "fold (\<lambda>a. a) sts g = fold (\<lambda>a. a) (drop k sts) (fold (\<lambda>a. a) (take k sts) g)" for g
    by (metis append_take_drop_id comp_apply fold_append)
  then show ?thesis using again [OF sub subset_refl] by simp
qed

end

definition ensure_column :: "string \<Rightarrow> string \<Rightarrow> db_file \<Rightarrow> db_file" where
  "ensure_column t c f = (if map_of f t = None \<or> c \<in> set (columns t f) then f else add_column t c f)"

definition ensure_version :: "db_file \<Rightarrow> db_file" where
  "ensure_version f =
     (let f1 = create_table (''schema_version'', [''version'']) f
      in if rows_of ''schema_version'' f1 = [] then insert_version f1 else f1)"

definition open_steps :: "(db_file \<Rightarrow> db_file) list" where
  "open_steps = map create_table schema @ map (ensure_column ''discs'') late_columns @ [ensure_version]"

lemma map_of_on_table: "map_of (on_table t g f) u = (if u = t then map_option g (map_of f u) else map_of f u)"
  by (induction f) (auto simp: on_table_def)

lemma map_of_create: "map_of (create_table tc f) u =
    (if u = fst tc \<and> map_of f u = None then Some \<lparr>ft_cols = snd tc, ft_rows = []\<rparr> else map_of f u)"
  by (auto simp: create_table_def map_add_def split: option.split)

lemma map_of_add_column: "map_of (add_column t c f) u =
    (if u = t then map_option (\<lambda>tb. tb\<lparr>ft_cols := ft_cols tb @ [c]\<rparr>) (map_of f u) else map_of f u)"
  by (simp add: add_column_def map_of_on_table)

lemma map_of_insert_version: "map_of (insert_version f) u =
    (if u = ''schema_version'' then map_option (\<lambda>tb. tb\<lparr>ft_rows := ft_rows tb @ [[''version'' \<mapsto> SqlInt schemaVersion]]\<rparr>) (map_of f u)
     else map_of f u)"
  by (simp add: insert_version_def map_of_on_table)

lemmas file_maps = map_of_create map_of_add_column map_of_insert_version

text \<open>When a step has been taken.\<close>

lemma create_taken: "create_table tc f = f \<longleftrightarrow> map_of f (fst tc) \<noteq> None"
  by (simp add: create_table_def)

lemma add_column_changes: "map_of f t \<noteq> None \<Longrightarrow> add_column t c f \<noteq> f"
proof
  assume "map_of f t \<noteq> None" "add_column t c f = f"
  then obtain tb where "map_of f t = Some tb" "tb\<lparr>ft_cols := ft_cols tb @ [c]\<rparr> = tb"
    using map_of_add_column [of t c f t] by auto
  then have "ft_cols tb @ [c] = ft_cols tb" by (metis file_table.select_convs(1) file_table.surjective file_table.update_convs(1))
  then show False by simp
qed

lemma column_taken: "ensure_column t c f = f \<longleftrightarrow> map_of f t = None \<or> c \<in> set (columns t f)"
  using add_column_changes by (auto simp: ensure_column_def)

lemma version_taken: "rows_of ''schema_version'' f \<noteq> [] \<Longrightarrow> ensure_version f = f"
  by (auto simp: ensure_version_def Let_def rows_of_def create_table_def split: option.splits)

lemma version_takes: "rows_of ''schema_version'' (ensure_version f) \<noteq> []"
  by (auto simp: ensure_version_def Let_def rows_of_def file_maps split: option.splits)

lemma version_taken_iff: "ensure_version f = f \<longleftrightarrow> rows_of ''schema_version'' f \<noteq> []"
  using version_taken version_takes by metis

lemmas steps_taken = create_taken column_taken version_taken_iff

lemma late_in_schema: "c \<in> set late_columns \<Longrightarrow> tc \<in> set schema \<Longrightarrow> fst tc = ''discs'' \<Longrightarrow> c \<in> set (snd tc)"
  by (auto simp: schema_def late_columns_def)

lemma step_kept:
  assumes "b \<in> set open_steps"
  shows "map_of f t \<noteq> None \<Longrightarrow> map_of (b f) t \<noteq> None"
    and "c \<in> set late_columns \<Longrightarrow> map_of f ''discs'' = None \<or> c \<in> set (columns ''discs'' f) \<Longrightarrow>
      map_of (b f) ''discs'' = None \<or> c \<in> set (columns ''discs'' (b f))"
    and "rows_of ''schema_version'' f \<noteq> [] \<Longrightarrow> rows_of ''schema_version'' (b f) \<noteq> []"
proof -
  consider tc where "tc \<in> set schema" "b = create_table tc" | d where "d \<in> set late_columns" "b = ensure_column ''discs'' d" | "b = ensure_version"
    using assms by (auto simp: open_steps_def)
  note b = this
  show "map_of f t \<noteq> None \<Longrightarrow> map_of (b f) t \<noteq> None"
    by (cases rule: b) (auto simp: ensure_column_def ensure_version_def Let_def file_maps)
  show "c \<in> set late_columns \<Longrightarrow> map_of f ''discs'' = None \<or> c \<in> set (columns ''discs'' f) \<Longrightarrow>
      map_of (b f) ''discs'' = None \<or> c \<in> set (columns ''discs'' (b f))"
    by (cases rule: b) (auto simp: ensure_column_def ensure_version_def Let_def columns_def file_maps split: option.splits dest: late_in_schema)
  show "rows_of ''schema_version'' f \<noteq> [] \<Longrightarrow> rows_of ''schema_version'' (b f) \<noteq> []"
    by (cases rule: b) (auto simp: ensure_column_def ensure_version_def Let_def rows_of_def file_maps split: option.splits)
qed

lemma step_takes: "a \<in> set open_steps \<Longrightarrow> a (a f) = a f"
proof -
  have "create_table tc (create_table tc f) = create_table tc f" for tc by (simp add: create_taken map_of_create)
  moreover have "ensure_column t c (ensure_column t c f) = ensure_column t c f" for t c
    unfolding column_taken by (cases "map_of f t") (simp_all add: ensure_column_def columns_def map_of_add_column)
  moreover have "ensure_version (ensure_version f) = ensure_version f" by (rule version_taken [OF version_takes])
  moreover assume "a \<in> set open_steps"
  ultimately show ?thesis unfolding open_steps_def by fastforce
qed

interpretation file_steps: restartable open_steps
proof
  show "a (a f) = a f" if "a \<in> set open_steps" for a f using that by (rule step_takes)
  show "a (b f) = b f" if "a \<in> set open_steps" "b \<in> set open_steps" "a f = f" for a b f
    using that step_kept [OF that(2)] by (auto simp: open_steps_def steps_taken)
qed

section \<open>What opening does to a file\<close>

lemma exec_all_prefix:
  "\<exists>k. snd (exec_all err n sts f) = fold (\<lambda>a. a) (take k (map snd sts)) f \<and> (fst (exec_all err n sts f) = None \<longrightarrow> k = length sts)"
proof (induction err n sts f rule: exec_all.induct)
  case (2 err n what st sts f)
  show ?case
  proof (cases "err n")
    case None
    from 2 [OF this] obtain k where "snd (exec_all err (Suc n) sts (st f)) = fold (\<lambda>a. a) (take k (map snd sts)) (st f)"
      "fst (exec_all err (Suc n) sts (st f)) = None \<longrightarrow> k = length sts" by (elim exE conjE)
    then show ?thesis using None by (intro exI [of _ "Suc k"]) simp
  qed (intro exI [of _ 0], simp)
qed simp

lemma exec_all_fine: "exec_all (\<lambda>n. None) n sts f = (None, fold (\<lambda>a. a) (map snd sts) f)"
proof (induction sts arbitrary: n f)
  case (Cons st sts)
  then show ?case by (cases st) simp
qed simp

text \<open>\<^verbatim>\<open>migrate\<close> decides by the columns it read first; it comes to the same as looking before each.\<close>

lemma migrate_prefix:
  assumes "distinct cs" "map_of f t \<noteq> None" "\<forall>c \<in> set cs. c \<in> set cols \<longleftrightarrow> c \<in> set (columns t f)"
  shows "\<exists>j. fold (\<lambda>a. a) (take k (map (add_column t) (filter (\<lambda>c. c \<notin> set cols) cs))) f = fold (\<lambda>a. a) (take j (map (ensure_column t) cs)) f
    \<and> (k = length (filter (\<lambda>c. c \<notin> set cols) cs) \<longrightarrow> j = length cs)"
  using assms
proof (induction cs arbitrary: f k)
  case (Cons c cs)
  show ?case
  proof (cases "c \<in> set cols")
    case True
    then have "ensure_column t c f = f" using Cons.prems by (simp add: column_taken)
    moreover obtain j where "fold (\<lambda>a. a) (take k (map (add_column t) (filter (\<lambda>c. c \<notin> set cols) cs))) f = fold (\<lambda>a. a) (take j (map (ensure_column t) cs)) f"
      "k = length (filter (\<lambda>c. c \<notin> set cols) cs) \<longrightarrow> j = length cs" using Cons.IH [of f k] Cons.prems by auto
    ultimately show ?thesis using True by (intro exI [of _ "Suc j"]) simp
  next
    case False
    then have e: "ensure_column t c f = add_column t c f" using Cons.prems by (auto simp: ensure_column_def)
    have cols: "columns t (add_column t c f) = columns t f @ [c]" using Cons.prems(2) by (auto simp: columns_def map_of_add_column)
    show ?thesis
    proof (cases k)
      case 0
      then show ?thesis using False by (intro exI [of _ 0]) simp
    next
      case (Suc k')
      obtain j where "fold (\<lambda>a. a) (take k' (map (add_column t) (filter (\<lambda>c. c \<notin> set cols) cs))) (add_column t c f) =
          fold (\<lambda>a. a) (take j (map (ensure_column t) cs)) (add_column t c f)" "k' = length (filter (\<lambda>c. c \<notin> set cols) cs) \<longrightarrow> j = length cs"
        using Cons.IH [of "add_column t c f" k'] Cons.prems cols by (auto simp: map_of_add_column)
      then show ?thesis using False Suc e by (intro exI [of _ "Suc j"]) simp
    qed
  qed
qed simp

lemma created: "(t, cs) \<in> set tcs \<Longrightarrow> map_of (fold (\<lambda>a. a) (map create_table tcs) f) t \<noteq> None"
proof (induction tcs arbitrary: f rule: rev_induct)
  case (snoc tc tcs)
  then show ?case by (cases "(t, cs) \<in> set tcs") (auto simp: map_of_create)
qed simp

lemma initVersion_step:
  assumes "map_of f ''schema_version'' \<noteq> None"
  shows "snd (initVersion_file rerr werr f) = f \<or> snd (initVersion_file rerr werr f) = ensure_version f"
    and "snd (initVersion_file None None f) = ensure_version f"
    and "fst (initVersion_file None None f) = None \<longleftrightarrow> (\<forall>v. file_version f = Some v \<longrightarrow> v \<le> schemaVersion)"
proof -
  have "create_table (''schema_version'', [''version'']) f = f" using assms by (simp add: create_taken)
  then have e: "ensure_version f = (if file_version f = None then insert_version f else f)"
    by (simp add: ensure_version_def file_version_def split: list.split)
  show "snd (initVersion_file rerr werr f) = f \<or> snd (initVersion_file rerr werr f) = ensure_version f"
    by (auto simp: initVersion_file_def e split: option.split)
  show "snd (initVersion_file None None f) = ensure_version f"
    by (auto simp: initVersion_file_def e split: option.split)
  show "fst (initVersion_file None None f) = None \<longleftrightarrow> (\<forall>v. file_version f = Some v \<longrightarrow> v \<le> schemaVersion)"
    by (auto simp: initVersion_file_def split: option.split)
qed

definition creates :: "(db_file \<Rightarrow> db_file) list" where
  "creates = map create_table schema"

definition ensures :: "(db_file \<Rightarrow> db_file) list" where
  "ensures = map (ensure_column ''discs'') late_columns"

lemma open_steps_split: "open_steps = creates @ ensures @ [ensure_version]"
  by (simp add: open_steps_def creates_def ensures_def)

lemma schema_tables: "\<exists>cs. (''discs'', cs) \<in> set schema" "\<exists>cs. (''schema_version'', cs) \<in> set schema"
  by (auto simp: schema_def)

lemma steps_kept: "set as \<subseteq> set open_steps \<Longrightarrow> map_of f t \<noteq> None \<Longrightarrow> map_of (fold (\<lambda>a. a) as f) t \<noteq> None"
proof (induction as arbitrary: f)
  case (Cons a as)
  then show ?case using step_kept(1) [of a f t] by simp
qed simp

text \<open>The state after the tables are there and after the columns are, each as a prefix of the steps.\<close>

lemma schema_applied:
  assumes "exec_all err 0 (map (\<lambda>tc. (''apply schema: '', create_table tc)) schema) f = (e, f1)"
  shows "\<exists>k. f1 = fold (\<lambda>a. a) (take k open_steps) f" and "e = None \<Longrightarrow> f1 = fold (\<lambda>a. a) creates f"
proof -
  obtain k where k: "f1 = fold (\<lambda>a. a) (take k creates) f" "e = None \<longrightarrow> k = length creates"
    using exec_all_prefix [of err 0 "map (\<lambda>tc. (''apply schema: '', create_table tc)) schema" f] assms by (auto simp: creates_def comp_def)
  then show "\<exists>k. f1 = fold (\<lambda>a. a) (take k open_steps) f"
    by (intro exI [of _ "min k (length creates)"]) (auto simp: open_steps_split min_def)
  show "f1 = fold (\<lambda>a. a) creates f" if "e = None" using k that by simp
qed

lemma columns_added:
  assumes f1: "f1 = fold (\<lambda>a. a) creates f" and "exec_all err 0 (migrate (columns ''discs'' f1)) f1 = (e, f2)"
  shows "\<exists>k. f2 = fold (\<lambda>a. a) (take k open_steps) f" and "e = None \<Longrightarrow> f2 = fold (\<lambda>a. a) (creates @ ensures) f"
    and "map_of f2 ''schema_version'' \<noteq> None"
proof -
  have tabs: "map_of f1 ''discs'' \<noteq> None" "map_of f1 ''schema_version'' \<noteq> None"
    using schema_tables created [of _ _ schema f] f1 by (auto simp: creates_def)
  obtain k where k: "f2 = fold (\<lambda>a. a) (take k (map (add_column ''discs'') (filter (\<lambda>c. c \<notin> set (columns ''discs'' f1)) late_columns))) f1"
      "e = None \<longrightarrow> k = length (filter (\<lambda>c. c \<notin> set (columns ''discs'' f1)) late_columns)"
    using exec_all_prefix [of err 0 "migrate (columns ''discs'' f1)" f1] assms(2) by (auto simp: migrate_def comp_def)
  obtain j where j: "f2 = fold (\<lambda>a. a) (take j ensures) f1" "e = None \<longrightarrow> j = length ensures"
    using migrate_prefix [of late_columns f1 "''discs''" "columns ''discs'' f1" k] tabs(1) k by (auto simp: ensures_def late_columns_def)
  show "\<exists>k. f2 = fold (\<lambda>a. a) (take k open_steps) f"
    by (intro exI [of _ "length creates + min j (length ensures)"]) (use j f1 in \<open>auto simp: open_steps_split min_def\<close>)
  show "f2 = fold (\<lambda>a. a) (creates @ ensures) f" if "e = None" using j f1 that by simp
  have "set (take j ensures) \<subseteq> set open_steps" using set_take_subset [of j ensures] by (auto simp: open_steps_split)
  then show "map_of f2 ''schema_version'' \<noteq> None" using steps_kept tabs(2) j(1) by simp
qed

text \<open>Whatever goes wrong, opening has taken some of the steps, in order.\<close>

lemma open_file_prefix: "\<exists>k. snd (open_file env path f) = fold (\<lambda>a. a) (take k open_steps) f"
proof -
  have none: "\<exists>k. f = fold (\<lambda>a. a) (take k open_steps) f" by (intro exI [of _ 0]) simp
  obtain e1 f1 where x1: "exec_all (oe_schema env) 0 (map (\<lambda>tc. (''apply schema: '', create_table tc)) schema) f = (e1, f1)" by fastforce
  obtain e2 f2 where x2: "exec_all (oe_alter env) 0 (migrate (columns ''discs'' f1)) f1 = (e2, f2)" by fastforce
  have "\<exists>k. snd (initVersion_file r w f2) = fold (\<lambda>a. a) (take k open_steps) f" if "e1 = None" "e2 = None" for r w
  proof -
    have "ensure_version f2 = fold (\<lambda>a. a) (take (length open_steps) open_steps) f"
      using columns_added(2) [OF schema_applied(2) [OF x1 that(1)] x2 that(2)] by (simp add: open_steps_split)
    then show ?thesis using initVersion_step(1) [OF columns_added(3) [OF schema_applied(2) [OF x1 that(1)] x2], of r w]
        columns_added(1) [OF schema_applied(2) [OF x1 that(1)] x2] by metis
  qed
  then show ?thesis using none schema_applied(1) [OF x1] columns_added(1) [OF schema_applied(2) [OF x1] x2]
    by (cases e1; cases e2) (auto simp: open_file_def x1 x2 split: option.split)
qed

lemma open_file_fine:
  "snd (open_file no_trouble path f) = fold (\<lambda>a. a) open_steps f"
  "fst (open_file no_trouble path f) = None \<longleftrightarrow>
     (\<forall>v. file_version (fold (\<lambda>a. a) (creates @ ensures) f) = Some v \<longrightarrow> v \<le> schemaVersion)"
proof -
  obtain e1 f1 where x1: "exec_all (\<lambda>n. None) 0 (map (\<lambda>tc. (''apply schema: '', create_table tc)) schema) f = (e1, f1)" by fastforce
  obtain e2 f2 where x2: "exec_all (\<lambda>n. None) 0 (migrate (columns ''discs'' f1)) f1 = (e2, f2)" by fastforce
  have e: "e1 = None" "e2 = None" using x1 x2 by (simp_all add: exec_all_fine)
  have f2: "f2 = fold (\<lambda>a. a) (creates @ ensures) f" using columns_added(2) [OF schema_applied(2) [OF x1 e(1)] x2 e(2)] .
  have o: "open_file no_trouble path f = initVersion_file None None f2" using x1 x2 e by (simp add: open_file_def no_trouble_def)
  note v = initVersion_step(2,3) [OF columns_added(3) [OF schema_applied(2) [OF x1 e(1)] x2]]
  show "snd (open_file no_trouble path f) = fold (\<lambda>a. a) open_steps f" using o v(1) f2 by (simp add: open_steps_split)
  show "fst (open_file no_trouble path f) = None \<longleftrightarrow>
     (\<forall>v. file_version (fold (\<lambda>a. a) (creates @ ensures) f) = Some v \<longrightarrow> v \<le> schemaVersion)" using o v(2) f2 by simp
qed

text \<open>What the steps keep: rows, the version's being known, and columns.\<close>

definition understood :: "db_file \<Rightarrow> bool" where
  "understood f \<longleftrightarrow> (\<forall>v. file_version f = Some v \<longrightarrow> v \<le> schemaVersion)"

text \<open>A table of an earlier release may lack the columns that the first one did not have, no others.\<close>

definition added_since :: "string set" where
  "added_since = {''read_path'', ''disc_name'', ''forgotten_after_job''}"

definition older_table :: "string \<times> string list \<Rightarrow> db_file \<Rightarrow> bool" where
  "older_table tc f \<longleftrightarrow> map_of f (fst tc) = None
     \<or> set (snd tc) \<subseteq> set (columns (fst tc) f) \<union> (if fst tc = ''discs'' then added_since else {})"

definition older :: "db_file \<Rightarrow> bool" where
  "older f \<longleftrightarrow> (\<forall>tc \<in> set schema. older_table tc f)"

lemma open_step_cases:
  assumes "a \<in> set open_steps"
  obtains (create) tc where "tc \<in> set schema" "a = create_table tc" | (column) c where "c \<in> set late_columns" "a = ensure_column ''discs'' c"
  | (version) "a = ensure_version"
  using assms by (auto simp: open_steps_def)

lemma create_rows [simp]: "rows_of t (create_table tc f) = rows_of t f"
  by (auto simp: rows_of_def map_of_create split: option.split)

lemma ensure_column_rows [simp]: "rows_of t (ensure_column u c f) = rows_of t f"
  by (simp add: rows_of_def ensure_column_def map_of_add_column split: option.split)

lemma ensure_version_rows:
  "rows_of t (ensure_version f) = (if t = ''schema_version'' \<and> rows_of t f = [] then [[''version'' \<mapsto> SqlInt schemaVersion]] else rows_of t f)"
proof -
  let ?g = "create_table (''schema_version'', [''version'']) f"
  have "map_of ?g ''schema_version'' \<noteq> None" by (simp add: map_of_create)
  then have "rows_of t (insert_version ?g) = (if t = ''schema_version'' then rows_of t ?g @ [[''version'' \<mapsto> SqlInt schemaVersion]] else rows_of t ?g)"
    by (auto simp: rows_of_def map_of_insert_version split: option.split)
  then show ?thesis by (cases "t = ''schema_version''") (simp_all add: ensure_version_def Let_def)
qed

lemma step_rows: "a \<in> set open_steps \<Longrightarrow> t \<noteq> ''schema_version'' \<Longrightarrow> rows_of t (a f) = rows_of t f"
  by (erule open_step_cases) (simp_all add: ensure_version_rows)

lemma step_understood: "a \<in> set open_steps \<Longrightarrow> understood (a f) = understood f"
  by (erule open_step_cases) (auto simp: understood_def file_version_def ensure_version_rows schemaVersion_def)

lemma schema_distinct: "distinct (map fst schema)"
  by (simp add: schema_def)

lemma schema_same: "(t, cs) \<in> set schema \<Longrightarrow> (t, ds) \<in> set schema \<Longrightarrow> cs = ds"
  using schema_distinct by (metis map_of_eq_Some_iff option.inject)

lemma step_older: "a \<in> set open_steps \<Longrightarrow> tc \<in> set schema \<Longrightarrow> older_table tc f \<Longrightarrow> older_table tc (a f)"
proof (erule open_step_cases)
  fix ud assume a: "tc \<in> set schema" "older_table tc f" "ud \<in> set schema" "a = create_table ud"
  have "snd tc = snd ud" if "fst ud = fst tc" by (rule schema_same [of "fst tc"]) (use a that in \<open>metis prod.collapse\<close>)+
  then show ?thesis using a(2,4)
    by (cases "fst ud = fst tc") (auto simp: older_table_def columns_def map_of_create split: option.splits)
next
  fix c assume "older_table tc f" "a = ensure_column ''discs'' c"
  then show ?thesis
    by (auto simp: older_table_def columns_def ensure_column_def map_of_add_column split: option.splits if_splits)
next
  assume "tc \<in> set schema" "older_table tc f" "a = ensure_version"
  moreover have "snd tc = [''version'']" if "fst tc = ''schema_version''" using that \<open>tc \<in> set schema\<close> by (auto simp: schema_def)
  ultimately show ?thesis by (auto simp: older_table_def columns_def ensure_version_def Let_def file_maps split: option.splits if_splits)
qed

lemma steps_keep:
  "set as \<subseteq> set open_steps \<Longrightarrow> t \<noteq> ''schema_version'' \<Longrightarrow> rows_of t (fold (\<lambda>a. a) as f) = rows_of t f"
  "set as \<subseteq> set open_steps \<Longrightarrow> understood (fold (\<lambda>a. a) as f) = understood f"
  "set as \<subseteq> set open_steps \<Longrightarrow> older f \<Longrightarrow> older (fold (\<lambda>a. a) as f)"
proof (induction as arbitrary: f)
  case (Cons a as)
  { case 1 then show ?case using Cons.IH(1) [of "a f"] step_rows [of a t f] by simp }
  { case 2 then show ?case using Cons.IH(2) [of "a f"] step_understood [of a f] by simp }
  { case 3 then show ?case using Cons.IH(3) [of "a f"] step_older [of a] by (simp add: older_def) }
qed simp_all

lemma all_columns:
  assumes "older f" "(t, cs) \<in> set schema"
  shows "set cs \<subseteq> set (columns t (fold (\<lambda>a. a) open_steps f))"
proof -
  let ?g = "fold (\<lambda>a. a) open_steps f"
  have "map_of (fold (\<lambda>a. a) creates f) t \<noteq> None" using created [OF assms(2)] by (simp add: creates_def)
  then have there: "map_of ?g t \<noteq> None"
    using steps_kept [of "ensures @ [ensure_version]" "fold (\<lambda>a. a) creates f" t] by (auto simp: open_steps_split)
  have "older_table (t, cs) ?g" using steps_keep(3) [OF subset_refl assms(1)] assms(2) by (auto simp: older_def)
  then have "set cs \<subseteq> set (columns t ?g) \<union> (if t = ''discs'' then added_since else {})"
    using there by (simp add: older_table_def)
  moreover have "c \<in> set (columns ''discs'' ?g)" if "c \<in> set late_columns" "t = ''discs''" for c
    using file_steps.taken [OF subset_refl, of "ensure_column ''discs'' c" f] that there by (auto simp: open_steps_def column_taken)
  moreover have "added_since \<subseteq> set late_columns" by (simp add: added_since_def late_columns_def)
  ultimately show ?thesis by (auto split: if_splits)
qed

text \<open>C17. However opening a database ended -- a statement failed, the process was killed between two -- opening it again brings
  it to where opening it once would have: every column of the schema is there, no row of any table has changed, and
  it is refused only when a newer release wrote it.\<close>

theorem reopening_completes_a_migration:
  assumes "older f"
  shows "let f1 = snd (open_file env path f); r = open_file no_trouble path f1
    in snd r = snd (open_file no_trouble path f)
       \<and> (fst r = None \<longleftrightarrow> (\<forall>v. file_version f = Some v \<longrightarrow> v \<le> schemaVersion))
       \<and> (\<forall>(t, cs) \<in> set schema. set cs \<subseteq> set (columns t (snd r)))
       \<and> (\<forall>t. t \<noteq> ''schema_version'' \<longrightarrow> rows_of t f1 = rows_of t f \<and> rows_of t (snd r) = rows_of t f)"
proof -
  obtain k where k: "snd (open_file env path f) = fold (\<lambda>a. a) (take k open_steps) f" using open_file_prefix by blast
  let ?f1 = "fold (\<lambda>a. a) (take k open_steps) f"
  have sub: "set (take k open_steps) \<subseteq> set open_steps" "set (creates @ ensures) \<subseteq> set open_steps"
    using set_take_subset by (fastforce, auto simp: open_steps_split)
  have two: "snd (open_file no_trouble path ?f1) = fold (\<lambda>a. a) open_steps f" by (simp add: open_file_fine file_steps.resume)
  have "fst (open_file no_trouble path ?f1) = None \<longleftrightarrow> understood f"
    using open_file_fine(2) [of path ?f1] steps_keep(2) [OF sub(1), of f] steps_keep(2) [OF sub(2), of ?f1] by (simp add: understood_def)
  then show ?thesis unfolding k Let_def
    using two all_columns [OF assms] steps_keep(1) [OF sub(1), where f = f] steps_keep(1) [OF subset_refl, where f = f]
    by (auto simp: open_file_fine understood_def)
qed

text \<open>An early release's discs, opened by a process that fails at the second of the columns it has to add.\<close>

definition early_file :: db_file where
  "early_file = [(''discs'', \<lparr>ft_cols = take 9 (snd (schema ! 1)), ft_rows = [[''id'' \<mapsto> SqlInt 1, ''fingerprint'' \<mapsto> SqlText ''f1'']]\<rparr>)]"

theorem reopening_completes_a_migration_witness:
  "let f1 = snd (open_file (no_trouble\<lparr>oe_alter := (\<lambda>n. if n = 1 then Some ''disk full'' else None)\<rparr>) ''state.db'' early_file);
       r = open_file no_trouble ''state.db'' f1
   in length (columns ''discs'' f1) = 10 \<and> fst r = None \<and> length (columns ''discs'' (snd r)) = 12
      \<and> rows_of ''discs'' (snd r) = rows_of ''discs'' early_file"
proof -
  let ?env = "no_trouble\<lparr>oe_alter := (\<lambda>n. if n = 1 then Some ''disk full'' else None)\<rparr>"
  let ?f1 = "snd (open_file ?env ''state.db'' early_file)"
  have older: "older early_file"
    by (auto simp: older_def older_table_def early_file_def schema_def added_since_def columns_def)
  have "length (columns ''discs'' ?f1) = 10" "length (columns ''discs'' (snd (open_file no_trouble ''state.db'' early_file))) = 12"
    "file_version early_file = None" by code_simp+
  moreover note main = reopening_completes_a_migration [OF older, of ?env "''state.db''", unfolded Let_def]
  moreover from main have "rows_of ''discs'' (snd (open_file no_trouble ''state.db'' ?f1)) = rows_of ''discs'' early_file"
    by (elim conjE allE [of _ "''discs''"]) simp
  ultimately show ?thesis unfolding Let_def by simp
qed

text \<open>A database of a newer release is refused, but only after it has been changed.\<close>

lemma newer_file_is_changed_before_it_is_refused:
  assumes "f = [(''discs'', \<lparr>ft_cols = [''id''], ft_rows = []\<rparr>), (''schema_version'', \<lparr>ft_cols = [''version''], ft_rows = [[''version'' \<mapsto> SqlInt 2]]\<rparr>)]"
  shows "fst (open_file no_trouble path f) \<noteq> None \<and> columns ''discs'' (snd (open_file no_trouble path f)) \<noteq> columns ''discs'' f"
proof -
  let ?g = "snd (open_file no_trouble path f)"
  have "map_of ?g ''discs'' \<noteq> None" unfolding open_file_fine(1) by (rule steps_kept) (simp_all add: assms)
  moreover have "ensure_column ''discs'' ''disc_name'' ?g = ?g"
    unfolding open_file_fine(1) by (rule file_steps.taken) (simp_all add: open_steps_def late_columns_def)
  ultimately have "''disc_name'' \<in> set (columns ''discs'' ?g)" by (auto simp: column_taken)
  moreover have "understood (fold (\<lambda>a. a) (creates @ ensures) f) = understood f" by (rule steps_keep(2)) (auto simp: open_steps_split)
  then have "fst (open_file no_trouble path f) \<noteq> None"
    unfolding open_file_fine(2) understood_def [symmetric] by (simp add: understood_def file_version_def rows_of_def assms schemaVersion_def)
  moreover have "''disc_name'' \<notin> set (columns ''discs'' f)" by (simp add: columns_def assms)
  ultimately show ?thesis by metis
qed

end
