(* ===== verification/Decrypt.thy ===== *)
theory Decrypt
  imports Go_Path
begin

text \<open>
  \<^verbatim>\<open>internal/decrypt\<close>: the decrypted copy of a disc that its drive refuses to decrypt. A copy is kept between
  attempts, so what matters is when one found on disk is taken for a finished one.

  The scratch directory of one disc is \<^const>\<open>None\<close> when there is none, and otherwise whether it holds the completion
  mark and what its \<^verbatim>\<open>VIDEO_TS\<close> directory holds, if there is one: names, and sizes where they can be read. What
  dvdbackup does is an argument: the states its directory goes through, its output lines and how it ended.
  Removing a directory is not one step: it goes entry by entry, in the order of the directory, and may be cut short.
\<close>

section \<open>State\<close>

record copy =
  cp_marker :: bool
  cp_files :: "(string \<times> int option) list option"

type_synonym root = "copy option"

definition outputName :: string where "outputName = ''disc''"
definition completeMarker :: string where "completeMarker = ''.complete''"
definition maxVOBBytes :: int where "maxVOBBytes = 1073709056"

definition decrypt_path :: "string \<Rightarrow> string \<Rightarrow> string" where
  "decrypt_path destRoot key = Join [destRoot, ''decrypt-'' @ key]"

record decrypt_result =
  dr_Folder :: string
  dr_Root :: string
  dr_Bytes :: int
  dr_Raw :: string
  dr_ReadErrors :: nat

datatype decrypt_error = DecryptError string | Malformed string int nat

section \<open>Checking a copy\<close>

definition is_vob :: "string \<Rightarrow> bool" where
  "is_vob name \<longleftrightarrow> suffix ''.VOB'' (ToUpper name)"

definition oversize :: "string \<times> int option \<Rightarrow> bool" where
  "oversize e = (case e of (name, sz) \<Rightarrow> is_vob name \<and> (case sz of None \<Rightarrow> False | Some n \<Rightarrow> n > maxVOBBytes))"

definition verifyCopy :: "string + (string \<times> int option) list \<Rightarrow> nat \<Rightarrow> decrypt_error option" where
  "verifyCopy dir readErrors =
     (case dir of
        Inl e \<Rightarrow> Some (DecryptError e)
      | Inr entries \<Rightarrow>
          (case List.find oversize entries of
             None \<Rightarrow> None
           | Some (name, sz) \<Rightarrow> Some (Malformed name (the sz) readErrors)))"

text \<open>What looking for a copy meets: an error reading its \<^verbatim>\<open>VIDEO_TS\<close> directory, and the size of the copy or the
  error measuring it. A copy that does not pass is removed.\<close>

record existing_env =
  xe_readdir :: "string option"
  xe_size :: "string + int"

definition Existing :: "existing_env \<Rightarrow> string \<Rightarrow> string \<Rightarrow> root \<Rightarrow> decrypt_result option \<times> root" where
  "Existing env destRoot key r =
     (case r of
        None \<Rightarrow> (None, r)
      | Some c \<Rightarrow>
          if \<not> cp_marker c then (None, r)
          else case cp_files c of
            None \<Rightarrow> (None, r)
          | Some fs \<Rightarrow>
              (case verifyCopy (case xe_readdir env of Some e \<Rightarrow> Inl e | None \<Rightarrow> Inr fs) 0 of
                 Some e \<Rightarrow> (None, None)
               | None \<Rightarrow>
                   (case xe_size env of
                      Inl e \<Rightarrow> (None, r)
                    | Inr n \<Rightarrow> (Some \<lparr>dr_Folder = Join [decrypt_path destRoot key, outputName], dr_Root = decrypt_path destRoot key,
                                     dr_Bytes = n, dr_Raw = [], dr_ReadErrors = 0\<rparr>, r))))"

definition Discard :: "decrypt_result option \<Rightarrow> root \<Rightarrow> root" where
  "Discard res r = (case res of None \<Rightarrow> r | Some d \<Rightarrow> if dr_Root d = [] then r else None)"

section \<open>dvdbackup's output\<close>

definition readErrorPattern :: "string \<Rightarrow> bool" where
  "readErrorPattern line \<longleftrightarrow>
     list_ex (contains (ToLower line)) [''error reading'', ''read error'', ''cannot read block'', ''input/output error'']"

definition scanLinesOrReturns :: "string \<Rightarrow> bool \<Rightarrow> nat \<times> string option" where
  "scanLinesOrReturns data atEOF =
     (let tok = takeWhile (\<lambda>b. b \<noteq> CHR 0x0A \<and> b \<noteq> CHR 0x0D) data
      in if atEOF \<and> data = [] then (0, None)
         else if length tok < length data then (length tok + 1, Some tok)
         else if atEOF then (length data, Some data)
         else (0, None))"

text \<open>A progress line: the number that starts a text and what follows it, then \<^verbatim>\<open>part N/M: P% done\<close>. A number too
  large for an integer is read as the largest one, as \<^verbatim>\<open>Atoi\<close> returns it with its error.\<close>

definition read_number :: "string \<Rightarrow> (int \<times> string) option" where
  "read_number s =
     (let ds = takeWhile is_digit s
      in if ds = [] then None
         else Some (case Atoi ds of Some v \<Rightarrow> v | None \<Rightarrow> 2 ^ 63 - 1, drop (length ds) s))"

definition part_at :: "string \<Rightarrow> (int \<times> int \<times> int \<times> nat) option" where
  "part_at s =
     (if \<not> prefix ''part '' s then None
      else case read_number (drop 5 s) of
        None \<Rightarrow> None
      | Some (part, s1) \<Rightarrow>
          if \<not> prefix ''/'' s1 then None
          else case read_number (tl s1) of
            None \<Rightarrow> None
          | Some (parts, s2) \<Rightarrow>
              if \<not> prefix '': '' s2 then None
              else case read_number (drop 2 s2) of
                None \<Rightarrow> None
              | Some (pct, s3) \<Rightarrow> if prefix ''% done'' s3 then Some (part, parts, pct, length s - length s2) else None)"

fun progress_at :: "nat \<Rightarrow> string \<Rightarrow> (int \<times> int \<times> int \<times> nat) option" where
  "progress_at k [] = None"
| "progress_at k (c # s) =
     (case part_at (c # s) of
        Some (part, parts, pct, n) \<Rightarrow> Some (part, parts, pct, k + n)
      | None \<Rightarrow> progress_at (Suc k) s)"

text \<open>The fraction done is a numerator and a denominator.\<close>

definition parseProgress :: "string \<Rightarrow> ((int \<times> int) \<times> string) option" where
  "parseProgress line =
     (let s = TrimSpace line
      in case progress_at 0 s of
           None \<Rightarrow> None
         | Some (part, parts, pct, n) \<Rightarrow>
             if parts \<le> 0 \<or> part \<le> 0 then None
             else (let f = 100 * (part - 1) + pct; den = 100 * parts
                   in Some ((if f < 0 then 0 else if f > den then den else f, den), TrimSpace (take n s))))"

definition decrypt_lastLines :: "string \<Rightarrow> nat \<Rightarrow> string" where
  "decrypt_lastLines s n =
     (let ls = split_on (CHR 0x0A) (TrimRight s [CHR 0x0A])
      in join_with ''; '' (if length ls > n then drop (length ls - n) ls else ls))"

section \<open>Making a copy\<close>

text \<open>What making a copy meets. \<^verbatim>\<open>me_clearing\<close> are the states while the old directory is being removed, and
  \<^verbatim>\<open>me_writes\<close> what is in \<^verbatim>\<open>VIDEO_TS\<close> as dvdbackup runs, the last one being what it leaves.\<close>

record mirror_env =
  me_mkroot :: "string option"
  me_clearing :: "copy list"
  me_clear :: "string option"
  me_create :: "string option"
  me_cache :: "string option"
  me_pipe :: "string option"
  me_start :: "string option"
  me_writes :: "(string \<times> int option) list option list"
  me_lines :: "string list"
  me_wait :: "string option"
  me_ctx :: "string option"
  me_size :: "string + int"
  me_readdir :: "string option"
  me_mark :: "string option"

definition mirror_raw :: "mirror_env \<Rightarrow> string" where
  "mirror_raw env = concat (map (\<lambda>l. l @ [CHR 0x0A]) (me_lines env))"

text \<open>\<^verbatim>\<open>Mirror\<close> returns the states of the scratch directory it went through and its result. Every failure after
  the directory was made removes it.\<close>

definition Mirror :: "mirror_env \<Rightarrow> string \<Rightarrow> string \<Rightarrow> string \<Rightarrow> root \<Rightarrow> root list \<times> (decrypt_error + decrypt_result)" where
  "Mirror env bin destRoot key r =
     (let root = decrypt_path destRoot key;
          folder = Join [root, outputName];
          cleared = r # map Some (me_clearing env);
          empty = Some \<lparr>cp_marker = False, cp_files = None\<rparr>;
          running = map (\<lambda>fs. Some \<lparr>cp_marker = False, cp_files = fs\<rparr>) (me_writes env);
          left = last (None # me_writes env);
          made = cleared @ [None, empty];
          fail = (\<lambda>states e. (states @ [None], Inl e));
          readErrors = length (filter readErrorPattern (me_lines env))
      in case me_mkroot env of
           Some e \<Rightarrow> ([r], Inl (DecryptError (''create '' @ destRoot @ '': '' @ e)))
         | None \<Rightarrow>
         (case me_clear env of
           Some e \<Rightarrow> (cleared, Inl (DecryptError (''clear '' @ root @ '': '' @ e)))
         | None \<Rightarrow>
         (case me_create env of
           Some e \<Rightarrow> (cleared @ [None], Inl (DecryptError (''create decrypt directory: '' @ e)))
         | None \<Rightarrow>
         (case me_cache env of
           Some e \<Rightarrow> fail made (DecryptError (''create libdvdcss cache directory: '' @ e))
         | None \<Rightarrow>
         (case me_pipe env of
           Some e \<Rightarrow> fail made (DecryptError (''stdout pipe: '' @ e))
         | None \<Rightarrow>
         (case me_start env of
           Some e \<Rightarrow> fail made (DecryptError (''start '' @ bin @ '': '' @ e))
         | None \<Rightarrow>
         (case me_wait env of
           Some e \<Rightarrow> fail (made @ running) (DecryptError (case me_ctx env of Some c \<Rightarrow> c
                       | None \<Rightarrow> ''dvdbackup: '' @ e @ '': '' @ decrypt_lastLines (mirror_raw env) 3))
         | None \<Rightarrow>
         (case left of
           None \<Rightarrow> fail (made @ running) (DecryptError (''dvdbackup reported success but produced no VIDEO_TS in '' @ folder))
         | Some fs \<Rightarrow>
         (case me_size env of
           Inl e \<Rightarrow> fail (made @ running) (DecryptError e)
         | Inr n \<Rightarrow>
         (case verifyCopy (case me_readdir env of Some e \<Rightarrow> Inl e | None \<Rightarrow> Inr fs) readErrors of
           Some e \<Rightarrow> fail (made @ running) e
         | None \<Rightarrow>
         (case me_mark env of
           Some e \<Rightarrow> fail (made @ running) (DecryptError (''mark the copy complete: '' @ e))
         | None \<Rightarrow>
             (made @ running @ [Some \<lparr>cp_marker = True, cp_files = Some fs\<rparr>],
              Inr \<lparr>dr_Folder = folder, dr_Root = root, dr_Bytes = n, dr_Raw = mirror_raw env, dr_ReadErrors = readErrors\<rparr>))))))))))))"

section \<open>Only a finished copy is found\<close>

text \<open>What a removal may leave behind when it is cut short: nothing that was not there.\<close>

definition rest_of :: "copy \<Rightarrow> copy \<Rightarrow> bool" where
  "rest_of c c' \<longleftrightarrow> (cp_marker c' \<longrightarrow> cp_marker c) \<and>
     (case cp_files c' of None \<Rightarrow> True | Some fs' \<Rightarrow> (case cp_files c of None \<Rightarrow> False | Some fs \<Rightarrow> set fs' \<subseteq> set fs))"

definition marked_copy :: "root \<Rightarrow> bool" where
  "marked_copy r = (case r of None \<Rightarrow> False | Some c \<Rightarrow> cp_marker c \<and> cp_files c \<noteq> None)"

lemma Existing_needs_mark: "fst (Existing env destRoot key r) \<noteq> None \<Longrightarrow> marked_copy r"
  by (auto simp: Existing_def marked_copy_def split: option.splits if_splits)

lemma marked_rest: "rest_of c c' \<Longrightarrow> marked_copy (Some c') \<Longrightarrow> marked_copy (Some c)"
  by (auto simp: rest_of_def marked_copy_def split: option.splits)

lemma verifyCopy_None: "verifyCopy dir n = None \<longleftrightarrow> (\<exists>fs. dir = Inr fs \<and> \<not> list_ex oversize fs)"
  by (auto simp: verifyCopy_def find_None_iff find_Some_iff list_ex_iff split: sum.splits option.splits)

lemma Mirror_cases:
  assumes "Mirror env bin destRoot key r = (states, out)"
  obtains (untouched) e where "states = [r]" "out = Inl e" "me_mkroot env \<noteq> None"
  | (uncleared) e where "states = r # map Some (me_clearing env)" "out = Inl e" "me_clear env \<noteq> None"
  | (failed) fss e where "set states \<subseteq> {r} \<union> Some ` set (me_clearing env) \<union> {None} \<union> (\<lambda>fs. Some \<lparr>cp_marker = False, cp_files = fs\<rparr>) ` set (None # fss)"
      "last states = None" "out = Inl e"
  | (finished) fs n res where "states = r # map Some (me_clearing env) @ [None, Some \<lparr>cp_marker = False, cp_files = None\<rparr>]
        @ map (\<lambda>fs. Some \<lparr>cp_marker = False, cp_files = fs\<rparr>) (me_writes env) @ [Some \<lparr>cp_marker = True, cp_files = Some fs\<rparr>]"
      "out = Inr res" "me_wait env = None" "last (None # me_writes env) = Some fs" "me_size env = Inr n" "\<not> list_ex oversize fs"
      "dr_Folder res = Join [decrypt_path destRoot key, outputName]" "dr_Root res = decrypt_path destRoot key" "dr_Bytes res = n"
proof (cases "me_mkroot env = None \<and> me_clear env = None \<and> me_create env = None")
  case False
  then consider (a) "me_mkroot env \<noteq> None" | (b) "me_mkroot env = None" "me_clear env \<noteq> None"
    | (c) "me_mkroot env = None" "me_clear env = None" "me_create env \<noteq> None" by auto
  then show thesis
  proof cases
    case a
    then show thesis using assms untouched by (auto simp: Mirror_def Let_def)
  next
    case b
    then show thesis using assms uncleared by (auto simp: Mirror_def Let_def)
  next
    case c
    then obtain e where "states = r # map Some (me_clearing env) @ [None]" "out = Inl e"
      using assms by (auto simp: Mirror_def Let_def)
    then show thesis by (intro failed [of "[]" e]) auto
  qed
next
  case pre: True
  let ?fine = "me_cache env = None \<and> me_pipe env = None \<and> me_start env = None \<and> me_wait env = None \<and> me_mark env = None
    \<and> (\<exists>fs n. last (None # me_writes env) = Some fs \<and> me_size env = Inr n \<and> me_readdir env = None \<and> \<not> list_ex oversize fs)"
  show thesis
  proof (cases ?fine)
    case True
    then obtain fs n where ok: "last (None # me_writes env) = Some fs" "me_size env = Inr n" "me_readdir env = None" "\<not> list_ex oversize fs" by blast
    then have "verifyCopy (Inr fs) k = None" for k by (simp add: verifyCopy_None)
    with pre True ok assms show thesis
      by (intro finished [of fs "projr out" n]) (auto simp: Mirror_def Let_def)
  next
    case False
    have "\<exists>e. out = Inl e" and "last states = None"
      using assms pre False by (auto simp: Mirror_def Let_def verifyCopy_None split: option.splits sum.splits)
    moreover have "set states \<subseteq> {r} \<union> Some ` set (me_clearing env) \<union> {None} \<union>
        (\<lambda>fs. Some \<lparr>cp_marker = False, cp_files = fs\<rparr>) ` set (None # me_writes env)"
      using assms pre False by (auto simp: Mirror_def Let_def verifyCopy_None split: option.splits sum.splits)
    ultimately show thesis using failed by blast
  qed
qed


definition sample_mirror :: mirror_env where
  "sample_mirror = \<lparr>me_mkroot = None, me_clearing = [\<lparr>cp_marker = False, cp_files = None\<rparr>], me_clear = None, me_create = None, me_cache = None,
     me_pipe = None, me_start = None, me_writes = [None, Some [(''VTS_01_1.VOB'', Some 5)], Some [(''VTS_01_1.VOB'', Some 10)]],
     me_lines = [''Copying Title, part 1/1: 50% done''], me_wait = None, me_ctx = None, me_size = Inr 10, me_readdir = None, me_mark = None\<rparr>"


text \<open>Removing a copy is not safe in the same way: a malformed copy whose removal is cut short, with the mark still
  there and the VOB that gave it away gone, is taken for a finished one.\<close>

theorem half_removed_copy_is_found:
  "\<exists>c c' env. rest_of c c' \<and> Existing env destRoot key (Some c) = (None, None) \<and> fst (Existing env destRoot key (Some c')) \<noteq> None"
proof -
  let ?c = "\<lparr>cp_marker = True, cp_files = Some [(''VTS_01_1.VOB'', Some 9), (''VTS_02_5.VOB'', Some 5368709120)]\<rparr> :: copy"
  let ?c' = "\<lparr>cp_marker = True, cp_files = Some [(''VTS_01_1.VOB'', Some 9)]\<rparr> :: copy"
  let ?env = "\<lparr>xe_readdir = None, xe_size = Inr 9\<rparr> :: existing_env"
  have vob: "is_vob ''VTS_01_1.VOB''" "is_vob ''VTS_02_5.VOB''" by code_simp+
  have "rest_of ?c ?c'" by (simp add: rest_of_def)
  moreover have "Existing ?env destRoot key (Some ?c) = (None, None)"
    using vob by (simp add: Existing_def verifyCopy_def oversize_def maxVOBBytes_def)
  moreover have "fst (Existing ?env destRoot key (Some ?c')) \<noteq> None"
    using vob by (simp add: Existing_def verifyCopy_def oversize_def maxVOBBytes_def)
  ultimately show ?thesis by blast
qed

end
