(* ===== verification/Tools.thy ===== *)
theory Tools
  imports Config Decrypt Encoder Makemkv_Key
begin

text \<open>
  The programs hellbox runs: where each is looked for (\<^verbatim>\<open>Available\<close> of \<^verbatim>\<open>internal/makemkv\<close>, \<^verbatim>\<open>internal/decrypt\<close>,
  \<^verbatim>\<open>internal/transcode\<close> and \<^verbatim>\<open>internal/dvd\<close>), the \<^verbatim>\<open>HOME\<close> that makemkvcon is given, how its output is delivered (\<^verbatim>\<open>run\<close>), the test of the
  device that is encoded on, the size of a copy and the rendering of attributes. What the file system and the programs answer are
  arguments.
\<close>

section \<open>Finding a program\<close>

text \<open>\<^verbatim>\<open>stat\<close> and \<^verbatim>\<open>look\<close> are the errors of \<^verbatim>\<open>os.Stat\<close> and \<^verbatim>\<open>exec.LookPath\<close>.\<close>

definition tool_available :: "string \<Rightarrow> (string \<Rightarrow> string option) \<Rightarrow> (string \<Rightarrow> string option) \<Rightarrow> string \<Rightarrow> string option" where
  "tool_available name stat look bin =
     (if IsAbs bin then map_option (\<lambda>e. name @ '' not found at '' @ bin @ '': '' @ e) (stat bin)
      else map_option (\<lambda>e. name @ '' not on PATH: '' @ e) (look bin))"

record mk_runner =
  mr_Bin :: string
  mr_SettingsPath :: string

definition DefaultSettingsPath :: "string option \<Rightarrow> string" where
  "DefaultSettingsPath home =
     (case home of None \<Rightarrow> [] | Some h \<Rightarrow> if h = [] then [] else Join [h, ''.MakeMKV'', ''settings.conf''])"

definition New_makemkv :: "string option \<Rightarrow> string \<Rightarrow> string \<Rightarrow> mk_runner" where
  "New_makemkv home bin settings =
     \<lparr>mr_Bin = (if bin = [] then ''makemkvcon'' else bin),
      mr_SettingsPath = (if settings = [] then DefaultSettingsPath home else settings)\<rparr>"

definition homeDir :: "mk_runner \<Rightarrow> string" where
  "homeDir r = (if mr_SettingsPath r = [] then [] else Dir (Dir (mr_SettingsPath r)))"

definition makemkv_Available :: "(string \<Rightarrow> string option) \<Rightarrow> (string \<Rightarrow> string option) \<Rightarrow> mk_runner \<Rightarrow> string option" where
  "makemkv_Available stat look r = tool_available ''makemkvcon'' stat look (mr_Bin r)"

definition New_decrypter :: "string \<Rightarrow> string" where
  "New_decrypter bin = (if bin = [] then ''dvdbackup'' else bin)"

definition decrypt_Available :: "(string \<Rightarrow> string option) \<Rightarrow> (string \<Rightarrow> string option) \<Rightarrow> string \<Rightarrow> string option" where
  "decrypt_Available stat look bin = tool_available ''dvdbackup'' stat look bin"

definition encoder_Available :: "(string \<Rightarrow> string option) \<Rightarrow> (string \<Rightarrow> string option) \<Rightarrow> encoder \<Rightarrow> string option" where
  "encoder_Available stat look e = tool_available ''ffmpeg'' stat look (ec_Bin e)"

definition ffprobe_bin :: "string \<Rightarrow> string" where
  "ffprobe_bin bin = (if bin = [] then ''ffprobe'' else bin)"

definition enumerator_Available :: "(string \<Rightarrow> string option) \<Rightarrow> string \<Rightarrow> string option" where
  "enumerator_Available look bin = map_option (\<lambda>e. ''ffprobe not on PATH: '' @ e) (look (ffprobe_bin bin))"

section \<open>Running makemkvcon\<close>

text \<open>What a run meets: the pipe, the start, the lines of its output, an error of reading them (with whether the pipe was
  simply closed), the end, whether the context was done by then, and what it wrote to the error stream.\<close>

record run_env =
  ru_pipe :: "string option"
  ru_start :: "string option"
  ru_lines :: "string list"
  ru_scan :: "(bool \<times> string) option"
  ru_wait :: "string option"
  ru_ctx :: "string option"
  ru_stderr :: string

text \<open>The environment of the child, the lines delivered, and the error.\<close>

definition run_home :: "(string \<times> string) list \<Rightarrow> mk_runner \<Rightarrow> (string \<times> string) list option" where
  "run_home env r = (if homeDir r = [] then None else Some (env @ [(''HOME'', homeDir r)]))"

definition run_makemkv :: "run_env \<Rightarrow> mk_runner \<Rightarrow> string list \<times> string option" where
  "run_makemkv u r =
     (case ru_pipe u of
        Some e \<Rightarrow> ([], Some (''stdout pipe: '' @ e))
      | None \<Rightarrow>
          (case ru_start u of
             Some e \<Rightarrow> ([], Some (''start '' @ mr_Bin r @ '': '' @ e))
           | None \<Rightarrow>
               (ru_lines u @ (case ru_scan u of
                                Some (False, e) \<Rightarrow> [''MSG:0,0,0,'' @ [QUOTE] @ ''hellbox: error reading makemkvcon output: '' @ e @ [QUOTE]]
                              | _ \<Rightarrow> []),
                case ru_wait u of
                  None \<Rightarrow> None
                | Some e \<Rightarrow>
                    (case ru_ctx u of
                       Some c \<Rightarrow> Some c
                     | None \<Rightarrow> let s = TrimSpace (ru_stderr u) in Some (if s \<noteq> [] then e @ '': '' @ s else e)))))"

section \<open>The device\<close>

definition CheckDevice_args :: "encoder \<Rightarrow> string list" where
  "CheckDevice_args e =
     [''-hide_banner'', ''-loglevel'', ''error'', ''-init_hw_device'', ''vaapi=hw:'' @ ec_Device e,
      ''-f'', ''lavfi'', ''-i'', ''testsrc=size=64x64:rate=1'', ''-frames:v'', ''1'', ''-f'', ''null'', ''-'']"

definition CheckDevice :: "(string \<Rightarrow> string list \<Rightarrow> bool \<times> string) \<Rightarrow> encoder \<Rightarrow> string option" where
  "CheckDevice prog e =
     (if \<not> Hardware e then None
      else case prog (ec_Bin e) (CheckDevice_args e) of
             (True, out) \<Rightarrow> None
           | (False, out) \<Rightarrow> Some (ec_Device e @ '' cannot be used for encoding: '' @ lastLines (TrimSpace out) 2))"

section \<open>The size of a copy\<close>

text \<open>A directory as \<^verbatim>\<open>filepath.WalkDir\<close> meets it: a file's size or the error of asking for it, a directory's entries or the
  error of reading it.\<close>

datatype dir_entry = FileEntry "string + int" | DirEntry "string + dir_entry list"

fun entry_size :: "dir_entry \<Rightarrow> string + int" and entry_sizes :: "dir_entry list \<Rightarrow> string + int" where
  "entry_size (FileEntry r) = r"
| "entry_size (DirEntry r) = (case r of Inl e \<Rightarrow> Inl e | Inr es \<Rightarrow> entry_sizes es)"
| "entry_sizes [] = Inr 0"
| "entry_sizes (e # es) =
     (case entry_size e of Inl x \<Rightarrow> Inl x | Inr n \<Rightarrow> (case entry_sizes es of Inl x \<Rightarrow> Inl x | Inr m \<Rightarrow> Inr (n + m)))"

definition dirSize :: "string \<Rightarrow> dir_entry \<Rightarrow> string + int" where
  "dirSize path d = (case entry_size d of Inl e \<Rightarrow> Inl (''measure '' @ path @ '': '' @ e) | Inr n \<Rightarrow> Inr n)"

section \<open>Attributes in a log\<close>

text \<open>\<^verbatim>\<open>describeAttrs\<close>: the codes as the map happens to give them, put in order by insertion, \<^verbatim>\<open>sift\<close> being the inner loop.\<close>

fun sift :: "int \<Rightarrow> int list \<Rightarrow> int list" where
  "sift c [] = [c]"
| "sift c (d # ds) = (if c < d then d # sift c ds else c # d # ds)"

text \<open>The sorted part is held last element first.\<close>

definition insertion_sort :: "int list \<Rightarrow> int list" where
  "insertion_sort cs = rev (foldl (\<lambda>done c. sift c done) [] cs)"

definition describeAttrs :: "(int \<times> string) list \<Rightarrow> string" where
  "describeAttrs attrs =
     (if attrs = [] then ''(none)''
      else join_with '' '' (map (\<lambda>c. int_str c @ ''='' @ go_quote (the (map_of attrs c))) (insertion_sort (map fst attrs))))"

section \<open>What is logged does not depend on the order of a map\<close>

lemma sift_desc: "sorted_wrt (\<ge>) ds \<Longrightarrow> sorted_wrt (\<ge>) (sift c ds) \<and> mset (sift c ds) = add_mset c (mset ds)"
proof (induction ds)
  case (Cons d ds)
  have "set (sift c ds) = insert c (set ds)" using Cons by (metis mset_eq_setD set_mset_add_mset_insert set_mset_mset sorted_wrt.simps(2))
  then show ?case using Cons by auto
qed simp

lemma insertion_sort_eq_sort: "insertion_sort cs = sort cs"
proof -
  have "sorted_wrt (\<ge>) ds \<Longrightarrow> sorted_wrt (\<ge>) (foldl (\<lambda>done c. sift c done) ds cs) \<and> mset (foldl (\<lambda>done c. sift c done) ds cs) = mset ds + mset cs" for ds
  proof (induction cs arbitrary: ds)
    case (Cons c cs)
    then show ?case using sift_desc [of ds c] Cons.IH [of "sift c ds"] by simp
  qed simp
  from this [of "[]"] show ?thesis unfolding insertion_sort_def
    by (intro properties_for_sort [symmetric]) (simp_all add: sorted_wrt_rev)
qed

text \<open>Two readings of one map are rendered alike.\<close>

lemma describeAttrs_stable:
  assumes "distinct (map fst as)" "distinct (map fst bs)" "map_of as = map_of bs"
  shows "describeAttrs as = describeAttrs bs"
proof -
  have "set (map fst as) = set (map fst bs)" using arg_cong [OF assms(3), of dom] by (simp add: dom_map_of_conv_image_fst)
  then have "sort (map fst as) = sort (map fst bs)" using assms(1,2) by (metis sorted_list_of_set_sort_remdups remdups_id_iff_distinct)
  moreover have "as = [] \<longleftrightarrow> bs = []" using \<open>set (map fst as) = set (map fst bs)\<close> by (metis list.map_disc_iff set_empty)
  ultimately show ?thesis using assms(3) by (simp add: describeAttrs_def insertion_sort_eq_sort)
qed

section \<open>The key makemkvcon reads\<close>

text \<open>A rooted path of the given components.\<close>

definition abs_path :: "string list \<Rightarrow> string" where
  "abs_path cs = SLASH # join_with [SLASH] cs"

definition good_comp :: "string \<Rightarrow> bool" where
  "good_comp c \<longleftrightarrow> c \<noteq> [] \<and> SLASH \<notin> set c \<and> plain_comp c"

lemma abs_path_comps: "list_all good_comp cs \<Longrightarrow> path_comps (abs_path cs) = cs"
  unfolding abs_path_def by (rule path_comps_join) (auto simp: list_all_iff good_comp_def)

lemma abs_path_inj: "list_all good_comp cs \<Longrightarrow> list_all good_comp ds \<Longrightarrow> abs_path cs = abs_path ds \<longleftrightarrow> cs = ds"
  using abs_path_comps by metis

lemma abs_path_rooted: "rooted_path (abs_path cs)" "rooted_path (abs_path cs @ s)"
  by (simp_all add: abs_path_def rooted_path_def)

lemma split_abs_path: "list_all good_comp cs \<Longrightarrow> split_on SLASH (abs_path cs) = [] # (if cs = [] then [[]] else cs)"
  by (cases "cs = []") (auto simp: abs_path_def list_all_iff good_comp_def intro: split_join)

lemma Clean_abs_path:
  assumes "list_all good_comp cs"
  shows "Clean (abs_path cs) = abs_path cs" "Clean (abs_path cs @ [SLASH]) = abs_path cs"
proof -
  have pl: "list_all plain_comp cs" "filter (\<lambda>c. c \<noteq> []) cs = cs" using assms by (auto simp: list_all_iff good_comp_def filter_id_conv)
  have c: "clean_comps True ds = filter (\<lambda>c. c \<noteq> []) ds" if "list_all plain_comp ds" for ds
    using clean_comps_append [OF that, of True "[]"] by (simp add: clean_comps_def)
  have p: "plain_comp []" by (simp add: plain_comp_def)
  show "Clean (abs_path cs) = abs_path cs"
    using pl p by (simp add: Clean_def abs_path_rooted split_abs_path [OF assms] c) (simp add: abs_path_def)
  have "split_on SLASH (abs_path cs @ [SLASH]) = [] # (if cs = [] then [[]] else cs) @ [[]]"
    using split_append_sep [of SLASH "abs_path cs" "[]"] assms by (simp add: split_abs_path)
  then show "Clean (abs_path cs @ [SLASH]) = abs_path cs"
    using pl p by (simp add: Clean_def abs_path_rooted c) (simp add: abs_path_def)
qed

lemma Dir_abs_path:
  assumes "list_all good_comp cs"
  shows "Dir (abs_path cs) = abs_path (butlast cs)"
proof (cases cs rule: rev_cases)
  case Nil
  then show ?thesis using Clean_abs_path(1) [of "[]"] by (simp add: Dir_def abs_path_def)
next
  case (snoc ds c)
  have nc: "SLASH \<notin> set c" using assms snoc by (simp add: good_comp_def)
  have join: "join_with [SLASH] (ds @ [c]) = (if ds = [] then c else join_with [SLASH] ds @ SLASH # c)"
  proof (induction ds)
    case (Cons a ds)
    then show ?case by (cases ds) auto
  qed simp
  have drop: "rev (dropWhile (\<lambda>x. x \<noteq> SLASH) (rev (a @ SLASH # c))) = a @ [SLASH]" for a
  proof -
    have "dropWhile (\<lambda>x. x \<noteq> SLASH) (rev c @ SLASH # rev a) = SLASH # rev a" using nc by (subst dropWhile_append2) auto
    then show ?thesis by simp
  qed
  show ?thesis
  proof (cases "ds = []")
    case True
    then show ?thesis using snoc join drop [of "[]"] Clean_abs_path(1) [of "[]"] by (simp add: Dir_def abs_path_def)
  next
    case False
    then have "abs_path cs = abs_path ds @ SLASH # c" using snoc join by (simp add: abs_path_def)
    then show ?thesis using snoc drop [of "abs_path ds"] Clean_abs_path(2) [of ds] assms by (simp add: Dir_def)
  qed
qed

lemma join_abs_path:
  assumes "list_all good_comp cs" "list_all good_comp ds" "ds \<noteq> []"
  shows "Join (abs_path cs # ds) = abs_path (cs @ ds)"
proof -
  let ?p = "join_with [SLASH] (abs_path cs # ds)"
  have pl: "list_all plain_comp (cs @ ds)" "filter (\<lambda>c. c \<noteq> []) (cs @ ds) = cs @ ds"
    using assms by (auto simp: list_all_iff good_comp_def filter_id_conv)
  have nil: "plain_comp []" by (simp add: plain_comp_def)
  have "concat (map (split_on SLASH) ds) = ds" using assms(2) by (induction ds) (auto simp: good_comp_def split_on_sep_free)
  then have "split_on SLASH ?p = ([] # (if cs = [] then [[]] else cs)) @ ds"
    using split_join_concat [of "abs_path cs # ds" SLASH] split_abs_path [OF assms(1)] by simp
  moreover have "list_all plain_comp (([] # (if cs = [] then [[]] else cs)) @ ds)" using pl(1) nil by simp
  then have "clean_comps True (([] # (if cs = [] then [[]] else cs)) @ ds) = filter (\<lambda>c. c \<noteq> []) (([] # (if cs = [] then [[]] else cs)) @ ds)"
    using clean_comps_append [of "([] # (if cs = [] then [[]] else cs)) @ ds" True "[]"] by (simp add: clean_comps_def)
  moreover have "\<dots> = cs @ ds" using pl(2) by (cases "cs = []") simp_all
  moreover have "rooted_path ?p" using assms(3) by (cases ds) (simp_all add: abs_path_def rooted_path_def)
  moreover have "Join (abs_path cs # ds) = Clean ?p" by (simp add: Join_def abs_path_def)
  ultimately show ?thesis by (simp add: Clean_def abs_path_def)
qed

text \<open>makemkvcon reads its key from \<^verbatim>\<open>.MakeMKV/settings.conf\<close> under the \<^verbatim>\<open>HOME\<close> it is given.\<close>

definition key_file :: "mk_runner \<Rightarrow> string" where
  "key_file r = Join [homeDir r, ''.MakeMKV'', ''settings.conf'']"

text \<open>The settings file hellbox keeps the key in is the one makemkvcon reads exactly when its path ends in
  \<^verbatim>\<open>.MakeMKV/settings.conf\<close>; so it is for the running user's own, and not for a \<^verbatim>\<open>makemkv_settings_path\<close> of any other name,
  which the configuration accepts.\<close>

theorem makemkv_reads_the_key_that_is_kept:
  assumes "list_all good_comp cs"
  shows "(key_file \<lparr>mr_Bin = bin, mr_SettingsPath = abs_path cs\<rparr> = abs_path cs
        \<longleftrightarrow> (\<exists>ds. cs = ds @ [''.MakeMKV'', ''settings.conf'']))
    \<and> key_file (New_makemkv (Some (abs_path cs)) bin []) = mr_SettingsPath (New_makemkv (Some (abs_path cs)) bin [])"
proof -
  have tail: "list_all good_comp [''.MakeMKV'', ''settings.conf'']" by (simp add: good_comp_def plain_comp_def)
  have key: "key_file \<lparr>mr_Bin = bin, mr_SettingsPath = abs_path es\<rparr> = abs_path (butlast (butlast es) @ [''.MakeMKV'', ''settings.conf''])"
    if "list_all good_comp es" for es bin
  proof -
    have b: "list_all good_comp (butlast es)" "list_all good_comp (butlast (butlast es))" using that by (auto simp: list_all_iff dest!: in_set_butlastD)
    then have "homeDir \<lparr>mr_Bin = bin, mr_SettingsPath = abs_path es\<rparr> = abs_path (butlast (butlast es))"
      using Dir_abs_path that by (simp add: homeDir_def) (simp add: abs_path_def)
    then show ?thesis using join_abs_path [OF b(2) tail] by (simp add: key_file_def)
  qed
  have b: "list_all good_comp (butlast (butlast cs) @ [''.MakeMKV'', ''settings.conf''])"
    using assms tail by (auto simp: list_all_iff dest!: in_set_butlastD)
  have "key_file \<lparr>mr_Bin = bin, mr_SettingsPath = abs_path cs\<rparr> = abs_path cs \<longleftrightarrow> (\<exists>ds. cs = ds @ [''.MakeMKV'', ''settings.conf''])"
    unfolding key [OF assms] abs_path_inj [OF b assms] by (auto simp: butlast_append) metis
  moreover have "DefaultSettingsPath (Some (abs_path cs)) = abs_path (cs @ [''.MakeMKV'', ''settings.conf''])"
    using join_abs_path [OF assms tail] by (simp add: DefaultSettingsPath_def) (simp add: abs_path_def)
  moreover have "list_all good_comp (cs @ [''.MakeMKV'', ''settings.conf''])" using assms tail by simp
  ultimately show ?thesis
    using key [of "cs @ [''.MakeMKV'', ''settings.conf'']"] by (simp add: New_makemkv_def butlast_append)
qed

theorem makemkv_reads_the_key_that_is_kept_witness:
  "key_file (New_makemkv (Some ''/root'') [] []) = ''/root/.MakeMKV/settings.conf''
   \<and> key_file (New_makemkv (Some ''/root'') [] ''/etc/hellbox/settings.conf'') \<noteq> ''/etc/hellbox/settings.conf''"
proof -
  have p: "''/root'' = abs_path [''root'']" "''/etc/hellbox/settings.conf'' = abs_path [''etc'', ''hellbox'', ''settings.conf'']"
    by (simp_all add: abs_path_def)
  have g: "list_all good_comp [''root'']" "list_all good_comp [''etc'', ''hellbox'', ''settings.conf'']"
    by (simp_all add: good_comp_def plain_comp_def)
  have "mr_SettingsPath (New_makemkv (Some ''/root'') [] []) = ''/root/.MakeMKV/settings.conf''" by code_simp
  moreover have "New_makemkv (Some ''/root'') [] ''/etc/hellbox/settings.conf'' =
      \<lparr>mr_Bin = ''makemkvcon'', mr_SettingsPath = abs_path [''etc'', ''hellbox'', ''settings.conf'']\<rparr>"
    unfolding p by (simp add: New_makemkv_def abs_path_def)
  moreover have "\<nexists>ds. [''etc'', ''hellbox'', ''settings.conf''] = ds @ [''.MakeMKV'', ''settings.conf'']"
    by (auto simp: append_eq_Cons_conv Cons_eq_append_conv)
  ultimately show ?thesis
    using makemkv_reads_the_key_that_is_kept [OF g(1), of "[]"] makemkv_reads_the_key_that_is_kept [OF g(2), of "''makemkvcon''"]
    unfolding p by metis
qed

end
