(* ===== verification/Commands.thy ===== *)
theory Commands
  imports Lifecycle Store_Open Tools Hub
begin

text \<open>
  The two commands (\<^verbatim>\<open>cmd/hellboxd\<close>, \<^verbatim>\<open>cmd/slay\<close>) and what only they use: \<^verbatim>\<open>Check\<close> of \<^verbatim>\<open>internal/daemon/check.go\<close>, the
  directory and free-space probes of the health checks, the status that is sent to followers (\<^verbatim>\<open>broadcastStatus\<close>,
  \<^verbatim>\<open>sendStatusTo\<close> of \<^verbatim>\<open>server.go\<close>), and \<^verbatim>\<open>internal/testsource\<close>. The lemmas show what \<^verbatim>\<open>hellboxd -check\<close> leaves of the state, when a command fails,
  and that the HTTP stream is fed whoever listens.
\<close>

section \<open>Probes\<close>

text \<open>What asking for a directory says: an error, or whether it is one.\<close>

record dir_probe =
  dp_stat :: "string + bool"
  dp_create :: "string option"
  dp_remove :: "string option"

text \<open>The files under the directory, by name.\<close>

definition writableDir :: "dir_probe \<Rightarrow> string \<Rightarrow> string set \<Rightarrow> string option \<times> string set" where
  "writableDir p path files =
     (case dp_stat p of
        Inl e \<Rightarrow> (Some e, files)
      | Inr isdir \<Rightarrow>
          if \<not> isdir then (Some (path @ '' is not a directory''), files)
          else case dp_create p of
                 Some e \<Rightarrow> (Some (path @ '' is not writable: '' @ e), files)
               | None \<Rightarrow>
                   (case dp_remove p of
                      Some e \<Rightarrow> (Some e, insert ''.hellbox-write-test'' files)
                    | None \<Rightarrow> (None, files - {''.hellbox-write-test''})))"

text \<open>Blocks available times the size of a block, as the machine multiplies.\<close>

definition freeBytes :: "64 word \<Rightarrow> 64 word \<Rightarrow> 64 word" where
  "freeBytes bavail bsize = bavail * bsize"

section \<open>Check\<close>

fun status_String :: "status \<Rightarrow> string" where
  "status_String StatusNoDisc = ''no disc''"
| "status_String StatusTrayOpen = ''tray open''"
| "status_String StatusNotReady = ''not ready''"
| "status_String StatusDiscOK = ''disc present''"
| "status_String StatusIncompatible = ''unreadable disc''"
| "status_String StatusUnknown = ''unknown''"

definition check_state :: "string + status \<Rightarrow> string" where
  "check_state r = (case r of Inr st \<Rightarrow> status_String st | Inl e \<Rightarrow> ''unreadable'' @ '': '' @ e)"

definition check_drive_lines :: "drive \<Rightarrow> string + status \<Rightarrow> string list" where
  "check_drive_lines dr st =
     [''  drive  '' @ Describe dr, ''         stable id: '' @ dv_StableID dr, ''         state: '' @ check_state st]"

definition check_mark :: "health \<Rightarrow> string" where
  "check_mark h = (if hl_OK h then ''ok  '' else if hl_Fatal h then ''FAIL'' else ''warn'')"

text \<open>\<^verbatim>\<open>%-16s\<close>.\<close>

definition left_16 :: "string \<Rightarrow> string" where
  "left_16 s = s @ replicate (16 - length s) (CHR '' '')"

definition check_health_line :: "health \<Rightarrow> string" where
  "check_health_line h = ''  '' @ check_mark h @ ''  '' @ left_16 (hl_Name h) @ '' '' @ hl_Detail h"

text \<open>\<^verbatim>\<open>Check\<close>: what is printed, the error, and the daemon. A drive of the same id replaces its worker.\<close>

definition set_worker :: "drive \<Rightarrow> (string \<times> watched) list \<Rightarrow> (string \<times> watched) list" where
  "set_worker dr ws =
     (let w = \<lparr>wa_drv = dr, wa_label = defaultLabel dr, wa_driveID = 0\<rparr>
      in if dv_StableID dr \<in> fst ` set ws then map (\<lambda>(i, v). if i = dv_StableID dr then (i, w) else (i, v)) ws
         else ws @ [(dv_StableID dr, w)])"

record check_env =
  ce_mkdir :: "string \<Rightarrow> string option"
  ce_found :: "string + drive list"
  ce_status :: "string \<Rightarrow> string + status"
  ce_health :: health_env

definition Check_daemon :: "config \<Rightarrow> encoder \<Rightarrow> check_env \<Rightarrow> server \<Rightarrow> (string list \<times> string option) \<times> server" where
  "Check_daemon cfg e env s =
     (case first_dir_error (ce_mkdir env) (prepareDirs cfg) of
        Some err \<Rightarrow> (([], Some err), s)
      | None \<Rightarrow>
          (let found = (case ce_found env of Inl err \<Rightarrow> [] | Inr ds \<Rightarrow> ds);
               s1 = s\<lparr>sv_drives := (sv_drives s)\<lparr>da_workers := fold set_worker found (da_workers (sv_drives s))\<rparr>\<rparr>;
               s2 = check_server cfg e (ce_health env) s1
           in (((case ce_found env of Inl err \<Rightarrow> [''  FAIL  drives: '' @ err] | Inr ds \<Rightarrow> [])
                @ concat (map (\<lambda>dr. check_drive_lines dr (ce_status env (dv_DevicePath dr))) found)
                @ (if found = [] then [''  drive  none detected''] else []) @ [[]]
                @ map check_health_line (sv_health s2) @ [[]]
                @ [''  rips dir    '' @ RipsDir cfg, ''  state db    '' @ StatePath cfg, ''  socket      '' @ SocketPath cfg],
                if Check_ok (sv_health s2) then None else Some ''startup checks failed''), s2)))"

section \<open>hellboxd\<close>

definition Version :: string where
  "Version = ''0.1.0''"

record cli =
  ci_version :: bool
  ci_check :: bool

text \<open>A process: what it printed, what it complained of, its exit code, and the state that is left. \<^verbatim>\<open>life\<close> is the rest of
  \<^verbatim>\<open>Run\<close>, which a start that went well leads into, with the error it returns with.\<close>

record process =
  pr_out :: "string list"
  pr_err :: "string option"
  pr_code :: nat

record host =
  ho_config :: config_file
  ho_load_text :: "load_error \<Rightarrow> string"
  ho_open :: open_env
  ho_store :: "db_file \<Rightarrow> store"
  ho_files :: fs
  ho_encoder :: encoder
  ho_check :: check_env
  ho_start :: start_env
  ho_life :: "server \<Rightarrow> string option"

definition run_hellboxd :: "host \<Rightarrow> bool \<Rightarrow> db_file \<Rightarrow> (string list \<times> string option) \<times> db_file \<times> server option" where
  "run_hellboxd h checkOnly f =
     (case Load (ho_config h) of
        (cfg, Some err) \<Rightarrow> (([], Some (ho_load_text h err)), f, None)
      | (cfg, None) \<Rightarrow>
          (case open_file (ho_open h) (StatePath cfg) f of
             (Some err, f1) \<Rightarrow> (([], Some err), f1, None)
           | (None, f1) \<Rightarrow>
               (let d = New_daemon (ho_store h f1) (ho_files h) (\<lambda>i. NewWorker \<lparr>wa_drv = \<lparr>dv_StableID = i, dv_DevicePath = [], dv_Vendor = [], dv_Model = []\<rparr>,
                          wa_label = [], wa_driveID = 0\<rparr> (ho_store h f1))
                in if checkOnly then (case Check_daemon cfg (ho_encoder h) (ho_check h) d of (r, d1) \<Rightarrow> (r, f1, Some d1))
                   else case Run_start cfg (ho_encoder h) (ho_start h) d of
                          (Some err, d1) \<Rightarrow> (([], Some err), f1, Some d1)
                        | (None, d1) \<Rightarrow> (([], ho_life h d1), f1, Some d1))))"

definition main_hellboxd :: "host \<Rightarrow> cli \<Rightarrow> db_file \<Rightarrow> process" where
  "main_hellboxd h c f =
     (if ci_version c then \<lparr>pr_out = [''hellboxd '' @ Version], pr_err = None, pr_code = 0\<rparr>
      else case run_hellboxd h (ci_check c) f of
             ((out, None), _) \<Rightarrow> \<lparr>pr_out = out, pr_err = None, pr_code = 0\<rparr>
           | ((out, Some e), _) \<Rightarrow> \<lparr>pr_out = out, pr_err = Some (''hellboxd: '' @ e), pr_code = 1\<rparr>)"

section \<open>slay\<close>

text \<open>The socket slay connects to, and what it says of a configuration it could not use.\<close>

definition slay_socket :: "string \<Rightarrow> config_file \<Rightarrow> (load_error \<Rightarrow> string) \<Rightarrow> string list \<times> string" where
  "slay_socket flag file text =
     (if flag \<noteq> [] then ([], flag)
      else case Load file of
             (cfg, Some err) \<Rightarrow> ([''slay: '' @ text err], SocketPath Default)
           | (cfg, None) \<Rightarrow> ([], SocketPath cfg))"

section \<open>Sources for tests\<close>

datatype test_source = Uses string | Fatal string | Skips string

definition test_path :: "(string \<Rightarrow> string) \<Rightarrow> string \<Rightarrow> string \<Rightarrow> test_source" where
  "test_path getenv env deprecated =
     (if getenv env \<noteq> [] then Uses (getenv env)
      else if getenv deprecated \<noteq> [] then
        Fatal (deprecated @ '' is set but no longer read; it is now '' @ env @ '', which also accepts a directory or an ISO'')
      else Skips (''set '' @ env @ '' to a device, a directory or an ISO to run this''))"

section \<open>Telling followers\<close>

definition sendStatusTo :: "config \<Rightarrow> request_env \<Rightarrow> server \<Rightarrow> bool \<Rightarrow> daemon_status list" where
  "sendStatusTo cfg env s encodes = (if encodes then [status cfg env s] else [])"

definition broadcastStatus ::
    "config \<Rightarrow> request_env \<Rightarrow> int \<Rightarrow> bool \<Rightarrow> server \<Rightarrow> drive_status list hub \<times> daemon_status subscribers
       \<Rightarrow> drive_status list hub \<times> daemon_status subscribers" where
  "broadcastStatus cfg env now encodes s hs =
     (let st = status cfg env s; h = snd (Publish now ''drives'' (ds_Drives st) (fst hs))
      in if su_subs (snd hs) = [] \<or> \<not> encodes then (h, snd hs) else (h, publishRaw st (snd hs)))"

section \<open>What the commands leave\<close>

lemma writableDir_leaves_nothing:
  "fst (writableDir p path files) = None \<Longrightarrow> snd (writableDir p path files) = files - {''.hellbox-write-test''}"
  "snd (writableDir p path files) \<subseteq> insert ''.hellbox-write-test'' files"
  by (auto simp: writableDir_def split: sum.splits if_splits option.splits)

text \<open>Free space is what the blocks come to unless that does not fit 64 bits.\<close>

lemma freeBytes_exact: "unat bavail * unat bsize < 2 ^ 64 \<Longrightarrow> unat (freeBytes bavail bsize) = unat bavail * unat bsize"
  by (simp add: freeBytes_def unat_mult_lem [THEN iffD1])

lemma Check_db: "sv_db (snd (Check_daemon cfg e env s)) = sv_db s"
  by (simp add: Check_daemon_def Let_def split: option.split)

text \<open>Drives under one stable id are registered once.\<close>

lemma set_worker_distinct: "distinct (map fst ws) \<Longrightarrow> distinct (map fst (set_worker dr ws))"
proof -
  assume d: "distinct (map fst ws)"
  have "map fst (map (\<lambda>(i, v). if i = dv_StableID dr then (i, w) else (i, v)) ws) = map fst ws" for w
    by (induction ws) (auto split: prod.split)
  then show ?thesis using d by (auto simp: set_worker_def Let_def simp del: map_map)
qed

text \<open>A check that lists the drives it found counts them.\<close>

lemma Check_counts_drives:
  assumes "first_dir_error (ce_mkdir env) (prepareDirs cfg) = None" "ce_found env = Inr ds"
    "da_workers (sv_drives s) = []" "distinct (map dv_StableID ds)"
  shows "length (da_workers (sv_drives (snd (Check_daemon cfg e env s)))) = length ds"
proof -
  have "length (fold set_worker ds ws) = length ws + length ds" if "distinct (map dv_StableID ds)" "dv_StableID ` set ds \<inter> fst ` set ws = {}" for ws
    using that
  proof (induction ds arbitrary: ws)
    case (Cons d ds)
    have "set_worker d ws = ws @ [(dv_StableID d, \<lparr>wa_drv = d, wa_label = defaultLabel d, wa_driveID = 0\<rparr>)]"
      using Cons.prems(2) by (auto simp: set_worker_def Let_def)
    then show ?case using Cons.IH [of "set_worker d ws"] Cons.prems by auto
  qed simp
  from this [of "[]"] show ?thesis using assms by (simp add: Check_daemon_def Let_def)
qed

lemma run_hellboxd_cases:
  obtains (config) cfg err where "Load (ho_config h) = (cfg, Some err)" "run_hellboxd h chk f = (([], Some (ho_load_text h err)), f, None)"
  | (store) cfg err f1 where "Load (ho_config h) = (cfg, None)" "open_file (ho_open h) (StatePath cfg) f = (Some err, f1)"
      "run_hellboxd h chk f = (([], Some err), f1, None)"
  | (check) cfg f1 ws r d where "chk" "Load (ho_config h) = (cfg, None)" "open_file (ho_open h) (StatePath cfg) f = (None, f1)"
      "Check_daemon cfg (ho_encoder h) (ho_check h) (New_daemon (ho_store h f1) (ho_files h) ws) = (r, d)" "run_hellboxd h chk f = (r, f1, Some d)"
  | (run) cfg f1 ws err d where "\<not> chk" "Load (ho_config h) = (cfg, None)" "open_file (ho_open h) (StatePath cfg) f = (None, f1)"
      "Run_start cfg (ho_encoder h) (ho_start h) (New_daemon (ho_store h f1) (ho_files h) ws) = (err, d)"
      "run_hellboxd h chk f = (([], case err of Some e \<Rightarrow> Some e | None \<Rightarrow> ho_life h d), f1, Some d)"
proof -
  obtain cfg e where l: "Load (ho_config h) = (cfg, e)" by fastforce
  obtain oe f1 where o: "open_file (ho_open h) (StatePath cfg) f = (oe, f1)" by fastforce
  define ws where "ws = (\<lambda>i. NewWorker \<lparr>wa_drv = \<lparr>dv_StableID = i, dv_DevicePath = [], dv_Vendor = [], dv_Model = []\<rparr>, wa_label = [], wa_driveID = 0\<rparr> (ho_store h f1))"
  obtain r d where c: "Check_daemon cfg (ho_encoder h) (ho_check h) (New_daemon (ho_store h f1) (ho_files h) ws) = (r, d)" by fastforce
  obtain err d' where s: "Run_start cfg (ho_encoder h) (ho_start h) (New_daemon (ho_store h f1) (ho_files h) ws) = (err, d')" by fastforce
  note defs = run_hellboxd_def l
  show thesis
  proof (cases e)
    case (Some err)
    then show thesis using config [of cfg err] l by (simp add: defs)
  next
    case None
    show thesis
    proof (cases oe)
      case (Some err)
      then show thesis using store [of cfg err f1] None l o by (simp add: defs)
    next
      case oe: None
      show thesis
      proof (cases chk)
        case True
        then have "run_hellboxd h chk f = (r, f1, Some d)" using None oe o c by (simp add: defs ws_def [symmetric])
        with True None oe l o c show thesis by (intro check [of cfg f1 ws r d]) simp_all
      next
        case False
        then have "run_hellboxd h chk f = (([], case err of Some e \<Rightarrow> Some e | None \<Rightarrow> ho_life h d'), f1, Some d')"
          using None oe o s by (cases err) (simp_all add: defs ws_def [symmetric])
        with False None oe l o s show thesis by (intro run [of cfg f1 ws err d']) simp_all
      qed
    qed
  qed
qed



section \<open>The stream is fed whoever listens\<close>

type_synonym tick = "request_env \<times> int \<times> bool \<times> server"

definition ticks :: "config \<Rightarrow> tick list \<Rightarrow> drive_status list hub \<times> daemon_status subscribers \<Rightarrow> drive_status list hub \<times> daemon_status subscribers" where
  "ticks cfg ts = fold (\<lambda>(env, now, encodes, s). broadcastStatus cfg env now encodes s) ts"

lemma ticks_hub: "fst (ticks cfg ts hs) = snd (publish_all (map (\<lambda>(env, now, encodes, s). (now, ''drives'', ds_Drives (status cfg env s))) ts) (fst hs))"
proof (induction ts arbitrary: hs)
  case (Cons t ts)
  obtain env now encodes s where t: "t = (env, now, encodes, s)" by (cases t)
  have "fst (broadcastStatus cfg env now encodes s hs) = snd (Publish now ''drives'' (ds_Drives (status cfg env s)) (fst hs))"
    by (simp add: broadcastStatus_def Let_def)
  then show ?case using Cons [of "broadcastStatus cfg env now encodes s hs"] t
    by (auto simp: ticks_def Let_def split: prod.split)
qed (simp add: ticks_def)

text \<open>The status of the drives goes on the event stream every second, whether it has changed or not. So a client that has seen
  everything, and misses nothing but such repetitions, is told to start over once more than the ring's size of seconds
  have passed.\<close>

theorem status_ticks_use_up_the_ring:
  assumes "hub_inv hist (fst hs)" "length hist + length ts < 2 ^ 64" "ts \<noteq> []"
  shows "snd (Since (fst (ticks cfg ts hs)) (LastID (fst hs))) \<longleftrightarrow> length ts \<le> ringSize"
proof -
  let ?ms = "map (\<lambda>(env, now, encodes, s). (now, ''drives'', ds_Drives (status cfg env s))) ts"
  obtain evs h' where p: "publish_all ?ms (fst hs) = (evs, h')" by fastforce
  have inv: "hub_inv (hist @ evs) h'" "length evs = length ts" using publish_all_inv [OF assms(1) _ p] assms(2) by simp_all
  have h': "fst (ticks cfg ts hs) = h'" using ticks_hub [of cfg ts hs] p by simp
  have "unat (LastID (fst hs)) = length hist" using assms(1,2) by (simp add: hub_inv_def LastID_def unat_of_nat)
  then show ?thesis using Since_eq [OF inv(1), of "LastID (fst hs)"] inv(2) assms(3) h' by auto
qed

end
