(* ===== verification/Tui.thy ===== *)
theory Tui
  imports Server Ifo
begin

text \<open>
  \<^verbatim>\<open>internal/tui\<close> and the sending side of \<^verbatim>\<open>internal/client\<close>: the terminal client's state, what a key does and what a
  message from the daemon does, and the plain parts of what is drawn.

  A raw JSON value is of the type \<^verbatim>\<open>'raw\<close>, and how it decodes into each of the types it is tried as is an argument, so
  that nothing is assumed of a value that decodes as more than one. Styles and layout are in \<^verbatim>\<open>View\<close>; the loop of the
  terminal library is not modelled. The lemmas show that a reply is read as what was asked for, when a disc is
  forgotten, and that a status moves the selection in the queue.
\<close>

section \<open>The client\<close>

datatype params = NoParams | LimitParams int | DriveParams string | FingerprintParams string | JobParams int

record client =
  cl_connected :: bool
  cl_closed :: bool
  cl_id :: int
  cl_sent :: "(int \<times> string \<times> params) list"

text \<open>\<^verbatim>\<open>Send\<close>; the second argument is the error of writing to the connection, if any.\<close>

definition Send :: "string option \<Rightarrow> string \<Rightarrow> params \<Rightarrow> client \<Rightarrow> (string + int) \<times> client" where
  "Send werr meth p c =
     (if \<not> cl_connected c then (Inl ''not connected to hellboxd'', c)
      else let c1 = c\<lparr>cl_id := cl_id c + 1\<rparr>
           in case werr of
                Some e \<Rightarrow> (Inl (''send '' @ meth @ '': '' @ e), c1)
              | None \<Rightarrow> (Inr (cl_id c1), c1\<lparr>cl_sent := cl_sent c1 @ [(cl_id c1, meth, p)]\<rparr>))"

text \<open>\<^verbatim>\<open>Close\<close>. The connection stays the client's until its reader has noticed.\<close>

definition Close :: "client \<Rightarrow> client" where
  "Close c = c\<lparr>cl_closed := True\<rparr>"

text \<open>What \<^verbatim>\<open>Run\<close> does to the client: a connection is made and the first request on it is a subscription, it is lost.\<close>

definition Run_connected :: "string option \<Rightarrow> client \<Rightarrow> client" where
  "Run_connected werr c = snd (Send werr ''subscribe'' NoParams (c\<lparr>cl_connected := True\<rparr>))"

definition Run_lost :: "client \<Rightarrow> client" where
  "Run_lost c = c\<lparr>cl_connected := False\<rparr>"

text \<open>The wait between two attempts to connect, in milliseconds.\<close>

definition next_backoff :: "int \<Rightarrow> int" where
  "next_backoff b = (if b < 5000 then b * 2 else b)"

section \<open>The model\<close>

datatype tui_view = ViewDrives | ViewHistory | ViewLog | ViewQueue | ViewFailures

record tui_drive =
  td_StableID :: string
  td_Label :: string
  td_DevicePath :: string
  td_Snap :: drive_snapshot

record tui =
  tm_client :: client
  tm_status :: "daemon_status option"
  tm_drives :: "tui_drive list"
  tm_jobs :: "job_summary list"
  tm_queue :: "transcode_summary list"
  tm_failures :: "failure list"
  tm_events :: "event_row list"
  tm_haveAny :: bool
  tm_view :: tui_view
  tm_selected :: int
  tm_connected :: bool
  tm_quitting :: bool
  tm_pending :: "int \<rightharpoonup> string"
  tm_flash :: string
  tm_flashErr :: bool
  tm_width :: int
  tm_height :: int
  tm_lastErr :: string

definition New :: "client \<Rightarrow> tui" where
  "New c = \<lparr>tm_client = c, tm_status = None, tm_drives = [], tm_jobs = [], tm_queue = [], tm_failures = [], tm_events = [],
     tm_haveAny = False, tm_view = ViewDrives, tm_selected = 0, tm_connected = False, tm_quitting = False,
     tm_pending = Map.empty, tm_flash = [], tm_flashErr = False, tm_width = 80, tm_height = 24, tm_lastErr = []\<rparr>"

definition flash :: "string \<Rightarrow> bool \<Rightarrow> tui \<Rightarrow> tui" where
  "flash t err m = m\<lparr>tm_flash := t, tm_flashErr := err\<rparr>"

definition tui_request :: "string option \<Rightarrow> string \<Rightarrow> params \<Rightarrow> tui \<Rightarrow> tui" where
  "tui_request werr meth p m =
     (case Send werr meth p (tm_client m) of
        (Inl e, c) \<Rightarrow> flash e True (m\<lparr>tm_client := c\<rparr>)
      | (Inr i, c) \<Rightarrow> m\<lparr>tm_client := c, tm_pending := (tm_pending m)(i \<mapsto> meth)\<rparr>)"

definition row :: "'a list \<Rightarrow> int \<Rightarrow> 'a option" where
  "row xs i = (if i < 0 \<or> i \<ge> int (length xs) then None else Some (xs ! nat i))"

definition current :: "tui \<Rightarrow> tui_drive option" where
  "current m = row (tm_drives m) (tm_selected m)"

definition currentJob :: "tui \<Rightarrow> transcode_summary option" where
  "currentJob m = row (tm_queue m) (tm_selected m)"

definition rowCount :: "tui \<Rightarrow> int" where
  "rowCount m = (if tm_view m = ViewQueue then int (length (tm_queue m)) else int (length (tm_drives m)))"

text \<open>The fingerprint to forget and the refusal to show, either of them empty.\<close>

definition forgetTarget :: "tui \<Rightarrow> string \<times> string" where
  "forgetTarget m =
     (case current m of
        None \<Rightarrow> ([], [])
      | Some d \<Rightarrow>
          if sp_Fingerprint (td_Snap d) = [] then ([], ''no disc in '' @ td_Label d @ '' to forget'')
          else if Busy (sp_State (td_Snap d)) then ([], td_Label d @ '' is busy; cancel it first'')
          else (sp_Fingerprint (td_Snap d), []))"

definition on_current :: "tui \<Rightarrow> (tui_drive \<Rightarrow> tui) \<Rightarrow> tui" where
  "on_current m f = (case current m of None \<Rightarrow> m | Some d \<Rightarrow> f d)"

definition handleKey :: "string option \<Rightarrow> string \<Rightarrow> tui \<Rightarrow> tui" where
  "handleKey werr key m =
     (let req = (\<lambda>meth p m'. tui_request werr meth p m')
      in if key \<in> {''q'', ''ctrl+c'', ''esc''} then m\<lparr>tm_quitting := True, tm_client := Close (tm_client m)\<rparr>
         else if key = ''d'' then m\<lparr>tm_view := ViewDrives\<rparr>
         else if key = ''h'' then req ''history'' (LimitParams 50) (m\<lparr>tm_view := ViewHistory\<rparr>)
         else if key = ''l'' then req ''events'' (LimitParams 200) (m\<lparr>tm_view := ViewLog\<rparr>)
         else if key = ''x'' then req ''failures'' (LimitParams 100) (m\<lparr>tm_view := ViewFailures\<rparr>)
         else if key = ''t'' then req ''queue'' (LimitParams 100) (m\<lparr>tm_view := ViewQueue\<rparr>)
         else if key = ''up'' \<or> key = ''k'' then (if tm_selected m > 0 then m\<lparr>tm_selected := tm_selected m - 1\<rparr> else m)
         else if key = ''down'' \<or> key = ''j'' then (if tm_selected m < rowCount m - 1 then m\<lparr>tm_selected := tm_selected m + 1\<rparr> else m)
         else if key = ''e'' then on_current m (\<lambda>d. req ''eject'' (DriveParams (td_StableID d)) m)
         else if key = ''r'' then
           (if tm_view m = ViewQueue
            then (case currentJob m of None \<Rightarrow> m | Some j \<Rightarrow> req ''queue.retry'' (JobParams (ts_ID j)) m)
            else on_current m (\<lambda>d. req ''retry'' (DriveParams (td_StableID d)) m))
         else if key = ''c'' then
           (if tm_view m = ViewQueue then req ''queue.cancel'' NoParams m
            else on_current m (\<lambda>d. req ''cancel'' (DriveParams (td_StableID d)) m))
         else if key = ''T'' then
           on_current m (\<lambda>d. if sp_Fingerprint (td_Snap d) = [] then flash (''no disc in '' @ td_Label d @ '' to transcode'') True m
                              else req ''transcode'' (FingerprintParams (sp_Fingerprint (td_Snap d))) m)
         else if key = ''f'' then
           (case forgetTarget m of (fp, refusal) \<Rightarrow>
              if refusal \<noteq> [] then flash refusal True m
              else if fp \<noteq> [] then req ''forget'' (FingerprintParams fp) m
              else m)
         else if key = ''R'' then req ''rescan'' NoParams m
         else m)"

section \<open>Messages\<close>

record 'raw decoders =
  dc_jobs :: "'raw \<Rightarrow> string + job_summary list"
  dc_events :: "'raw \<Rightarrow> string + event_row list"
  dc_failures :: "'raw \<Rightarrow> string + failure list"
  dc_queue :: "'raw \<Rightarrow> string + transcode_summary list"
  dc_ack :: "'raw \<Rightarrow> string + (string \<times> string) list"
  dc_status :: "'raw \<Rightarrow> string + daemon_status \<times> 'raw list"
  dc_drive :: "'raw \<Rightarrow> string + tui_drive"

datatype 'raw client_message =
    Connected
  | Disconnected
  | Failed string
  | PushMsg string 'raw
  | ResponseMsg int bool string "'raw option"

definition applyStatus :: "'raw decoders \<Rightarrow> 'raw \<Rightarrow> tui \<Rightarrow> tui" where
  "applyStatus dc raw m =
     (case dc_status dc raw of
        Inl e \<Rightarrow> m\<lparr>tm_lastErr := ''could not read status: '' @ e\<rparr>
      | Inr (s, ds) \<Rightarrow>
          (let drives = List.map_filter (\<lambda>d. case dc_drive dc d of Inl e \<Rightarrow> None | Inr x \<Rightarrow> Some x) ds;
               m1 = m\<lparr>tm_status := Some s, tm_haveAny := True, tm_drives := drives\<rparr>
           in if tm_selected m1 \<ge> int (length drives) then m1\<lparr>tm_selected := max 0 (int (length drives) - 1)\<rparr> else m1))"

text \<open>A map of one entry, as the daemon's acknowledgements are, in the order it is gone through.\<close>

definition applyResult :: "'raw decoders \<Rightarrow> string \<Rightarrow> 'raw \<Rightarrow> tui \<Rightarrow> tui" where
  "applyResult dc meth raw m =
     (if meth = ''history'' then
        (case dc_jobs dc raw of Inl e \<Rightarrow> m\<lparr>tm_lastErr := ''could not read history: '' @ e\<rparr> | Inr js \<Rightarrow> m\<lparr>tm_jobs := js\<rparr>)
      else if meth = ''events'' then
        (case dc_events dc raw of Inl e \<Rightarrow> m\<lparr>tm_lastErr := ''could not read the log: '' @ e\<rparr> | Inr es \<Rightarrow> m\<lparr>tm_events := es\<rparr>)
      else if meth = ''failures'' then
        (case dc_failures dc raw of Inl e \<Rightarrow> m\<lparr>tm_lastErr := ''could not read failures: '' @ e\<rparr> | Inr fs \<Rightarrow> m\<lparr>tm_failures := fs\<rparr>)
      else if meth = ''queue'' then
        (case dc_queue dc raw of
           Inl e \<Rightarrow> m\<lparr>tm_lastErr := ''could not read the queue: '' @ e\<rparr>
         | Inr js \<Rightarrow> (let m1 = m\<lparr>tm_queue := js\<rparr> in if tm_selected m1 \<ge> int (length js) then m1\<lparr>tm_selected := 0\<rparr> else m1))
      else if meth = ''transcode'' then
        (case dc_ack dc raw of
           Inl e \<Rightarrow> m
         | Inr a \<Rightarrow> flash (''queued '' @ (case map_of a ''queued'' of None \<Rightarrow> [] | Some v \<Rightarrow> v) @ '' for transcoding'') False m)
      else if meth = ''forget'' then
        (case dc_ack dc raw of
           Inl e \<Rightarrow> m
         | Inr a \<Rightarrow> flash (''forgotten '' @ [CHR 0xE2, CHR 0x80, CHR 0x94] @ '' this disc will be ripped again'') False m)
      else (case dc_ack dc raw of
              Inl e \<Rightarrow> m
            | Inr a \<Rightarrow> fold (\<lambda>(k, v). flash (k @ '' '' @ v) False) a m))"

definition handleDaemon :: "'raw decoders \<Rightarrow> 'raw client_message \<Rightarrow> tui \<Rightarrow> tui" where
  "handleDaemon dc msg m =
     (if tm_quitting m then m
      else case msg of
        Connected \<Rightarrow> flash ''connected'' False (m\<lparr>tm_connected := True, tm_lastErr := []\<rparr>)
      | Disconnected \<Rightarrow>
          flash (''lost the connection to hellboxd '' @ [CHR 0xE2, CHR 0x80, CHR 0x94] @ '' reconnecting'') True (m\<lparr>tm_connected := False\<rparr>)
      | Failed e \<Rightarrow> m\<lparr>tm_lastErr := e\<rparr>
      | PushMsg ev raw \<Rightarrow> if ev = ''status'' then applyStatus dc raw m else m
      | ResponseMsg i ok err res \<Rightarrow>
          (let meth = (case tm_pending m i of None \<Rightarrow> [] | Some x \<Rightarrow> x);
               m1 = m\<lparr>tm_pending := (tm_pending m)(i := None)\<rparr>
           in if \<not> ok then flash err True m1
              else case res of None \<Rightarrow> m1 | Some raw \<Rightarrow> applyResult dc meth raw m1))"

text \<open>What a line of the connection becomes: a push has an event, anything else is taken for a response. The argument is
  how the line decodes, as the probe of its event, as a push and as a response; an empty line is passed over.\<close>

record 'raw line_decoders =
  ld_probe :: "string \<Rightarrow> string + string"
  ld_push :: "string \<Rightarrow> string + string \<times> 'raw"
  ld_response :: "string \<Rightarrow> string + int \<times> bool \<times> string \<times> 'raw option"

definition read_line :: "'raw line_decoders \<Rightarrow> string \<Rightarrow> 'raw client_message option" where
  "read_line ld line =
     (if line = [] then None
      else case ld_probe ld line of
        Inl e \<Rightarrow> Some (Failed (''malformed message from daemon: '' @ e))
      | Inr ev \<Rightarrow>
          if ev \<noteq> [] then
            (case ld_push ld line of
               Inl e \<Rightarrow> Some (Failed (''malformed push: '' @ e))
             | Inr (ev', raw) \<Rightarrow> Some (PushMsg ev' raw))
          else (case ld_response ld line of
                  Inl e \<Rightarrow> Some (Failed (''malformed response: '' @ e))
                | Inr (i, ok, err, res) \<Rightarrow> Some (ResponseMsg i ok err res)))"

text \<open>\<^verbatim>\<open>Update\<close>, and the client's own goroutine beside it.\<close>

datatype 'raw tui_event =
    WindowSize int int
  | Tick
  | Key "string option" string
  | Daemon_says "'raw client_message"
  | Dialled "string option"
  | Hung_up

fun Update :: "'raw decoders \<Rightarrow> 'raw tui_event \<Rightarrow> tui \<Rightarrow> tui" where
  "Update dc (WindowSize w h) m = m\<lparr>tm_width := w, tm_height := h\<rparr>"
| "Update dc Tick m = m"
| "Update dc (Key werr k) m = handleKey werr k m"
| "Update dc (Daemon_says msg) m = handleDaemon dc msg m"
| "Update dc (Dialled werr) m = m\<lparr>tm_client := Run_connected werr (tm_client m)\<rparr>"
| "Update dc Hung_up m = m\<lparr>tm_client := Run_lost (tm_client m)\<rparr>"

definition tui_run :: "'raw decoders \<Rightarrow> 'raw tui_event list \<Rightarrow> tui \<Rightarrow> tui" where
  "tui_run dc es m = fold (Update dc) es m"

section \<open>Drawing\<close>

definition ELLIPSIS :: string where
  "ELLIPSIS = [CHR 0xE2, CHR 0x80, CHR 0xA6]"

definition truncate :: "string \<Rightarrow> int \<Rightarrow> string" where
  "truncate s n =
     (let r = runes s; enc = (\<lambda>rs. concat (map encode_rune rs))
      in if n \<le> 0 then []
         else if int (length r) \<le> n then s
         else if n \<le> 1 then enc (take (nat n) r)
         else enc (take (nat n - 1) r) @ ELLIPSIS)"

definition pad :: "string \<Rightarrow> int \<Rightarrow> string" where
  "pad s n = (let r = runes s in if int (length r) \<ge> n then s else s @ replicate (nat n - length r) (CHR '' ''))"

definition discPlaceholder :: "drive_state \<Rightarrow> string" where
  "discPlaceholder s =
     (if s = StateTrayOpen then ''(tray open)''
      else if s = StateAbsent then ''(drive not responding)''
      else if s = StateIncompatible then ''(unreadable disc)''
      else ''(empty)'')"

fun stateHint :: "drive_state \<Rightarrow> string" where
  "stateHint StateEmpty = ''waiting for a disc''"
| "stateHint StateTrayOpen = ''ready for the next disc''"
| "stateHint StateLoading = ''spinning up''"
| "stateHint StateCancelled = ''cancelled; eject and reinsert the disc to try again''"
| "stateHint StateDecrypting = ''the drive cannot decrypt this disc; copying it to disk first''"
| "stateHint StateQueued = ''waiting for another drive to finish; one disc is worked on at a time''"
| "stateHint StateScanning = ''reading the disc structure''"
| "stateHint StateComplete = ''done '' @ [CHR 0xE2, CHR 0x80, CHR 0x94] @ '' safe to reshelve''"
| "stateHint StateDuplicate = ''already ripped; nothing to do''"
| "stateHint StateIncompatible = ''swap the disc '' @ [CHR 0xE2, CHR 0x80, CHR 0x94] @ '' this drive cannot read it''"
| "stateHint StateFailed = ''retained in the drive; press r to retry''"
| "stateHint StateAbsent = ''unplugged, or dropped by the kernel''"
| "stateHint s = []"

definition shortFingerprint :: "string \<Rightarrow> string" where
  "shortFingerprint f = (if length f > 12 then take 12 f else f)"

text \<open>\<^verbatim>\<open>shortDuration\<close> of a number of whole seconds that is not negative; \<^verbatim>\<open>Round\<close> takes half a minute up.\<close>

definition shortDuration :: "int \<Rightarrow> string" where
  "shortDuration secs =
     (let mins = (secs + 30) div 60
      in if mins < 1 then ''<1m''
         else if mins div 60 > 0 then int_str (mins div 60) @ ''h'' @ int_str02 (mins mod 60) @ ''m''
         else int_str mins @ ''m'')"

text \<open>The lines of the banner, without their styles.\<close>

definition banner_lines :: "health list \<Rightarrow> string list" where
  "banner_lines hs =
     map (\<lambda>h. '' '' @ (if hl_Fatal h then ''PROBLEM'' else ''warning'') @ ''  '' @ hl_Name h @ '': '' @ hl_Detail h)
       (filter (\<lambda>h. \<not> hl_OK h) hs)"

text \<open>\<^verbatim>\<open>headerRight\<close>, the second half of the header; the free space is rendered by the daemon's \<^verbatim>\<open>humanBytes\<close>.\<close>

definition MIDDOT :: string where
  "MIDDOT = [CHR 0xC2, CHR 0xB7]"

definition header_right :: "tui \<Rightarrow> string" where
  "header_right m =
     (if \<not> tm_connected m then ''disconnected''
      else case tm_status m of
        None \<Rightarrow> ''waiting for status''
      | Some s \<Rightarrow>
          int_str (int (length (tm_drives m))) @ '' drive'' @ plural (length (tm_drives m)) @ '' '' @ MIDDOT @ '' '' @
          int_str (int (ds_DiscsRipped s)) @ '' disc'' @ plural (ds_DiscsRipped s) @ '' ripped '' @ MIDDOT @ '' '' @
          humanBytes (wrap64 (ds_FreeBytes s)) @ '' free'')"

text \<open>The events the log has room for.\<close>

definition shown_events :: "tui \<Rightarrow> event_row list" where
  "shown_events m =
     (let limit = max 1 (tm_height m - 8)
      in if int (length (tm_events m)) > limit then take (nat limit) (tm_events m) else tm_events m)"

text \<open>The groups of \<^verbatim>\<open>failuresView\<close>: how often each kind was seen and the last advice that was given with it, the most
  frequent first and kinds of equal count by name.\<close>

fun kind_text :: "failure_kind \<Rightarrow> string" where
  "kind_text FailureAACSKey = ''aacs-key''"
| "kind_text FailureBDPlus = ''bd-plus''"
| "kind_text FailureRegion = ''region''"
| "kind_text FailureUnreadable = ''unreadable''"
| "kind_text FailureStalled = ''stalled''"
| "kind_text FailureSpace = ''no-space''"
| "kind_text FailureTooling = ''tooling''"
| "kind_text FailureCancelled = ''cancelled''"
| "kind_text FailureMismatch = ''title-mismatch''"
| "kind_text FailureOther = ''other''"

definition kind_count :: "failure list \<Rightarrow> failure_kind \<Rightarrow> nat" where
  "kind_count fs k = length (filter (\<lambda>f. f_Kind f = k) fs)"

definition kind_advice :: "failure list \<Rightarrow> failure_kind \<Rightarrow> string" where
  "kind_advice fs k = fold (\<lambda>f a. if f_Kind f = k \<and> f_Advice f \<noteq> [] then f_Advice f else a) fs []"

definition failure_kinds :: "failure list \<Rightarrow> failure_kind list" where
  "failure_kinds fs =
     sort_key (\<lambda>k. (- int (kind_count fs k), map of_char (kind_text k) :: nat list)) (remdups (map f_Kind fs))"

text \<open>The state a row of the queue shows; the argument is the running encode's percentage as it is printed.\<close>

definition queue_state :: "string \<Rightarrow> bool \<Rightarrow> transcode_summary \<Rightarrow> string" where
  "queue_state percent running j =
     (case ts_State j of
        TranscodeRunning \<Rightarrow> if running then ''running '' @ percent else ''running''
      | TranscodeComplete \<Rightarrow> if ts_Filed j then ''complete'' else ''not filed''
      | TranscodePending \<Rightarrow> ''pending''
      | TranscodeFailed \<Rightarrow> ''failed'')"

text \<open>The line below a footer's keys.\<close>

definition footer_status :: "tui \<Rightarrow> string" where
  "footer_status m =
     (if tm_flash m \<noteq> [] then truncate (tm_flash m) (tm_width m)
      else if tm_lastErr m \<noteq> [] then truncate (tm_lastErr m) (tm_width m)
      else [])"

section \<open>Replies\<close>

text \<open>No request has the number of another, and what is waited for was sent.\<close>

definition sent_ok :: "client \<Rightarrow> bool" where
  "sent_ok c \<longleftrightarrow> distinct (map fst (cl_sent c)) \<and> (\<forall>(i, _) \<in> set (cl_sent c). i \<le> cl_id c)"

definition pending_ok :: "tui \<Rightarrow> bool" where
  "pending_ok m \<longleftrightarrow> (\<forall>i meth. tm_pending m i = Some meth \<longrightarrow> (\<exists>p. (i, meth, p) \<in> set (cl_sent (tm_client m))))"

definition tui_ok :: "tui \<Rightarrow> bool" where
  "tui_ok m \<longleftrightarrow> sent_ok (tm_client m) \<and> pending_ok m \<and> 0 \<le> tm_selected m"

named_theorems tui_ok_intros

lemma Send_sent_ok: "sent_ok c \<Longrightarrow> sent_ok (snd (Send werr meth p c))"
  by (fastforce simp: Send_def sent_ok_def Let_def split: option.splits)

lemma Send_keeps_sent: "set (cl_sent c) \<subseteq> set (cl_sent (snd (Send werr meth p c)))"
  by (auto simp: Send_def Let_def split: option.splits)

lemma Send_number: "Send werr meth p c = (Inr i, c') \<Longrightarrow> (i, meth, p) \<in> set (cl_sent c')"
  by (auto simp: Send_def Let_def split: option.splits if_splits)

lemma tui_ok_cong:
  assumes "tui_ok m" "sent_ok (tm_client m')" "set (cl_sent (tm_client m)) \<subseteq> set (cl_sent (tm_client m'))"
    "tm_pending m' \<subseteq>\<^sub>m tm_pending m" "0 \<le> tm_selected m'"
  shows "tui_ok m'"
  unfolding tui_ok_def pending_ok_def
proof (intro conjI allI impI)
  fix i meth
  assume "tm_pending m' i = Some meth"
  then have "tm_pending m i = Some meth" using assms(4) by (auto simp: map_le_def dom_def)
  then show "\<exists>p. (i, meth, p) \<in> set (cl_sent (tm_client m'))" using assms(1,3) unfolding tui_ok_def pending_ok_def by blast
qed (use assms in simp_all)

lemma tui_ok_fields [tui_ok_intros]:
  assumes "tui_ok m" "tm_client m' = tm_client m" "tm_pending m' = tm_pending m" "0 \<le> tm_selected m'"
  shows "tui_ok m'"
  using assms by (intro tui_ok_cong [OF assms(1)]) (simp_all add: tui_ok_def)

lemma tui_request_ok [tui_ok_intros]:
  assumes "tui_ok m"
  shows "tui_ok (tui_request werr meth p m)"
proof (cases "Send werr meth p (tm_client m)")
  case (Pair r c)
  have c: "sent_ok c" "set (cl_sent (tm_client m)) \<subseteq> set (cl_sent c)"
    using Send_sent_ok [of "tm_client m" werr meth p] Send_keeps_sent [of "tm_client m" werr meth p] assms Pair
    by (simp_all add: tui_ok_def)
  show ?thesis
  proof (cases r)
    case (Inl e)
    then show ?thesis using assms c Pair by (intro tui_ok_cong [OF assms]) (auto simp: tui_request_def flash_def tui_ok_def)
  next
    case (Inr i)
    then show ?thesis using assms c Pair Send_number [of werr meth p "tm_client m" i c]
      by (simp add: tui_request_def tui_ok_def pending_ok_def) (meson subsetD)
  qed
qed

lemma tui_ok_if [tui_ok_intros]: "(b \<Longrightarrow> tui_ok x) \<Longrightarrow> (\<not> b \<Longrightarrow> tui_ok y) \<Longrightarrow> tui_ok (if b then x else y)"
  by simp

lemma on_current_ok [tui_ok_intros]: "tui_ok m \<Longrightarrow> (\<And>d. tui_ok (f d)) \<Longrightarrow> tui_ok (on_current m f)"
  by (auto simp: on_current_def split: option.splits)

lemma tui_ok_view [tui_ok_intros]: "tui_ok m \<Longrightarrow> tui_ok (m\<lparr>tm_view := v\<rparr>)"
  by (simp add: tui_ok_def pending_ok_def)

lemma tui_ok_selected [tui_ok_intros]: "tui_ok m \<Longrightarrow> 0 \<le> i \<Longrightarrow> tui_ok (m\<lparr>tm_selected := i\<rparr>)"
  by (simp add: tui_ok_def pending_ok_def)

lemma flash_ok [tui_ok_intros]: "tui_ok m \<Longrightarrow> tui_ok (flash t e m)"
  by (simp add: flash_def tui_ok_def pending_ok_def)

lemma tui_ok_closed: "tui_ok m \<Longrightarrow> tui_ok (m\<lparr>tm_quitting := True, tm_client := Close (tm_client m)\<rparr>)"
  by (simp add: Close_def tui_ok_def pending_ok_def sent_ok_def)

lemma handleKey_ok:
  assumes "tui_ok m"
  shows "tui_ok (handleKey werr key m)"
proof -
  have "0 \<le> tm_selected m" using assms by (simp add: tui_ok_def)
  then show ?thesis using assms unfolding handleKey_def Let_def
    by (intro tui_ok_if tui_ok_closed tui_request_ok on_current_ok tui_ok_view tui_ok_selected flash_ok)
       (auto split: option.splits prod.splits intro: tui_ok_intros)
qed

lemma applyStatus_ok: "tui_ok m \<Longrightarrow> tui_ok (applyStatus dc raw m)"
  by (auto simp: applyStatus_def Let_def tui_ok_def pending_ok_def split: sum.splits)

lemma fold_flash_frame:
  "tm_client (fold (\<lambda>(k, v). flash (k @ CHR '' '' # v) False) a m) = tm_client m"
  "tm_pending (fold (\<lambda>(k, v). flash (k @ CHR '' '' # v) False) a m) = tm_pending m"
  "tm_selected (fold (\<lambda>(k, v). flash (k @ CHR '' '' # v) False) a m) = tm_selected m"
  by (induction a arbitrary: m) (auto simp: flash_def)

lemma applyResult_ok: "tui_ok m \<Longrightarrow> tui_ok (applyResult dc meth raw m)"
  unfolding applyResult_def
  by (intro tui_ok_if) (auto simp: Let_def tui_ok_def pending_ok_def flash_def fold_flash_frame split: sum.splits)

lemma handleDaemon_ok: "tui_ok m \<Longrightarrow> tui_ok (handleDaemon dc msg m)"
proof -
  assume m: "tui_ok m"
  then have "tui_ok (m\<lparr>tm_pending := (tm_pending m)(i := None)\<rparr>)"
    "tui_ok (m\<lparr>tm_connected := c, tm_lastErr := e\<rparr>)" "tui_ok (m\<lparr>tm_connected := c\<rparr>)" "tui_ok (m\<lparr>tm_lastErr := e\<rparr>)" for i c e
    by (auto simp: tui_ok_def pending_ok_def)
  with m show ?thesis unfolding handleDaemon_def Let_def
    by (auto split: client_message.splits option.splits intro!: applyResult_ok applyStatus_ok flash_ok tui_ok_if)
qed

lemma Run_connected_ok: "tui_ok m \<Longrightarrow> tui_ok (m\<lparr>tm_client := Run_connected werr (tm_client m)\<rparr>)"
proof -
  assume m: "tui_ok m"
  then have "sent_ok ((tm_client m)\<lparr>cl_connected := True\<rparr>)" by (simp add: tui_ok_def sent_ok_def)
  then show ?thesis using m Send_sent_ok Send_keeps_sent [of "(tm_client m)\<lparr>cl_connected := True\<rparr>"]
    by (intro tui_ok_cong [OF m]) (simp_all add: Run_connected_def tui_ok_def)
qed

lemma Run_lost_ok: "tui_ok m \<Longrightarrow> tui_ok (m\<lparr>tm_client := Run_lost (tm_client m)\<rparr>)"
  by (auto simp: Run_lost_def tui_ok_def pending_ok_def sent_ok_def)

lemma tui_ok_size: "tui_ok m \<Longrightarrow> tui_ok (m\<lparr>tm_width := w, tm_height := h\<rparr>)"
  by (simp add: tui_ok_def pending_ok_def)

lemma Update_ok: "tui_ok m \<Longrightarrow> tui_ok (Update dc ev m)"
  by (cases ev) (simp_all add: handleKey_ok handleDaemon_ok Run_connected_ok Run_lost_ok tui_ok_size)

lemma tui_run_ok: "tui_ok m \<Longrightarrow> tui_ok (tui_run dc es m)"
  unfolding tui_run_def by (induction es arbitrary: m) (auto intro: Update_ok)

definition fresh_client :: client where
  "fresh_client = \<lparr>cl_connected = False, cl_closed = False, cl_id = 0, cl_sent = []\<rparr>"

lemma New_ok: "tui_ok (New fresh_client)"
  by (simp add: tui_ok_def New_def pending_ok_def sent_ok_def fresh_client_def)

text \<open>C29. However keys, messages, connections and losses interleave, a reply is read as the type of what was asked: the
  reply to a request that is still waited for is decoded for the method the request with that number was sent with,
  whatever else the reply would decode as.\<close>

theorem reply_is_read_as_asked:
  fixes dc :: "'raw decoders"
  assumes "m = tui_run dc es (New fresh_client)" "(i, meth, p) \<in> set (cl_sent (tm_client m))"
    "tm_pending m i \<noteq> None" "\<not> tm_quitting m"
  shows "handleDaemon dc (ResponseMsg i True err (Some raw)) m
           = applyResult dc meth raw (m\<lparr>tm_pending := (tm_pending m)(i := None)\<rparr>)"
proof -
  obtain x where x: "tm_pending m i = Some x" using assms(3) by blast
  have ok: "tui_ok m" unfolding assms(1) by (intro tui_run_ok New_ok)
  then obtain q where "(i, x, q) \<in> set (cl_sent (tm_client m))" using x unfolding tui_ok_def pending_ok_def by blast
  moreover have "distinct (map fst (cl_sent (tm_client m)))" using ok by (simp add: tui_ok_def sent_ok_def)
  ultimately have "(x, q) = (meth, p)" using assms(2) by (metis Some_eq_map_of_iff option.inject)
  then show ?thesis using x assms(4) by (simp add: handleDaemon_def Let_def)
qed

definition sample_decoders :: "unit decoders" where
  "sample_decoders = \<lparr>dc_jobs = \<lambda>_. Inr [], dc_events = \<lambda>_. Inr [], dc_failures = \<lambda>_. Inr [], dc_queue = \<lambda>_. Inr [],
     dc_ack = \<lambda>_. Inl ''no object'', dc_status = \<lambda>_. Inl ''no object'', dc_drive = \<lambda>_. Inl ''no object''\<rparr>"

definition asked_history :: tui where
  "asked_history = tui_run sample_decoders [Dialled None, Key None ''h''] (New fresh_client)"

lemma asked_history_sent:
  "cl_sent (tm_client asked_history) = [(1, ''subscribe'', NoParams), (2, ''history'', LimitParams 50)]"
  "tm_pending asked_history 2 = Some ''history''" "\<not> tm_quitting asked_history"
  by (simp_all add: asked_history_def tui_run_def New_def fresh_client_def Run_connected_def Send_def handleKey_def tui_request_def)

theorem reply_is_read_as_asked_witness:
  "handleDaemon sample_decoders (ResponseMsg 2 True [] (Some ())) asked_history
     = applyResult sample_decoders ''history'' () (asked_history\<lparr>tm_pending := (tm_pending asked_history)(2 := None)\<rparr>)"
  by (rule reply_is_read_as_asked [where es = "[Dialled None, Key None ''h'']" and p = "LimitParams 50"])
     (simp_all add: asked_history_sent, simp add: asked_history_def)

section \<open>Forgetting a disc\<close>

text \<open>What \<^verbatim>\<open>f\<close> sends is one request to forget the disc of the selected drive, and only while that drive is not working
  on it.\<close>

theorem f_forgets_an_idle_disc:
  assumes "cl_sent (tm_client (handleKey werr ''f'' m)) \<noteq> cl_sent (tm_client m)"
  shows "\<exists>d. current m = Some d \<and> sp_Fingerprint (td_Snap d) \<noteq> [] \<and> \<not> Busy (sp_State (td_Snap d)) \<and>
           cl_sent (tm_client (handleKey werr ''f'' m))
             = cl_sent (tm_client m) @ [(cl_id (tm_client m) + 1, ''forget'', FingerprintParams (sp_Fingerprint (td_Snap d)))]"
  using assms
  by (auto simp: handleKey_def forgetTarget_def tui_request_def Send_def flash_def Let_def
      split: option.splits if_splits)

section \<open>The selection\<close>

text \<open>A status moves the selection of the queue: it is held to the number of drives in every view.\<close>

theorem status_moves_the_queue_selection:
  fixes dc :: "'raw decoders"
  assumes "dc_status dc raw = Inr (s, ds)" "tm_view m = ViewQueue" "int (length ds) \<le> tm_selected m" "0 < tm_selected m"
  shows "tm_selected (applyStatus dc raw m) < tm_selected m"
proof -
  have "length (List.map_filter (\<lambda>d. case dc_drive dc d of Inl e \<Rightarrow> None | Inr x \<Rightarrow> Some x) ds) \<le> length ds"
    by (simp add: List.map_filter_def)
  then show ?thesis using assms by (simp add: applyStatus_def Let_def)
qed

text \<open>The wait between two attempts grows past its bound of five seconds.\<close>

lemma backoff_passes_its_bound: "(next_backoff ^^ 5) 250 = 8000"
  by (simp add: next_backoff_def numeral_eq_Suc)

section \<open>Width\<close>

text \<open>What is cut to a width has at most that many characters.\<close>

theorem truncate_fits: "int (length (runes (truncate s n))) \<le> max 0 n"
proof (cases "n \<le> 0 \<or> int (length (runes s)) \<le> n")
  case True
  then show ?thesis by (auto simp: truncate_def Let_def runes.simps [of "[]"])
next
  case False
  have e: "ELLIPSIS = concat (map encode_rune [0x2026])" "valid_rune 0x2026"
    by (simp_all add: ELLIPSIS_def encode_rune_def valid_rune_def between_def trans [OF eq_commute char_of_eq_iff])
  have "runes (concat (map encode_rune (take k (runes s)))) = take k (runes s)" for k
    by (rule runes_encode) (meson in_set_takeD runes_valid)
  moreover have "runes (concat (map encode_rune (take k (runes s))) @ ELLIPSIS) = take k (runes s) @ [0x2026]" for k
    using runes_encode [of "take k (runes s) @ [0x2026]"] e by (auto dest: in_set_takeD runes_valid)
  ultimately show ?thesis using False by (auto simp: truncate_def Let_def)
qed

lemma sum_length_filter:
  "finite A \<Longrightarrow> f ` set xs \<subseteq> A \<Longrightarrow> (\<Sum>k \<in> A. length (filter (\<lambda>x. f x = k) xs)) = length xs"
proof (induction xs)
  case (Cons x xs)
  have "length (filter (\<lambda>y. f y = k) (x # xs)) = (if k = f x then 1 else 0) + length (filter (\<lambda>y. f y = k) xs)" for k by simp
  then show ?case using Cons by (simp only: sum.distrib) simp
qed simp

text \<open>The groups of failures are all of the failures: every failure is of a group, no group is shown twice, and the
  counts add up to the number of failures.\<close>

theorem failure_kinds_count_everything:
  "set (failure_kinds fs) = f_Kind ` set fs" "distinct (failure_kinds fs)"
  "(\<Sum>k \<leftarrow> failure_kinds fs. kind_count fs k) = length fs"
proof -
  show s: "set (failure_kinds fs) = f_Kind ` set fs" and d: "distinct (failure_kinds fs)" by (simp_all add: failure_kinds_def)
  have "(\<Sum>k \<leftarrow> failure_kinds fs. kind_count fs k) = (\<Sum>k \<in> f_Kind ` set fs. kind_count fs k)"
    using s d by (simp add: sum_list_distinct_conv_sum_set)
  also have "\<dots> = length fs" unfolding kind_count_def by (intro sum_length_filter) simp_all
  finally show "(\<Sum>k \<leftarrow> failure_kinds fs. kind_count fs k) = length fs" .
qed

end
