(* ===== verification/View.thy ===== *)
theory View
  imports Tui
begin

text \<open>
  \<^verbatim>\<open>internal/tui/view.go\<close>: the whole screen of the terminal client. What the terminal library does is an argument: how it
  renders a text in a style and how wide it says a string is. So are the texts of times and what the floating-point
  fractions come to on screen: the filled cells of a progress bar and a percentage.

  A line is a list of pieces, plain or in a style. The lemmas show which lines fit the screen whatever the styles, and that
  a line of the queue, which is cut after it was styled, loses what it should show.
\<close>

section \<open>Pieces\<close>

datatype style = StDim | StHead | StLabel | StOK | StWarn | StErr | StBar | StSel | StBanner | StBannerW

datatype piece = Plain string | Styled style string

type_synonym render = "style \<Rightarrow> string \<Rightarrow> string"

fun paint_one :: "render \<Rightarrow> piece \<Rightarrow> string" where
  "paint_one r (Plain s) = s"
| "paint_one r (Styled st s) = r st s"

definition paint :: "render \<Rightarrow> piece list \<Rightarrow> string" where
  "paint r ps = concat (map (paint_one r) ps)"

text \<open>The text without its styles.\<close>

definition text_of :: "piece list \<Rightarrow> string" where
  "text_of = paint (\<lambda>st s. s)"

definition NLINE :: string where
  "NLINE = [CHR 0x0A]"

definition CELL_FULL :: string where
  "CELL_FULL = [CHR 0xE2, CHR 0x96, CHR 0x88]"

definition CELL_LIGHT :: string where
  "CELL_LIGHT = [CHR 0xE2, CHR 0x96, CHR 0x91]"

definition SELECTED :: string where
  "SELECTED = [CHR 0xE2, CHR 0x96, CHR 0xB8] @ '' ''"

record meter =
  mt_cells :: nat
  mt_percent :: string

record display =
  dy_render :: render
  dy_cols :: "string \<Rightarrow> int"
  dy_when :: "int \<Rightarrow> string"
  dy_clock :: "int \<Rightarrow> string"
  dy_drive :: "tui_drive \<Rightarrow> meter"
  dy_eta :: "tui_drive \<Rightarrow> int"
  dy_encode :: meter
  dy_speed :: "string option"
  dy_version :: string

section \<open>Drives\<close>

fun state_name :: "drive_state \<Rightarrow> string" where
  "state_name StateAbsent = ''absent''"
| "state_name StateEmpty = ''empty''"
| "state_name StateTrayOpen = ''tray_open''"
| "state_name StateLoading = ''loading''"
| "state_name StateIncompatible = ''incompatible''"
| "state_name StateQueued = ''queued''"
| "state_name StateScanning = ''scanning''"
| "state_name StateDecrypting = ''decrypting''"
| "state_name StateRipping = ''ripping''"
| "state_name StateVerifying = ''verifying''"
| "state_name StateComplete = ''complete''"
| "state_name StateDuplicate = ''duplicate''"
| "state_name StateFailed = ''failed''"
| "state_name StateCancelled = ''cancelled''"
| "state_name StateEjecting = ''ejecting''"

definition stateStyle :: "drive_state \<Rightarrow> style" where
  "stateStyle s =
     (if s = StateComplete \<or> s = StateDuplicate then StOK
      else if s = StateFailed \<or> s = StateAbsent then StErr
      else if s = StateIncompatible then StWarn
      else if s = StateRipping \<or> s = StateScanning \<or> s = StateVerifying then StBar
      else StDim)"

definition progressBar :: "nat \<Rightarrow> nat \<Rightarrow> piece list" where
  "progressBar filled width =
     [Styled StBar (''['' @ concat (replicate filled CELL_FULL)), Styled StDim (concat (replicate (width - filled) CELL_LIGHT)), Styled StBar '']'']"

definition busy_detail :: "drive_snapshot \<Rightarrow> string" where
  "busy_detail d =
     (if sp_TitleCount d > 0 \<and> sp_CurrentTitle d \<ge> 0
      then ''title '' @ int_str (sp_TitlesDone d + 1) @ '' of '' @ int_str (sp_TitleCount d) else sp_Operation d)"

definition drivePanel :: "display \<Rightarrow> tui \<Rightarrow> tui_drive \<Rightarrow> bool \<Rightarrow> piece list" where
  "drivePanel dy m d selected =
     (let sn = td_Snap d; label = pad (td_Label d) 8; st = sp_State sn;
          shown = Tui.truncate (if sp_DiscLabel sn = [] then discPlaceholder st else sp_DiscLabel sn) (max 10 (tm_width m - 26))
      in (if selected then [Styled StSel SELECTED, Styled StSel label] else [Plain ''  '', Styled StLabel label])
         @ [Plain '' '', Styled StDim (pad (td_DevicePath d) 10), Plain ''  '',
            if sp_DiscLabel sn = [] then Styled StDim shown else Plain shown, Plain NLINE,
            Plain ''     '', Styled (stateStyle st) (pad (ToUpper (state_name st)) 13), Plain ''  '']
         @ (if st = StateDecrypting \<or> st = StateRipping \<or> st = StateVerifying then
              [Plain (pad (busy_detail sn) 18)] @ progressBar (mt_cells (dy_drive dy d)) 20 @ [Plain ('' '' @ mt_percent (dy_drive dy d))]
              @ (if dy_eta dy d > 0 then [Styled StDim (''   ~'' @ shortDuration (dy_eta dy d) @ '' left'')] else [])
            else if sp_Error sn \<noteq> [] then [Styled StErr (Tui.truncate (sp_Error sn) (max 20 (tm_width m - 30)))]
            else [Styled StDim (stateHint st)])
         @ [Plain NLINE])"

definition drivesView :: "display \<Rightarrow> tui \<Rightarrow> piece list" where
  "drivesView dy m =
     (if \<not> tm_haveAny m then [Styled StDim (NLINE @ ''  connecting to hellboxd'' @ ELLIPSIS @ NLINE)]
      else if tm_drives m = [] then [Styled StWarn (NLINE @ ''  no optical drives detected'' @ NLINE)]
      else [Plain NLINE] @ concat (map (\<lambda>(i, d). drivePanel dy m d (int i = tm_selected m) @ [Plain NLINE]) (enumerate 0 (tm_drives m))))"

section \<open>Header, banner, transcodes\<close>

definition header :: "display \<Rightarrow> tui \<Rightarrow> piece list" where
  "header dy m =
     (let left = Styled StHead (''hellbox '' @ dy_version dy);
          right = Styled (if tm_connected m then StDim else StErr) (header_right m);
          gap = tm_width m - dy_cols dy (paint_one (dy_render dy) left) - dy_cols dy (paint_one (dy_render dy) right)
      in [left, Plain (replicate (nat (if gap < 1 then 1 else gap)) (CHR '' '')), right, Plain NLINE])"

definition banner :: "tui \<Rightarrow> piece list" where
  "banner m =
     (let hs = filter (\<lambda>h. \<not> hl_OK h) (case tm_status m of None \<Rightarrow> [] | Some s \<Rightarrow> ds_Health s);
          lines = map2 (\<lambda>h t. Styled (if hl_Fatal h then StBanner else StBannerW) t) hs (banner_lines hs)
      in if lines = [] then [] else tl (concat (map (\<lambda>l. [Plain NLINE, l]) lines)) @ [Plain (NLINE @ NLINE)])"

definition transcode_parts :: "display \<Rightarrow> transcode_snapshot \<Rightarrow> piece list list" where
  "transcode_parts dy t =
     (if sn_Running t then
        [[Plain (''transcoding '' @ sn_Disc t @ '' title '' @ int_str (sn_TitleIndex t) @ ''  '')]
         @ progressBar (mt_cells (dy_encode dy)) 20 @ [Plain ('' '' @ mt_percent (dy_encode dy))]
         @ (case dy_speed dy of None \<Rightarrow> [] | Some x \<Rightarrow> [Plain (''  '' @ x @ ''x '' @ (if sn_Hardware t then ''gpu'' else ''sw''))])]
      else [])
     @ (if sn_Pending t > 0 then [[Plain (nat_str (sn_Pending t) @ '' queued'')]] else [])
     @ (if sn_Failed t > 0 then [[Styled StErr (nat_str (sn_Failed t) @ '' failed'')]] else [])"

definition transcodeLine :: "display \<Rightarrow> tui \<Rightarrow> piece list" where
  "transcodeLine dy m =
     (case tm_status m of
        None \<Rightarrow> []
      | Some s \<Rightarrow>
          (let ps = transcode_parts dy (ds_Transcode s)
           in if ps = [] then []
              else [Plain NLINE, Styled StDim ''  ''] @ tl (concat (map (\<lambda>p. Styled StDim ('' '' @ MIDDOT @ '' '') # p) ps)) @ [Plain NLINE]))"

section \<open>History and log\<close>

fun job_state_name :: "job_state \<Rightarrow> string" where
  "job_state_name JobPending = ''pending''"
| "job_state_name JobScanning = ''scanning''"
| "job_state_name JobRipping = ''ripping''"
| "job_state_name JobVerifying = ''verifying''"
| "job_state_name JobComplete = ''complete''"
| "job_state_name JobFailed = ''failed''"
| "job_state_name JobDuplicate = ''duplicate''"
| "job_state_name JobCancelled = ''cancelled''"

definition jobStateStyle :: "job_state \<Rightarrow> style" where
  "jobStateStyle s = (if s = JobComplete then StOK else if s = JobFailed \<or> s = JobCancelled then StErr else StDim)"

definition unlabelled :: "string \<Rightarrow> string \<Rightarrow> string" where
  "unlabelled label fp = (if label = [] then ''unlabelled '' @ shortFingerprint fp else label)"

definition history_row :: "display \<Rightarrow> tui \<Rightarrow> job_summary \<Rightarrow> piece list" where
  "history_row dy m j =
     (let label = Tui.truncate (unlabelled (js_VolumeLabel j) (js_Fingerprint j)) (max 10 (tm_width m - 46))
            @ (if js_TitlesTotal j > 0 then ''  ('' @ int_str (js_TitlesDone j) @ ''/'' @ int_str (js_TitlesTotal j) @ '' titles)'' else [])
      in [Plain ''   '', Styled StDim (dy_when dy (js_CreatedAt j)), Plain ''  '',
          Styled (jobStateStyle (js_State j)) (pad (job_state_name (js_State j)) 10),
          Plain ('' '' @ pad (js_DriveLabel j) 8 @ ''  '' @ label @ NLINE)]
         @ (if js_Error j \<noteq> [] then
              [Plain ''         '', Styled StErr (Tui.truncate (js_Error j) (max 10 (tm_width m - 10))), Plain NLINE]
            else []))"

text \<open>The loop stops when what has been written has more lines than there is room for.\<close>

fun history_rows :: "display \<Rightarrow> tui \<Rightarrow> job_summary list \<Rightarrow> piece list \<Rightarrow> piece list" where
  "history_rows dy m [] acc = acc"
| "history_rows dy m (j # js) acc =
     (let b = paint (dy_render dy) acc
      in if b \<noteq> [] \<and> int (length (filter (\<lambda>c. c = CHR 0x0A) b)) > tm_height m - 8 then acc
         else history_rows dy m js (acc @ history_row dy m j))"

definition historyView :: "display \<Rightarrow> tui \<Rightarrow> piece list" where
  "historyView dy m =
     (if tm_jobs m = [] then [Styled StDim (NLINE @ ''  no jobs yet'' @ NLINE)]
      else history_rows dy m (tm_jobs m) [Plain NLINE, Styled StHead ''  history'', Plain NLINE])"

definition level_style :: "string \<Rightarrow> style" where
  "level_style l = (if l = ''warn'' then StWarn else if l = ''error'' then StErr else StDim)"

definition log_row :: "display \<Rightarrow> tui \<Rightarrow> event_row \<Rightarrow> piece list" where
  "log_row dy m e =
     [Plain ''   '', Styled StDim (dy_clock dy (e_ts e)), Plain ''  '', Styled (level_style (e_level e)) (pad (e_level e) 5),
      Plain ('' '' @ Tui.truncate (e_message e) (max 10 (tm_width m - 22)))]"

definition logView :: "display \<Rightarrow> tui \<Rightarrow> piece list" where
  "logView dy m =
     (if tm_events m = [] then [Styled StDim (NLINE @ ''  nothing logged yet'' @ NLINE)]
      else [Plain NLINE, Styled StHead ''  log'', Plain NLINE] @ concat (map (\<lambda>e. log_row dy m e @ [Plain NLINE]) (shown_events m)))"

section \<open>Failures and the queue\<close>

definition kind_line :: "tui \<Rightarrow> failure_kind \<Rightarrow> piece list" where
  "kind_line m k =
     [Plain ''   '', Styled (if k = FailureCancelled then StDim else StErr) (pad (kind_text k) 15),
      Plain ('' '' @ pad (nat_str (kind_count (tm_failures m) k)) 16 @ '' '' @ kind_advice (tm_failures m) k)]"

definition failure_line :: "display \<Rightarrow> failure \<Rightarrow> string" where
  "failure_line dy f =
     ''   '' @ dy_when dy (f_When f) @ ''  '' @ pad (kind_text (f_Kind f)) 15 @ '' ''
     @ pad (Tui.truncate (unlabelled (f_VolumeLabel f) (f_Fingerprint f)) 20) 20 @ '' '' @ f_Error f"

fun failure_rows :: "display \<Rightarrow> tui \<Rightarrow> nat \<Rightarrow> failure list \<Rightarrow> piece list" where
  "failure_rows dy m i [] = []"
| "failure_rows dy m i (f # fs) =
     (if int i > tm_height m - 14 then
        [Styled StDim (''   '' @ ELLIPSIS @ '' and '' @ nat_str (length (tm_failures m) - i) @ '' more'' @ NLINE)]
      else [Styled StDim (Tui.truncate (failure_line dy f) (tm_width m)), Plain NLINE] @ failure_rows dy m (Suc i) fs)"

text \<open>A line of the summary is styled first and cut then.\<close>

definition failuresView :: "display \<Rightarrow> tui \<Rightarrow> piece list" where
  "failuresView dy m =
     (if tm_failures m = [] then [Plain NLINE, Styled StDim ''  nothing has failed'', Plain NLINE]
      else [Plain NLINE, Styled StHead ''  failures'', Plain NLINE]
           @ concat (map (\<lambda>k. [Plain (Tui.truncate (paint (dy_render dy) (kind_line m k)) (tm_width m)), Plain NLINE]) (failure_kinds (tm_failures m)))
           @ [Plain NLINE] @ failure_rows dy m 0 (tm_failures m))"

definition queue_style :: "transcode_summary \<Rightarrow> style" where
  "queue_style j =
     (case ts_State j of
        TranscodeRunning \<Rightarrow> StBar
      | TranscodePending \<Rightarrow> StWarn
      | TranscodeFailed \<Rightarrow> StErr
      | TranscodeComplete \<Rightarrow> if ts_Filed j then StOK else StWarn)"

text \<open>\<^verbatim>\<open>%10s\<close>.\<close>

definition right_10 :: "string \<Rightarrow> string" where
  "right_10 s = replicate (10 - length (runes s)) (CHR '' '') @ s"

definition encode_running :: "tui \<Rightarrow> bool" where
  "encode_running m = (case tm_status m of None \<Rightarrow> False | Some s \<Rightarrow> sn_Running (ds_Transcode s))"

definition queue_line :: "display \<Rightarrow> tui \<Rightarrow> bool \<Rightarrow> transcode_summary \<Rightarrow> piece list" where
  "queue_line dy m selected j =
     [if selected then Styled StSel SELECTED else Plain ''  '',
      Plain (pad (Tui.truncate (ts_Disc j) 22) 22 @ '' t'' @ int_str02 (ts_TitleIndex j) @ ''  ''),
      Styled (queue_style j) (pad (queue_state (mt_percent (dy_encode dy)) (encode_running m) j) 14),
      Plain ('' '' @ right_10 (if ts_SizeBytes j > 0 then humanBytes (ts_SizeBytes j) else []))]"

definition queue_rows :: "display \<Rightarrow> tui \<Rightarrow> nat \<times> transcode_summary \<Rightarrow> piece list" where
  "queue_rows dy m ij =
     (let selected = (int (fst ij) = tm_selected m); j = snd ij
      in [Plain (Tui.truncate (paint (dy_render dy) (queue_line dy m selected j)) (tm_width m)), Plain NLINE]
         @ (if ts_Error j \<noteq> [] \<and> selected then [Styled StDim (Tui.truncate (''      '' @ ts_Error j) (tm_width m)), Plain NLINE] else []))"

definition queueView :: "display \<Rightarrow> tui \<Rightarrow> piece list" where
  "queueView dy m =
     (if tm_queue m = [] then [Plain NLINE, Styled StDim ''  the transcode queue is empty'', Plain NLINE]
      else [Plain NLINE] @ concat (map (queue_rows dy m) (enumerate 0 (tm_queue m))))"

section \<open>The screen\<close>

definition footer_keys :: "tui \<Rightarrow> string" where
  "footer_keys m =
     (let dot = '' '' @ MIDDOT @ '' ''
      in if tm_view m = ViewQueue
         then ''d drives'' @ dot @ ''t queue'' @ dot @ [CHR 0xE2, CHR 0x86, CHR 0x91, CHR 0xE2, CHR 0x86, CHR 0x93] @ '' select'' @ dot
              @ ''c cancel running'' @ dot @ ''r retry'' @ dot @ ''q quit''
         else ''d drives'' @ dot @ ''h history'' @ dot @ ''l log'' @ dot @ ''t queue'' @ dot @ ''x failures'' @ dot @ ''e eject'' @ dot
              @ ''c cancel'' @ dot @ ''r retry'' @ dot @ ''f forget'' @ dot @ ''T re-encode'' @ dot @ ''q quit'')"

definition footer :: "display \<Rightarrow> tui \<Rightarrow> piece list" where
  "footer dy m =
     (let st = (if tm_flash m \<noteq> [] then if tm_flashErr m then StErr else StOK else StDim);
          status = (if tm_flash m \<noteq> [] \<or> tm_lastErr m \<noteq> [] then [Styled st (footer_status m)] else [])
      in [Styled StDim (Tui.truncate (footer_keys m) (tm_width m))]
         @ (if paint (dy_render dy) status \<noteq> [] then Plain NLINE # status else []))"

definition panel :: "display \<Rightarrow> tui \<Rightarrow> piece list" where
  "panel dy m =
     (case tm_view m of
        ViewHistory \<Rightarrow> historyView dy m
      | ViewLog \<Rightarrow> logView dy m
      | ViewQueue \<Rightarrow> queueView dy m
      | ViewFailures \<Rightarrow> failuresView dy m
      | ViewDrives \<Rightarrow> drivesView dy m)"

definition View :: "display \<Rightarrow> tui \<Rightarrow> string" where
  "View dy m =
     paint (dy_render dy) (header dy m @ [Plain NLINE] @ banner m @ panel dy m @ transcodeLine dy m @ [Plain NLINE] @ footer dy m)"

section \<open>What fits\<close>

definition ascii :: "string \<Rightarrow> bool" where
  "ascii s \<longleftrightarrow> list_all (\<lambda>c. of_char c < (128 :: nat)) s"

lemma runes_ascii_append: "ascii s \<Longrightarrow> runes (s @ t) = map of_char s @ runes t"
proof (induction s)
  case (Cons c s)
  then show ?case by (subst (1) append_Cons, subst runes.simps) (simp add: ascii_def decode_rune_def Let_def)
qed simp

lemma pad_ascii: "ascii s \<Longrightarrow> ascii (pad s n) \<and> int (length (pad s n)) = max (int (length s)) n"
  using runes_ascii [of s] by (auto simp: pad_def ascii_def Let_def list_all_iff)

text \<open>A line of the log fits a screen of 32 columns or more, whatever the message, and there are no more of them than there
  is room for.\<close>

theorem log_fits_the_screen:
  assumes "tm_width m \<ge> 32" "ascii (dy_clock dy (e_ts e))" "length (dy_clock dy (e_ts e)) = 8"
    "ascii (e_level e)" "length (e_level e) \<le> 5"
  shows "int (length (runes (text_of (log_row dy m e)))) \<le> tm_width m \<and> int (length (shown_events m)) \<le> max 1 (tm_height m - 8)"
proof -
  let ?l = "pad (e_level e) 5"
  let ?msg = "Tui.truncate (e_message e) (max 10 (tm_width m - 22))"
  have l: "ascii ?l" "length ?l = 5" using pad_ascii [OF assms(4), of 5] assms(5) by auto
  define pre where "pre = ''   '' @ dy_clock dy (e_ts e) @ ''  '' @ ?l @ '' ''"
  have "ascii pre" using assms(2) l(1) by (simp add: ascii_def pre_def)
  moreover have "text_of (log_row dy m e) = pre @ ?msg" by (simp add: text_of_def paint_def log_row_def pre_def)
  ultimately have "length (runes (text_of (log_row dy m e))) = length pre + length (runes ?msg)" by (simp add: runes_ascii_append)
  moreover have "length pre = 19" using assms(3) l(2) by (simp add: pre_def)
  moreover have "int (length (runes ?msg)) \<le> tm_width m - 22" using truncate_fits [of "e_message e" "max 10 (tm_width m - 22)"] assms(1) by simp
  moreover have "int (length (shown_events m)) \<le> max 1 (tm_height m - 8)" by (auto simp: shown_events_def Let_def)
  ultimately show ?thesis by simp
qed

text \<open>The styles as a terminal of 256 colours gets them.\<close>

fun style_code :: "style \<Rightarrow> string" where
  "style_code StDim = ''38;5;244''"
| "style_code StHead = ''1''"
| "style_code StLabel = ''1;38;5;39''"
| "style_code StOK = ''38;5;42''"
| "style_code StWarn = ''38;5;214''"
| "style_code StErr = ''38;5;203''"
| "style_code StBar = ''38;5;39''"
| "style_code StSel = ''1;38;5;212''"
| "style_code StBanner = ''1;38;5;203''"
| "style_code StBannerW = ''1;38;5;214''"

definition ansi :: render where
  "ansi st s = [CHR 0x1B] @ ''['' @ style_code st @ ''m'' @ s @ [CHR 0x1B] @ ''[0m''"

definition done_job :: transcode_summary where
  "done_job = \<lparr>ts_ID = 1, ts_DiscID = 1, ts_Disc = ''ALIEN'', ts_TitleIndex = 1, ts_State = TranscodeComplete, ts_SizeBytes = 4509715660, ts_Attempt = 1,
     ts_Hardware = True, ts_Error = [], ts_OutputPath = ''/t/alien.mkv'', ts_Filed = True\<rparr>"

definition ansi_display :: display where
  "ansi_display = \<lparr>dy_render = ansi, dy_cols = (\<lambda>s. 0), dy_when = (\<lambda>t. []), dy_clock = (\<lambda>t. []), dy_drive = (\<lambda>d. \<lparr>mt_cells = 0, mt_percent = []\<rparr>),
     dy_eta = (\<lambda>d. 0), dy_encode = \<lparr>mt_cells = 0, mt_percent = []\<rparr>, dy_speed = None, dy_version = []\<rparr>"

text \<open>A text with the mark of the selected row in it, by its characters.\<close>

lemma runes_mark: "runes ([CHR 0xE2, CHR 0x96, CHR 0xB8] @ t) = 0x25B8 # runes t"
  by (subst runes.simps) (simp add: decode_rune_def Let_def between_def)

lemma encode_plain: "ascii s \<Longrightarrow> concat (map encode_rune (map of_char s)) = s"
  by (rule encode_ascii) (simp add: ascii_def)

lemma ascii_take: "ascii s \<Longrightarrow> ascii (take n s)"
  by (auto simp: ascii_def list_all_iff dest: in_set_takeD)

lemma encode_mark: "encode_rune 0x25B8 = [CHR 0xE2, CHR 0x96, CHR 0xB8]"
  by (simp add: encode_rune_def char_of_eq_iff)

lemma truncate_marked:
  assumes "ascii a" "ascii b" "1 < n" "nat n \<le> length a + length b" "length a + 2 \<le> nat n"
  shows "Tui.truncate (a @ [CHR 0xE2, CHR 0x96, CHR 0xB8] @ b) n =
    a @ [CHR 0xE2, CHR 0x96, CHR 0xB8] @ take (nat n - 2 - length a) b @ ELLIPSIS"
proof -
  have r: "runes (a @ [CHR 0xE2, CHR 0x96, CHR 0xB8] @ b) = map of_char a @ [0x25B8] @ map of_char b"
    using assms(1,2) runes_ascii [of b] by (simp add: runes_ascii_append runes_mark [simplified] ascii_def)
  define k where "k = nat n - 2 - length a"
  have "take (nat n - 1) (map of_char a @ [0x25B8] @ map of_char b) = map of_char a @ [0x25B8 :: nat] @ map of_char (take k b)"
    using assms(5) by (simp add: take_map take_Cons' k_def)
  then have "concat (map encode_rune (take (nat n - 1) (runes (a @ [CHR 0xE2, CHR 0x96, CHR 0xB8] @ b)))) = a @ [CHR 0xE2, CHR 0x96, CHR 0xB8] @ take k b"
    unfolding r using encode_plain [OF assms(1)] encode_plain [OF ascii_take [OF assms(2)], of k] by (simp only: map_append concat_append list.map concat.simps encode_mark append_Nil2)
  moreover have "\<not> int (length (runes (a @ [CHR 0xE2, CHR 0x96, CHR 0xB8] @ b))) \<le> n" unfolding r using assms(3,4) by simp
  ultimately show ?thesis using assms(3) unfolding Tui.truncate_def Let_def k_def by simp
qed

text \<open>On the usual screen of 80 columns the selected row of the queue has room for all it says, but the styles' escapes are
  counted when it is cut, and the size is lost.\<close>

theorem queue_row_loses_its_size:
  "let m = New fresh_client; line = queue_line ansi_display m True done_job
   in tm_width m = 80 \<and> length (runes (text_of line)) \<le> 80 \<and> contains (text_of line) ''4.2 GB''
      \<and> \<not> contains (Tui.truncate (paint (dy_render ansi_display) line) (tm_width m)) ''4.2 GB''"
proof -
  let ?m = "New fresh_client"
  let ?line = "queue_line ansi_display ?m True done_job"
  let ?mark = "[CHR 0xE2, CHR 0x96, CHR 0xB8]"
  define a where "a = [CHR 0x1B] @ ''[1;38;5;212m''"
  define b where "b = '' '' @ [CHR 0x1B] @ ''[0m'' @ ''ALIEN                  t01  '' @ [CHR 0x1B] @ ''[38;5;42m'' @ ''complete      '' @ [CHR 0x1B] @ ''[0m'' @ ''     4.2 GB''"
  define t where "t = '' ALIEN                  t01  complete           4.2 GB''"
  have p: "paint (dy_render ansi_display) ?line = a @ ?mark @ b" unfolding a_def b_def by code_simp
  have t: "text_of ?line = ?mark @ t" unfolding t_def by code_simp
  have as: "ascii a" "ascii b" "ascii t" "length a = 13" "length b = 72" "length t = 54" unfolding a_def b_def t_def by code_simp+
  have w: "tm_width ?m = 80" by (simp add: New_def)
  have "length (runes (text_of ?line)) = 55" using as(3,6) runes_ascii [of t] by (simp add: t runes_mark [simplified] ascii_def)
  moreover have "contains (text_of ?line) ''4.2 GB''" unfolding t t_def by code_simp
  moreover have "Tui.truncate (paint (dy_render ansi_display) ?line) 80 = a @ ?mark @ take 65 b @ ELLIPSIS"
    unfolding p using truncate_marked [OF as(1,2), of 80] as(4,5) by simp
  moreover have "\<not> contains (a @ ?mark @ take 65 b @ ELLIPSIS) ''4.2 GB''" unfolding a_def b_def by code_simp
  ultimately show ?thesis using w by (simp add: Let_def)
qed

end
