(* ===== verification/Spec2Isabelle.thy ===== *)
theory Spec2Isabelle
  imports Verify Drive_Io Native Disc_Name Menu_Text Source_Plan Worker_Run Commands View
begin

text \<open>
  hellbox: a headless disc ripper.

  \<^bold>\<open>The program.\<close> A daemon watches optical drives. A drive's monitor notices a disc; the drive's worker scans it with
  MakeMKV, looks it up in a SQLite database by a fingerprint of its titles, and, when it is new and has attempts left,
  rips each title into a directory of its own, checks every file, records it and opens the tray: an open tray means
  the disc is done. A drive that refuses to decrypt a disc is worked around by a decrypted copy on disk; a Blu-ray is
  encoded straight from the drive. Ripped titles go into a queue in the same database, a runner encodes them one by
  one with ffmpeg and files the results into a library by hard links. Clients follow all this over an event stream
  that can be resumed. The rips are the system of record: what is verified here is mostly that nothing is called done,
  reused, replaced or thrown away unless it is whole.

  \<^bold>\<open>The theories, in the order they build on each other.\<close>
  \<^item> \<^verbatim>\<open>Hellbox_Prelude\<close>: what the code uses of Go's \<^verbatim>\<open>strings\<close>, \<^verbatim>\<open>strconv\<close> and \<^verbatim>\<open>fmt\<close>, 64-bit wrap-around, and the shared
    lemmas. \<^verbatim>\<open>Go_Path\<close>: \<^verbatim>\<open>path/filepath\<close>.
  \<^item> \<^verbatim>\<open>Disc\<close> (\<^verbatim>\<open>internal/disc\<close>): discs, titles, streams; the fingerprint, which identifies a disc up to the order of its
    titles; slugs and directory names; failure messages.
  \<^item> \<^verbatim>\<open>Sql_Table\<close>, \<^verbatim>\<open>Store\<close>, \<^verbatim>\<open>Transcode_Store\<close> (\<^verbatim>\<open>internal/store\<close>): the database, a list of rows per table and a
    function per statement, keyed tables and the ledger of attempts as locales interpreted on them; every sequence
    of operations keeps the database well formed, forgetting a disc, restarts and the transcode queue do what they say.
    \<^verbatim>\<open>Store_Open\<close>: opening and migrating the file, which can be interrupted and taken up again.
  \<^item> \<^verbatim>\<open>Library\<close> (\<^verbatim>\<open>internal/library\<close>): film or television, names, the plan and the link; filing stays inside the library
    and replaces nothing. \<^verbatim>\<open>Config\<close> (\<^verbatim>\<open>internal/config\<close>): defaults and validation.
  \<^item> \<^verbatim>\<open>Encoder\<close> (\<^verbatim>\<open>internal/transcode\<close>): which streams are kept, the command line, and that an encode is atomic.
    \<^verbatim>\<open>Transcode_Runner\<close> (\<^verbatim>\<open>internal/daemon/transcode.go\<close>, \<^verbatim>\<open>library.go\<close>): the runner over store and disk; the queue empties
    and filing catches up.
  \<^item> \<^verbatim>\<open>Makemkv\<close>, \<^verbatim>\<open>Makemkv_Key\<close> (\<^verbatim>\<open>internal/makemkv\<close>): robot output, scans, the key's state and its refresh, one title's
    rip, the stall watchdog. \<^verbatim>\<open>Verify\<close> (\<^verbatim>\<open>internal/verify\<close>): what it takes for a title to pass. \<^verbatim>\<open>Decrypt\<close>
    (\<^verbatim>\<open>internal/decrypt\<close>): which copies are reused.
  \<^item> \<^verbatim>\<open>Drive\<close>, \<^verbatim>\<open>Drive_Io\<close> (\<^verbatim>\<open>internal/drive\<close>): the commands sent to a drive and what its answers mean, discovery, and the
    monitor that reports a change only once it has settled. \<^verbatim>\<open>Drive_Status\<close> (\<^verbatim>\<open>internal/daemon/state.go\<close>): the state a
    drive shows.
  \<^item> \<^verbatim>\<open>Worker\<close> (\<^verbatim>\<open>internal/daemon/worker.go\<close>, \<^verbatim>\<open>bluray.go\<close>, \<^verbatim>\<open>verify.go\<close>): everything a worker does about a disc.
    \<^verbatim>\<open>Worker_Rip\<close> gives a run as steps on the store with its elimination rules, \<^verbatim>\<open>Worker_Live\<close> the runs that
    succeed, \<^verbatim>\<open>Worker_Safety\<close> what an open tray and a recorded rip mean, bounds on attempts, and when a drive is
    left busy. \<^verbatim>\<open>Worker_Run\<close>: the channel that feeds it, on which no change is lost, the time a scan takes, and
    \<^verbatim>\<open>disc.json\<close>. \<^verbatim>\<open>Store_Writes\<close>: the contract every part keeps with the database it shares, as a locale.
  \<^item> \<^verbatim>\<open>Dvd\<close>, \<^verbatim>\<open>Ifo\<close>, \<^verbatim>\<open>Native\<close> (\<^verbatim>\<open>internal/dvd\<close>, \<^verbatim>\<open>internal/daemon/native.go\<close>): reading a DVD without MakeMKV. Titles keep the
    number they were described by, the watchdog of an extraction is exact, the Video Manager found on a raw disc is the
    one its text is read from, and a name is given only when it reads like one.
  \<^item> \<^verbatim>\<open>Bluray\<close> (\<^verbatim>\<open>internal/bluray\<close>), \<^verbatim>\<open>Source_Plan\<close> (\<^verbatim>\<open>internal/source\<close>): the titles of a Blu-ray and the path a disc is read by.
    Every playlist that matters is represented, in an order that does not depend on how they are listed.
  \<^item> \<^verbatim>\<open>Identify\<close>, \<^verbatim>\<open>Disc_Name\<close>, \<^verbatim>\<open>Menu_Text\<close> (\<^verbatim>\<open>internal/identify\<close>): what a disc is, from its label, its own name and its menus. No
    proposal is lost or weighed down, a disc's own name goes before its label, and a menu's names are given to titles
    only where there is no doubt.
  \<^item> \<^verbatim>\<open>Hub\<close> (\<^verbatim>\<open>internal/api\<close>): the event ring refines the list of all events; a resumed stream has no gap it does not
    announce.
  \<^item> \<^verbatim>\<open>Daemon\<close> (\<^verbatim>\<open>internal/daemon/daemon.go\<close>): the drives that are watched, the health checks, and the slot that lets one
    drive work at a time, in every interleaving. \<^verbatim>\<open>Server\<close> (\<^verbatim>\<open>internal/daemon/server.go\<close>, \<^verbatim>\<open>http.go\<close>): every request over the
    socket and over HTTP on the whole state, the connections and the subscribers. \<^verbatim>\<open>Routes\<close> (\<^verbatim>\<open>internal/api/server.go\<close>): the
    table of routes; only a \<^verbatim>\<open>POST\<close> acts.
  \<^item> \<^verbatim>\<open>System\<close> (\<^verbatim>\<open>New\<close> and \<^verbatim>\<open>Run\<close> of \<^verbatim>\<open>internal/daemon/daemon.go\<close>): the whole daemon as actions on one state. Whatever happens in
    whatever order, restarts included, the record of what was ripped is kept, and a start picks up the pieces.
    \<^verbatim>\<open>Lifecycle\<close>: its goroutines, the contexts they run on and how they end.
  \<^item> \<^verbatim>\<open>Tools\<close>: the programs that are run, where they are looked for and what they are given. \<^verbatim>\<open>Commands\<close> (\<^verbatim>\<open>cmd\<close>,
    \<^verbatim>\<open>internal/daemon/check.go\<close>, \<^verbatim>\<open>internal/testsource\<close>): hellboxd from its flags to its exit code, slay's socket, the status that is pushed.
  \<^item> \<^verbatim>\<open>Tui\<close> (\<^verbatim>\<open>internal/tui\<close>, \<^verbatim>\<open>internal/client\<close>): the terminal client. \<^verbatim>\<open>View\<close> (\<^verbatim>\<open>internal/tui/view.go\<close>): every view, as
    pieces of text with their styles. This theory puts client and daemon together: what is
    shown is what is stored, and a disc forgotten at the terminal is forgotten in the database.

  \<^bold>\<open>How the code is modelled.\<close> Structs are records, enumerations datatypes, and every operation is an executable
  function that passes its state; errors are values, and an error the code ignores is a branch that leaves the state
  as the code leaves it. What other programs do (makemkvcon, ffmpeg, dvdbackup, the kernel, the drive), and when a
  person or a shutdown interrupts, are arguments: records whose fields say how each call went. Where the machine may
  stop half-way, an operation returns the states of the disk it goes through. SHA-256 is an argument that the
  fingerprint theorem assumes to have no collision among the texts compared. Strings are byte lists and case
  mapping is that of ASCII; the IFO reader and the terminal work on runes, decoded from UTF-8 as Go does, with the Unicode
  tables an argument. Goroutines are actions on one state, or steps of an inductive relation, in every order; what a worker does
  about one event, and the runner about one title, is one action, and the steps inside it are those of \<^verbatim>\<open>Worker_Rip\<close>. Confidences are the \<^verbatim>\<open>float64\<close> values the code adds, as integers scaled by a power of two.

  \<^bold>\<open>Bounds and fuel.\<close> A rip directory has fifty candidate names, as in the code. A scan is tried as often as the
  configuration says. The drain loop of the runner takes fuel, since someone may cancel encodes for ever; one unit per
  waiting title and cancellation is shown to be enough. The ring keeps 4096 events; a client's buffers hold 64 messages. A
  DVD has 99 titles at most and its Video Manager is looked for in the first 4096 sectors. Integers wrap at 64 bits where
  the code adds up sizes and times; the packed keys of a scan hold 16 bits of stream number.

  \<^bold>\<open>Not modelled.\<close> Floating-point progress, speed and estimates, which are only shown, and are arguments of what shows them; the
  JSON, TOML and HTTP that carry modelled values, which are arguments where it matters how a value decodes; what other programs,
  SQLite and the kernel do inside; lipgloss and bubbletea, which render styles and run the terminal's loop; the parsing of
  flags; the file for systems other than Linux (\<^verbatim>\<open>internal/drive/unsupported.go\<close>), which only returns errors; and the web
  application, which is another language.
\<close>

section \<open>The client and the daemon\<close>

text \<open>A request as it arrives: what the client sends is decoded into the parameters of each kind. A field that is not in
  the object is empty or 0, and no parameters at all do not decode.\<close>

fun request_of :: "int \<times> string \<times> params \<Rightarrow> request" where
  "request_of (i, m, NoParams) = \<lparr>rq_ID = i, rq_Method = m, rq_Limit = 0, rq_Drive = [], rq_Fingerprint = None, rq_Job = None\<rparr>"
| "request_of (i, m, LimitParams n) =
     \<lparr>rq_ID = i, rq_Method = m, rq_Limit = n, rq_Drive = [], rq_Fingerprint = Some [], rq_Job = Some 0\<rparr>"
| "request_of (i, m, DriveParams d) =
     \<lparr>rq_ID = i, rq_Method = m, rq_Limit = 0, rq_Drive = d, rq_Fingerprint = Some [], rq_Job = Some 0\<rparr>"
| "request_of (i, m, FingerprintParams f) =
     \<lparr>rq_ID = i, rq_Method = m, rq_Limit = 0, rq_Drive = [], rq_Fingerprint = Some f, rq_Job = Some 0\<rparr>"
| "request_of (i, m, JobParams j) =
     \<lparr>rq_ID = i, rq_Method = m, rq_Limit = 0, rq_Drive = [], rq_Fingerprint = Some [], rq_Job = Some j\<rparr>"

text \<open>A response as it arrives; how a result is written is an argument.\<close>

definition arrives :: "(reply \<Rightarrow> 'raw) \<Rightarrow> response \<Rightarrow> 'raw client_message" where
  "arrives enc r = ResponseMsg (rs_ID r) (rs_OK r) (rs_Error r) (map_option enc (rs_Result r))"

text \<open>A key is pressed, the daemon answers what was sent, and the client reads the answers.\<close>

definition key_answered ::
    "config \<Rightarrow> encoder \<Rightarrow> request_env \<Rightarrow> (reply \<Rightarrow> 'raw) \<Rightarrow> 'raw decoders \<Rightarrow> string \<Rightarrow> tui \<times> server \<Rightarrow> tui \<times> server" where
  "key_answered cfg e env enc dc key st =
     (let m1 = handleKey None key (fst st)
      in fold (\<lambda>x (m, s). let (r, s') = respond cfg e env (request_of x) s in (handleDaemon dc (arrives enc r) m, s'))
           (drop (length (cl_sent (tm_client (fst st)))) (cl_sent (tm_client m1))) (m1, snd st))"

lemma key_answered_one:
  assumes "cl_connected (tm_client m)" "\<not> tm_quitting m" "handleKey None key m = tui_request None meth p m1"
    and "tm_client m1 = tm_client m" "\<not> tm_quitting m1"
    and "handle cfg e env (request_of (cl_id (tm_client m) + 1, meth, p)) s = (Inr v, s')"
  shows "\<exists>m2. tm_pending m2 = (tm_pending m1)(cl_id (tm_client m) + 1 := None) \<and>
    key_answered cfg e env enc dc key (m, s) = (applyResult dc meth (enc v) m2, s') \<and>
    tm_selected m2 = tm_selected m1"
proof -
  let ?i = "cl_id (tm_client m) + 1"
  have i: "rq_ID (request_of (?i, meth, p)) = ?i" by (cases p) simp_all
  let ?m2 = "(tui_request None meth p m1)\<lparr>tm_pending := (tm_pending m1)(?i := None)\<rparr>"
  have "handleDaemon dc (ResponseMsg ?i True [] (Some (enc v))) (tui_request None meth p m1) = applyResult dc meth (enc v) ?m2"
    using assms(1,4,5) by (simp add: handleDaemon_def tui_request_def Send_def Let_def)
  moreover have "drop (length (cl_sent (tm_client m))) (cl_sent (tm_client (tui_request None meth p m1))) = [(?i, meth, p)]"
    using assms(1,4) by (simp add: tui_request_def Send_def Let_def)
  ultimately have "key_answered cfg e env enc dc key (m, s) = (applyResult dc meth (enc v) ?m2, s')"
    using assms(3,6) i by (simp add: key_answered_def respond_def arrives_def)
  then show ?thesis using assms(1,4) by (intro exI [of _ ?m2]) (simp add: tui_request_def Send_def Let_def)
qed

text \<open>C28. What the terminal shows is what the database holds. Pressing the key of a view, with the daemon answering and the
  answer read, puts exactly the store's rows on the screen, and asking changes nothing in the daemon. The hypotheses are
  that the client is connected and that a list that is written is read back.\<close>

theorem views_show_the_store:
  fixes dc :: "'raw decoders"
  assumes "cl_connected (tm_client m)" "\<not> tm_quitting m"
    and "\<forall>xs. dc_jobs dc (enc (ReplyJobs xs)) = Inr xs" "\<forall>xs. dc_events dc (enc (ReplyEvents xs)) = Inr xs"
    and "\<forall>xs. dc_failures dc (enc (ReplyFailures xs)) = Inr xs" "\<forall>xs. dc_queue dc (enc (ReplyQueue xs)) = Inr xs"
  shows "tm_jobs (fst (key_answered cfg e env enc dc ''h'' (m, s))) = RecentJobs 50 (sv_db s) \<and>
    tm_events (fst (key_answered cfg e env enc dc ''l'' (m, s))) = RecentEvents 200 (sv_db s) \<and>
    tm_failures (fst (key_answered cfg e env enc dc ''x'' (m, s))) = Failures 100 (sv_db s) \<and>
    tm_queue (fst (key_answered cfg e env enc dc ''t'' (m, s))) = TranscodeJobs 100 (sv_db s) \<and>
    (\<forall>k. k \<in> {''h'', ''l'', ''x'', ''t''} \<longrightarrow> snd (key_answered cfg e env enc dc k (m, s)) = s)"
proof -
  note one = key_answered_one [OF assms(1,2), where cfg = cfg and e = e and env = env and s = s and enc = enc and dc = dc]
  have "\<exists>m2. key_answered cfg e env enc dc ''h'' (m, s) = (applyResult dc ''history'' (enc (ReplyJobs (RecentJobs 50 (sv_db s)))) m2, s)"
    using one [of "''h''" "''history''" "LimitParams 50" "m\<lparr>tm_view := ViewHistory\<rparr>" "ReplyJobs (RecentJobs 50 (sv_db s))" s] assms(2)
    by (auto simp: handleKey_def handle_def)
  moreover have "\<exists>m2. key_answered cfg e env enc dc ''l'' (m, s) = (applyResult dc ''events'' (enc (ReplyEvents (RecentEvents 200 (sv_db s)))) m2, s)"
    using one [of "''l''" "''events''" "LimitParams 200" "m\<lparr>tm_view := ViewLog\<rparr>" "ReplyEvents (RecentEvents 200 (sv_db s))" s] assms(2)
    by (auto simp: handleKey_def handle_def)
  moreover have "\<exists>m2. key_answered cfg e env enc dc ''x'' (m, s) = (applyResult dc ''failures'' (enc (ReplyFailures (Failures 100 (sv_db s)))) m2, s)"
    using one [of "''x''" "''failures''" "LimitParams 100" "m\<lparr>tm_view := ViewFailures\<rparr>" "ReplyFailures (Failures 100 (sv_db s))" s] assms(2)
    by (auto simp: handleKey_def handle_def)
  moreover have "\<exists>m2. key_answered cfg e env enc dc ''t'' (m, s) = (applyResult dc ''queue'' (enc (ReplyQueue (TranscodeJobs 100 (sv_db s)))) m2, s)"
    using one [of "''t''" "''queue''" "LimitParams 100" "m\<lparr>tm_view := ViewQueue\<rparr>" "ReplyQueue (TranscodeJobs 100 (sv_db s))" s] assms(2)
    by (auto simp: handleKey_def handle_def)
  ultimately show ?thesis using assms(3-6) by (auto simp: applyResult_def Let_def)
qed

text \<open>C27. Forgetting a disc from the terminal. With the selected drive idle and holding a disc the store knows, pressing
  \<^verbatim>\<open>f\<close> ends with that disc found as not ripped and with none of its attempts spent, no other disc's attempts changed, every
  rip, transcode and library link still recorded, and the operator told so.\<close>

theorem forget_key_forgets_the_disc:
  fixes dc :: "'raw decoders"
  assumes "cl_connected (tm_client m)" "\<not> tm_quitting m" "current m = Some d" "\<not> Busy (sp_State (td_Snap d))"
    and "sp_Fingerprint (td_Snap d) = fp" "fp \<noteq> []" "server_ok s" "FindDisc fp (sv_db s) = Some r"
    and "dc_ack dc (enc (ReplyText ''forgot'' fp)) = Inr [(''forgot'', fp)]"
  shows "\<exists>m' s'. key_answered cfg e env enc dc ''f'' (m, s) = (m', s') \<and> server_ok s' \<and> \<not> tm_flashErr m' \<and>
    prefix ''forgotten'' (tm_flash m') \<and> FindDisc fp (sv_db s') = Some (r\<lparr>r_RipDir := []\<rparr>) \<and> AttemptsForDisc (r_ID r) (sv_db s') = 0 \<and>
    (\<forall>k. k \<noteq> r_ID r \<longrightarrow> AttemptsForDisc k (sv_db s') = AttemptsForDisc k (sv_db s)) \<and>
    titles (sv_db s') = titles (sv_db s) \<and> transcodes (sv_db s') = transcodes (sv_db s) \<and>
    links (sv_db s') = links (sv_db s)"
proof -
  obtain db where db: "ForgetDisc fp (sv_db s) = Inr db" "FindDisc fp db = Some (r\<lparr>r_RipDir := []\<rparr>)" "AttemptsForDisc (r_ID r) db = 0"
    "\<forall>k. k \<noteq> r_ID r \<longrightarrow> AttemptsForDisc k db = AttemptsForDisc k (sv_db s)" "db = (sv_db s)\<lparr>discs := discs db\<rparr>"
    by (rule ForgetDisc_known [OF server_ok_store [OF assms(7)] assms(8)])
  let ?s = "log_event (qe_now env) ''info'' (forget_text fp) (s\<lparr>sv_db := db\<rparr>)"
  let ?rq = "request_of (cl_id (tm_client m) + 1, ''forget'', FingerprintParams fp)"
  have h: "handle cfg e env ?rq s = (Inr (ReplyText ''forgot'' fp), ?s)"
    using db(1) assms(6) by (simp add: handle_def forget_def)
  have k: "handleKey None ''f'' m = tui_request None ''forget'' (FingerprintParams fp) m"
    using assms(3-6) by (simp add: handleKey_def forgetTarget_def)
  obtain m2 where m2: "key_answered cfg e env enc dc ''f'' (m, s) = (applyResult dc ''forget'' (enc (ReplyText ''forgot'' fp)) m2, ?s)"
    using key_answered_one [OF assms(1,2) k refl assms(2) h] by blast
  have ok: "server_ok ?s" using forget_ok [OF assms(7), of env fp] db(1) by (simp add: forget_def)
  have "FindDisc fp (sv_db ?s) = FindDisc fp db" "AttemptsForDisc k (sv_db ?s) = AttemptsForDisc k db" for k
    by (simp_all add: log_event_def LogEvent_def or_rollback_def FindDisc_def AttemptsForDisc_def counts_as_attempt_def [abs_def]
        forgotten_after_def)
  moreover have "titles (sv_db ?s) = titles (sv_db s)" "transcodes (sv_db ?s) = transcodes (sv_db s)" "links (sv_db ?s) = links (sv_db s)"
    using arg_cong [OF db(5), of titles] arg_cong [OF db(5), of transcodes] arg_cong [OF db(5), of links]
    by (simp_all add: log_event_def LogEvent_def or_rollback_def)
  moreover have "\<not> tm_flashErr (applyResult dc ''forget'' (enc (ReplyText ''forgot'' fp)) m2)"
    "prefix ''forgotten'' (tm_flash (applyResult dc ''forget'' (enc (ReplyText ''forgot'' fp)) m2))"
    using assms(9) by (simp_all add: applyResult_def flash_def)
  ultimately show ?thesis using m2 ok db(2-4) by (intro exI conjI) (assumption | simp)+
qed

text \<open>A client connected to a daemon with one known disc: the wire is the value itself.\<close>

definition plain_wire :: "reply decoders" where
  "plain_wire =
     \<lparr>dc_jobs = (\<lambda>r. case r of ReplyJobs xs \<Rightarrow> Inr xs | _ \<Rightarrow> Inl ''not jobs''),
      dc_events = (\<lambda>r. case r of ReplyEvents xs \<Rightarrow> Inr xs | _ \<Rightarrow> Inl ''not events''),
      dc_failures = (\<lambda>r. case r of ReplyFailures xs \<Rightarrow> Inr xs | _ \<Rightarrow> Inl ''not failures''),
      dc_queue = (\<lambda>r. case r of ReplyQueue xs \<Rightarrow> Inr xs | _ \<Rightarrow> Inl ''not a queue''),
      dc_ack = (\<lambda>r. case r of ReplyText k v \<Rightarrow> Inr [(k, v)] | _ \<Rightarrow> Inl ''not an acknowledgement''),
      dc_status = (\<lambda>r. case r of ReplyStatus d \<Rightarrow> Inr (d, []) | _ \<Rightarrow> Inl ''not a status''),
      dc_drive = (\<lambda>r. Inl ''not a drive'')\<rparr>"

definition resting_drive :: tui_drive where
  "resting_drive = \<lparr>td_StableID = ''d'', td_Label = ''left'', td_DevicePath = ''/dev/sr0'',
     td_Snap = (st_snap newDriveStatus)\<lparr>sp_State := StateDuplicate, sp_Fingerprint := ''f1''\<rparr>\<rparr>"

definition watching :: tui where
  "watching = (New (Run_connected None fresh_client))\<lparr>tm_connected := True, tm_drives := [resting_drive]\<rparr>"

lemma watching_connected: "cl_connected (tm_client watching)" "\<not> tm_quitting watching" "current watching = Some resting_drive"
  by (simp_all add: watching_def New_def Run_connected_def Send_def fresh_client_def current_def row_def)

theorem views_show_the_store_witness:
  "\<forall>cfg e env s. tm_jobs (fst (key_answered cfg e env id plain_wire ''h'' (watching, s))) = RecentJobs 50 (sv_db s)"
  by (intro allI views_show_the_store [THEN conjunct1]) (simp_all add: watching_connected plain_wire_def)

theorem forget_key_forgets_the_disc_witness:
  "\<forall>cfg e env s0. let s = s0\<lparr>sv_db := sample_store, sv_drives := idle_daemon\<rparr>
     in AttemptsForDisc 1 (sv_db (snd (key_answered cfg e env id plain_wire ''f'' (watching, s)))) = 0"
proof (intro allI, unfold Let_def)
  fix cfg e env and s0 :: server
  let ?s = "s0\<lparr>sv_db := sample_store, sv_drives := idle_daemon\<rparr>"
  obtain r where r: "FindDisc ''f1'' sample_store = Some r" "r_ID r = 1"
  proof
    show "FindDisc ''f1'' sample_store = Some \<lparr>r_ID = 1, r_Fingerprint = ''f1'', r_VolumeLabel = ''ALIEN'',
      r_Type = di_Type sample_disc, r_TitleCount = 2, r_TotalBytes = di_TotalBytes sample_disc,
      r_FirstSeen = 101, r_RipDir = ''/rips/alien''\<rparr>" by code_simp
  qed simp
  have "server_ok ?s" by (rule sample_server_ok) simp_all
  from forget_key_forgets_the_disc [OF watching_connected _ refl _ this, of r plain_wire id cfg e env] r
  show "AttemptsForDisc 1 (sv_db (snd (key_answered cfg e env id plain_wire ''f'' (watching, ?s)))) = 0"
    by (auto simp: resting_drive_def newDriveStatus_def Busy_def plain_wire_def)
qed

end
